(* ===== verification/Prelude.thy ===== *)
theory Prelude
  imports Complex_Main "HOL-Library.Monad_Syntax" "HOL-Library.List_Lexorder"
    "HOL-Library.Product_Lexorder" "HOL-Library.AList" "HOL-Library.Multiset"
    "HOL-Library.Word"
begin

text \<open>
  What every theory of this development shares: Rust's \<^verbatim>\<open>char\<close> and \<^verbatim>\<open>String\<close> with the
  operations of the standard library the server uses on them (the byte length, slicing at
  byte offsets, trimming, splitting), the result type of the handlers, and the lemmas
  about lists and association lists that more than one component needs.
  Nothing here is code of the repository: it is the part of the Rust standard library
  that the code under \<^verbatim>\<open>src/\<close> calls.
\<close>

section \<open>Characters and strings\<close>

text \<open>
  A Rust \<^verbatim>\<open>char\<close> is a Unicode scalar value; a \<^verbatim>\<open>String\<close> is a sequence of them, measured and
  sliced in bytes of its UTF-8 form. \<open>Cp n\<close> is the scalar value with code point \<open>n\<close>.
\<close>

datatype rchar = Cp (code: nat)

type_synonym str = "rchar list"

instantiation rchar :: linorder
begin

definition less_eq_rchar :: "rchar \<Rightarrow> rchar \<Rightarrow> bool" where
  "less_eq_rchar a b \<longleftrightarrow> code a \<le> code b"

definition less_rchar :: "rchar \<Rightarrow> rchar \<Rightarrow> bool" where
  "less_rchar a b \<longleftrightarrow> code a < code b"

instance
  by standard (auto simp: less_eq_rchar_def less_rchar_def intro: rchar.expand)

end

text \<open>A literal of the source: \<open>lit ''abc''\<close> is the Rust string \<^verbatim>\<open>"abc"\<close>.\<close>

definition lit :: "string \<Rightarrow> str" where
  "lit s = map (\<lambda>c. Cp (of_char c)) s"

lemma lit_inject [simp]: "lit s = lit t \<longleftrightarrow> s = t"
proof -
  have "inj (\<lambda>c :: char. Cp (of_char c))"
    by (auto simp: inj_on_def)
  then show ?thesis
    by (simp add: lit_def inj_map_eq_map)
qed

lemma lit_Nil [simp]: "lit [] = []"
  by (simp add: lit_def)

lemma lit_eq_Nil [simp]: "lit s = [] \<longleftrightarrow> s = []" "[] = lit s \<longleftrightarrow> s = []"
  by (simp_all add: lit_def)

definition len_utf8 :: "rchar \<Rightarrow> nat" where
  "len_utf8 c =
     (if code c < 128 then 1 else if code c < 2048 then 2 else if code c < 65536 then 3 else 4)"

lemma len_utf8_pos [simp]: "0 < len_utf8 c" "len_utf8 c \<noteq> 0"
  by (simp_all add: len_utf8_def)

lemma len_utf8_le_4: "len_utf8 c \<le> 4"
  by (simp add: len_utf8_def)

text \<open>\<^verbatim>\<open>str::len\<close>: bytes, not characters.\<close>

definition blen :: "str \<Rightarrow> nat" where
  "blen s = sum_list (map len_utf8 s)"

lemma blen_simps [simp]:
  "blen [] = 0" "blen (c # s) = len_utf8 c + blen s" "blen (s @ t) = blen s + blen t"
  by (simp_all add: blen_def)

lemma blen_eq_0 [simp]: "blen s = 0 \<longleftrightarrow> s = []"
  by (cases s) simp_all

lemma blen_pos [simp]: "0 < blen s \<longleftrightarrow> s \<noteq> []"
  by (cases s) simp_all

lemma length_le_blen: "length s \<le> blen s"
proof (induction s)
  case (Cons c s)
  then show ?case using len_utf8_pos(1) [of c] by (simp del: len_utf8_pos)
qed simp

lemma blen_concat: "blen (concat ss) = sum_list (map blen ss)"
  by (induction ss) simp_all

subsection \<open>Slicing at byte offsets\<close>

text \<open>
  \<open>split_byte s n\<close> is \<^verbatim>\<open>s.split_at(n)\<close>, and \<open>slice s (a, b)\<close> is \<^verbatim>\<open>&s[a..b]\<close>; \<open>None\<close> is the
  panic of an offset that is out of range or not on a character boundary.
\<close>

fun split_byte :: "str \<Rightarrow> nat \<Rightarrow> (str \<times> str) option" where
  "split_byte s 0 = Some ([], s)"
| "split_byte [] (Suc n) = None"
| "split_byte (c # s) (Suc n) =
     (if len_utf8 c \<le> Suc n
      then map_option (\<lambda>(a, b). (c # a, b)) (split_byte s (Suc n - len_utf8 c))
      else None)"

lemma split_byte_Some:
  "split_byte s n = Some (a, b) \<longleftrightarrow> s = a @ b \<and> blen a = n"
proof (induction s n arbitrary: a b rule: split_byte.induct)
  case (3 c s n)
  show ?case
  proof (cases a)
    case (Cons x a')
    with 3 show ?thesis by auto
  qed auto
qed auto

text \<open>Equations for evaluating at numerals.\<close>

lemma split_byte_eval:
  "split_byte [] n = (if n = 0 then Some ([], []) else None)"
  "0 < n \<Longrightarrow> split_byte (c # s) n =
     (if len_utf8 c \<le> n then map_option (\<lambda>(a, b). (c # a, b)) (split_byte s (n - len_utf8 c)) else None)"
  by (cases n; simp)+

type_synonym range = "nat \<times> nat"

definition slice :: "str \<Rightarrow> range \<Rightarrow> str option" where
  "slice s r =
     (case split_byte s (snd r) of
        None \<Rightarrow> None
      | Some (p, _) \<Rightarrow> map_option snd (split_byte p (fst r)))"

lemma slice_Some:
  "slice s (i, j) = Some m \<longleftrightarrow> (\<exists>p q. s = p @ m @ q \<and> blen p = i \<and> blen p + blen m = j)"
proof
  assume "slice s (i, j) = Some m"
  then show "\<exists>p q. s = p @ m @ q \<and> blen p = i \<and> blen p + blen m = j"
    by (force simp: slice_def split_byte_Some split: option.splits)
next
  assume "\<exists>p q. s = p @ m @ q \<and> blen p = i \<and> blen p + blen m = j"
  then obtain p q where s: "s = p @ m @ q" "blen p = i" "blen p + blen m = j" by blast
  have "split_byte s j = Some (p @ m, q)" "split_byte (p @ m) i = Some (p, m)"
    using s by (simp_all add: split_byte_Some)
  then show "slice s (i, j) = Some m" by (simp add: slice_def)
qed

definition is_char_boundary :: "str \<Rightarrow> nat \<Rightarrow> bool" where
  "is_char_boundary s n \<longleftrightarrow> split_byte s n \<noteq> None"

lemma is_char_boundary_iff:
  "is_char_boundary s n \<longleftrightarrow> (\<exists>a b. s = a @ b \<and> blen a = n)"
  by (simp add: is_char_boundary_def split_byte_Some ex_comm)

lemma is_char_boundary_0 [simp]: "is_char_boundary s 0"
  by (simp add: is_char_boundary_def)

lemma is_char_boundary_end [simp]: "is_char_boundary s (blen s)"
  unfolding is_char_boundary_iff by (rule exI [of _ s]) simp

lemma is_char_boundary_le: "is_char_boundary s n \<Longrightarrow> n \<le> blen s"
  by (auto simp: is_char_boundary_iff)

lemma append_blen_le_prefix:
  "a @ b = p @ q \<Longrightarrow> blen a \<le> blen p \<Longrightarrow> \<exists>m. p = a @ m \<and> b = m @ q"
proof (induction a arbitrary: p)
  case Nil
  then show ?case by simp
next
  case (Cons c a)
  then show ?case by (cases p) auto
qed

text \<open>Two boundaries in order always make a slice: no panic.\<close>

lemma slice_boundaries:
  assumes "is_char_boundary s i" "is_char_boundary s j" "i \<le> j"
  obtains p m q where "s = p @ m @ q" "blen p = i" "blen p + blen m = j"
    "slice s (i, j) = Some m"
proof -
  obtain p b where p: "s = p @ b" "blen p = i"
    using assms(1) unfolding is_char_boundary_iff by blast
  obtain a q where q: "s = a @ q" "blen a = j"
    using assms(2) unfolding is_char_boundary_iff by blast
  have "p @ b = a @ q" "blen p \<le> blen a"
    using p q assms(3) by simp_all
  then obtain m where m: "a = p @ m" "b = m @ q"
    using append_blen_le_prefix by blast
  have s: "s = p @ m @ q" and j: "blen p + blen m = j" using p q m by simp_all
  have "slice s (i, j) = Some m"
    unfolding slice_Some using s j p(2) by blast
  then show thesis by (rule that [OF s p(2) j])
qed

lemma boundary_append_left: "is_char_boundary s i \<Longrightarrow> is_char_boundary (s @ t) i"
  unfolding is_char_boundary_iff by fastforce

lemma boundary_append_right:
  "is_char_boundary (s @ t) i \<Longrightarrow> blen s \<le> i \<Longrightarrow> is_char_boundary t (i - blen s)"
proof -
  assume "is_char_boundary (s @ t) i" "blen s \<le> i"
  then obtain a b where ab: "s @ t = a @ b" "blen a = i"
    unfolding is_char_boundary_iff by metis
  obtain m where "a = s @ m" "t = m @ b"
    using append_blen_le_prefix [OF ab(1)] ab(2) \<open>blen s \<le> i\<close> by auto
  then show "is_char_boundary t (i - blen s)"
    using ab(2) unfolding is_char_boundary_iff by auto
qed

lemma boundary_prefix:
  "is_char_boundary (s @ t) i \<Longrightarrow> i \<le> blen s \<Longrightarrow> is_char_boundary s i"
  unfolding is_char_boundary_iff by (metis append_blen_le_prefix)


section \<open>The string operations of the standard library\<close>

text \<open>\<^verbatim>\<open>char::is_whitespace\<close> (the Unicode property White_Space) and \<^verbatim>\<open>char::is_control\<close>
  (the category Cc).\<close>

definition is_whitespace :: "rchar \<Rightarrow> bool" where
  "is_whitespace c \<longleftrightarrow>
     (9 \<le> code c \<and> code c \<le> 13) \<or> code c = 32 \<or> code c = 133 \<or> code c = 160 \<or>
     code c = 5760 \<or> (8192 \<le> code c \<and> code c \<le> 8202) \<or> code c = 8232 \<or>
     code c = 8233 \<or> code c = 8239 \<or> code c = 8287 \<or> code c = 12288"

definition is_control :: "rchar \<Rightarrow> bool" where
  "is_control c \<longleftrightarrow> code c < 32 \<or> (127 \<le> code c \<and> code c < 160)"

definition is_ascii_lower :: "rchar \<Rightarrow> bool" where
  "is_ascii_lower c \<longleftrightarrow> 97 \<le> code c \<and> code c \<le> 122"

definition is_ascii_upper :: "rchar \<Rightarrow> bool" where
  "is_ascii_upper c \<longleftrightarrow> 65 \<le> code c \<and> code c \<le> 90"

definition is_ascii_digit :: "rchar \<Rightarrow> bool" where
  "is_ascii_digit c \<longleftrightarrow> 48 \<le> code c \<and> code c \<le> 57"

definition is_ascii_alphanumeric :: "rchar \<Rightarrow> bool" where
  "is_ascii_alphanumeric c \<longleftrightarrow> is_ascii_lower c \<or> is_ascii_upper c \<or> is_ascii_digit c"

definition ascii_lower :: "rchar \<Rightarrow> rchar" where
  "ascii_lower c = (if is_ascii_upper c then Cp (code c + 32) else c)"

definition ascii_upper :: "rchar \<Rightarrow> rchar" where
  "ascii_upper c = (if is_ascii_lower c then Cp (code c - 32) else c)"

lemmas ascii_defs = is_ascii_lower_def is_ascii_upper_def is_ascii_digit_def
  is_ascii_alphanumeric_def ascii_lower_def ascii_upper_def

definition to_ascii_lowercase :: "str \<Rightarrow> str" where
  "to_ascii_lowercase s = map ascii_lower s"

definition eq_ignore_ascii_case :: "str \<Rightarrow> str \<Rightarrow> bool" where
  "eq_ignore_ascii_case s t \<longleftrightarrow> to_ascii_lowercase s = to_ascii_lowercase t"

text \<open>The characters the code names.\<close>

abbreviation "c_tab \<equiv> Cp 9"
abbreviation "c_nl \<equiv> Cp 10"
abbreviation "c_cr \<equiv> Cp 13"
abbreviation "c_space \<equiv> Cp 32"
abbreviation "c_plus \<equiv> Cp 43"
abbreviation "c_dash \<equiv> Cp 45"
abbreviation "c_dot \<equiv> Cp 46"
abbreviation "c_slash \<equiv> Cp 47"
abbreviation "c_colon \<equiv> Cp 58"
abbreviation "c_semi \<equiv> Cp 59"
abbreviation "c_eq \<equiv> Cp 61"
abbreviation "c_backslash \<equiv> Cp 92"
abbreviation "c_underscore \<equiv> Cp 95"

definition trim_start :: "(rchar \<Rightarrow> bool) \<Rightarrow> str \<Rightarrow> str" where
  "trim_start p s = dropWhile p s"

definition trim_end :: "(rchar \<Rightarrow> bool) \<Rightarrow> str \<Rightarrow> str" where
  "trim_end p s = rev (dropWhile p (rev s))"

text \<open>\<^verbatim>\<open>str::trim\<close>, and \<^verbatim>\<open>str::trim_matches\<close> for a set of characters.\<close>

definition trim_matches :: "(rchar \<Rightarrow> bool) \<Rightarrow> str \<Rightarrow> str" where
  "trim_matches p s = trim_end p (trim_start p s)"

definition trim :: "str \<Rightarrow> str" where
  "trim s = trim_matches is_whitespace s"

lemma dropWhile_fix: "dropWhile p s = s \<longleftrightarrow> s = [] \<or> \<not> p (hd s)"
  by (cases s) (auto dest: arg_cong [of _ _ length] simp: impossible_Cons length_dropWhile_le
      intro: ccontr)

lemma trim_end_fix: "trim_end p s = s \<longleftrightarrow> s = [] \<or> \<not> p (last s)"
proof -
  have "trim_end p s = s \<longleftrightarrow> dropWhile p (rev s) = rev s"
    by (metis rev_rev_ident trim_end_def)
  then show ?thesis by (simp add: dropWhile_fix hd_rev)
qed

lemma trim_end_decomp: "\<exists>t. s = trim_end p s @ t \<and> (\<forall>c \<in> set t. p c)"
proof -
  have "rev s = takeWhile p (rev s) @ dropWhile p (rev s)" by simp
  then have "s = trim_end p s @ rev (takeWhile p (rev s))"
    by (metis rev_append rev_rev_ident trim_end_def)
  moreover have "\<forall>c \<in> set (rev (takeWhile p (rev s))). p c"
    by (auto dest: set_takeWhileD)
  ultimately show ?thesis by blast
qed

lemma trim_start_decomp: "\<exists>t. s = t @ trim_start p s \<and> (\<forall>c \<in> set t. p c)"
proof (rule exI [of _ "takeWhile p s"], intro conjI)
  show "s = takeWhile p s @ trim_start p s" by (simp add: trim_start_def)
  show "\<forall>c \<in> set (takeWhile p s). p c" by (auto dest: set_takeWhileD)
qed

lemma trim_matches_decomp:
  "\<exists>a b. s = a @ trim_matches p s @ b \<and> (\<forall>c \<in> set a. p c) \<and> (\<forall>c \<in> set b. p c)"
proof -
  obtain a where a: "s = a @ trim_start p s" "\<forall>c \<in> set a. p c"
    using trim_start_decomp by blast
  obtain b where b: "trim_start p s = trim_end p (trim_start p s) @ b" "\<forall>c \<in> set b. p c"
    using trim_end_decomp by blast
  show ?thesis
    using a b by (metis trim_matches_def)
qed

lemma set_trim_end: "set (trim_end p s) \<subseteq> set s"
  by (auto simp: trim_end_def dest: set_dropWhileD)

lemma set_trim_start: "set (trim_start p s) \<subseteq> set s"
  by (auto simp: trim_start_def dest: set_dropWhileD)

lemma set_trim_matches: "set (trim_matches p s) \<subseteq> set s"
  using set_trim_end set_trim_start by (fastforce simp: trim_matches_def)

lemma last_trim_end: "trim_end p s \<noteq> [] \<Longrightarrow> \<not> p (last (trim_end p s))"
  by (simp add: trim_end_def last_rev hd_dropWhile)

lemma hd_trim_matches: "trim_matches p s \<noteq> [] \<Longrightarrow> \<not> p (hd (trim_matches p s))"
proof -
  assume ne: "trim_matches p s \<noteq> []"
  obtain b where b: "trim_start p s = trim_matches p s @ b"
    using trim_end_decomp unfolding trim_matches_def by blast
  with ne have "trim_start p s \<noteq> []" "hd (trim_matches p s) = hd (trim_start p s)"
    by (metis append_is_Nil_conv, metis hd_append2)
  then show ?thesis by (simp add: trim_start_def hd_dropWhile)
qed

lemma last_trim_matches: "trim_matches p s \<noteq> [] \<Longrightarrow> \<not> p (last (trim_matches p s))"
  by (simp add: trim_matches_def last_trim_end)

lemma trim_matches_id:
  "s = [] \<or> (\<not> p (hd s) \<and> \<not> p (last s)) \<Longrightarrow> trim_matches p s = s"
  unfolding trim_matches_def trim_start_def
  by (metis dropWhile_fix trim_end_fix)

lemma trim_matches_idem [simp]: "trim_matches p (trim_matches p s) = trim_matches p s"
  by (rule trim_matches_id) (use hd_trim_matches last_trim_matches in blast)

lemma trim_idem [simp]: "trim (trim s) = trim s"
  by (simp add: trim_def)

lemma trim_eq_Nil: "trim s = [] \<longleftrightarrow> (\<forall>c \<in> set s. is_whitespace c)"
proof
  assume "trim s = []"
  then show "\<forall>c \<in> set s. is_whitespace c"
    using trim_matches_decomp [of s is_whitespace] by (auto simp: trim_def)
next
  assume "\<forall>c \<in> set s. is_whitespace c"
  then have "trim_start is_whitespace s = []"
    by (simp add: trim_start_def)
  then show "trim s = []"
    by (simp add: trim_def trim_matches_def trim_end_def)
qed

subsection \<open>Splitting\<close>

text \<open>\<^verbatim>\<open>str::split\<close> on a set of characters: always at least one piece.\<close>

fun split_on :: "(rchar \<Rightarrow> bool) \<Rightarrow> str \<Rightarrow> str list" where
  "split_on p [] = [[]]"
| "split_on p (c # s) =
     (if p c then [] # split_on p s
      else (case split_on p s of [] \<Rightarrow> [[c]] | w # ws \<Rightarrow> (c # w) # ws))"

lemma split_on_not_Nil [simp]: "split_on p s \<noteq> []" "[] \<noteq> split_on p s"
  by (induction s) (auto split: list.splits)

lemma split_on_no_sep: "w \<in> set (split_on p s) \<Longrightarrow> c \<in> set w \<Longrightarrow> \<not> p c"
proof -
  have "\<forall>w \<in> set (split_on p s). \<forall>c \<in> set w. \<not> p c"
    by (induction s) (auto split: list.splits)
  then show "w \<in> set (split_on p s) \<Longrightarrow> c \<in> set w \<Longrightarrow> \<not> p c" by blast
qed

lemma split_on_set: "w \<in> set (split_on p s) \<Longrightarrow> set w \<subseteq> set s"
  by (induction s arbitrary: w) (fastforce split: list.splits if_splits)+

lemma split_on_append:
  "p c \<Longrightarrow> split_on p (s @ c # t) = split_on p s @ split_on p t"
  by (induction s) (auto split: list.splits)

lemma split_on_none: "\<forall>c \<in> set s. \<not> p c \<Longrightarrow> split_on p s = [s]"
  by (induction s) auto

text \<open>\<^verbatim>\<open>[&str]::join\<close>.\<close>

fun join_with :: "str \<Rightarrow> str list \<Rightarrow> str" where
  "join_with sep [] = []"
| "join_with sep [w] = w"
| "join_with sep (w # ws) = w @ sep @ join_with sep ws"

lemma join_with_Cons: "ws \<noteq> [] \<Longrightarrow> join_with sep (w # ws) = w @ sep @ join_with sep ws"
  by (cases ws) simp_all

lemma join_split_on: "join_with [c] (split_on ((=) c) s) = s"
  by (induction s) (auto simp: join_with_Cons split: list.splits elim: join_with.elims)

lemma split_on_join:
  "ws \<noteq> [] \<Longrightarrow> \<forall>w \<in> set ws. c \<notin> set w \<Longrightarrow> split_on ((=) c) (join_with [c] ws) = ws"
proof (induction ws)
  case (Cons w ws)
  show ?case
  proof (cases "ws = []")
    case True
    with Cons.prems show ?thesis by (auto intro!: split_on_none)
  next
    case False
    with Cons show ?thesis
      by (auto simp: join_with_Cons split_on_append intro!: split_on_none)
  qed
qed simp

definition strip_prefix :: "str \<Rightarrow> str \<Rightarrow> str option" where
  "strip_prefix p s = (if take (length p) s = p then Some (drop (length p) s) else None)"

lemma strip_prefix_Some: "strip_prefix p s = Some r \<longleftrightarrow> s = p @ r"
  by (auto simp: strip_prefix_def) (metis append_take_drop_id)

lemma strip_prefix_append [simp]: "strip_prefix p (p @ r) = Some r"
  by (simp add: strip_prefix_Some)

definition starts_with :: "str \<Rightarrow> str \<Rightarrow> bool" where
  "starts_with p s \<longleftrightarrow> strip_prefix p s \<noteq> None"

definition strip_suffix :: "str \<Rightarrow> str \<Rightarrow> str option" where
  "strip_suffix p s = map_option rev (strip_prefix (rev p) (rev s))"

lemma strip_suffix_Some: "strip_suffix p s = Some r \<longleftrightarrow> s = r @ p"
proof -
  have "strip_suffix p s = Some r \<longleftrightarrow> rev s = rev p @ rev r"
    by (auto simp: strip_suffix_def strip_prefix_Some)
  also have "\<dots> \<longleftrightarrow> s = r @ p"
    by (metis rev_append rev_is_rev_conv)
  finally show ?thesis .
qed

definition ends_with :: "str \<Rightarrow> str \<Rightarrow> bool" where
  "ends_with p s \<longleftrightarrow> strip_suffix p s \<noteq> None"

lemma starts_with_iff: "starts_with p s \<longleftrightarrow> (\<exists>r. s = p @ r)"
  by (auto simp: starts_with_def strip_prefix_Some)

lemma ends_with_iff: "ends_with p s \<longleftrightarrow> (\<exists>r. s = r @ p)"
  by (auto simp: ends_with_def strip_suffix_Some)

text \<open>\<^verbatim>\<open>str::contains\<close> for a substring.\<close>

fun contains :: "str \<Rightarrow> str \<Rightarrow> bool" where
  "contains p [] \<longleftrightarrow> p = []"
| "contains p (c # s) \<longleftrightarrow> starts_with p (c # s) \<or> contains p s"

lemma contains_iff: "contains p s \<longleftrightarrow> (\<exists>a b. s = a @ p @ b)"
proof (induction s)
  case (Cons c s)
  have "(\<exists>a b. c # s = a @ p @ b) \<longleftrightarrow> (\<exists>b. c # s = p @ b) \<or> (\<exists>a b. s = a @ p @ b)"
    by (metis append_Cons append_Nil list.inject neq_Nil_conv)
  with Cons show ?case by (simp add: starts_with_iff)
qed simp

end
