(* ===== verification/Errors.thy ===== *)
theory Errors
  imports Prelude
begin

text \<open>
  \<^verbatim>\<open>crates/server/src/error.rs\<close>: what a handler can fail with and how each failure reaches
  the caller. A handler's \<^verbatim>\<open>ApiResult<T>\<close> is \<open>api_error + 'a\<close>, with \<open>Inl\<close> for \<^verbatim>\<open>Err\<close>; \<^verbatim>\<open>?\<close> is
  \<open>bind_result\<close>.
\<close>

type_synonym status = nat

text \<open>What the database driver reports: a violated unique constraint, or anything else
  with its own text.\<close>

datatype db_err = Unique_Violation str | Other_Db_Error str

primrec db_err_text :: "db_err \<Rightarrow> str" where
  "db_err_text (Unique_Violation s) = s"
| "db_err_text (Other_Db_Error s) = s"

datatype api_error = Refused status str | Internal str

type_synonym 'a api_result = "api_error + 'a"

definition bad_request :: "str \<Rightarrow> api_error" where
  "bad_request m = Refused 400 m"

definition unauthorized :: "str \<Rightarrow> api_error" where
  "unauthorized m = Refused 401 m"

definition forbidden :: "str \<Rightarrow> api_error" where
  "forbidden m = Refused 403 m"

definition not_found :: "str \<Rightarrow> api_error" where
  "not_found m = Refused 404 m"

definition conflict :: "str \<Rightarrow> api_error" where
  "conflict m = Refused 409 m"

definition bad_gateway :: "str \<Rightarrow> api_error" where
  "bad_gateway m = Refused 502 m"

definition unavailable :: "str \<Rightarrow> api_error" where
  "unavailable m = Refused 503 m"

definition internal :: "str \<Rightarrow> api_error" where
  "internal e = Internal e"

definition from_db_err :: "db_err \<Rightarrow> api_error" where
  "from_db_err e = internal (db_err_text e)"

definition already_exists_or_internal :: "db_err \<Rightarrow> str \<Rightarrow> api_error" where
  "already_exists_or_internal e message =
     (case e of Unique_Violation _ \<Rightarrow> conflict message | _ \<Rightarrow> internal (db_err_text e))"

text \<open>\<^verbatim>\<open>impl IntoResponse for ApiError\<close>: the status and the body sent.\<close>

primrec into_response :: "api_error \<Rightarrow> status \<times> str" where
  "into_response (Refused st m) = (st, m)"
| "into_response (Internal e) = (500, lit ''internal error'')"

lemmas refusals = bad_request_def unauthorized_def forbidden_def not_found_def conflict_def
  bad_gateway_def unavailable_def

lemma into_response_internal_detail: "into_response (Internal e) = into_response (Internal e')"
  by simp

section \<open>Results\<close>

text \<open>The \<^verbatim>\<open>?\<close> operator, and \<^verbatim>\<open>Option::ok_or_else\<close>.\<close>

fun bind_result :: "'e + 'a \<Rightarrow> ('a \<Rightarrow> 'e + 'b) \<Rightarrow> 'e + 'b" where
  "bind_result (Inl e) f = Inl e"
| "bind_result (Inr x) f = f x"

lemma bind_result_Inr [simp]:
  "bind_result r f = Inr y \<longleftrightarrow> (\<exists>x. r = Inr x \<and> f x = Inr y)"
  by (cases r) auto

lemma bind_result_Inl:
  "bind_result r f = Inl e \<longleftrightarrow> r = Inl e \<or> (\<exists>x. r = Inr x \<and> f x = Inl e)"
  by (cases r) auto

primrec ok_or :: "'a option \<Rightarrow> 'e \<Rightarrow> 'e + 'a" where
  "ok_or None e = Inl e"
| "ok_or (Some x) e = Inr x"

lemma ok_or_Inr [simp]: "ok_or v e = Inr x \<longleftrightarrow> v = Some x"
  by (cases v) auto

lemma ok_or_Inl [simp]: "ok_or v e = Inl e' \<longleftrightarrow> v = None \<and> e' = e"
  by (cases v) auto

fun map_err :: "('e \<Rightarrow> 'f) \<Rightarrow> 'e + 'a \<Rightarrow> 'f + 'a" where
  "map_err f (Inl e) = Inl (f e)"
| "map_err f (Inr x) = Inr x"

lemma map_err_Inr [simp]: "map_err f r = Inr x \<longleftrightarrow> r = Inr x"
  by (cases r) auto

definition result_ok :: "'e + 'a \<Rightarrow> 'a option" where
  "result_ok r = (case r of Inl _ \<Rightarrow> None | Inr x \<Rightarrow> Some x)"

lemma result_ok_Some [simp]: "result_ok r = Some x \<longleftrightarrow> r = Inr x"
  by (cases r) (auto simp: result_ok_def)

text \<open>\<^verbatim>\<open>Option<Result<_, E>>::transpose\<close>.\<close>

definition transpose_result :: "('e + 'a) option \<Rightarrow> 'e + 'a option" where
  "transpose_result v =
     (case v of None \<Rightarrow> Inr None | Some (Inl e) \<Rightarrow> Inl e | Some (Inr x) \<Rightarrow> Inr (Some x))"

lemma transpose_result_Inr:
  "transpose_result v = Inr w \<longleftrightarrow>
     (v = None \<and> w = None) \<or> (\<exists>x. v = Some (Inr x) \<and> w = Some x)"
  by (auto simp: transpose_result_def split: option.splits sum.splits)

text \<open>\<^verbatim>\<open>Option::filter\<close> and \<^verbatim>\<open>Option::or_else\<close>.\<close>

definition opt_filter :: "('a \<Rightarrow> bool) \<Rightarrow> 'a option \<Rightarrow> 'a option" where
  "opt_filter p v = (case v of None \<Rightarrow> None | Some x \<Rightarrow> if p x then Some x else None)"

lemma opt_filter_Some [simp]: "opt_filter p v = Some x \<longleftrightarrow> v = Some x \<and> p x"
  by (auto simp: opt_filter_def split: option.splits)

lemma opt_filter_None: "opt_filter p v = None \<longleftrightarrow> (\<forall>x. v = Some x \<longrightarrow> \<not> p x)"
  by (auto simp: opt_filter_def split: option.splits)

lemma opt_filter_simps [simp]:
  "opt_filter p None = None" "opt_filter p (Some x) = (if p x then Some x else None)"
  by (simp_all add: opt_filter_def)

fun or_else :: "'a option \<Rightarrow> 'a option \<Rightarrow> 'a option" where
  "or_else None w = w"
| "or_else (Some x) w = Some x"

lemma or_else_Some: "or_else v w = Some x \<longleftrightarrow> v = Some x \<or> (v = None \<and> w = Some x)"
  by (cases v) auto

lemma or_else_None [simp]: "or_else v w = None \<longleftrightarrow> v = None \<and> w = None"
  by (cases v) auto

fun unwrap_or :: "'a option \<Rightarrow> 'a \<Rightarrow> 'a" where
  "unwrap_or None d = d"
| "unwrap_or (Some x) d = x"

end
