(* ===== verification/Text_Rules.thy ===== *)
theory Text_Rules
  imports Errors
begin

text \<open>
  The rules for text a person typed: \<^verbatim>\<open>crates/server/src/text.rs\<close> (\<^verbatim>\<open>non_blank\<close>,
  \<^verbatim>\<open>looks_like_error\<close>) and the slugs and titles of \<^verbatim>\<open>crates/server/src/http/courses.rs\<close>
  (\<^verbatim>\<open>normalize_slug\<close>, \<^verbatim>\<open>repo_short_name\<close>, \<^verbatim>\<open>title_from_slug\<close>, \<^verbatim>\<open>resolve_new_course\<close>).
  The lemmas say what a slug looks like and that normalizing is stable.
\<close>

definition non_blank :: "str option \<Rightarrow> str option" where
  "non_blank v = opt_filter (\<lambda>s. s \<noteq> []) (map_option trim v)"

lemma non_blank_Some: "non_blank v = Some t \<longleftrightarrow> (\<exists>s. v = Some s \<and> trim s = t \<and> t \<noteq> [])"
  by (auto simp: non_blank_def)

lemma non_blank_idem: "non_blank (non_blank v) = non_blank v"
proof (cases "non_blank v")
  case None
  then show ?thesis by (simp add: non_blank_def)
next
  case (Some t)
  then have "trim t = t" "t \<noteq> []" by (auto simp: non_blank_Some)
  then have "non_blank (Some t) = Some t" by (simp add: non_blank_def)
  with Some show ?thesis by simp
qed

definition ERROR_SIGNALS :: "str list" where
  "ERROR_SIGNALS = map lit
     [''traceback (most recent call last)'', ''error:'', ''exception'', ''panicked at'',
      ''command not found'', ''no such file or directory'', ''segmentation fault'',
      ''assertionerror'', ''fatal:'', ''syntaxerror'']"

definition looks_like_error :: "str \<Rightarrow> bool" where
  "looks_like_error text =
     (let lower = to_ascii_lowercase text in list_ex (\<lambda>p. contains p lower) ERROR_SIGNALS)"

lemma looks_like_error_append:
  "looks_like_error s \<Longrightarrow> looks_like_error (a @ s @ b)"
  by (auto simp: looks_like_error_def to_ascii_lowercase_def Let_def list_ex_iff contains_iff)
    (metis append.assoc)

section \<open>Slugs\<close>

text \<open>The loop of \<^verbatim>\<open>normalize_slug\<close>: \<open>out\<close> and \<open>prev_dash\<close> are its two variables.\<close>

fun slug_loop :: "str \<Rightarrow> str \<Rightarrow> bool \<Rightarrow> str" where
  "slug_loop [] out prev_dash = out"
| "slug_loop (ch # cs) out prev_dash =
     (if is_ascii_alphanumeric ch then slug_loop cs (out @ [ascii_lower ch]) False
      else if out \<noteq> [] \<and> \<not> prev_dash then slug_loop cs (out @ [c_dash]) True
      else slug_loop cs out prev_dash)"

definition normalize_slug :: "str \<Rightarrow> str option" where
  "normalize_slug raw =
     (let slug = trim_matches (\<lambda>c. c = c_dash) (slug_loop (trim raw) [] False)
      in if slug \<noteq> [] then Some slug else None)"

definition title_word :: "str \<Rightarrow> str" where
  "title_word w = (case w of [] \<Rightarrow> [] | first # chars \<Rightarrow> ascii_upper first # chars)"

definition title_from_slug :: "str \<Rightarrow> str" where
  "title_from_slug slug =
     join_with [c_space] (map title_word
       (filter (\<lambda>w. w \<noteq> []) (split_on (\<lambda>c. c = c_dash \<or> c = c_underscore) slug)))"

definition repo_short_name :: "str \<Rightarrow> str option" where
  "repo_short_name repo_url =
     (let trimmed = trim_end (\<lambda>c. c = c_slash) (trim repo_url);
          tail = last (split_on (\<lambda>c. c = c_slash \<or> c = c_colon) trimmed);
          name = trim (unwrap_or (strip_suffix (lit ''.git'') tail) tail)
      in if name \<noteq> [] then Some name else None)"

text \<open>The shape of a normalized slug.\<close>

definition slug_char :: "rchar \<Rightarrow> bool" where
  "slug_char c \<longleftrightarrow> is_ascii_lower c \<or> is_ascii_digit c"

fun no_double_dash :: "str \<Rightarrow> bool" where
  "no_double_dash (a # b # s) \<longleftrightarrow> \<not> (a = c_dash \<and> b = c_dash) \<and> no_double_dash (b # s)"
| "no_double_dash _ \<longleftrightarrow> True"

definition is_slug :: "str \<Rightarrow> bool" where
  "is_slug s \<longleftrightarrow> s \<noteq> [] \<and> (\<forall>c \<in> set s. slug_char c \<or> c = c_dash) \<and>
     hd s \<noteq> c_dash \<and> last s \<noteq> c_dash \<and> no_double_dash s"

lemma slug_char_alnum: "slug_char c \<Longrightarrow> is_ascii_alphanumeric c \<and> ascii_lower c = c \<and> c \<noteq> c_dash"
  by (auto simp: slug_char_def ascii_defs)

lemma ascii_lower_slug_char: "is_ascii_alphanumeric c \<Longrightarrow> slug_char (ascii_lower c)"
  by (auto simp: slug_char_def ascii_defs)

lemma dash_not_alnum [simp]: "\<not> is_ascii_alphanumeric c_dash" "\<not> is_ascii_alphanumeric c_space"
  by (simp_all add: ascii_defs)

lemma no_double_dash_snoc:
  "no_double_dash (s @ [c]) \<longleftrightarrow> no_double_dash s \<and> \<not> (s \<noteq> [] \<and> last s = c_dash \<and> c = c_dash)"
  by (induction s rule: no_double_dash.induct) auto

lemma no_double_dash_infix: "no_double_dash (a @ s @ b) \<Longrightarrow> no_double_dash s"
proof -
  have left: "no_double_dash (a @ s) \<Longrightarrow> no_double_dash s" for s
    by (induction a) (auto elim: no_double_dash.elims)
  have right: "no_double_dash (s @ b) \<Longrightarrow> no_double_dash s"
  proof (induction b rule: rev_induct)
    case (snoc c b)
    then show ?case by (metis append.assoc no_double_dash_snoc)
  qed simp
  show "no_double_dash (a @ s @ b) \<Longrightarrow> no_double_dash s"
    using left right by blast
qed

text \<open>The invariant of the loop: what has been written is a slug that may end in one dash.\<close>

definition slug_acc :: "str \<Rightarrow> bool \<Rightarrow> bool" where
  "slug_acc out prev_dash \<longleftrightarrow> (\<forall>c \<in> set out. slug_char c \<or> c = c_dash) \<and> no_double_dash out \<and>
     (out \<noteq> [] \<longrightarrow> hd out \<noteq> c_dash \<and> (last out = c_dash \<longleftrightarrow> prev_dash))"

lemma slug_loop_acc:
  "slug_acc out prev_dash \<Longrightarrow> \<exists>d. slug_acc (slug_loop cs out prev_dash) d"
proof (induction cs out prev_dash rule: slug_loop.induct)
  case (1 out prev_dash)
  then show ?case by auto
next
  case (2 ch cs out prev_dash)
  have "slug_acc (out @ [ascii_lower ch]) False" if "is_ascii_alphanumeric ch"
    using 2(4) that ascii_lower_slug_char [OF that] slug_char_alnum
    by (fastforce simp: slug_acc_def no_double_dash_snoc hd_append)
  moreover have "slug_acc (out @ [c_dash]) True" if "out \<noteq> [] \<and> \<not> prev_dash"
    using 2(4) that by (auto simp: slug_acc_def no_double_dash_snoc hd_append)
  ultimately show ?case using 2 by simp
qed

lemma slug_loop_word:
  "\<forall>c \<in> set w. slug_char c \<Longrightarrow> w \<noteq> [] \<Longrightarrow>
     slug_loop (w @ cs) out prev_dash = slug_loop cs (out @ w) False"
proof (induction w arbitrary: out prev_dash)
  case (Cons c w)
  then show ?case
    by (cases w) (auto dest: slug_char_alnum)
qed simp

lemma slug_loop_id:
  assumes "\<forall>c \<in> set s. slug_char c \<or> c = c_dash" "no_double_dash (out @ s)"
    "out = [] \<longrightarrow> s \<noteq> [] \<longrightarrow> hd s \<noteq> c_dash"
    "out \<noteq> [] \<longrightarrow> (prev_dash \<longleftrightarrow> last out = c_dash)"
  shows "slug_loop s out prev_dash = out @ s"
  using assms
proof (induction s arbitrary: out prev_dash)
  case (Cons c s)
  show ?case
  proof (cases "c = c_dash")
    case True
    with Cons.prems have "out \<noteq> []" by auto
    moreover have "no_double_dash (out @ [c_dash])"
      using Cons.prems(2) True no_double_dash_infix [of "[]" "out @ [c_dash]" s] by simp
    ultimately have "\<not> prev_dash"
      using Cons.prems(4) by (auto simp: no_double_dash_snoc)
    with \<open>out \<noteq> []\<close> True show ?thesis
      using Cons.prems Cons.IH [of "out @ [c_dash]" True] by simp
  next
    case False
    with Cons.prems have "slug_char c" by simp
    then have "is_ascii_alphanumeric c" "ascii_lower c = c" "c \<noteq> c_dash"
      using slug_char_alnum by blast+
    then show ?thesis
      using Cons.prems Cons.IH [of "out @ [c]" False] by simp
  qed
qed simp

lemma normalize_slug_shape:
  assumes "normalize_slug raw = Some s"
  shows "is_slug s"
proof -
  let ?o = "slug_loop (trim raw) [] False"
  have s: "s = trim_matches (\<lambda>c. c = c_dash) ?o" "s \<noteq> []"
    using assms by (auto simp: normalize_slug_def Let_def split: if_splits)
  have acc: "slug_acc [] False" by (simp add: slug_acc_def)
  obtain d where o: "slug_acc ?o d" using slug_loop_acc [OF acc] by blast
  obtain a b where ab: "?o = a @ s @ b"
    using trim_matches_decomp [of ?o "\<lambda>c. c = c_dash"] s(1) by metis
  have "no_double_dash s" "\<forall>c \<in> set s. slug_char c \<or> c = c_dash"
    using o ab no_double_dash_infix by (auto simp: slug_acc_def)
  moreover have "hd s \<noteq> c_dash" "last s \<noteq> c_dash"
    using s hd_trim_matches [of "\<lambda>c. c = c_dash" ?o] last_trim_matches [of "\<lambda>c. c = c_dash" ?o]
    by auto
  ultimately show ?thesis using s(2) by (simp add: is_slug_def)
qed

lemma slug_char_not_whitespace: "slug_char c \<or> c = c_dash \<Longrightarrow> \<not> is_whitespace c"
  by (auto simp: slug_char_def ascii_defs is_whitespace_def)

lemma is_slug_trim: "is_slug s \<Longrightarrow> trim s = s"
  unfolding trim_def
  by (rule trim_matches_id)
    (auto simp: is_slug_def dest!: slug_char_not_whitespace intro: hd_in_set last_in_set)

lemma normalize_slug_id:
  assumes "is_slug s"
  shows "normalize_slug s = Some s"
proof -
  have "slug_loop s [] False = s"
    using slug_loop_id [of s "[]" False] assms by (simp add: is_slug_def)
  moreover have "trim_matches (\<lambda>c. c = c_dash) s = s"
    using assms by (intro trim_matches_id) (auto simp: is_slug_def)
  ultimately show ?thesis
    using assms is_slug_trim [OF assms] by (simp add: normalize_slug_def is_slug_def)
qed

lemma normalize_slug_idem: "normalize_slug raw = Some s \<Longrightarrow> normalize_slug s = Some s"
  using normalize_slug_id normalize_slug_shape by blast

lemma slug_loop_slug_chars:
  "(\<exists>c \<in> set (slug_loop cs out prev_dash). slug_char c) \<longleftrightarrow>
     (\<exists>c \<in> set out. slug_char c) \<or> (\<exists>c \<in> set cs. is_ascii_alphanumeric c)"
proof (induction cs out prev_dash rule: slug_loop.induct)
  case (2 ch cs out prev_dash)
  have "\<not> slug_char c_dash" using slug_char_alnum by blast
  with 2 show ?case using ascii_lower_slug_char [of ch] by auto
qed simp

lemma slug_loop_chars:
  "\<forall>c \<in> set out. slug_char c \<or> c = c_dash \<Longrightarrow>
     \<forall>c \<in> set (slug_loop cs out prev_dash). slug_char c \<or> c = c_dash"
  by (induction cs out prev_dash rule: slug_loop.induct) (simp_all add: ascii_lower_slug_char)

lemma alnum_not_whitespace: "is_ascii_alphanumeric c \<Longrightarrow> \<not> is_whitespace c"
  by (auto simp: ascii_defs is_whitespace_def)

lemma trim_alnum:
  "(\<exists>c \<in> set (trim raw). is_ascii_alphanumeric c) \<longleftrightarrow> (\<exists>c \<in> set raw. is_ascii_alphanumeric c)"
proof -
  obtain a b where "raw = a @ trim raw @ b" "\<forall>c \<in> set a. is_whitespace c"
    "\<forall>c \<in> set b. is_whitespace c"
    using trim_matches_decomp unfolding trim_def by blast
  then have "(\<exists>c \<in> set raw. is_ascii_alphanumeric c) \<longleftrightarrow>
    (\<exists>c \<in> set a \<union> set (trim raw) \<union> set b. is_ascii_alphanumeric c)"
    by (metis Un_assoc set_append)
  then show ?thesis
    using \<open>\<forall>c \<in> set a. is_whitespace c\<close> \<open>\<forall>c \<in> set b. is_whitespace c\<close> alnum_not_whitespace
    by blast
qed

lemma normalize_slug_None:
  "normalize_slug raw = None \<longleftrightarrow> (\<forall>c \<in> set raw. \<not> is_ascii_alphanumeric c)"
proof -
  let ?o = "slug_loop (trim raw) [] False"
  have chars: "\<forall>c \<in> set ?o. slug_char c \<or> c = c_dash"
    by (rule slug_loop_chars) simp
  obtain a b where ab: "?o = a @ trim_matches (\<lambda>c. c = c_dash) ?o @ b"
    "\<forall>c \<in> set a. c = c_dash" "\<forall>c \<in> set b. c = c_dash"
    using trim_matches_decomp [of ?o "\<lambda>c. c = c_dash"] by blast
  have "trim_matches (\<lambda>c. c = c_dash) ?o = [] \<longleftrightarrow> (\<forall>c \<in> set ?o. \<not> slug_char c)"
  proof
    assume "trim_matches (\<lambda>c. c = c_dash) ?o = []"
    with ab have "set ?o \<subseteq> {c_dash}" by (metis Un_iff append_Nil set_append singletonI subsetI)
    then show "\<forall>c \<in> set ?o. \<not> slug_char c" using slug_char_alnum by blast
  next
    assume "\<forall>c \<in> set ?o. \<not> slug_char c"
    with chars have "trim_start (\<lambda>c. c = c_dash) ?o = []" by (auto simp: trim_start_def)
    then show "trim_matches (\<lambda>c. c = c_dash) ?o = []" by (simp add: trim_matches_def trim_end_def)
  qed
  then show ?thesis
    using slug_loop_slug_chars [of "trim raw" "[]" False] trim_alnum [of raw]
    by (auto simp: normalize_slug_def Let_def)
qed

subsection \<open>A title and its slug\<close>

text \<open>Words of a slug, title-cased and joined by spaces, normalize back to the slug.\<close>

lemma ascii_lower_upper: "slug_char c \<Longrightarrow> ascii_lower (ascii_upper c) = c \<and> is_ascii_alphanumeric (ascii_upper c)"
  by (cases c) (auto simp: slug_char_def ascii_defs)

lemma slug_loop_title_word:
  assumes "w \<noteq> []" "\<forall>c \<in> set w. slug_char c"
  shows "slug_loop (title_word w @ cs) out prev_dash = slug_loop cs (out @ w) False"
proof (cases w)
  case (Cons c v)
  with assms have c: "slug_char c" and v: "\<forall>c \<in> set v. slug_char c" by simp_all
  show ?thesis
  proof (cases "v = []")
    case True
    with Cons c show ?thesis by (simp add: title_word_def ascii_lower_upper)
  next
    case False
    with Cons c v show ?thesis
      by (simp add: title_word_def ascii_lower_upper slug_loop_word)
  qed
qed (use assms in simp)

lemma slug_loop_title:
  "ws \<noteq> [] \<Longrightarrow> \<forall>w \<in> set ws. w \<noteq> [] \<and> (\<forall>c \<in> set w. slug_char c) \<Longrightarrow>
     slug_loop (join_with [c_space] (map title_word ws)) out prev_dash = out @ join_with [c_dash] ws"
proof (induction ws arbitrary: out prev_dash)
  case (Cons w ws)
  show ?case
  proof (cases "ws = []")
    case True
    with Cons.prems show ?thesis using slug_loop_title_word [of w "[]"] by simp
  next
    case False
    with Cons show ?thesis by (simp add: join_with_Cons slug_loop_title_word)
  qed
qed simp

lemma no_double_dash_words:
  "no_double_dash s \<Longrightarrow> s \<noteq> [] \<Longrightarrow> last s \<noteq> c_dash \<Longrightarrow>
     (hd s \<noteq> c_dash \<longrightarrow> [] \<notin> set (split_on ((=) c_dash) s)) \<and>
     (hd s = c_dash \<longrightarrow> [] \<notin> set (tl (split_on ((=) c_dash) s)))"
  by (induction s rule: no_double_dash.induct) (auto split: list.splits if_splits)

lemma split_on_slug:
  assumes "is_slug s"
  shows "split_on (\<lambda>c. c = c_dash \<or> c = c_underscore) s = split_on ((=) c_dash) s"
proof -
  have "c_underscore \<notin> set s"
    using assms by (auto simp: is_slug_def slug_char_def ascii_defs)
  then show ?thesis by (induction s) (auto split: list.splits)
qed

lemma title_chars_ends:
  assumes "ws \<noteq> []" "\<forall>w \<in> set ws. w \<noteq> [] \<and> (\<forall>c \<in> set w. slug_char c)"
  shows "trim (join_with [c_space] (map title_word ws)) = join_with [c_space] (map title_word ws)"
    (is "trim ?t = ?t")
proof -
  have word: "title_word w \<noteq> [] \<and> is_ascii_alphanumeric (hd (title_word w)) \<and>
      is_ascii_alphanumeric (last (title_word w))" if "w \<in> set ws" for w
  proof -
    have w: "w \<noteq> []" "\<forall>c \<in> set w. slug_char c" using assms(2) that by auto
    then obtain c v where "w = c # v" by (cases w) auto
    with w show ?thesis
      by (auto simp: title_word_def ascii_lower_upper slug_char_alnum)
  qed
  have "?t \<noteq> [] \<and> is_ascii_alphanumeric (hd ?t) \<and> is_ascii_alphanumeric (last ?t)"
    using assms(1) word
  proof (induction ws)
    case (Cons w ws)
    then show ?case by (cases "ws = []") (auto simp: join_with_Cons hd_append)
  qed simp
  then show ?thesis
    unfolding trim_def using alnum_not_whitespace by (intro trim_matches_id) blast
qed

lemma title_words:
  assumes "is_slug s"
  shows "\<forall>w \<in> set (split_on ((=) c_dash) s). w \<noteq> [] \<and> (\<forall>c \<in> set w. slug_char c)"
    "title_from_slug s = join_with [c_space] (map title_word (split_on ((=) c_dash) s))"
proof -
  let ?ws = "split_on ((=) c_dash) s"
  have ne: "[] \<notin> set ?ws"
    using assms no_double_dash_words by (simp add: is_slug_def)
  have "\<forall>w \<in> set ?ws. \<forall>c \<in> set w. slug_char c"
    using assms split_on_no_sep [of _ "(=) c_dash" s] split_on_set [of _ "(=) c_dash" s]
    unfolding is_slug_def by blast
  with ne show "\<forall>w \<in> set ?ws. w \<noteq> [] \<and> (\<forall>c \<in> set w. slug_char c)" by blast
  have "filter (\<lambda>w. w \<noteq> []) ?ws = ?ws"
    using ne by (metis (mono_tags, lifting) filter_True)
  then show "title_from_slug s = join_with [c_space] (map title_word ?ws)"
    by (simp add: title_from_slug_def split_on_slug [OF assms])
qed

lemma title_trimmed: "is_slug s \<Longrightarrow> trim (title_from_slug s) = title_from_slug s"
  unfolding title_words(2) by (rule title_chars_ends) (use title_words(1) in auto)

lemma normalize_slug_title:
  assumes "is_slug s"
  shows "normalize_slug (title_from_slug s) = Some s"
proof -
  let ?ws = "split_on ((=) c_dash) s"
  note words = title_words(1) [OF assms] and t = title_words(2) [OF assms]
  have "slug_loop (trim (title_from_slug s)) [] False = join_with [c_dash] ?ws"
    unfolding t using words by (simp add: title_chars_ends slug_loop_title)
  then have "slug_loop (trim (title_from_slug s)) [] False = slug_loop (trim s) [] False"
    using join_split_on slug_loop_id [of s "[]" False] assms is_slug_trim [OF assms]
    by (simp add: is_slug_def)
  then have "normalize_slug (title_from_slug s) = normalize_slug s"
    by (simp add: normalize_slug_def)
  then show ?thesis using normalize_slug_id [OF assms] by simp
qed

section \<open>Properties\<close>

text \<open>A normalized slug has only lower-case letters, digits and single dashes between
  them, and normalizing it again changes nothing; only a text without any letter or digit is
  refused.\<close>

theorem slug_normal_form:
  "(case normalize_slug raw of
      Some s \<Rightarrow> is_slug s \<and> normalize_slug s = Some s
    | None \<Rightarrow> \<not> list_ex is_ascii_alphanumeric raw)"
  using normalize_slug_shape normalize_slug_idem normalize_slug_None
  by (auto split: option.splits simp: list_ex_iff)

text \<open>The title made from a course's slug normalizes back to that slug.\<close>

theorem title_names_slug:
  assumes "normalize_slug raw = Some s"
  shows "normalize_slug (title_from_slug s) = Some s"
  using normalize_slug_title [OF normalize_slug_shape [OF assms]] .

theorem title_names_slug_witness:
  "normalize_slug (title_from_slug (lit ''systems-2-lab'')) = Some (lit ''systems-2-lab'')"
  by (rule title_names_slug [of "lit ''  Systems 2: Lab! ''"])
    (simp add: normalize_slug_def lit_def trim_def trim_matches_def trim_start_def trim_end_def
      is_whitespace_def ascii_defs)

end
