(* ===== verification/Sources.thy ===== *)
theory Sources
  imports Text_Rules
begin

text \<open>
  \<^verbatim>\<open>crates/server/src/solutions/source.rs\<close>: the branch and folder a teacher typed, and the
  path a student's editor sent, parsed into types that can only hold a safe value.
  \<open>git_ref\<close>, \<open>repo_path\<close> and \<open>solutions_source\<close> are the Rust types of the same names; their
  parsers return \<open>Inl\<close> the \<^verbatim>\<open>Invalid\<close> of the source. The lemmas show what a parsed value
  looks like, that a file located under the solutions folder stays in it, and when parsing
  is stable.
\<close>

datatype invalid =
  EmptyRef | RefTooLong | BadRef | EmptyPath | AbsolutePath | PathTooLong | BadPath

fun invalid_text :: "invalid \<Rightarrow> str" where
  "invalid_text EmptyRef = lit ''a branch, tag or commit can't be empty''"
| "invalid_text RefTooLong = lit ''a branch, tag or commit is at most 100 characters''"
| "invalid_text BadRef = lit (''a branch, tag or commit may only use letters, digits and . _ / - '' @
     ''(and can't start or end with / or ., contain .. or //, or start with -)'')"
| "invalid_text EmptyPath = lit ''a path can't be empty''"
| "invalid_text AbsolutePath = lit ''a path must be relative to the repository root, not start with /''"
| "invalid_text PathTooLong = lit ''a path is at most 500 characters''"
| "invalid_text BadPath = lit (''a path can't contain empty, '.' or '..' segments, backslashes or '' @
     ''control characters'')"

datatype git_ref = GitRef (ref_str: str)

datatype repo_path = RepoPath (path_str: str)

definition starts_with_any :: "rchar set \<Rightarrow> str \<Rightarrow> bool" where
  "starts_with_any cs s \<longleftrightarrow> (case s of [] \<Rightarrow> False | c # _ \<Rightarrow> c \<in> cs)"

definition ends_with_any :: "rchar set \<Rightarrow> str \<Rightarrow> bool" where
  "ends_with_any cs s \<longleftrightarrow> starts_with_any cs (rev s)"

definition ref_char :: "rchar \<Rightarrow> bool" where
  "ref_char c \<longleftrightarrow> is_ascii_alphanumeric c \<or> c \<in> {c_dot, c_underscore, c_slash, c_dash}"

definition ref_shape :: "str \<Rightarrow> bool" where
  "ref_shape s \<longleftrightarrow> \<not> starts_with_any {c_dash, c_slash, c_dot} s \<and>
     \<not> ends_with_any {c_slash, c_dot} s \<and> \<not> contains (lit ''..'') s \<and>
     \<not> contains (lit ''//'') s \<and> \<not> ends_with (lit ''.lock'') s"

definition git_ref_parse :: "str \<Rightarrow> invalid + git_ref" where
  "git_ref_parse raw =
     (let s = trim raw in
      if s = [] then Inl EmptyRef
      else if blen s > 100 then Inl RefTooLong
      else if list_all ref_char s \<and> ref_shape s then Inr (GitRef s)
      else Inl BadRef)"

text \<open>One segment of a path: what \<^verbatim>\<open>RepoPath::parse\<close> asks of each.\<close>

definition safe_segment :: "str \<Rightarrow> bool" where
  "safe_segment seg \<longleftrightarrow> seg \<notin> {[], lit ''.'', lit ''..''} \<and> blen seg \<le> 255 \<and>
     \<not> list_ex (\<lambda>c. c = c_backslash \<or> is_control c) seg"

definition repo_path_parse :: "str \<Rightarrow> invalid + repo_path" where
  "repo_path_parse raw =
     (let s = trim_end (\<lambda>c. c = c_slash) (trim raw) in
      if s = [] then Inl EmptyPath
      else if starts_with_any {c_slash} s then Inl AbsolutePath
      else if blen s > 500 then Inl PathTooLong
      else if list_all safe_segment (split_on ((=) c_slash) s) then Inr (RepoPath s)
      else Inl BadPath)"

definition segments :: "repo_path \<Rightarrow> str list" where
  "segments p = split_on ((=) c_slash) (path_str p)"

definition repo_path_join :: "repo_path \<Rightarrow> repo_path \<Rightarrow> repo_path" where
  "repo_path_join p tail = RepoPath (path_str p @ [c_slash] @ path_str tail)"

record solutions_source =
  git_ref :: "git_ref option"
  dir :: "repo_path option"

definition solutions_source_parse ::
    "str option \<Rightarrow> str option \<Rightarrow> invalid + solutions_source option" where
  "solutions_source_parse r d =
     (let blank = (\<lambda>s. trim s = []) in
      bind_result (transpose_result (map_option git_ref_parse (opt_filter (\<lambda>s. \<not> blank s) r)))
        (\<lambda>git_ref. bind_result
          (transpose_result (map_option repo_path_parse (opt_filter (\<lambda>s. \<not> blank s) d)))
          (\<lambda>dir. Inr (if git_ref \<noteq> None \<or> dir \<noteq> None
             then Some \<lparr>git_ref = git_ref, dir = dir\<rparr> else None))))"

text \<open>\<^verbatim>\<open>SolutionsSource::from_course\<close>, on the two columns of the course row.\<close>

definition from_settings :: "str option \<Rightarrow> str option \<Rightarrow> solutions_source option" where
  "from_settings r d = Option.bind (result_ok (solutions_source_parse r d)) id"

definition locate :: "solutions_source \<Rightarrow> repo_path \<Rightarrow> repo_path" where
  "locate src student_file =
     (case dir src of Some d \<Rightarrow> repo_path_join d student_file | None \<Rightarrow> student_file)"

section \<open>What a parsed value looks like\<close>

definition wf_ref :: "git_ref \<Rightarrow> bool" where
  "wf_ref r \<longleftrightarrow> ref_str r \<noteq> [] \<and> blen (ref_str r) \<le> 100 \<and> list_all ref_char (ref_str r) \<and>
     ref_shape (ref_str r)"

definition wf_path :: "repo_path \<Rightarrow> bool" where
  "wf_path p \<longleftrightarrow> list_all safe_segment (segments p)"

lemma git_ref_parse_Inr:
  "git_ref_parse raw = Inr r \<longleftrightarrow> wf_ref r \<and> ref_str r = trim raw"
  by (cases r) (auto simp: git_ref_parse_def Let_def wf_ref_def not_less)

lemma ref_char_not_whitespace: "ref_char c \<Longrightarrow> \<not> is_whitespace c"
  unfolding ref_char_def
  by (elim disjE) (simp add: alnum_not_whitespace, auto simp: is_whitespace_def)

lemma wf_ref_trim: "wf_ref r \<Longrightarrow> trim (ref_str r) = ref_str r"
  unfolding trim_def
  by (rule trim_matches_id)
    (metis hd_in_set last_in_set list_all_iff ref_char_not_whitespace wf_ref_def)

lemma git_ref_canonical:
  assumes "git_ref_parse raw = Inr r"
  shows "git_ref_parse (ref_str r) = Inr r"
  using assms wf_ref_trim by (simp add: git_ref_parse_Inr)

lemma repo_path_parse_Inr:
  assumes "repo_path_parse raw = Inr p"
  shows "wf_path p" "path_str p = trim_end (\<lambda>c. c = c_slash) (trim raw)" "path_str p \<noteq> []"
    "blen (path_str p) \<le> 500"
  using assms
  by (auto simp: repo_path_parse_def Let_def wf_path_def segments_def split: if_splits)

lemma segments_join: "segments (repo_path_join p q) = segments p @ segments q"
  by (simp add: segments_def repo_path_join_def split_on_append)

lemma wf_path_join: "wf_path p \<Longrightarrow> wf_path q \<Longrightarrow> wf_path (repo_path_join p q)"
  by (simp add: wf_path_def segments_join)

definition wf_source :: "solutions_source \<Rightarrow> bool" where
  "wf_source src \<longleftrightarrow> (git_ref src \<noteq> None \<or> dir src \<noteq> None) \<and>
     (\<forall>r. git_ref src = Some r \<longrightarrow> wf_ref r) \<and> (\<forall>d. dir src = Some d \<longrightarrow> wf_path d)"

lemma solutions_source_parse_wf:
  "solutions_source_parse r d = Inr (Some src) \<Longrightarrow> wf_source src"
  by (auto simp: solutions_source_parse_def Let_def wf_source_def transpose_result_Inr
      git_ref_parse_Inr dest: repo_path_parse_Inr(1) split: if_splits)

lemma from_settings_wf: "from_settings r d = Some src \<Longrightarrow> wf_source src"
  by (auto simp: from_settings_def bind_eq_Some_conv dest: solutions_source_parse_wf)

text \<open>No solutions are configured exactly when both settings are missing or blank.\<close>

lemma solutions_source_parse_None:
  "solutions_source_parse r d = Inr None \<longleftrightarrow> non_blank r = None \<and> non_blank d = None"
  by (auto simp: solutions_source_parse_def Let_def non_blank_def transpose_result_def
      opt_filter_def split: option.splits sum.splits if_splits)

section \<open>Staying inside the folder\<close>

text \<open>
  What a file system or a URL parser does with the segments of a path: an empty segment or
  a dot stays, two dots go up, anything else goes down. \<open>None\<close> is climbing above the root.
\<close>

fun walk :: "str list \<Rightarrow> str list \<Rightarrow> str list option" where
  "walk cwd [] = Some cwd"
| "walk cwd (seg # segs) =
     (if seg = [] \<or> seg = lit ''.'' then walk cwd segs
      else if seg = lit ''..'' then (if cwd = [] then None else walk (butlast cwd) segs)
      else walk (cwd @ [seg]) segs)"

lemma walk_safe: "list_all safe_segment segs \<Longrightarrow> walk cwd segs = Some (cwd @ segs)"
  by (induction segs arbitrary: cwd) (auto simp: safe_segment_def)

lemma locate_walk:
  assumes "wf_source src" "wf_path p"
  shows "walk [] (segments (locate src p)) =
    Some ((case dir src of Some d \<Rightarrow> segments d | None \<Rightarrow> []) @ segments p)"
proof (cases "dir src")
  case None
  with assms show ?thesis by (simp add: locate_def wf_path_def walk_safe)
next
  case (Some d)
  with assms have "wf_path d" by (simp add: wf_source_def)
  with assms(2) have "wf_path (locate src p)" by (simp add: locate_def Some wf_path_join)
  with Some show ?thesis by (simp add: wf_path_def walk_safe) (simp add: locate_def segments_join)
qed

section \<open>When parsing is stable\<close>

lemma repo_path_canonical:
  assumes "repo_path_parse raw = Inr p"
  shows "repo_path_parse (path_str p) = Inr p \<longleftrightarrow> \<not> is_whitespace (last (path_str p))"
proof -
  let ?s = "path_str p" and ?sl = "\<lambda>c. c = c_slash"
  have s: "?s = trim_end ?sl (trim raw)" "?s \<noteq> []"
    using repo_path_parse_Inr [OF assms] by simp_all
  have stable: "trim_end ?sl ?s = ?s"
    using s last_trim_end [of ?sl "trim raw"] by (simp add: trim_end_fix)
  have hd: "\<not> is_whitespace (hd ?s)"
  proof -
    obtain t where "trim raw = ?s @ t" using trim_end_decomp s(1) by metis
    then have "trim raw \<noteq> []" "hd (trim raw) = hd ?s" using s(2) by simp_all
    then show ?thesis
      using hd_trim_matches [of is_whitespace raw] by (simp add: trim_def)
  qed
  show ?thesis
  proof
    assume r: "repo_path_parse ?s = Inr p"
    then have eq: "?s = trim_end ?sl (trim ?s)" by (rule repo_path_parse_Inr(2))
    then obtain t where t: "trim ?s = ?s @ t" using trim_end_decomp by metis
    obtain a b where "?s = a @ trim ?s @ b"
      using trim_matches_decomp [of ?s is_whitespace] unfolding trim_def by metis
    then have "length ?s = length a + length (trim ?s) + length b"
      by (metis add.assoc length_append)
    with t have "t = []" "trim ?s = ?s" by auto
    then show "\<not> is_whitespace (last ?s)"
      using last_trim_matches [of is_whitespace ?s] s(2) by (simp add: trim_def)
  next
    assume "\<not> is_whitespace (last ?s)"
    with hd have "trim ?s = ?s" unfolding trim_def by (intro trim_matches_id) simp
    with stable s assms show "repo_path_parse ?s = Inr p"
      by (simp add: repo_path_parse_def Let_def split: if_splits)
  qed
qed

section \<open>Properties\<close>

text \<open>C29: Whatever a course's settings hold and whatever path a student's editor sends, the
  file that is looked up stays in the solutions folder: its path is the folder's segments
  followed by the student's, and walking it never climbs.\<close>

theorem lookup_stays_in_folder:
  assumes "from_settings r d = Some src" "repo_path_parse raw = Inr p"
  shows "walk [] (segments (locate src p)) =
    Some ((case dir src of Some f \<Rightarrow> segments f | None \<Rightarrow> []) @ segments p)"
  using locate_walk [OF from_settings_wf [OF assms(1)] repo_path_parse_Inr(1) [OF assms(2)]] .

lemmas source_eval = from_settings_def solutions_source_parse_def git_ref_parse_def
  repo_path_parse_def lit_def trim_def trim_matches_def trim_start_def trim_end_def
  is_whitespace_def is_control_def safe_segment_def starts_with_any_def ends_with_any_def
  ref_char_def ref_shape_def ascii_defs ends_with_def strip_suffix_def strip_prefix_def
  starts_with_def transpose_result_def result_ok_def len_utf8_def Let_def

theorem lookup_stays_in_folder_witness:
  "walk [] (segments (locate \<lparr>git_ref = None, dir = Some (RepoPath (lit ''sol/w1''))\<rparr>
      (RepoPath (lit ''ex1/a.py'')))) =
    Some (segments (RepoPath (lit ''sol/w1'')) @ segments (RepoPath (lit ''ex1/a.py'')))"
proof -
  have "from_settings None (Some (lit '' sol/w1/'')) =
      Some \<lparr>git_ref = None, dir = Some (RepoPath (lit ''sol/w1''))\<rparr>"
    by (simp add: source_eval)
  moreover have "repo_path_parse (lit ''ex1/a.py'') = Inr (RepoPath (lit ''ex1/a.py''))"
    by (simp add: source_eval)
  ultimately show ?thesis by (auto dest: lookup_stays_in_folder)
qed

text \<open>The stored folder need not be in canonical form: parsing the stored text again gives
  the same folder exactly when it does not end in a space, and a folder typed as
  \<^verbatim>\<open>a/ /\<close> is stored as \<^verbatim>\<open>a/ \<close>, which parses to a different folder.\<close>

theorem stored_folder_reparses:
  "(case repo_path_parse raw of
      Inr p \<Rightarrow> repo_path_parse (path_str p) = Inr p \<longleftrightarrow> \<not> is_whitespace (last (path_str p))
    | Inl e \<Rightarrow> True) \<and>
   repo_path_parse (lit ''a/ /'') = Inr (RepoPath (lit ''a/ '')) \<and>
   repo_path_parse (lit ''a/ '') = Inr (RepoPath (lit ''a''))"
  using repo_path_canonical [of raw]
  by (auto split: sum.splits) (simp_all add: source_eval)

end
