(* ===== verification/Highlight.thy ===== *)
theory Highlight
  imports Errors
begin

text \<open>
  \<^verbatim>\<open>crates/server/src/highlight.rs\<close>: spans of a highlighted line, the marking of what changed
  in an edited line, and the loop that highlights a file. The grammar engine (the crate
  \<^verbatim>\<open>syntect\<close>) is a parameter, the record \<open>syntect\<close>; what the loop relies on is the named
  hypothesis \<open>regions_law\<close>. The lemmas show that neither marking nor highlighting changes
  the text of a line, which characters come out marked, and that marking never slices a
  string off a character boundary.
\<close>

definition MAX_LINES :: nat where
  "MAX_LINES = 4000"

datatype highlight_error = TooLong | Syntax

datatype class_of = Plain | Comment | String | Number | Keyword | Function | Type | Operator

record span =
  span_class :: class_of
  span_text :: str
  span_changed :: bool

definition span_new :: "class_of \<Rightarrow> str \<Rightarrow> span" where
  "span_new cls text = \<lparr>span_class = cls, span_text = text, span_changed = False\<rparr>"

text \<open>\<open>None\<close>: the range is out of the text or cuts a character, where the code panics.\<close>

definition piece :: "span \<Rightarrow> range \<Rightarrow> bool \<Rightarrow> span option" where
  "piece s r changed = map_option
     (\<lambda>text. \<lparr>span_class = span_class s, span_text = text, span_changed = changed\<rparr>)
     (slice (span_text s) r)"

type_synonym line = "span list"

definition plain_line :: "str \<Rightarrow> line" where
  "plain_line text = (if text = [] then [] else [span_new Plain text])"

text \<open>The inner loop of \<^verbatim>\<open>Line::marked\<close>, over the ranges, for one span at \<open>start\<close>.\<close>

fun mark_ranges ::
    "span \<Rightarrow> nat \<Rightarrow> nat \<Rightarrow> range list \<Rightarrow> nat \<Rightarrow> line \<Rightarrow> (line \<times> nat) option" where
  "mark_ranges s start fin [] dn out = Some (out, dn)"
| "mark_ranges s start fin (r # rs) dn out =
     (let from = max (fst r) start; to = min (snd r) fin in
      if to \<le> from then mark_ranges s start fin rs dn out
      else do {
        out \<leftarrow> (if dn < from
                then map_option (\<lambda>p. out @ [p]) (piece s (dn - start, from - start) False)
                else Some out);
        p \<leftarrow> piece s (from - start, to - start) True;
        mark_ranges s start fin rs to (out @ [p])
      })"

text \<open>The outer loop, over the spans.\<close>

fun mark_spans :: "range list \<Rightarrow> line \<Rightarrow> nat \<Rightarrow> line \<Rightarrow> line option" where
  "mark_spans ranges [] start out = Some out"
| "mark_spans ranges (s # ss) start out =
     (let fin = start + blen (span_text s) in
      do {
        (out, dn) \<leftarrow> mark_ranges s start fin ranges start out;
        out \<leftarrow> (if dn < fin
                then map_option (\<lambda>p. out @ [p]) (piece s (dn - start, fin - start) False)
                else Some out);
        mark_spans ranges ss fin out
      })"

definition marked :: "line \<Rightarrow> range list \<Rightarrow> line option" where
  "marked l ranges = mark_spans ranges l 0 []"

fun rebuilds :: "line \<Rightarrow> str \<Rightarrow> bool" where
  "rebuilds [] rest \<longleftrightarrow> rest = []"
| "rebuilds (s # ss) rest \<longleftrightarrow>
     (case strip_prefix (span_text s) rest of Some after \<Rightarrow> rebuilds ss after | None \<Rightarrow> False)"

text \<open>\<^verbatim>\<open>Highlighted::line\<close>, at a 1-based line number.\<close>

definition line_at :: "line list \<Rightarrow> nat \<Rightarrow> line option" where
  "line_at h number =
     (if number = 0 then None else if number - 1 < length h then Some (h ! (number - 1)) else None)"

section \<open>What a line says\<close>

definition line_text :: "line \<Rightarrow> str" where
  "line_text l = concat (map span_text l)"

lemma line_text_simps [simp]:
  "line_text [] = []" "line_text (s # l) = span_text s @ line_text l"
  "line_text (l @ l') = line_text l @ line_text l'"
  by (simp_all add: line_text_def)

lemma rebuilds_iff: "rebuilds l t \<longleftrightarrow> line_text l = t"
proof (induction l arbitrary: t)
  case (Cons s l)
  show ?case
  proof (cases "strip_prefix (span_text s) t")
    case None
    then have "t \<noteq> span_text s @ line_text l" using strip_prefix_append by force
    with None show ?thesis by auto
  next
    case (Some rest)
    with Cons show ?thesis by (auto simp: strip_prefix_Some)
  qed
qed auto

lemma line_text_plain [simp]: "line_text (plain_line text) = text"
  by (simp add: plain_line_def span_new_def)

text \<open>The styled characters of a line, and the line as \<open>marked\<close> should paint it.\<close>

type_synonym styled = "class_of \<times> rchar \<times> bool"

definition span_chars :: "span \<Rightarrow> styled list" where
  "span_chars s = map (\<lambda>c. (span_class s, c, span_changed s)) (span_text s)"

definition line_chars :: "line \<Rightarrow> styled list" where
  "line_chars l = concat (map span_chars l)"

lemma line_chars_simps [simp]:
  "line_chars [] = []" "line_chars (s # l) = span_chars s @ line_chars l"
  "line_chars (l @ l') = line_chars l @ line_chars l'"
  by (simp_all add: line_chars_def)

lemma line_text_chars: "line_text l = map (fst \<circ> snd) (line_chars l)"
  by (induction l) (simp_all add: span_chars_def o_def)

definition covered :: "range list \<Rightarrow> nat \<Rightarrow> bool" where
  "covered ranges i \<longleftrightarrow> (\<exists>r \<in> set ranges. fst r \<le> i \<and> i < snd r)"

lemma covered_simps [simp]:
  "covered [] i = False" "covered (r # rs) i = (fst r \<le> i \<and> i < snd r \<or> covered rs i)"
  by (auto simp: covered_def)

fun paint :: "range list \<Rightarrow> nat \<Rightarrow> styled list \<Rightarrow> styled list" where
  "paint ranges i [] = []"
| "paint ranges i ((k, c, b) # cs) = (k, c, covered ranges i) # paint ranges (i + len_utf8 c) cs"

text \<open>The paint of one span's text: the class is the span's.\<close>

fun paint_text :: "range list \<Rightarrow> class_of \<Rightarrow> nat \<Rightarrow> str \<Rightarrow> styled list" where
  "paint_text ranges k i [] = []"
| "paint_text ranges k i (c # t) = (k, c, covered ranges i) # paint_text ranges k (i + len_utf8 c) t"

lemma paint_text_append:
  "paint_text ranges k i (s @ t) = paint_text ranges k i s @ paint_text ranges k (i + blen s) t"
  by (induction s arbitrary: i) (simp_all add: add.assoc)

lemma paint_span:
  "paint ranges i (span_chars s @ cs) =
     paint_text ranges (span_class s) i (span_text s) @ paint ranges (i + blen (span_text s)) cs"
proof -
  have "paint ranges i (map (\<lambda>c. (k, c, b)) t @ cs) =
      paint_text ranges k i t @ paint ranges (i + blen t) cs" for k b t
    by (induction t arbitrary: i) (simp_all add: add.assoc)
  then show ?thesis by (simp add: span_chars_def)
qed

lemma paint_text_cong:
  "(\<And>j. i \<le> j \<Longrightarrow> j < i + blen t \<Longrightarrow> covered ranges j = covered ranges' j) \<Longrightarrow>
     paint_text ranges k i t = paint_text ranges' k i t"
  by (induction t arbitrary: i) (simp_all add: add.assoc)

lemma paint_text_const:
  "(\<And>j. i \<le> j \<Longrightarrow> j < i + blen t \<Longrightarrow> covered ranges j = b) \<Longrightarrow>
     paint_text ranges k i t = map (\<lambda>c. (k, c, b)) t"
  by (induction t arbitrary: i) (simp_all add: add.assoc)

section \<open>Marking\<close>

text \<open>What the comment of \<^verbatim>\<open>marked\<close> asks of its ranges.\<close>

definition ranges_sorted :: "range list \<Rightarrow> bool" where
  "ranges_sorted ranges \<longleftrightarrow>
     sorted_wrt (\<lambda>a b. snd a \<le> fst b) ranges \<and> (\<forall>r \<in> set ranges. fst r \<le> snd r)"

lemma ranges_sorted_simps [simp]:
  "ranges_sorted []"
  "ranges_sorted (r # rs) \<longleftrightarrow> fst r \<le> snd r \<and> (\<forall>q \<in> set rs. snd r \<le> fst q) \<and> ranges_sorted rs"
  by (auto simp: ranges_sorted_def)

definition ends_of :: "range list \<Rightarrow> nat set" where
  "ends_of ranges = fst ` set ranges \<union> snd ` set ranges"

lemma ends_of_simps [simp]:
  "ends_of [] = {}" "ends_of (r # rs) = {fst r, snd r} \<union> ends_of rs"
  by (auto simp: ends_of_def)

definition on_boundaries :: "str \<Rightarrow> nat \<Rightarrow> range list \<Rightarrow> bool" where
  "on_boundaries t start ranges \<longleftrightarrow>
     (\<forall>b \<in> ends_of ranges. start \<le> b \<and> b \<le> start + blen t \<longrightarrow> is_char_boundary t (b - start))"

lemma on_boundaries_head:
  "on_boundaries (s @ t) start ranges \<Longrightarrow> on_boundaries s start ranges"
  unfolding on_boundaries_def
proof (intro ballI impI)
  fix b
  assume "\<forall>b \<in> ends_of ranges. start \<le> b \<and> b \<le> start + blen (s @ t) \<longrightarrow>
      is_char_boundary (s @ t) (b - start)"
    and b: "b \<in> ends_of ranges" "start \<le> b \<and> b \<le> start + blen s"
  then have "is_char_boundary (s @ t) (b - start)" by simp
  then show "is_char_boundary s (b - start)"
    by (rule boundary_prefix) (use b in linarith)
qed

lemma on_boundaries_Cons [simp]:
  "on_boundaries t start [] "
  "on_boundaries t start (r # rs) \<Longrightarrow> on_boundaries t start rs"
  by (simp_all add: on_boundaries_def)

lemma on_boundaries_tail:
  "on_boundaries (s @ t) start ranges \<Longrightarrow> on_boundaries t (start + blen s) ranges"
  unfolding on_boundaries_def
proof (intro ballI impI)
  fix b
  assume all: "\<forall>b \<in> ends_of ranges. start \<le> b \<and> b \<le> start + blen (s @ t) \<longrightarrow>
      is_char_boundary (s @ t) (b - start)"
    and b: "b \<in> ends_of ranges" "start + blen s \<le> b \<and> b \<le> start + blen s + blen t"
  then have "is_char_boundary (s @ t) (b - start)" by simp
  then have "is_char_boundary t (b - start - blen s)"
    using b by (intro boundary_append_right) auto
  then show "is_char_boundary t (b - (start + blen s))" by simp
qed

lemma clip_boundary:
  assumes "on_boundaries text start (r # rs)" "max (fst r) start < min (snd r) (start + blen text)"
  shows "is_char_boundary text (max (fst r) start - start)"
    "is_char_boundary text (min (snd r) (start + blen text) - start)"
  using assms by (auto simp: on_boundaries_def max_def min_def split: if_splits)

lemma piece_Some:
  assumes "is_char_boundary (span_text s) i" "is_char_boundary (span_text s) j" "i \<le> j"
  obtains p m q where "span_text s = p @ m @ q" "blen p = i" "blen p + blen m = j"
    "piece s (i, j) b = Some \<lparr>span_class = span_class s, span_text = m, span_changed = b\<rparr>"
  using slice_boundaries [OF assms] by (metis option.map(2) piece_def)

text \<open>The span's text from \<open>dn\<close> on is still to be emitted.\<close>

text \<open>What is left of a span, cut at a range: the text before it, in it and after it.\<close>

lemma range_pieces:
  assumes "span_text s = p @ q" "dn = start + blen p" "on_boundaries (span_text s) start (r # rs)"
    and fr: "fr = max (fst r) start" "dn \<le> fr" and to: "to = min (snd r) (start + blen (span_text s))" "fr < to"
  obtains a m b where "q = a @ m @ b" "fr = dn + blen a" "to = fr + blen m"
    "piece s (dn - start, fr - start) False = Some \<lparr>span_class = span_class s, span_text = a, span_changed = False\<rparr>"
    "piece s (fr - start, to - start) True = Some \<lparr>span_class = span_class s, span_text = m, span_changed = True\<rparr>"
proof -
  let ?t = "span_text s"
  have bs: "is_char_boundary ?t (fr - start)" "is_char_boundary ?t (to - start)"
    using clip_boundary [OF assms(3)] fr(1) to by simp_all
  have bp: "is_char_boundary ?t (dn - start)" unfolding is_char_boundary_iff using assms(1,2) by auto
  obtain p1 a q1 where 1: "?t = p1 @ a @ q1" "blen p1 = dn - start" "blen p1 + blen a = fr - start"
    "piece s (dn - start, fr - start) False = Some \<lparr>span_class = span_class s, span_text = a, span_changed = False\<rparr>"
    using piece_Some [OF bp bs(1)] fr(2) by (metis diff_le_mono)
  obtain p2 m b where 2: "?t = p2 @ m @ b" "blen p2 = fr - start" "blen p2 + blen m = to - start"
    "piece s (fr - start, to - start) True = Some \<lparr>span_class = span_class s, span_text = m, span_changed = True\<rparr>"
    using piece_Some [OF bs] to(2) by (metis diff_le_mono less_imp_le)
  have "p1 = p" "a @ q1 = q"
    using 1(1,2) assms(1,2) append_blen_le_prefix [of p1 "a @ q1" p q]
      append_blen_le_prefix [of p q p1 "a @ q1"] by auto
  moreover have "p2 = p1 @ a" "m @ b = q1"
    using 1 2 append_blen_le_prefix [of p2 "m @ b" "p1 @ a" q1]
      append_blen_le_prefix [of "p1 @ a" q1 p2 "m @ b"] by auto
  ultimately have "q = a @ m @ b" "fr = dn + blen a" "to = fr + blen m"
    using 1(2,3) 2(2,3) assms(2) fr to(2) by auto
  then show thesis using that 1(4) 2(4) by blast
qed

text \<open>How these three texts are painted: the first plain, the second changed.\<close>

lemma range_paint:
  assumes "ranges_sorted (r # rs)" "start \<le> dn"
    and fr: "fr = max (fst r) start" "fr = dn + blen a" and to: "to = min (snd r) fin" "to = fr + blen m"
    and fin: "fin = to + blen b"
  shows "paint_text (r # rs) k dn (a @ m @ b) =
    map (\<lambda>c. (k, c, False)) a @ map (\<lambda>c. (k, c, True)) m @ paint_text rs k to b"
proof -
  have "\<not> covered (r # rs) j" if "dn \<le> j" "j < dn + blen a" for j
  proof -
    have "j < fst r" using that fr assms(2) by linarith
    moreover from this have "\<forall>r' \<in> set rs. j < fst r'" using assms(1) by fastforce
    ultimately show ?thesis by (auto simp: covered_def)
  qed
  then have "paint_text (r # rs) k dn a = map (\<lambda>c. (k, c, False)) a" by (intro paint_text_const) blast
  moreover have "paint_text (r # rs) k fr m = map (\<lambda>c. (k, c, True)) m"
    using fr(1) to by (intro paint_text_const) auto
  moreover have "paint_text (r # rs) k to b = paint_text rs k to b"
  proof (rule paint_text_cong)
    fix j assume "to \<le> j" "j < to + blen b"
    then have "min (snd r) fin \<le> j" "j < fin" using to(1) fin by linarith+
    then show "covered (r # rs) j = covered rs j" by auto
  qed
  ultimately show ?thesis by (simp only: paint_text_append fr(2) [symmetric] to(2) [symmetric])
qed

lemma mark_ranges_paint:
  assumes "ranges_sorted rs" "on_boundaries (span_text s) start rs"
    "span_text s = p @ q" "dn = start + blen p" "fin = start + blen (span_text s)"
    "\<forall>r \<in> set rs. dn \<le> max (fst r) start"
  shows "\<exists>out' p' q'. mark_ranges s start fin rs dn out = Some (out', start + blen p') \<and>
     span_text s = p' @ q' \<and>
     line_chars out' @ map (\<lambda>c. (span_class s, c, False)) q' =
       line_chars out @ paint_text rs (span_class s) dn q"
  using assms
proof (induction rs arbitrary: dn p q out)
  case Nil
  have "paint_text [] (span_class s) dn q = map (\<lambda>c. (span_class s, c, False)) q"
    by (rule paint_text_const) simp
  with Nil show ?case by auto
next
  case (Cons r rs)
  let ?k = "span_class s" and ?t = "span_text s"
  define fr where "fr = max (fst r) start"
  define to where "to = min (snd r) fin"
  show ?case
  proof (cases "to \<le> fr")
    case True
    have "paint_text (r # rs) ?k dn q = paint_text rs ?k dn q"
      by (rule paint_text_cong) (use Cons.prems(3-5) True in \<open>auto simp: fr_def to_def\<close>)
    moreover have "\<exists>out' p' q'. mark_ranges s start fin rs dn out = Some (out', start + blen p') \<and>
       ?t = p' @ q' \<and> line_chars out' @ map (\<lambda>c. (?k, c, False)) q' =
       line_chars out @ paint_text rs ?k dn q"
      using Cons.prems by (intro Cons.IH) auto
    ultimately show ?thesis using True by (simp add: fr_def to_def)
  next
    case False
    have le: "dn \<le> fr" using Cons.prems(6) by (simp add: fr_def)
    obtain a m b where cut: "q = a @ m @ b" "fr = dn + blen a" "to = fr + blen m"
      "piece s (dn - start, fr - start) False = Some \<lparr>span_class = ?k, span_text = a, span_changed = False\<rparr>"
      "piece s (fr - start, to - start) True = Some \<lparr>span_class = ?k, span_text = m, span_changed = True\<rparr>"
      using range_pieces [OF Cons.prems(3,4,2) fr_def le to_def [unfolded Cons.prems(5)]] False by auto
    let ?out = "(if dn < fr then out @ [\<lparr>span_class = ?k, span_text = a, span_changed = False\<rparr>] else out)
      @ [\<lparr>span_class = ?k, span_text = m, span_changed = True\<rparr>]"
    have "\<exists>out' p' q'. mark_ranges s start fin rs to ?out = Some (out', start + blen p') \<and>
       ?t = p' @ q' \<and> line_chars out' @ map (\<lambda>c. (?k, c, False)) q' = line_chars ?out @ paint_text rs ?k to b"
      using Cons.prems cut(1-3) by (intro Cons.IH [where p = "p @ a @ m"]) (auto simp: on_boundaries_def to_def)
    moreover have "mark_ranges s start fin (r # rs) dn out = mark_ranges s start fin rs to ?out"
      using False cut(4,5) by (simp add: fr_def to_def)
    moreover have "fin = to + blen b" using Cons.prems(3-5) cut(1-3) by simp
    then have "paint_text (r # rs) ?k dn q = map (\<lambda>c. (?k, c, False)) a @ map (\<lambda>c. (?k, c, True)) m @ paint_text rs ?k to b"
      unfolding cut(1) using Cons.prems(1,4) cut(2,3) by (intro range_paint [where start = start]) (simp_all add: fr_def to_def)
    moreover have "dn < fr \<longleftrightarrow> a \<noteq> []" using cut(2) by simp
    ultimately show ?thesis by (cases "a = []") (simp_all add: span_chars_def del: mark_ranges.simps)
  qed
qed

lemma mark_span_paint:
  assumes "ranges_sorted rs" "on_boundaries (span_text s) start rs"
  shows "\<exists>out' p' q'. mark_ranges s start (start + blen (span_text s)) rs start out =
       Some (out', start + blen p') \<and> span_text s = p' @ q' \<and>
     line_chars out' @ map (\<lambda>c. (span_class s, c, False)) q' =
       line_chars out @ paint_text rs (span_class s) start (span_text s)"
  by (rule mark_ranges_paint [OF assms, where p = "[]"]) simp_all

lemma mark_spans_paint:
  assumes "ranges_sorted ranges" "on_boundaries (line_text l) start ranges"
  shows "\<exists>out'. mark_spans ranges l start out = Some out' \<and>
     line_chars out' = line_chars out @ paint ranges start (line_chars l)"
  using assms
proof (induction l arbitrary: start out)
  case (Cons s l)
  let ?t = "span_text s"
  let ?fin = "start + blen ?t"
  have ob: "on_boundaries ?t start ranges"
    by (rule on_boundaries_head [where t = "line_text l"]) (use Cons.prems(2) in simp)
  obtain out1 p' q' where 1: "mark_ranges s start ?fin ranges start out = Some (out1, start + blen p')"
    "?t = p' @ q'"
    "line_chars out1 @ map (\<lambda>c. (span_class s, c, False)) q' =
       line_chars out @ paint_text ranges (span_class s) start ?t"
    by (rule exE [OF mark_span_paint [OF Cons.prems(1) ob, of out]]) (elim exE conjE, rule that)
  let ?rest = "\<lparr>span_class = span_class s, span_text = q', span_changed = False\<rparr>"
  let ?out2 = "if q' \<noteq> [] then out1 @ [?rest] else out1"
  have "slice ?t (blen p', blen ?t) = Some q'"
    unfolding slice_Some using 1(2) by (intro exI [of _ p'] exI [of _ "[]"]) simp
  then have "mark_spans ranges (s # l) start out = mark_spans ranges l ?fin ?out2"
    using 1(1,2) by (simp add: piece_def)
  moreover have "line_chars ?out2 = line_chars out @ paint_text ranges (span_class s) start ?t"
    using 1(3) by (auto simp: span_chars_def)
  moreover have "on_boundaries (line_text l) ?fin ranges"
    by (rule on_boundaries_tail) (use Cons.prems(2) in simp)
  ultimately show ?case
    using Cons.IH [of ?fin ?out2] Cons.prems(1) by (auto simp: paint_span)
qed simp

lemma marked_paint:
  assumes "ranges_sorted ranges" "\<forall>r \<in> set ranges. is_char_boundary (line_text l) (fst r) \<and>
    is_char_boundary (line_text l) (snd r)"
  obtains out where "marked l ranges = Some out" "line_chars out = paint ranges 0 (line_chars l)"
proof -
  have "on_boundaries (line_text l) 0 ranges"
    using assms(2) by (auto simp: on_boundaries_def ends_of_def)
  then show thesis
    using mark_spans_paint [OF assms(1), of l 0 "[]"] that by (auto simp: marked_def)
qed

lemma paint_text_of: "map (fst \<circ> snd) (paint ranges i cs) = map (fst \<circ> snd) cs"
  by (induction ranges i cs rule: paint.induct) simp_all

lemma marked_text:
  assumes "ranges_sorted ranges" "\<forall>r \<in> set ranges. is_char_boundary (line_text l) (fst r) \<and>
    is_char_boundary (line_text l) (snd r)"
  obtains out where "marked l ranges = Some out" "line_text out = line_text l"
  using marked_paint [OF assms] by (metis line_text_chars paint_text_of)


section \<open>Highlighting a file\<close>

text \<open>
  The crate \<^verbatim>\<open>syntect\<close> as the loop uses it: the parser's state and one step of it over a line,
  the regions of a parsed line with the stack operation before each, the scope stack, and
  interned scopes. \<open>find_by_*\<close> are the lookups of its default syntax set.
\<close>

record ('g, 'p, 'ops, 'o, 'st, 'sc) syntect =
  parse_new :: "'g \<Rightarrow> 'p"
  parse_line :: "'p \<Rightarrow> str \<Rightarrow> ('p \<times> 'ops) option"
  regions :: "'ops \<Rightarrow> str \<Rightarrow> (str \<times> 'o) list"
  stack_new :: 'st
  stack_apply :: "'o \<Rightarrow> 'st \<Rightarrow> 'st option"
  stack_scopes :: "'st \<Rightarrow> 'sc list"
  scope_new :: "str \<Rightarrow> 'sc option"
  is_prefix_of :: "'sc \<Rightarrow> 'sc \<Rightarrow> bool"
  find_by_name :: "str \<Rightarrow> 'g option"
  find_by_token :: "str \<Rightarrow> 'g option"
  find_by_extension :: "str \<Rightarrow> 'g option"

definition alias_of :: "str \<Rightarrow> str option" where
  "alias_of language =
     (if language \<in> {lit ''typescript'', lit ''typescriptreact'', lit ''javascriptreact''}
      then Some (lit ''JavaScript'')
      else if language = lit ''shellscript'' then Some (lit ''Bourne Again Shell (bash)'')
      else if language = lit ''objective-cpp'' then Some (lit ''Objective-C++'')
      else if language \<in> {lit ''jsonc'', lit ''json5''} then Some (lit ''JSON'')
      else None)"

text \<open>\<^verbatim>\<open>path.rsplit('.').next()\<close>: what follows the last dot, or the whole path.\<close>

definition extension_of :: "str \<Rightarrow> str" where
  "extension_of path = last (split_on ((=) c_dot) path)"

definition detect ::
    "('g, 'p, 'ops, 'o, 'st, 'sc) syntect \<Rightarrow> str \<Rightarrow> str \<Rightarrow> 'g option" where
  "detect sx language path =
     or_else (Option.bind (alias_of language) (find_by_name sx))
       (or_else (find_by_token sx language) (find_by_extension sx (extension_of path)))"

definition rule_table :: "(str \<times> class_of) list" where
  "rule_table =
     [(lit ''comment'', Comment),
      (lit ''string'', String),
      (lit ''constant'', Number),
      (lit ''keyword.operator'', Operator),
      (lit ''keyword'', Keyword),
      (lit ''storage'', Keyword),
      (lit ''entity.name.function'', Function),
      (lit ''support.function'', Function),
      (lit ''variable.function'', Function),
      (lit ''entity.name.type'', Type),
      (lit ''entity.name.class'', Type),
      (lit ''entity.name.struct'', Type),
      (lit ''support.type'', Type),
      (lit ''support.class'', Type),
      (lit ''entity.name.tag'', Type)]"

definition rules :: "('g, 'p, 'ops, 'o, 'st, 'sc) syntect \<Rightarrow> ('sc \<times> class_of) list" where
  "rules sx = List.map_filter
     (\<lambda>(prefix, cls). map_option (\<lambda>s. (s, cls)) (scope_new sx prefix)) rule_table"

fun classify_scopes ::
    "('sc \<Rightarrow> 'sc \<Rightarrow> bool) \<Rightarrow> ('sc \<times> class_of) list \<Rightarrow> 'sc list \<Rightarrow> class_of" where
  "classify_scopes pre rs [] = Plain"
| "classify_scopes pre rs (scope # scopes) =
     (case find (\<lambda>(prefix, cls). pre prefix scope) rs of
        Some (_, cls) \<Rightarrow> cls
      | None \<Rightarrow> classify_scopes pre rs scopes)"

definition classify :: "('g, 'p, 'ops, 'o, 'st, 'sc) syntect \<Rightarrow> 'st \<Rightarrow> class_of" where
  "classify sx stack = classify_scopes (is_prefix_of sx) (rules sx) (rev (stack_scopes sx stack))"

text \<open>Runs that share a class are merged.\<close>

definition push_run :: "class_of \<Rightarrow> str \<Rightarrow> line \<Rightarrow> line" where
  "push_run cls t spans =
     (if spans \<noteq> [] \<and> span_class (last spans) = cls
      then butlast spans @ [(last spans)\<lparr>span_text := span_text (last spans) @ t\<rparr>]
      else spans @ [span_new cls t])"

fun line_loop ::
    "('g, 'p, 'ops, 'o, 'st, 'sc) syntect \<Rightarrow> (str \<times> 'o) list \<Rightarrow> 'st \<Rightarrow> line \<Rightarrow> ('st \<times> line) option"
  where
  "line_loop sx [] stack spans = Some (stack, spans)"
| "line_loop sx ((t, op) # rest) stack spans =
     do {
       stack \<leftarrow> stack_apply sx op stack;
       let t = trim_end (\<lambda>c. c = c_nl) t;
       if t = [] then line_loop sx rest stack spans
       else line_loop sx rest stack (push_run (classify sx stack) t spans)
     }"

fun highlight_loop ::
    "('g, 'p, 'ops, 'o, 'st, 'sc) syntect \<Rightarrow> str list \<Rightarrow> 'p \<Rightarrow> 'st \<Rightarrow> line list \<Rightarrow>
       highlight_error + line list" where
  "highlight_loop sx [] state stack out = Inr out"
| "highlight_loop sx (l # ls) state stack out =
     (if length out = MAX_LINES then Inl TooLong
      else (let buf = l @ [c_nl] in
        case parse_line sx state buf of
          None \<Rightarrow> Inl Syntax
        | Some (state, ops) \<Rightarrow>
            (case line_loop sx (regions sx ops buf) stack [] of
               None \<Rightarrow> Inl Syntax
             | Some (stack, spans) \<Rightarrow> highlight_loop sx ls state stack (out @ [spans]))))"

text \<open>\<open>hint\<close> is the lower bound of the iterator's \<^verbatim>\<open>size_hint\<close>.\<close>

definition highlight ::
    "('g, 'p, 'ops, 'o, 'st, 'sc) syntect \<Rightarrow> 'g \<Rightarrow> nat \<Rightarrow> str list \<Rightarrow> highlight_error + line list" where
  "highlight sx g hint ls =
     (if hint > MAX_LINES then Inl TooLong
      else highlight_loop sx ls (parse_new sx g) (stack_new sx) [])"

text \<open>The documented contract of \<^verbatim>\<open>ScopeRegionIterator\<close>: its regions cut the line in order.\<close>

definition regions_law :: "('g, 'p, 'ops, 'o, 'st, 'sc) syntect \<Rightarrow> bool" where
  "regions_law sx \<longleftrightarrow> (\<forall>ops buf. concat (map fst (regions sx ops buf)) = buf)"

lemma line_text_push_run: "line_text (push_run cls t spans) = line_text spans @ t"
proof (cases "spans = []")
  case False
  then have "line_text spans = line_text (butlast spans) @ span_text (last spans)"
    by (metis append_butlast_last_id line_text_simps(1,2,3) append_Nil2)
  then show ?thesis by (simp add: push_run_def span_new_def)
qed (simp add: push_run_def span_new_def)

lemma trim_end_no_nl: "c_nl \<notin> set t \<Longrightarrow> trim_end (\<lambda>c. c = c_nl) t = t"
  by (metis last_in_set trim_end_fix)

text \<open>A line without a newline of its own: only the one that was added is trimmed.\<close>

lemma line_loop_text:
  assumes "line_loop sx rs stack spans = Some (stack', spans')"
    "concat (map fst rs) = t @ [c_nl]" "c_nl \<notin> set t"
  shows "line_text spans' = line_text spans @ t"
  using assms
proof (induction rs arbitrary: stack spans t)
  case (Cons r rs)
  obtain u op where r: "r = (u, op)" by (cases r)
  obtain stack1 where 1: "stack_apply sx op stack = Some stack1"
    using Cons.prems(1) r by (auto simp: bind_eq_Some_conv)
  let ?u = "trim_end (\<lambda>c. c = c_nl) u"
  let ?spans = "if ?u = [] then spans else push_run (classify sx stack1) ?u spans"
  have step: "line_loop sx rs stack1 ?spans = Some (stack', spans')"
    using Cons.prems(1) r 1 by (simp add: Let_def split: if_splits)
  have spans_text: "line_text ?spans = line_text spans @ ?u" by (simp add: line_text_push_run)
  have split: "u @ concat (map fst rs) = t @ [c_nl]" using Cons.prems(2) r by simp
  show ?case
  proof (cases "concat (map fst rs) = []")
    case True
    have u: "u = t @ [c_nl]" using split unfolding True by simp
    then have "?u = t"
      using Cons.prems(3) trim_end_no_nl [of t] by (simp add: trim_end_def)
    moreover have "line_text spans' = line_text ?spans"
    proof -
      have "line_text b = line_text a"
        if "line_loop sx rs' st a = Some (st', b)" "concat (map fst rs') = []" for rs' st a st' b
        using that by (induction rs' arbitrary: st a)
          (auto simp: bind_eq_Some_conv trim_end_def Let_def split: if_splits)
      then show ?thesis using step True by blast
    qed
    ultimately show ?thesis using spans_text by simp
  next
    case False
    then obtain v where v: "concat (map fst rs) = v @ [c_nl]" "t = u @ v"
      using split by (metis append_assoc append_butlast_last_id butlast_append butlast_snoc last_appendR last_snoc)
    then have "?u = u" using Cons.prems(3) trim_end_no_nl by simp
    then show ?thesis
      using Cons.IH [OF step v(1)] v(2) Cons.prems(3) spans_text by simp
  qed
qed simp

lemma highlight_loop_text:
  assumes "regions_law sx" "\<forall>l \<in> set ls. c_nl \<notin> set l"
    "highlight_loop sx ls state stack out = Inr h"
  shows "map line_text h = map line_text out @ ls"
  using assms(2,3)
proof (induction ls arbitrary: state stack out)
  case (Cons l ls)
  obtain state1 ops stack1 spans where 1: "parse_line sx state (l @ [c_nl]) = Some (state1, ops)"
    "line_loop sx (regions sx ops (l @ [c_nl])) stack [] = Some (stack1, spans)"
    "highlight_loop sx ls state1 stack1 (out @ [spans]) = Inr h"
    using Cons.prems(2) by (auto simp: Let_def split: if_splits option.splits prod.splits)
  have "line_text spans = l"
    using line_loop_text [OF 1(2), of l] assms(1) Cons.prems(1) by (simp add: regions_law_def)
  with Cons.IH [OF _ 1(3)] Cons.prems(1) show ?case by simp
qed simp

lemma highlight_loop_bound:
  "highlight_loop sx ls state stack out = Inr h \<Longrightarrow> length out \<le> MAX_LINES \<Longrightarrow>
     length h = length out + length ls \<and> length h \<le> MAX_LINES"
proof (induction ls arbitrary: state stack out)
  case (Cons l ls)
  then show ?case
    by (auto simp: Let_def split: if_splits option.splits prod.splits) force+
qed simp

lemma highlight_bound:
  "highlight sx g hint ls = Inr h \<Longrightarrow> length h = length ls \<and> length ls \<le> MAX_LINES"
  using highlight_loop_bound [of sx ls _ _ "[]" h]
  by (fastforce simp: highlight_def split: if_splits)

lemma highlight_rebuilds:
  assumes "regions_law sx" "\<forall>l \<in> set ls. c_nl \<notin> set l" "highlight sx g hint ls = Inr h"
  shows "list_all2 rebuilds h ls"
proof -
  have "map line_text h = ls"
    using highlight_loop_text [OF assms(1,2)] assms(3) by (fastforce simp: highlight_def split: if_splits)
  then show ?thesis by (auto simp: rebuilds_iff list_all2_conv_all_nth)
qed

lemma line_at_rebuilds:
  assumes "regions_law sx" "\<forall>l \<in> set ls. c_nl \<notin> set l" "highlight sx g hint ls = Inr h"
    "line_at h n = Some l"
  shows "n \<noteq> 0 \<and> n \<le> length ls \<and> rebuilds l (ls ! (n - 1))"
  using highlight_rebuilds [OF assms(1-3)] highlight_bound [OF assms(3)] assms(4)
  by (auto simp: line_at_def list_all2_conv_all_nth split: if_splits)

section \<open>Properties\<close>

text \<open>C19: Marking ranges that are sorted, disjoint and on character boundaries never panics and
  never changes the line: each character keeps its class and comes out changed exactly when
  its byte offset lies in a range.\<close>

theorem marking_paints_the_ranges:
  assumes "ranges_sorted ranges"
    "\<forall>r \<in> set ranges. is_char_boundary (line_text l) (fst r) \<and> is_char_boundary (line_text l) (snd r)"
  shows "\<exists>out. marked l ranges = Some out \<and> line_chars out = paint ranges 0 (line_chars l) \<and>
    rebuilds out (line_text l)"
  using marked_paint [OF assms]
  by (metis line_text_chars paint_text_of rebuilds_iff)

text \<open>The example of the source's first test: \<^verbatim>\<open>x = 12\<close> with the last digit marked.\<close>

definition marking_example :: line where
  "marking_example = [span_new Plain (lit ''x = ''), span_new Number (lit ''12'')]"

theorem marking_paints_the_ranges_witness:
  "\<exists>out. marked marking_example [(5, 6)] = Some out \<and>
     line_chars out = paint [(5, 6)] 0 (line_chars marking_example) \<and>
     rebuilds out (line_text marking_example)"
  by (rule marking_paints_the_ranges)
    (simp_all add: marking_example_def span_new_def lit_def is_char_boundary_def len_utf8_def
      eval_nat_numeral)

text \<open>C28: Highlighting shows the file that was given: as many lines as the file has, never more
  than the limit, and line \<open>n\<close> of the result rebuilds line \<open>n\<close> of the text; there is no line 0
  and none past the end.\<close>

theorem highlighting_shows_the_text:
  assumes "regions_law sx" "highlight sx g hint (split_on ((=) c_nl) content) = Inr h"
  shows "length h \<le> MAX_LINES \<and>
    (case line_at h n of
       None \<Rightarrow> n = 0 \<or> length (split_on ((=) c_nl) content) < n
     | Some l \<Rightarrow> rebuilds l (split_on ((=) c_nl) content ! (n - 1)))"
proof -
  have nl: "\<forall>l \<in> set (split_on ((=) c_nl) content). c_nl \<notin> set l"
    using split_on_no_sep [of _ "(=) c_nl" content c_nl] by blast
  note bound = highlight_bound [OF assms(2)]
  show ?thesis
  proof (cases "line_at h n")
    case None
    then have "n = 0 \<or> length h < n" by (auto simp: line_at_def split: if_splits)
    with None bound show ?thesis by simp
  next
    case (Some l)
    with line_at_rebuilds [OF assms(1) nl assms(2) Some] bound show ?thesis by simp
  qed
qed

text \<open>An engine with one grammar, in which a line is one region and a line that starts with a
  hash is a comment.\<close>

definition toy_syntect :: "(unit, unit, bool, bool, bool, str) syntect" where
  "toy_syntect = \<lparr>parse_new = (\<lambda>_. ()),
     parse_line = (\<lambda>_ l. Some ((), starts_with [Cp 35] l)),
     regions = (\<lambda>ops l. [(l, ops)]),
     stack_new = False,
     stack_apply = (\<lambda>op _. Some op),
     stack_scopes = (\<lambda>st. if st then [lit ''comment''] else []),
     scope_new = Some,
     is_prefix_of = (\<lambda>a b. a = b),
     find_by_name = (\<lambda>_. None),
     find_by_token = (\<lambda>_. Some ()),
     find_by_extension = (\<lambda>_. None)\<rparr>"

lemma toy_regions_law: "regions_law toy_syntect"
  by (simp add: regions_law_def toy_syntect_def)

lemma toy_highlight:
  "highlight toy_syntect () 0 [lit ''#hi'', lit ''x''] =
     Inr [[span_new Comment (lit ''#hi'')], [span_new Plain (lit ''x'')]]"
  by (simp add: highlight_def toy_syntect_def MAX_LINES_def lit_def trim_end_def
      starts_with_def strip_prefix_def push_run_def span_new_def classify_def rules_def
      rule_table_def List.map_filter_def Let_def)

theorem highlighting_shows_the_text_witness:
  "length [[span_new Comment (lit ''#hi'')], [span_new Plain (lit ''x'')]] \<le> MAX_LINES \<and>
   (case line_at [[span_new Comment (lit ''#hi'')], [span_new Plain (lit ''x'')]] 2 of
      None \<Rightarrow> (2 :: nat) = 0 \<or> length (split_on ((=) c_nl) (lit ''#hi'' @ c_nl # lit ''x'')) < 2
    | Some l \<Rightarrow> rebuilds l (split_on ((=) c_nl) (lit ''#hi'' @ c_nl # lit ''x'') ! (2 - 1)))"
proof (rule highlighting_shows_the_text [OF toy_regions_law])
  have "split_on ((=) c_nl) (lit ''#hi'' @ c_nl # lit ''x'') = [lit ''#hi'', lit ''x'']"
    by (simp add: lit_def)
  then show "highlight toy_syntect () 0 (split_on ((=) c_nl) (lit ''#hi'' @ c_nl # lit ''x'')) =
      Inr [[span_new Comment (lit ''#hi'')], [span_new Plain (lit ''x'')]]"
    using toy_highlight by simp
qed

end
