(* ===== verification/Intraline.thy ===== *)
theory Intraline
  imports Highlight
begin

text \<open>
  \<^verbatim>\<open>crates/server/src/snapshots/intraline.rs\<close>: which words changed inside an edited line.
  \<open>alnum\<close> stands for \<^verbatim>\<open>char::is_alphanumeric\<close> (a Unicode table), and \<open>capture\<close> for
  \<^verbatim>\<open>capture_diff_slices\<close> of the crate \<^verbatim>\<open>similar\<close>, of which the code relies on \<open>diff_law\<close>.
  A slice that would panic is \<open>None\<close>, so \<open>changes\<close> returns an option of the Rust option. The
  lemmas show that nothing panics, that the marks are what \<^verbatim>\<open>Line::marked\<close> asks for, and that
  they account for every difference between the two lines but spacing.
\<close>

definition MAX_LINE :: nat where
  "MAX_LINE = 400"

datatype diff_tag = Equal | Delete | Insert | Replace

type_synonym diff_op = "diff_tag \<times> range \<times> range"

record changes =
  old_marks :: "range list"
  new_marks :: "range list"

section \<open>Tokens\<close>

datatype token_kind = Word | Space | Symbol

definition token_kind_of :: "(rchar \<Rightarrow> bool) \<Rightarrow> rchar \<Rightarrow> token_kind" where
  "token_kind_of alnum c =
     (if alnum c \<or> c = c_underscore then Word else if is_whitespace c then Space else Symbol)"

text \<open>The loop over \<^verbatim>\<open>char_indices\<close>: \<open>pos\<close> (\<^verbatim>\<open>at\<close> in the source) is the byte offset of the next character.\<close>

fun tokens_loop ::
    "(rchar \<Rightarrow> bool) \<Rightarrow> str \<Rightarrow> nat \<Rightarrow> token_kind option \<Rightarrow> range list \<Rightarrow> range list" where
  "tokens_loop alnum [] pos lst out = out"
| "tokens_loop alnum (c # cs) pos lst out =
     (let k = token_kind_of alnum c;
          fin = pos + len_utf8 c;
          out = (if out \<noteq> [] \<and> lst = Some k \<and> k \<noteq> Symbol
                 then butlast out @ [(fst (last out), fin)]
                 else out @ [(pos, fin)])
      in tokens_loop alnum cs fin (Some k) out)"

definition tokens :: "(rchar \<Rightarrow> bool) \<Rightarrow> str \<Rightarrow> range list" where
  "tokens alnum line = tokens_loop alnum line 0 None []"

definition get :: "'a list \<Rightarrow> nat \<Rightarrow> 'a option" where
  "get xs i = (if i < length xs then Some (xs ! i) else None)"

text \<open>\<open>span_of\<close> is the function \<^verbatim>\<open>span\<close> of the source.\<close>

definition span_of :: "range list \<Rightarrow> range \<Rightarrow> range option" where
  "span_of toks run =
     (case get toks (fst run) of
        None \<Rightarrow> None
      | Some a \<Rightarrow>
          if snd run = 0 then None
          else (case get toks (snd run - 1) of None \<Rightarrow> None | Some b \<Rightarrow> Some (fst a, snd b)))"

definition weight :: "str \<Rightarrow> nat" where
  "weight t = sum_list (map len_utf8 (filter (\<lambda>c. \<not> is_whitespace c) t))"

fun join_loop :: "str \<Rightarrow> range list \<Rightarrow> range list \<Rightarrow> range list option" where
  "join_loop line [] out = Some out"
| "join_loop line (r # rs) out =
     (if out = [] then join_loop line rs [r]
      else do {
        gap \<leftarrow> slice line (snd (last out), fst r);
        if list_all is_whitespace gap
        then join_loop line rs (butlast out @ [(fst (last out), snd r)])
        else join_loop line rs (out @ [r])
      })"

definition join :: "range list \<Rightarrow> str \<Rightarrow> range list option" where
  "join ranges line = join_loop line ranges []"

definition covers :: "range list \<Rightarrow> str \<Rightarrow> bool" where
  "covers ranges line =
     (let trimmed = trim line in
      if trimmed = [] then True
      else (let start = blen line - blen (trim_start is_whitespace line);
                fin = start + blen trimmed
            in list_ex (\<lambda>r. fst r \<le> start \<and> fin \<le> snd r) ranges))"

text \<open>The loop over the diff's operations: \<open>gone\<close>, \<open>added\<close> and \<open>shared\<close> are its variables.\<close>

definition opt_list :: "'a option \<Rightarrow> 'a list" where
  "opt_list v = (case v of None \<Rightarrow> [] | Some x \<Rightarrow> [x])"

fun tally ::
    "str \<Rightarrow> range list \<Rightarrow> range list \<Rightarrow> diff_op list \<Rightarrow> range list \<Rightarrow> range list \<Rightarrow> nat \<Rightarrow>
       (range list \<times> range list \<times> nat) option" where
  "tally old old_tokens new_tokens [] gone added shared = Some (gone, added, shared)"
| "tally old old_tokens new_tokens ((tag, old_at, new_at) # ops) gone added shared =
     (if tag = Equal
      then (case span_of old_tokens old_at of
              None \<Rightarrow> tally old old_tokens new_tokens ops gone added shared
            | Some r \<Rightarrow> do {
                t \<leftarrow> slice old r;
                tally old old_tokens new_tokens ops gone added (shared + weight t)
              })
      else tally old old_tokens new_tokens ops
             (gone @ opt_list (span_of old_tokens old_at))
             (added @ opt_list (span_of new_tokens new_at)) shared)"

text \<open>\<open>those\<close> is the collection of the slices: one panic is a panic of the whole.\<close>

definition words_of :: "range list \<Rightarrow> str \<Rightarrow> str list option" where
  "words_of toks line = those (map (slice line) toks)"

definition compute_changes ::
    "(rchar \<Rightarrow> bool) \<Rightarrow> (str list \<Rightarrow> str list \<Rightarrow> diff_op list) \<Rightarrow> str \<Rightarrow> str \<Rightarrow> changes option option"
  where
  "compute_changes alnum capture old new =
     (if old = new \<or> blen old > MAX_LINE \<or> blen new > MAX_LINE then Some None
      else do {
        let old_tokens = tokens alnum old;
        let new_tokens = tokens alnum new;
        old_words \<leftarrow> words_of old_tokens old;
        new_words \<leftarrow> words_of new_tokens new;
        (gone, added, shared) \<leftarrow>
          tally old old_tokens new_tokens (capture old_words new_words) [] [] 0;
        if shared * 2 < min (weight old) (weight new) then Some None
        else do {
          olds \<leftarrow> join gone old;
          news \<leftarrow> join added new;
          if covers olds old \<or> covers news new then Some None
          else Some (Some \<lparr>old_marks = olds, new_marks = news\<rparr>)
        }
      })"

section \<open>Tokens cut the line\<close>

fun ranges_of :: "nat \<Rightarrow> str list \<Rightarrow> range list" where
  "ranges_of a [] = []"
| "ranges_of a (w # ws) = (a, a + blen w) # ranges_of (a + blen w) ws"

lemma length_ranges_of [simp]: "length (ranges_of a ws) = length ws"
  by (induction ws arbitrary: a) simp_all

lemma ranges_of_append:
  "ranges_of a (ws @ vs) = ranges_of a ws @ ranges_of (a + blen (concat ws)) vs"
  by (induction ws arbitrary: a) (simp_all add: add.assoc)

lemma nth_ranges_of:
  "i < length ws \<Longrightarrow> ranges_of a ws ! i =
     (a + blen (concat (take i ws)), a + blen (concat (take (Suc i) ws)))"
proof (induction ws arbitrary: a i)
  case (Cons w ws)
  then show ?case by (cases i) (simp_all add: add.assoc)
qed simp

lemma tokens_loop_words:
  "out = ranges_of 0 ws \<Longrightarrow> blen (concat ws) = pos \<Longrightarrow> [] \<notin> set ws \<Longrightarrow>
     \<exists>ws'. tokens_loop alnum cs pos lst out = ranges_of 0 ws' \<and> concat ws' = concat ws @ cs \<and>
       [] \<notin> set ws'"
proof (induction cs arbitrary: pos lst out ws)
  case (Cons c cs)
  let ?k = "token_kind_of alnum c"
  let ?merge = "out \<noteq> [] \<and> lst = Some ?k \<and> ?k \<noteq> Symbol"
  let ?ws = "if ?merge then butlast ws @ [last ws @ [c]] else ws @ [[c]]"
  let ?out = "if ?merge then butlast out @ [(fst (last out), pos + len_utf8 c)]
    else out @ [(pos, pos + len_utf8 c)]"
  have nonempty: "ws \<noteq> []" if "out \<noteq> []" using that Cons.prems(1) by auto
  have "?out = ranges_of 0 ?ws \<and> concat ?ws = concat ws @ [c] \<and> [] \<notin> set ?ws"
  proof (cases ?merge)
    case True
    then obtain vs w where ws: "ws = vs @ [w]" using nonempty by (metis rev_exhaust)
    then have "out = ranges_of 0 vs @ [(blen (concat vs), pos)]"
      using Cons.prems(1,2) by (simp add: ranges_of_append)
    with ws True Cons.prems(2,3) show ?thesis by (simp add: ranges_of_append)
  next
    case False
    then show ?thesis using Cons.prems by (auto simp: ranges_of_append)
  qed
  then show ?case
    using Cons.IH [of ?out ?ws "pos + len_utf8 c" "Some ?k"] Cons.prems(2) by (simp add: Let_def)
qed auto

lemma tokens_words:
  obtains ws where "tokens alnum line = ranges_of 0 ws" "concat ws = line" "[] \<notin> set ws"
  using tokens_loop_words [of "[]" "[]" 0 alnum line None] by (auto simp: tokens_def)

lemma words_of_ranges:
  "line = p @ concat ws \<Longrightarrow> words_of (ranges_of (blen p) ws) line = Some ws"
proof (induction ws arbitrary: p)
  case (Cons w ws)
  have "slice line (blen p, blen p + blen w) = Some w"
    unfolding slice_Some using Cons.prems by auto
  with Cons.IH [of "p @ w"] Cons.prems show ?case by (simp add: words_of_def)
qed (simp add: words_of_def)

section \<open>What is left unmarked\<close>

text \<open>The text of a line, spacing aside, that no mark covers.\<close>

fun kept :: "range list \<Rightarrow> nat \<Rightarrow> str \<Rightarrow> str" where
  "kept rs i [] = []"
| "kept rs i (c # t) =
     (if is_whitespace c \<or> covered rs i then kept rs (i + len_utf8 c) t
      else c # kept rs (i + len_utf8 c) t)"

abbreviation inked :: "str \<Rightarrow> str" where
  "inked t \<equiv> filter (\<lambda>c. \<not> is_whitespace c) t"

lemma weight_inked: "weight t = blen (inked t)"
  by (simp add: weight_def blen_def)

lemma kept_append: "kept rs i (s @ t) = kept rs i s @ kept rs (i + blen s) t"
  by (induction s arbitrary: i) (simp_all add: add.assoc)

lemma kept_cong:
  "(\<And>p c q. t = p @ c # q \<Longrightarrow> \<not> is_whitespace c \<Longrightarrow>
      covered rs (i + blen p) = covered rs' (i + blen p)) \<Longrightarrow> kept rs i t = kept rs' i t"
proof (induction t arbitrary: i)
  case (Cons c t)
  have "kept rs (i + len_utf8 c) t = kept rs' (i + len_utf8 c) t"
  proof (rule Cons.IH)
    fix p d q assume "t = p @ d # q" "\<not> is_whitespace d"
    then show "covered rs (i + len_utf8 c + blen p) = covered rs' (i + len_utf8 c + blen p)"
      using Cons.prems [of "c # p" d q] by (simp add: add.assoc)
  qed
  moreover have "is_whitespace c \<or> covered rs i = covered rs' i"
    using Cons.prems [of "[]" c t] by auto
  ultimately show ?case by auto
qed simp

lemma kept_range_cong:
  "(\<And>j. i \<le> j \<Longrightarrow> j < i + blen t \<Longrightarrow> covered rs j = covered rs' j) \<Longrightarrow> kept rs i t = kept rs' i t"
  by (rule kept_cong) simp

lemma kept_none: "(\<And>j. i \<le> j \<Longrightarrow> j < i + blen t \<Longrightarrow> \<not> covered rs j) \<Longrightarrow> kept rs i t = inked t"
  by (induction t arbitrary: i) (simp_all add: add.assoc)

lemma kept_all: "(\<And>j. i \<le> j \<Longrightarrow> j < i + blen t \<Longrightarrow> covered rs j) \<Longrightarrow> kept rs i t = []"
  by (induction t arbitrary: i) (simp_all add: add.assoc)

section \<open>Joining\<close>

text \<open>What the marks of a line must satisfy.\<close>

definition good_ranges :: "str \<Rightarrow> range list \<Rightarrow> bool" where
  "good_ranges line rs \<longleftrightarrow> ranges_sorted rs \<and> (\<forall>b \<in> ends_of rs. is_char_boundary line b)"

lemma good_ranges_Nil [simp]: "good_ranges line []"
  by (simp add: good_ranges_def)

lemma ranges_sorted_append:
  "ranges_sorted (rs @ qs) \<longleftrightarrow> ranges_sorted rs \<and> ranges_sorted qs \<and>
     (\<forall>r \<in> set rs. \<forall>q \<in> set qs. snd r \<le> fst q)"
  by (auto simp: ranges_sorted_def sorted_wrt_append)

lemma ends_of_append [simp]: "ends_of (rs @ qs) = ends_of rs \<union> ends_of qs"
  by (auto simp: ends_of_def)

lemma covered_append [simp]: "covered (rs @ qs) i \<longleftrightarrow> covered rs i \<or> covered qs i"
  by (auto simp: covered_def)

lemma slice_inside:
  assumes "slice line (a, b) = Some gap" "line = p @ c # q" "a \<le> blen p" "blen p < b"
  shows "c \<in> set gap"
proof -
  obtain u v where u: "line = u @ gap @ v" "blen u = a" "blen u + blen gap = b"
    using assms(1) slice_Some by blast
  then obtain m where m: "p = u @ m" "gap @ v = m @ c # q"
    using append_blen_le_prefix [of u "gap @ v" p "c # q"] assms by auto
  show ?thesis
  proof (rule ccontr)
    assume no: "c \<notin> set gap"
    have "blen m < blen gap" using m(1) u assms(4) by simp
    then obtain w where "gap = m @ w" "c # q = w @ v"
      using append_blen_le_prefix [of m "c # q" gap v] m(2) by auto
    then show False
      using no \<open>blen m < blen gap\<close> by (cases w) auto
  qed
qed

lemma join_loop_good:
  assumes "good_ranges line (out @ rs)"
  shows "\<exists>out'. join_loop line rs out = Some out' \<and> good_ranges line out' \<and>
    (\<forall>p c q. line = p @ c # q \<longrightarrow> \<not> is_whitespace c \<longrightarrow>
       covered out' (blen p) = covered (out @ rs) (blen p))"
  using assms
proof (induction line rs out rule: join_loop.induct)
  case (2 line r rs out)
  show ?case
  proof (cases "out = []")
    case True
    with 2 show ?thesis by simp
  next
    case False
    define o1 a b where "o1 = butlast out" "a = fst (last out)" "b = snd (last out)"
    then have out: "out = o1 @ [(a, b)]" using False by simp
    obtain c d where r: "r = (c, d)" by (cases r)
    have bounds: "is_char_boundary line b" "is_char_boundary line c" "b \<le> c" "a \<le> b" "c \<le> d"
      using 2(4) by (auto simp: good_ranges_def out r ranges_sorted_append)
    obtain gap where gap: "slice line (b, c) = Some gap"
      using slice_boundaries [OF bounds(1-3)] by blast
    show ?thesis
    proof (cases "list_all is_whitespace gap")
      case white: True
      have good: "good_ranges line ((o1 @ [(a, d)]) @ rs)"
        using 2(4) bounds by (auto simp: good_ranges_def out r ranges_sorted_append)
      have same: "covered (o1 @ [(a, d)]) (blen p) = covered (out @ [r]) (blen p)"
        if "line = p @ x # q" "\<not> is_whitespace x" for p x q
      proof -
        have "\<not> (b \<le> blen p \<and> blen p < c)"
          using slice_inside [OF gap that(1)] white that(2) by (auto simp: list_all_iff)
        then show ?thesis using bounds by (auto simp: out r)
      qed
      from 2(2) [OF False _ white] gap good obtain out' where
        "join_loop line rs (o1 @ [(a, d)]) = Some out'" "good_ranges line out'"
        "\<forall>p x q. line = p @ x # q \<longrightarrow> \<not> is_whitespace x \<longrightarrow>
           covered out' (blen p) = covered ((o1 @ [(a, d)]) @ rs) (blen p)"
        by (auto simp: out r)
      note joined = this
      have "join_loop line (r # rs) out = Some out'"
        using False gap white joined(1) by (simp add: out r)
      moreover have "covered out' (blen p) = covered (out @ r # rs) (blen p)"
        if "line = p @ x # q" "\<not> is_whitespace x" for p x q
      proof -
        have "covered out' (blen p) = covered ((o1 @ [(a, d)]) @ rs) (blen p)"
          using joined(3) that by blast
        also have "\<dots> = covered (out @ r # rs) (blen p)"
          using same [OF that] by (auto simp only: covered_append covered_simps append_Cons append_Nil)
        finally show ?thesis .
      qed
      ultimately show ?thesis using joined(2) by blast
    next
      case black: False
      from 2(3) [OF False _ black] gap 2(4) show ?thesis using False black by (auto simp: out r)
    qed
  qed
qed auto

lemma join_good:
  assumes "good_ranges line rs"
  obtains out where "join rs line = Some out" "good_ranges line out" "kept out 0 line = kept rs 0 line"
proof -
  obtain out where "join_loop line rs [] = Some out" "good_ranges line out"
    "\<forall>p c q. line = p @ c # q \<longrightarrow> \<not> is_whitespace c \<longrightarrow> covered out (blen p) = covered rs (blen p)"
    using join_loop_good [of line "[]" rs] assms by auto
  then show thesis by (intro that [of out]) (auto simp: join_def intro: kept_cong)
qed


section \<open>What the diff contributes\<close>

definition segment :: "'a list \<Rightarrow> range \<Rightarrow> 'a list" where
  "segment ws r = take (snd r - fst r) (drop (fst r) ws)"

text \<open>
  The documented contract of \<^verbatim>\<open>capture_diff_slices\<close>: in order, the operations cover both
  sequences from end to end, and an \<open>Equal\<close> one covers the same items on both sides.
\<close>

fun side_ok :: "(diff_op \<Rightarrow> range) \<Rightarrow> diff_op list \<Rightarrow> 'a list \<Rightarrow> nat \<Rightarrow> bool" where
  "side_ok sel [] ws i \<longleftrightarrow> i = length ws"
| "side_ok sel (op # ops) ws i \<longleftrightarrow>
     fst (sel op) = i \<and> i \<le> snd (sel op) \<and> snd (sel op) \<le> length ws \<and> side_ok sel ops ws (snd (sel op))"

abbreviation old_at :: "diff_op \<Rightarrow> range" where "old_at op \<equiv> fst (snd op)"
abbreviation new_at :: "diff_op \<Rightarrow> range" where "new_at op \<equiv> snd (snd op)"

definition diff_law :: "(str list \<Rightarrow> str list \<Rightarrow> diff_op list) \<Rightarrow> bool" where
  "diff_law capture \<longleftrightarrow> (\<forall>a b.
     side_ok (\<lambda>op. old_at op) (capture a b) a 0 \<and> side_ok (\<lambda>op. new_at op) (capture a b) b 0 \<and>
     (\<forall>op \<in> set (capture a b). fst op = Equal \<longrightarrow> segment a (old_at op) = segment b (new_at op)))"

fun gone_of :: "range list \<Rightarrow> (diff_op \<Rightarrow> range) \<Rightarrow> diff_op list \<Rightarrow> range list" where
  "gone_of toks sel [] = []"
| "gone_of toks sel (op # ops) =
     (if fst op = Equal then [] else opt_list (span_of toks (sel op))) @ gone_of toks sel ops"

fun same_of :: "str list \<Rightarrow> (diff_op \<Rightarrow> range) \<Rightarrow> diff_op list \<Rightarrow> str" where
  "same_of ws sel [] = []"
| "same_of ws sel (op # ops) =
     (if fst op = Equal then inked (concat (segment ws (sel op))) else []) @ same_of ws sel ops"

definition pos_of :: "str list \<Rightarrow> nat \<Rightarrow> nat" where
  "pos_of ws i = blen (concat (take i ws))"

lemma pos_of_segment:
  "i \<le> j \<Longrightarrow> pos_of ws j = pos_of ws i + blen (concat (segment ws (i, j)))"
proof -
  assume "i \<le> j"
  then have "take j ws = take i ws @ segment ws (i, j)"
    by (metis append_take_drop_id fst_conv le_add_diff_inverse segment_def snd_conv take_add)
  then show ?thesis by (simp add: pos_of_def)
qed

lemma drop_segment: "i \<le> j \<Longrightarrow> drop i ws = segment ws (i, j) @ drop j ws"
  unfolding segment_def fst_conv snd_conv
  by (metis append_take_drop_id drop_drop le_add_diff_inverse2)

lemma span_of_ranges:
  assumes "i \<le> j" "j \<le> length ws"
  shows "span_of (ranges_of 0 ws) (i, j) =
    (if i < length ws \<and> j \<noteq> 0 then Some (pos_of ws i, pos_of ws j) else None)"
  using assms by (auto simp: span_of_def get_def nth_ranges_of pos_of_def)

lemma pos_boundary: "is_char_boundary (concat ws) (pos_of ws i)"
proof -
  have "concat ws = concat (take i ws) @ concat (drop i ws)"
    by (metis append_take_drop_id concat_append)
  then show ?thesis unfolding is_char_boundary_iff pos_of_def by blast
qed

lemma opt_span_of:
  assumes "fst r \<le> snd r" "snd r \<le> length ws" "q \<in> set (opt_list (span_of (ranges_of 0 ws) r))"
  shows "q = (pos_of ws (fst r), pos_of ws (snd r))"
  using assms span_of_ranges [of "fst r" "snd r" ws] by (auto simp: opt_list_def split: if_splits)

lemma gone_of_good:
  "side_ok sel ops ws i \<Longrightarrow> good_ranges (concat ws) (gone_of (ranges_of 0 ws) sel ops) \<and>
     (\<forall>r \<in> set (gone_of (ranges_of 0 ws) sel ops). pos_of ws i \<le> fst r)"
proof (induction sel ops ws i rule: side_ok.induct)
  case (2 sel op ops ws i)
  let ?r = "sel op" and ?toks = "ranges_of 0 ws"
  have r: "fst ?r = i" "i \<le> snd ?r" "snd ?r \<le> length ws" using 2(2) by simp_all
  have IH: "good_ranges (concat ws) (gone_of ?toks sel ops)"
    "\<forall>q \<in> set (gone_of ?toks sel ops). pos_of ws (snd ?r) \<le> fst q"
    using 2 by simp_all
  have le: "pos_of ws i \<le> pos_of ws (snd ?r)" using pos_of_segment [OF r(2)] by simp
  have own: "\<And>q. q \<in> set (opt_list (span_of ?toks ?r)) \<Longrightarrow> q = (pos_of ws i, pos_of ws (snd ?r))"
    using opt_span_of [of ?r ws] r by simp
  have single: "opt_list (span_of ?toks ?r) = [] \<or>
      opt_list (span_of ?toks ?r) = [(pos_of ws i, pos_of ws (snd ?r))]"
    using own by (auto simp: opt_list_def split: option.splits)
  then show ?case
    using IH le pos_boundary [of ws] by (auto simp: good_ranges_def intro: order_trans)
qed simp

lemma kept_gone_of:
  "side_ok sel ops ws i \<Longrightarrow>
     kept (gone_of (ranges_of 0 ws) sel ops) (pos_of ws i) (concat (drop i ws)) = same_of ws sel ops"
proof (induction sel ops ws i rule: side_ok.induct)
  case (2 sel op ops ws i)
  let ?r = "sel op" and ?toks = "ranges_of 0 ws"
  let ?own = "if fst op = Equal then [] else opt_list (span_of ?toks ?r)"
  let ?rest = "gone_of ?toks sel ops"
  let ?seg = "concat (segment ws ?r)"
  have r: "fst ?r = i" "i \<le> snd ?r" "snd ?r \<le> length ws" using 2(2) by simp_all
  have seg: "segment ws (i, snd ?r) = segment ws ?r" using r by (simp add: segment_def)
  have drop: "concat (drop i ws) = ?seg @ concat (drop (snd ?r) ws)"
    using drop_segment [OF r(2), of ws] seg by simp
  have pos: "pos_of ws (snd ?r) = pos_of ws i + blen ?seg"
    using pos_of_segment [OF r(2), of ws] seg by simp
  have rest: "\<not> covered ?rest j" if "j < pos_of ws (snd ?r)" for j
    using gone_of_good [of sel ops ws "snd ?r"] 2(2) that by (fastforce simp: covered_def)
  have own: "\<not> covered ?own j" if "pos_of ws (snd ?r) \<le> j" for j
    using opt_span_of [of ?r ws] r that by (fastforce simp: covered_def split: if_splits)
  have "kept (?own @ ?rest) (pos_of ws i) ?seg = (if fst op = Equal then inked ?seg else [])"
  proof (cases "fst op = Equal")
    case True
    then show ?thesis using rest pos by (simp add: kept_none)
  next
    case False
    show ?thesis
    proof (cases "i < snd ?r")
      case True
      then have "span_of ?toks ?r = Some (pos_of ws i, pos_of ws (snd ?r))"
        using span_of_ranges [of i "snd ?r" ws] r by (metis less_le_trans not_less0 prod.collapse)
      then show ?thesis using False pos by (simp add: opt_list_def kept_all)
    next
      case False
      then have "segment ws ?r = []" using r by (simp add: segment_def)
      then show ?thesis by simp
    qed
  qed
  moreover have "kept (?own @ ?rest) (pos_of ws (snd ?r)) (concat (drop (snd ?r) ws)) =
      kept ?rest (pos_of ws (snd ?r)) (concat (drop (snd ?r) ws))"
    using own by (intro kept_range_cong) (simp only: covered_append, blast)
  ultimately show ?case
    using 2 drop pos by (simp add: kept_append)
qed simp

lemma slice_segment:
  assumes "i \<le> j"
  shows "slice (concat ws) (pos_of ws i, pos_of ws j) = Some (concat (segment ws (i, j)))"
  unfolding slice_Some
proof (intro exI conjI)
  show "concat ws = concat (take i ws) @ concat (segment ws (i, j)) @ concat (drop j ws)"
    using drop_segment [OF assms, of ws] by (metis append_take_drop_id concat_append)
qed (use pos_of_segment [OF assms, of ws] in \<open>simp_all add: pos_of_def\<close>)

lemma tally_eq:
  "side_ok (\<lambda>op. old_at op) ops wo i \<Longrightarrow>
     tally (concat wo) (ranges_of 0 wo) (ranges_of 0 wn) ops gone added shared =
     Some (gone @ gone_of (ranges_of 0 wo) (\<lambda>op. old_at op) ops,
       added @ gone_of (ranges_of 0 wn) (\<lambda>op. new_at op) ops,
       shared + blen (same_of wo (\<lambda>op. old_at op) ops))"
proof (induction ops arbitrary: i gone added shared)
  case (Cons op ops)
  obtain tag o1 n1 where op: "op = (tag, o1, n1)" by (cases op)
  have r: "fst o1 = i" "i \<le> snd o1" "snd o1 \<le> length wo"
    and ok: "side_ok (\<lambda>op. old_at op) ops wo (snd o1)" using Cons.prems op by simp_all
  have o1: "o1 = (i, snd o1)" using r(1) by auto
  show ?case
  proof (cases "tag = Equal")
    case False
    with op Cons.IH [OF ok] show ?thesis by simp
  next
    case True
    note span = span_of_ranges [OF r(2,3), folded o1]
    show ?thesis
    proof (cases "i < length wo \<and> snd o1 \<noteq> 0")
      case some: True
      with span True op Cons.IH [OF ok] slice_segment [OF r(2), of wo, folded o1] show ?thesis
        by (simp add: weight_inked)
    next
      case False
      then have "segment wo o1 = []" using r by (auto simp: segment_def)
      with False span True op Cons.IH [OF ok] show ?thesis by auto
    qed
  qed
qed simp

lemma same_of_eq:
  "\<forall>op \<in> set ops. fst op = Equal \<longrightarrow> segment a (old_at op) = segment b (new_at op) \<Longrightarrow>
     same_of a (\<lambda>op. old_at op) ops = same_of b (\<lambda>op. new_at op) ops"
  by (induction ops) auto

section \<open>The marks of an edited line\<close>

text \<open>
  No slice panics; when there are marks, they are in order and on character boundaries on
  both sides, what they leave of the two lines is the same text but for spacing, and it is at
  least half of the shorter line.
\<close>

definition sound_changes :: "str \<Rightarrow> str \<Rightarrow> changes \<Rightarrow> bool" where
  "sound_changes old new ch \<longleftrightarrow>
     good_ranges old (old_marks ch) \<and> good_ranges new (new_marks ch) \<and>
     kept (old_marks ch) 0 old = kept (new_marks ch) 0 new \<and>
     min (weight old) (weight new) \<le> 2 * blen (kept (old_marks ch) 0 old) \<and>
     blen old \<le> MAX_LINE \<and> blen new \<le> MAX_LINE \<and> old \<noteq> new"

lemma compute_changes_sound:
  assumes "diff_law capture"
  shows "\<exists>res. compute_changes alnum capture old new = Some res \<and>
    (\<forall>ch. res = Some ch \<longrightarrow> sound_changes old new ch)"
proof (cases "old = new \<or> blen old > MAX_LINE \<or> blen new > MAX_LINE")
  case True
  then show ?thesis by (simp add: compute_changes_def)
next
  case False
  obtain wo where wo: "tokens alnum old = ranges_of 0 wo" "concat wo = old"
    using tokens_words by blast
  obtain wn where wn: "tokens alnum new = ranges_of 0 wn" "concat wn = new"
    using tokens_words by blast
  let ?ops = "capture wo wn"
  let ?gone = "gone_of (ranges_of 0 wo) (\<lambda>op. old_at op) ?ops"
  let ?added = "gone_of (ranges_of 0 wn) (\<lambda>op. new_at op) ?ops"
  let ?same = "same_of wo (\<lambda>op. old_at op) ?ops"
  have ok: "side_ok (\<lambda>op. old_at op) ?ops wo 0" "side_ok (\<lambda>op. new_at op) ?ops wn 0"
    and same: "?same = same_of wn (\<lambda>op. new_at op) ?ops"
    using assms same_of_eq by (auto simp: diff_law_def)
  have good: "good_ranges old ?gone" "good_ranges new ?added"
    using gone_of_good [OF ok(1)] gone_of_good [OF ok(2)] wo(2) wn(2) by simp_all
  have kept: "kept ?gone 0 old = ?same" "kept ?added 0 new = ?same"
    using kept_gone_of [OF ok(1)] kept_gone_of [OF ok(2)] wo(2) wn(2) same
    by (simp_all add: pos_of_def)
  have words: "words_of (tokens alnum old) old = Some wo" "words_of (tokens alnum new) new = Some wn"
    using words_of_ranges [of old "[]" wo] words_of_ranges [of new "[]" wn] wo wn by simp_all
  have tally: "tally old (tokens alnum old) (tokens alnum new) ?ops [] [] 0 =
      Some (?gone, ?added, blen ?same)"
    using tally_eq [OF ok(1), of wn "[]" "[]" 0] wo wn by simp
  obtain olds where olds: "join ?gone old = Some olds" "good_ranges old olds" "kept olds 0 old = ?same"
    using join_good [OF good(1)] kept(1) by metis
  obtain news where news: "join ?added new = Some news" "good_ranges new news" "kept news 0 new = ?same"
    using join_good [OF good(2)] kept(2) by metis
  show ?thesis
    using False words tally olds news
    by (auto simp: compute_changes_def Let_def sound_changes_def)
qed

section \<open>Properties\<close>

text \<open>A diff of the kind the contract allows: the common start, and everything after it.\<close>

fun common :: "'a list \<Rightarrow> 'a list \<Rightarrow> nat" where
  "common (a # as) (b # bs) = (if a = b then Suc (common as bs) else 0)"
| "common _ _ = 0"

lemma common_take: "take (common a b) a = take (common a b) b"
  by (induction a b rule: common.induct) auto

lemma common_le: "common a b \<le> length a \<and> common a b \<le> length b"
  by (induction a b rule: common.induct) auto

definition prefix_capture :: "str list \<Rightarrow> str list \<Rightarrow> diff_op list" where
  "prefix_capture a b = (let n = common a b in
     [(Equal, (0, n), (0, n)), (Replace, (n, length a), (n, length b))])"

lemma prefix_capture_law: "diff_law prefix_capture"
  using common_take common_le by (auto simp: diff_law_def prefix_capture_def Let_def segment_def)

text \<open>A diff that knows one insertion in the middle, as Myers' algorithm reports it.\<close>

definition insert_capture :: "str list \<Rightarrow> str list \<Rightarrow> diff_op list" where
  "insert_capture a b =
     (if length a = 3 \<and> length b = 5 \<and> take 2 a = take 2 b \<and> drop 2 a = drop 4 b
      then [(Equal, (0, 2), (0, 2)), (Insert, (2, 2), (2, 4)), (Equal, (2, 3), (4, 5))]
      else prefix_capture a b)"

lemma insert_capture_law: "diff_law insert_capture"
  unfolding diff_law_def
proof (intro allI)
  fix a b :: "str list"
  let ?law = "\<lambda>ops. side_ok old_at ops a 0 \<and> side_ok new_at ops b 0 \<and>
    (\<forall>op \<in> set ops. fst op = Equal \<longrightarrow> segment a (old_at op) = segment b (new_at op))"
  show "?law (insert_capture a b)"
  proof (cases "length a = 3 \<and> length b = 5 \<and> take 2 a = take 2 b \<and> drop 2 a = drop 4 b")
    case True
    then have "insert_capture a b =
        [(Equal, (0, 2), (0, 2)), (Insert, (2, 2), (2, 4)), (Equal, (2, 3), (4, 5))]"
      by (simp add: insert_capture_def)
    with True show ?thesis by (simp add: segment_def)
  next
    case False
    then have "insert_capture a b = prefix_capture a b" 
      by (simp only: insert_capture_def if_False)
    then show ?thesis using prefix_capture_law by (simp add: diff_law_def)
  qed
qed

text \<open>C27: Comparing two versions of a line never panics, and the marks it returns are sound:
  in order and on character boundaries of their lines, what they leave unmarked is the same
  text on both sides but for spacing, and that text is at least half of the shorter line.\<close>

theorem changes_are_sound:
  assumes "diff_law capture"
  shows "\<exists>res. compute_changes alnum capture old new = Some res \<and>
    (\<forall>ch. res = Some ch \<longrightarrow> sound_changes old new ch)"
  using compute_changes_sound [OF assms] .

theorem changes_are_sound_witness:
  "\<exists>res. compute_changes is_ascii_alphanumeric prefix_capture (lit ''x = foo(a, b)'')
       (lit ''x = foo(a, c)'') = Some res \<and>
    (\<forall>ch. res = Some ch \<longrightarrow> sound_changes (lit ''x = foo(a, b)'') (lit ''x = foo(a, c)'') ch)"
  by (rule changes_are_sound [OF prefix_capture_law])

lemmas changes_eval = tokens_def token_kind_of_def
  words_of_def slice_def split_byte_eval span_of_def get_def weight_def join_def covers_def
  trim_def trim_matches_def trim_start_def trim_end_def is_whitespace_def ascii_defs
  len_utf8_def opt_list_def

text \<open>A word inserted inside a line leaves an empty range among the marks of the old line,
  although nothing of it is gone: \<^verbatim>\<open>f(a\<close> edited to \<^verbatim>\<open>f(b,a\<close>.\<close>

theorem insertion_marks_old_line:
  "compute_changes is_ascii_alphanumeric insert_capture (lit ''f(a'') (lit ''f(b,a'') =
     Some (Some \<lparr>old_marks = [(2, 2)], new_marks = [(2, 4)]\<rparr>)"
proof -
  let ?o = "[Cp 102, Cp 40, Cp 97]" and ?n = "[Cp 102, Cp 40, Cp 98, Cp 44, Cp 97]"
  have lits: "lit ''f(a'' = ?o" "lit ''f(b,a'' = ?n" by (simp_all add: lit_def)
  have toks: "tokens is_ascii_alphanumeric ?o = [(0, 1), (1, 2), (2, 3)]"
    "tokens is_ascii_alphanumeric ?n = [(0, 1), (1, 2), (2, 3), (3, 4), (4, 5)]"
    by (simp_all add: changes_eval)
  have words: "words_of [(0, 1), (1, 2), (2, 3)] ?o = Some [[Cp 102], [Cp 40], [Cp 97]]"
    "words_of [(0, 1), (1, 2), (2, 3), (3, 4), (4, 5)] ?n =
       Some [[Cp 102], [Cp 40], [Cp 98], [Cp 44], [Cp 97]]"
    by (simp_all add: changes_eval)
  have cap: "insert_capture [[Cp 102], [Cp 40], [Cp 97]] [[Cp 102], [Cp 40], [Cp 98], [Cp 44], [Cp 97]] =
      [(Equal, (0, 2), (0, 2)), (Insert, (2, 2), (2, 4)), (Equal, (2, 3), (4, 5))]"
    by (simp add: insert_capture_def)
  have tal: "tally ?o [(0, 1), (1, 2), (2, 3)] [(0, 1), (1, 2), (2, 3), (3, 4), (4, 5)]
      [(Equal, (0, 2), (0, 2)), (Insert, (2, 2), (2, 4)), (Equal, (2, 3), (4, 5))] [] [] 0 =
      Some ([(2, 2)], [(2, 4)], 3)"
    by (simp add: changes_eval)
  have w: "weight ?o = 3" "weight ?n = 5" by (simp_all add: changes_eval)
  have j: "join [(2, 2)] ?o = Some [(2, 2)]" "join [(2, 4)] ?n = Some [(2, 4)]"
    by (simp_all add: join_def)
  have c: "\<not> covers [(2, 2)] ?o" "\<not> covers [(2, 4)] ?n" by (simp_all add: changes_eval)
  have len: "blen ?o \<le> MAX_LINE" "blen ?n \<le> MAX_LINE" by (simp_all add: MAX_LINE_def len_utf8_def)
  show ?thesis
    unfolding lits compute_changes_def toks Let_def words bind.bind_lunit cap tal w j
    using len c j by simp
qed

end
