(* ===== verification/Diffs.thy ===== *)
theory Diffs
  imports Intraline
begin

text \<open>
  \<^verbatim>\<open>crates/server/src/snapshots/report.rs\<close> (the lines of a hunk) and
  \<^verbatim>\<open>crates/server/src/snapshots/diff.rs\<close>: a diff turned into rows to draw. Line numbers are
  \<^verbatim>\<open>u32\<close>, here \<open>32 word\<close>, and wrap as a release build does. The lemmas show that building a
  diff never panics, that every row shows exactly the text of its line, with the right line
  numbers, and that the row budget keeps a prefix of the hunks.
\<close>

section \<open>Hunks as reported\<close>

datatype diff_line = Context str | Added str | Removed str

datatype bad_sign = BadSign "rchar option"

definition diff_line_try_from :: "str \<Rightarrow> bad_sign + diff_line" where
  "diff_line_try_from line =
     (case line of
        [] \<Rightarrow> Inl (BadSign None)
      | sign # rest \<Rightarrow>
          if sign = c_space then Inr (Context rest)
          else if sign = c_plus then Inr (Added rest)
          else if sign = c_dash then Inr (Removed rest)
          else Inl (BadSign (Some sign)))"

primrec old_text :: "diff_line \<Rightarrow> str option" where
  "old_text (Context t) = Some t"
| "old_text (Added t) = None"
| "old_text (Removed t) = Some t"

primrec diff_text :: "diff_line \<Rightarrow> str" where
  "diff_text (Context t) = t"
| "diff_text (Added t) = t"
| "diff_text (Removed t) = t"

primrec is_added :: "diff_line \<Rightarrow> bool" where
  "is_added (Context t) = False"
| "is_added (Added t) = True"
| "is_added (Removed t) = False"

primrec is_removed :: "diff_line \<Rightarrow> bool" where
  "is_removed (Context t) = False"
| "is_removed (Added t) = False"
| "is_removed (Removed t) = True"

record report_hunk =
  rh_old_start :: "32 word"
  rh_new_start :: "32 word"
  rh_lines :: "diff_line list"

section \<open>Rows\<close>

definition MAX_ROWS :: nat where
  "MAX_ROWS = 2000"

record 'g colour =
  buffer :: "line list"
  grammar :: 'g

datatype row =
  Context_Row "32 word" "32 word" line
| Added_Row "32 word" line
| Removed_Row "32 word" line

record hunk =
  old_start :: "32 word"
  old_lines :: "32 word"
  new_start :: "32 word"
  new_lines :: "32 word"
  rows :: "row list"

record diff =
  added :: "32 word"
  removed :: "32 word"
  hunks :: "hunk list"
  diff_truncated :: bool

primrec row_spans :: "row \<Rightarrow> line" where
  "row_spans (Context_Row o1 n l) = l"
| "row_spans (Added_Row n l) = l"
| "row_spans (Removed_Row o1 l) = l"

primrec set_spans :: "line \<Rightarrow> row \<Rightarrow> row" where
  "set_spans l' (Context_Row o1 n l) = Context_Row o1 n l'"
| "set_spans l' (Added_Row n l) = Added_Row n l'"
| "set_spans l' (Removed_Row o1 l) = Removed_Row o1 l'"

primrec is_added_row :: "row \<Rightarrow> bool" where
  "is_added_row (Context_Row o1 n l) = False"
| "is_added_row (Added_Row n l) = True"
| "is_added_row (Removed_Row o1 l) = False"

primrec is_removed_row :: "row \<Rightarrow> bool" where
  "is_removed_row (Context_Row o1 n l) = False"
| "is_removed_row (Added_Row n l) = False"
| "is_removed_row (Removed_Row o1 l) = True"

definition spans :: "line option \<Rightarrow> str \<Rightarrow> line" where
  "spans candidate t =
     (case opt_filter (\<lambda>l. rebuilds l t) candidate of Some l \<Rightarrow> l | None \<Rightarrow> plain_line t)"

text \<open>\<^verbatim>\<open>old_side.as_mut().and_then(Iterator::next)\<close>: the line and the iterator after it.\<close>

fun next_line :: "line list option \<Rightarrow> line option \<times> line list option" where
  "next_line None = (None, None)"
| "next_line (Some []) = (None, Some [])"
| "next_line (Some (l # ls)) = (Some l, Some ls)"

definition buffer_line :: "'g colour option \<Rightarrow> 32 word \<Rightarrow> str \<Rightarrow> line" where
  "buffer_line col number t =
     spans (Option.bind col (\<lambda>c. line_at (buffer c) (unat number))) t"

fun row_loop ::
    "'g colour option \<Rightarrow> diff_line list \<Rightarrow> line list option \<Rightarrow> 32 word \<Rightarrow> 32 word \<Rightarrow> row list \<Rightarrow> row list"
  where
  "row_loop col [] old_side old new out = out"
| "row_loop col (Context t # ls) old_side old new out =
     (let old_side = snd (next_line old_side) in
      row_loop col ls old_side (old + 1) (new + 1) (out @ [Context_Row old new (buffer_line col new t)]))"
| "row_loop col (Added t # ls) old_side old new out =
     row_loop col ls old_side old (new + 1) (out @ [Added_Row new (buffer_line col new t)])"
| "row_loop col (Removed t # ls) old_side old new out =
     (let (candidate, old_side) = next_line old_side in
      row_loop col ls old_side (old + 1) new (out @ [Removed_Row old (spans candidate t)]))"

text \<open>\<^verbatim>\<open>Row::mark\<close> on the row at an index; \<open>None\<close> is a panic.\<close>

definition mark_row :: "row list \<Rightarrow> nat \<Rightarrow> range list \<Rightarrow> row list option" where
  "mark_row rs i ranges = do {
     r \<leftarrow> get rs i;
     l \<leftarrow> marked (row_spans r) ranges;
     Some (rs[i := set_spans l r])
   }"

text \<open>The loop over \<open>k\<close>, pairing removed and added lines of the run at \<open>pos\<close>.\<close>

fun mark_pairs ::
    "(rchar \<Rightarrow> bool) \<Rightarrow> (str list \<Rightarrow> str list \<Rightarrow> diff_op list) \<Rightarrow> diff_line list \<Rightarrow> nat \<Rightarrow> nat \<Rightarrow>
       nat list \<Rightarrow> row list \<Rightarrow> row list option" where
  "mark_pairs alnum capture ls pos nremoved [] rs = Some rs"
| "mark_pairs alnum capture ls pos nremoved (k # ks) rs = do {
     gone \<leftarrow> get ls (pos + k);
     came \<leftarrow> get ls (pos + nremoved + k);
     (case (gone, came) of
        (Removed old, Added new) \<Rightarrow> do {
          ch \<leftarrow> compute_changes alnum capture old new;
          (case ch of
             None \<Rightarrow> mark_pairs alnum capture ls pos nremoved ks rs
           | Some c \<Rightarrow> do {
               rs \<leftarrow> mark_row rs (pos + k) (old_marks c);
               rs \<leftarrow> mark_row rs (pos + nremoved + k) (new_marks c);
               mark_pairs alnum capture ls pos nremoved ks rs
             })
        }
      | _ \<Rightarrow> mark_pairs alnum capture ls pos nremoved ks rs)
   }"

definition run_length :: "(diff_line \<Rightarrow> bool) \<Rightarrow> diff_line list \<Rightarrow> nat \<Rightarrow> nat" where
  "run_length p ls i = length (takeWhile p (drop i ls))"

function mark_words_loop ::
    "(rchar \<Rightarrow> bool) \<Rightarrow> (str list \<Rightarrow> str list \<Rightarrow> diff_op list) \<Rightarrow> diff_line list \<Rightarrow> nat \<Rightarrow>
       row list \<Rightarrow> row list option" where
  "mark_words_loop alnum capture ls pos rs =
     (if pos < length ls
      then (let nremoved = run_length is_removed ls pos;
                nadded = run_length is_added ls (pos + nremoved)
            in do {
              rs \<leftarrow> mark_pairs alnum capture ls pos nremoved [0 ..< min nremoved nadded] rs;
              mark_words_loop alnum capture ls (pos + max (nremoved + nadded) 1) rs
            })
      else Some rs)"
  by pat_completeness auto
termination
  by (relation "measure (\<lambda>(_, _, ls, pos, _). length ls - pos)") auto

declare mark_words_loop.simps [simp del]

definition mark_words ::
    "(rchar \<Rightarrow> bool) \<Rightarrow> (str list \<Rightarrow> str list \<Rightarrow> diff_op list) \<Rightarrow> diff_line list \<Rightarrow> row list \<Rightarrow>
       row list option" where
  "mark_words alnum capture ls rs = mark_words_loop alnum capture ls 0 rs"

definition old_side_of ::
    "('g, 'p, 'ops, 'o, 'st, 'sc) syntect \<Rightarrow> 'g colour option \<Rightarrow> diff_line list \<Rightarrow> line list option" where
  "old_side_of sx col ls =
     Option.bind (opt_filter (\<lambda>_. list_ex is_removed ls) col)
       (\<lambda>c. result_ok (highlight sx (grammar c) 0 (List.map_filter old_text ls)))"

definition count_rows :: "(row \<Rightarrow> bool) \<Rightarrow> row list \<Rightarrow> 32 word" where
  "count_rows p rs = word_of_nat (length (filter p rs))"

definition hunk_new ::
    "('g, 'p, 'ops, 'o, 'st, 'sc) syntect \<Rightarrow> (rchar \<Rightarrow> bool) \<Rightarrow>
       (str list \<Rightarrow> str list \<Rightarrow> diff_op list) \<Rightarrow> report_hunk \<Rightarrow> 'g colour option \<Rightarrow> hunk option" where
  "hunk_new sx alnum capture h col = do {
     let old_side = old_side_of sx col (rh_lines h);
     let rs = row_loop col (rh_lines h) old_side (rh_old_start h) (rh_new_start h) [];
     rs \<leftarrow> mark_words alnum capture (rh_lines h) rs;
     Some \<lparr>old_start = rh_old_start h,
           old_lines = count_rows (\<lambda>r. \<not> is_added_row r) rs,
           new_start = rh_new_start h,
           new_lines = count_rows (\<lambda>r. \<not> is_removed_row r) rs,
           rows = rs\<rparr>
   }"

fun tally_lines :: "diff_line list \<Rightarrow> 32 word \<Rightarrow> 32 word \<Rightarrow> 32 word \<times> 32 word" where
  "tally_lines [] a r = (a, r)"
| "tally_lines (Added t # ls) a r = tally_lines ls (a + 1) r"
| "tally_lines (Removed t # ls) a r = tally_lines ls a (r + 1)"
| "tally_lines (Context t # ls) a r = tally_lines ls a r"

fun keep_loop ::
    "('g, 'p, 'ops, 'o, 'st, 'sc) syntect \<Rightarrow> (rchar \<Rightarrow> bool) \<Rightarrow>
       (str list \<Rightarrow> str list \<Rightarrow> diff_op list) \<Rightarrow> 'g colour option \<Rightarrow> report_hunk list \<Rightarrow>
       nat \<Rightarrow> bool \<Rightarrow> hunk list \<Rightarrow> (hunk list \<times> bool) option" where
  "keep_loop sx alnum capture col [] budget trunc out = Some (out, trunc)"
| "keep_loop sx alnum capture col (h # hs) budget trunc out =
     (if trunc \<or> length (rh_lines h) > budget
      then keep_loop sx alnum capture col hs budget True out
      else do {
        k \<leftarrow> hunk_new sx alnum capture h col;
        keep_loop sx alnum capture col hs (budget - length (rh_lines h)) trunc (out @ [k])
      })"

definition diff_new ::
    "('g, 'p, 'ops, 'o, 'st, 'sc) syntect \<Rightarrow> (rchar \<Rightarrow> bool) \<Rightarrow>
       (str list \<Rightarrow> str list \<Rightarrow> diff_op list) \<Rightarrow> report_hunk list \<Rightarrow> 'g colour option \<Rightarrow> diff option" where
  "diff_new sx alnum capture hs col = do {
     let (a, r) = tally_lines (concat (map rh_lines hs)) 0 0;
     (hks, trunc) \<leftarrow> keep_loop sx alnum capture col hs MAX_ROWS False [];
     Some \<lparr>added = a, removed = r, hunks = hks, diff_truncated = trunc\<rparr>
   }"

section \<open>Every row shows its line\<close>

text \<open>The sign, the numbers and the text of a row agree with the line it was made from.\<close>

definition row_shows :: "diff_line \<Rightarrow> row \<Rightarrow> bool" where
  "row_shows d r \<longleftrightarrow> line_text (row_spans r) = diff_text d \<and>
     is_added_row r = is_added d \<and> is_removed_row r = is_removed d"

fun numbered :: "32 word \<Rightarrow> 32 word \<Rightarrow> row list \<Rightarrow> bool" where
  "numbered old new [] \<longleftrightarrow> True"
| "numbered old new (Context_Row o1 n1 l # rs) \<longleftrightarrow>
     o1 = old \<and> n1 = new \<and> numbered (old + 1) (new + 1) rs"
| "numbered old new (Added_Row n1 l # rs) \<longleftrightarrow> n1 = new \<and> numbered old (new + 1) rs"
| "numbered old new (Removed_Row o1 l # rs) \<longleftrightarrow> o1 = old \<and> numbered (old + 1) new rs"

lemma line_text_spans [simp]: "line_text (spans candidate t) = t"
  by (auto simp: spans_def rebuilds_iff split: option.splits)

lemma line_text_buffer_line [simp]: "line_text (buffer_line col n t) = t"
  by (simp add: buffer_line_def)

lemma row_shows_simps [simp]:
  "row_shows (Context t) (Context_Row o1 n l) \<longleftrightarrow> line_text l = t"
  "row_shows (Added t) (Added_Row n l) \<longleftrightarrow> line_text l = t"
  "row_shows (Removed t) (Removed_Row o1 l) \<longleftrightarrow> line_text l = t"
  by (simp_all add: row_shows_def)

lemma row_loop_shows:
  "\<exists>rs. row_loop col ls side old new out = out @ rs \<and> list_all2 row_shows ls rs \<and> numbered old new rs"
proof (induction ls arbitrary: side old new out)
  case (Cons d ls)
  show ?case
  proof (cases d)
    case (Context t)
    let ?r = "Context_Row old new (buffer_line col new t)"
    obtain rs where "row_loop col ls (snd (next_line side)) (old + 1) (new + 1) (out @ [?r]) =
        (out @ [?r]) @ rs" "list_all2 row_shows ls rs" "numbered (old + 1) (new + 1) rs"
      using Cons.IH by blast
    with Context show ?thesis by (intro exI [of _ "?r # rs"]) simp
  next
    case (Added t)
    let ?r = "Added_Row new (buffer_line col new t)"
    obtain rs where "row_loop col ls side old (new + 1) (out @ [?r]) = (out @ [?r]) @ rs"
      "list_all2 row_shows ls rs" "numbered old (new + 1) rs"
      using Cons.IH by blast
    with Added show ?thesis by (intro exI [of _ "?r # rs"]) simp
  next
    case (Removed t)
    let ?r = "Removed_Row old (spans (fst (next_line side)) t)"
    obtain rs where "row_loop col ls (snd (next_line side)) (old + 1) new (out @ [?r]) =
        (out @ [?r]) @ rs" "list_all2 row_shows ls rs" "numbered (old + 1) new rs"
      using Cons.IH by blast
    with Removed show ?thesis
      by (intro exI [of _ "?r # rs"]) (simp add: split_beta)
  qed
qed simp

lemma set_spans_simps [simp]:
  "row_spans (set_spans l r) = l" "is_added_row (set_spans l r) = is_added_row r"
  "is_removed_row (set_spans l r) = is_removed_row r"
  by (cases r; simp)+

lemma numbered_Cons_set_spans: "numbered old new (set_spans l r # rs) = numbered old new (r # rs)"
  by (cases r) simp_all

lemma numbered_update:
  "i < length rs \<Longrightarrow> numbered old new (rs[i := set_spans l (rs ! i)]) = numbered old new rs"
proof (induction old new rs arbitrary: i rule: numbered.induct)
  case (2 old new o1 n1 l1 rs)
  then show ?case by (cases i) simp_all
next
  case (3 old new n1 l1 rs)
  then show ?case by (cases i) simp_all
next
  case (4 old new o1 l1 rs)
  then show ?case by (cases i) simp_all
qed simp

text \<open>The rows of a hunk while they are being marked.\<close>

definition rows_ok :: "diff_line list \<Rightarrow> 32 word \<Rightarrow> 32 word \<Rightarrow> row list \<Rightarrow> bool" where
  "rows_ok ls old new rs \<longleftrightarrow> list_all2 row_shows ls rs \<and> numbered old new rs"

lemma mark_row_ok:
  assumes "rows_ok ls old new rs" "get ls i = Some d" "good_ranges (diff_text d) ranges"
  obtains rs' where "mark_row rs i ranges = Some rs'" "rows_ok ls old new rs'"
proof -
  have i: "i < length ls" "d = ls ! i" using assms(2) by (auto simp: get_def split: if_splits)
  have len: "i < length rs" using assms(1) i by (auto simp: rows_ok_def list_all2_lengthD)
  have shows_i: "row_shows d (rs ! i)"
    using assms(1) i by (auto simp: rows_ok_def list_all2_nthD)
  obtain l where l: "marked (row_spans (rs ! i)) ranges = Some l" "line_text l = diff_text d"
    using marked_text [of ranges "row_spans (rs ! i)"] assms(3) shows_i
    by (auto simp: good_ranges_def row_shows_def ends_of_def)
  have "rows_ok ls old new (rs[i := set_spans l (rs ! i)])"
    using assms(1) numbered_update [OF len, of old new l] shows_i l(2) i
    by (auto simp: rows_ok_def row_shows_def list_all2_conv_all_nth nth_list_update)
  with l len show thesis by (intro that [of "rs[i := set_spans l (rs ! i)]"]) (simp_all add: mark_row_def get_def)
qed

lemma mark_pairs_ok:
  assumes "diff_law capture" "\<forall>k \<in> set ks. pos + nremoved + k < length ls" "rows_ok ls old new rs"
  shows "\<exists>rs'. mark_pairs alnum capture ls pos nremoved ks rs = Some rs' \<and> rows_ok ls old new rs'"
  using assms(2,3)
proof (induction ks arbitrary: rs)
  case (Cons k ks)
  have k: "pos + nremoved + k < length ls" using Cons.prems(1) by simp
  then obtain gone came where get: "get ls (pos + k) = Some gone"
    "get ls (pos + nremoved + k) = Some came"
    by (simp add: get_def)
  have rest: "rows_ok ls old new rs' \<Longrightarrow> \<exists>rs''. mark_pairs alnum capture ls pos nremoved ks rs' =
      Some rs'' \<and> rows_ok ls old new rs''" for rs'
    using Cons.IH Cons.prems(1) by simp
  show ?case
  proof (cases "\<exists>t u. gone = Removed t \<and> came = Added u")
    case False
    with get rest [OF Cons.prems(2)] show ?thesis by (auto split: diff_line.splits)
  next
    case True
    then obtain t u where tu: "gone = Removed t" "came = Added u" by blast
    obtain res where res: "compute_changes alnum capture t u = Some res"
      "\<And>ch. res = Some ch \<Longrightarrow> sound_changes t u ch"
      using compute_changes_sound [OF assms(1)] by metis
    show ?thesis
    proof (cases res)
      case None
      with get tu res(1) rest [OF Cons.prems(2)] show ?thesis by simp
    next
      case (Some ch)
      then have good: "good_ranges t (old_marks ch)" "good_ranges u (new_marks ch)"
        using res(2) by (auto simp: sound_changes_def)
      obtain rs1 where 1: "mark_row rs (pos + k) (old_marks ch) = Some rs1" "rows_ok ls old new rs1"
        using mark_row_ok [OF Cons.prems(2) get(1)] good tu by auto
      obtain rs2 where 2: "mark_row rs1 (pos + nremoved + k) (new_marks ch) = Some rs2"
        "rows_ok ls old new rs2"
        using mark_row_ok [OF 1(2) get(2)] good tu by auto
      from get tu res(1) Some 1(1) 2(1) rest [OF 2(2)] show ?thesis by simp
    qed
  qed
qed simp

lemma run_length_le: "i \<le> length ls \<Longrightarrow> i + run_length p ls i \<le> length ls"
  using length_takeWhile_le [of p "drop i ls"] by (simp add: run_length_def)

lemma mark_words_loop_ok:
  assumes "diff_law capture"
  shows "rows_ok ls old new rs \<Longrightarrow>
    \<exists>rs'. mark_words_loop alnum capture ls pos rs = Some rs' \<and> rows_ok ls old new rs'"
proof (induction "length ls - pos" arbitrary: pos rs rule: less_induct)
  case less
  show ?case
  proof (cases "pos < length ls")
    case True
    let ?r = "run_length is_removed ls pos"
    let ?a = "run_length is_added ls (pos + ?r)"
    have le: "pos + ?r + ?a \<le> length ls" using True by (meson less_imp_le run_length_le)
    then obtain rs1 where 1: "mark_pairs alnum capture ls pos ?r [0 ..< min ?r ?a] rs = Some rs1"
      "rows_ok ls old new rs1"
      using mark_pairs_ok [OF assms _ less.prems, of "[0 ..< min ?r ?a]" pos ?r] by fastforce
    have "length ls - (pos + max (?r + ?a) 1) < length ls - pos" using True by simp
    from less.hyps [OF this 1(2)] 1(1) True show ?thesis
      by (subst mark_words_loop.simps) (simp add: Let_def)
  qed (use less.prems in \<open>subst mark_words_loop.simps, simp\<close>)
qed

text \<open>A hunk as it should come out: the counts are those of its rows, as \<^verbatim>\<open>u32\<close>.\<close>

definition hunk_ok :: "report_hunk \<Rightarrow> hunk \<Rightarrow> bool" where
  "hunk_ok h k \<longleftrightarrow>
     old_start k = rh_old_start h \<and> new_start k = rh_new_start h \<and>
     list_all2 row_shows (rh_lines h) (rows k) \<and>
     numbered (rh_old_start h) (rh_new_start h) (rows k) \<and>
     old_lines k = word_of_nat (length (filter (\<lambda>d. \<not> is_added d) (rh_lines h))) \<and>
     new_lines k = word_of_nat (length (filter (\<lambda>d. \<not> is_removed d) (rh_lines h)))"

lemma count_rows_lines:
  "list_all2 row_shows ls rs \<Longrightarrow>
     count_rows (\<lambda>r. \<not> is_added_row r) rs = word_of_nat (length (filter (\<lambda>d. \<not> is_added d) ls)) \<and>
     count_rows (\<lambda>r. \<not> is_removed_row r) rs = word_of_nat (length (filter (\<lambda>d. \<not> is_removed d) ls))"
  by (induction rule: list_all2_induct) (auto simp: row_shows_def count_rows_def)

lemma hunk_new_ok:
  assumes "diff_law capture"
  obtains k where "hunk_new sx alnum capture h col = Some k" "hunk_ok h k"
proof -
  let ?rs = "row_loop col (rh_lines h) (old_side_of sx col (rh_lines h)) (rh_old_start h)
    (rh_new_start h) []"
  have "rows_ok (rh_lines h) (rh_old_start h) (rh_new_start h) ?rs"
    using row_loop_shows [of col "rh_lines h" _ _ _ "[]"] by (force simp: rows_ok_def)
  then obtain rs where "mark_words alnum capture (rh_lines h) ?rs = Some rs"
    "rows_ok (rh_lines h) (rh_old_start h) (rh_new_start h) rs"
    using mark_words_loop_ok [OF assms] unfolding mark_words_def by blast
  then show thesis
    using count_rows_lines [of "rh_lines h" rs]
    by (intro that) (auto simp: hunk_new_def Let_def hunk_ok_def rows_ok_def)
qed

section \<open>A diff within its budget\<close>

lemma keep_loop_ok:
  assumes "diff_law capture"
  shows "\<exists>ks t. keep_loop sx alnum capture col hs budget trunc out = Some (out @ ks, t) \<and>
    list_all2 hunk_ok (take (length ks) hs) ks \<and>
    (t \<longleftrightarrow> trunc \<or> length ks < length hs) \<and> (trunc \<longrightarrow> ks = []) \<and>
    sum_list (map (\<lambda>h. length (rh_lines h)) (take (length ks) hs)) \<le> budget \<and>
    (\<not> trunc \<longrightarrow> length ks < length hs \<longrightarrow>
       budget < sum_list (map (\<lambda>h. length (rh_lines h)) (take (Suc (length ks)) hs)))"
proof (induction hs arbitrary: budget trunc out)
  case (Cons h hs)
  show ?case
  proof (cases "trunc \<or> length (rh_lines h) > budget")
    case True
    with Cons.IH [of budget True out] show ?thesis by auto
  next
    case False
    obtain k where k: "hunk_new sx alnum capture h col = Some k" "hunk_ok h k"
      using hunk_new_ok [OF assms] by blast
    let ?b = "budget - length (rh_lines h)"
    obtain ks t where ks: "keep_loop sx alnum capture col hs ?b trunc (out @ [k]) =
        Some ((out @ [k]) @ ks, t)" "list_all2 hunk_ok (take (length ks) hs) ks"
      "t \<longleftrightarrow> trunc \<or> length ks < length hs"
      "sum_list (map (\<lambda>h. length (rh_lines h)) (take (length ks) hs)) \<le> ?b"
      "\<not> trunc \<longrightarrow> length ks < length hs \<longrightarrow>
         ?b < sum_list (map (\<lambda>h. length (rh_lines h)) (take (Suc (length ks)) hs))"
      using Cons.IH [of ?b trunc "out @ [k]"] by blast
    then show ?thesis
      using False k by (intro exI [of _ "k # ks"] exI [of _ t]) auto
  qed
qed simp

definition all_lines :: "report_hunk list \<Rightarrow> diff_line list" where
  "all_lines hs = concat (map rh_lines hs)"

lemma tally_lines_eq:
  "tally_lines ls a r =
     (a + word_of_nat (length (filter is_added ls)), r + word_of_nat (length (filter is_removed ls)))"
  by (induction ls a r rule: tally_lines.induct) (simp_all add: algebra_simps)

definition diff_ok :: "report_hunk list \<Rightarrow> diff \<Rightarrow> bool" where
  "diff_ok hs d \<longleftrightarrow>
     list_all2 hunk_ok (take (length (hunks d)) hs) (hunks d) \<and>
     (diff_truncated d \<longleftrightarrow> length (hunks d) < length hs) \<and>
     added d = word_of_nat (length (filter is_added (all_lines hs))) \<and>
     removed d = word_of_nat (length (filter is_removed (all_lines hs))) \<and>
     length (all_lines (take (length (hunks d)) hs)) \<le> MAX_ROWS \<and>
     (diff_truncated d \<longrightarrow> MAX_ROWS < length (all_lines (take (Suc (length (hunks d))) hs)))"

lemma length_all_lines: "length (all_lines hs) = sum_list (map (\<lambda>h. length (rh_lines h)) hs)"
  by (simp add: all_lines_def length_concat o_def)

lemma diff_new_ok:
  assumes "diff_law capture"
  obtains d where "diff_new sx alnum capture hs col = Some d" "diff_ok hs d"
proof -
  obtain ks t where "keep_loop sx alnum capture col hs MAX_ROWS False [] = Some (ks, t)"
    "list_all2 hunk_ok (take (length ks) hs) ks" "t \<longleftrightarrow> length ks < length hs"
    "sum_list (map (\<lambda>h. length (rh_lines h)) (take (length ks) hs)) \<le> MAX_ROWS"
    "length ks < length hs \<longrightarrow>
       MAX_ROWS < sum_list (map (\<lambda>h. length (rh_lines h)) (take (Suc (length ks)) hs))"
    using keep_loop_ok [OF assms, of sx alnum col hs MAX_ROWS False "[]"] by auto
  then show thesis
    by (intro that)
      (auto simp: diff_new_def Let_def tally_lines_eq diff_ok_def length_all_lines all_lines_def [symmetric])
qed

lemma diff_new_total: "diff_law capture \<Longrightarrow> \<exists>d. diff_new sx alnum capture hs col = Some d"
  using diff_new_ok by metis

section \<open>Properties\<close>

text \<open>C13: Building a diff from any reported hunks, coloured or not, never panics. It keeps a
  prefix of the hunks within the row budget, stops at the first hunk that does not fit, counts
  the lines of the whole change, and each row of a kept hunk has the sign, the line numbers
  and exactly the text of the line it was made from.\<close>

theorem diff_draws_the_hunks:
  assumes "diff_law capture"
  shows "\<exists>d. diff_new sx alnum capture hs col = Some d \<and> diff_ok hs d"
  using diff_new_ok [OF assms] by blast

definition example_hunk :: report_hunk where
  "example_hunk = \<lparr>rh_old_start = 4, rh_new_start = 9,
     rh_lines = [Context (lit ''a''), Removed (lit ''f(x)''), Added (lit ''f(y)'')]\<rparr>"

theorem diff_draws_the_hunks_witness:
  "\<exists>d. diff_new toy_syntect is_ascii_alphanumeric prefix_capture [example_hunk] None = Some d \<and>
     diff_ok [example_hunk] d"
  by (rule diff_draws_the_hunks [OF prefix_capture_law])

end
