(* ===== verification/Students.thy ===== *)
theory Students
  imports Errors
begin

text \<open>
  \<^verbatim>\<open>crates/server/src/student.rs\<close>: a student's name, which is never blank, who a message is for,
  and the slot live state is kept under. A course id is an abstract \<open>uuid\<close>.
\<close>

datatype uuid = Uuid nat

datatype student = Student (as_str: str)

definition student_try_from :: "str \<Rightarrow> unit + student" where
  "student_try_from name = (if trim name = [] then Inl () else Inr (Student name))"

definition blank_name :: str where
  "blank_name = lit ''student name is blank''"

datatype audience = Everyone | Only student

definition reaches :: "audience \<Rightarrow> student option \<Rightarrow> bool" where
  "reaches a listener =
     (case a of Everyone \<Rightarrow> True | Only only \<Rightarrow> listener = Some only)"

record slot =
  slot_course :: uuid
  slot_student :: student

definition wf_student :: "student \<Rightarrow> bool" where
  "wf_student s \<longleftrightarrow> trim (as_str s) \<noteq> []"

lemma student_try_from_Inr: "student_try_from name = Inr s \<longleftrightarrow> wf_student s \<and> as_str s = name"
  by (cases s) (auto simp: student_try_from_def wf_student_def)

end
