(* ===== verification/Snapshots.thy ===== *)
theory Snapshots
  imports Diffs Students Sources
begin

text \<open>
  \<^verbatim>\<open>crates/server/src/snapshots/report.rs\<close> (what an editor sends), \<^verbatim>\<open>model.rs\<close> (what the server
  makes of it) and \<^verbatim>\<open>compare.rs\<close> (the buffer against a reference solution). The record
  \<open>engines\<close> bundles the libraries the code calls: the highlighter, the Unicode table, the word
  diff and the grouped line diff. A panic is \<open>None\<close>. The lemmas show that turning a report
  into a snapshot never panics, that the text is cut on a character boundary within the cap,
  and that reusing the previous parse cannot be observed.
\<close>

section \<open>What an editor sends\<close>

record cursor =
  cursor_line :: "32 word"
  cursor_column :: "32 word"

datatype report_baseline = Report_Head "report_hunk list" | Report_Untracked | Report_Unavailable

record report_file =
  rf_path :: str
  rf_relative_path :: str
  rf_language :: str
  rf_exercise :: "str option"
  rf_cursor :: "cursor option"
  rf_dirty :: bool
  rf_content :: str
  rf_truncated :: bool
  rf_baseline :: report_baseline

datatype report_state =
  Report_Declined | Report_Empty | Report_Cursor nat cursor | Report_File report_file

record report =
  report_student :: student
  report_state :: report_state

section \<open>What the server keeps\<close>

definition MAX_CONTENT_BYTES :: nat where
  "MAX_CONTENT_BYTES = 256 * 1024"

record buffer_text =
  content :: str
  truncated :: bool

datatype baseline = Head diff | Untracked | Unavailable

record student_file =
  path :: str
  relative_path :: str
  language :: str
  exercise :: "str option"
  caret :: "cursor option"
  dirty :: bool
  file_text :: buffer_text
  highlight_of :: "line list option"
  baseline_of :: baseline

datatype snapshot = Declined | Empty | File student_file

text \<open>The loop that moves the cut back to a character boundary.\<close>

fun cut_end :: "str \<Rightarrow> nat \<Rightarrow> nat" where
  "cut_end s 0 = 0"
| "cut_end s (Suc n) = (if is_char_boundary s (Suc n) then Suc n else cut_end s n)"

definition truncate_at :: "str \<Rightarrow> nat \<Rightarrow> str" where
  "truncate_at s n = (case split_byte s n of Some (a, _) \<Rightarrow> a | None \<Rightarrow> s)"

definition text_new :: "str \<Rightarrow> bool \<Rightarrow> buffer_text" where
  "text_new t cut_by_editor =
     (let too_long = blen t > MAX_CONTENT_BYTES in
      \<lparr>content = (if too_long then truncate_at t (cut_end t MAX_CONTENT_BYTES) else t),
       truncated = cut_by_editor \<or> too_long\<rparr>)"

definition text_lines :: "buffer_text \<Rightarrow> str list" where
  "text_lines t = split_on ((=) c_nl) (content t)"

text \<open>The libraries. A group of the line diff is the list of its operations: where each starts
  in the old and the new text (in lines, from 0) and its changes.\<close>

datatype change_tag = Change_Equal | Change_Delete | Change_Insert

type_synonym line_op = "nat \<times> nat \<times> (change_tag \<times> str) list"

record ('g, 'p, 'ops, 'o, 'st, 'sc) engines =
  engine :: "('g, 'p, 'ops, 'o, 'st, 'sc) syntect"
  alnum :: "rchar \<Rightarrow> bool"
  word_diff :: "str list \<Rightarrow> str list \<Rightarrow> diff_op list"
  line_diff :: "nat \<Rightarrow> str \<Rightarrow> str \<Rightarrow> line_op list list"

definition colours_like :: "student_file \<Rightarrow> buffer_text \<Rightarrow> str \<Rightarrow> str \<Rightarrow> bool" where
  "colours_like f t lang rel \<longleftrightarrow>
     content (file_text f) = content t \<and> language f = lang \<and> relative_path f = rel"

text \<open>A parse of the whole buffer; \<open>None\<close> when the language is unknown or the parse fails.\<close>

definition parse_buffer ::
    "('g, 'p, 'ops, 'o, 'st, 'sc) engines \<Rightarrow> 'g option \<Rightarrow> buffer_text \<Rightarrow> line list option" where
  "parse_buffer eng gr t =
     Option.bind gr (\<lambda>g. let ls = text_lines t in result_ok (highlight (engine eng) g (length ls) ls))"

definition colour_of :: "'g option \<Rightarrow> line list option \<Rightarrow> 'g colour option" where
  "colour_of gr hl = Option.bind gr (\<lambda>g. map_option (\<lambda>b. \<lparr>buffer = b, grammar = g\<rparr>) hl)"

definition file_from_report ::
    "('g, 'p, 'ops, 'o, 'st, 'sc) engines \<Rightarrow> report_file \<Rightarrow> student_file option \<Rightarrow> student_file option" where
  "file_from_report eng f previous = do {
     let t = text_new (rf_content f) (rf_truncated f);
     let gr = detect (engine eng) (rf_language f) (rf_relative_path f);
     let hl = (case opt_filter (\<lambda>p. colours_like p t (rf_language f) (rf_relative_path f)) previous of
                 Some p \<Rightarrow> highlight_of p
               | None \<Rightarrow> parse_buffer eng gr t);
     base \<leftarrow> (case rf_baseline f of
                Report_Head hs \<Rightarrow>
                  map_option Head (diff_new (engine eng) (alnum eng) (word_diff eng) hs (colour_of gr hl))
              | Report_Untracked \<Rightarrow> Some Untracked
              | Report_Unavailable \<Rightarrow> Some Unavailable);
     Some \<lparr>path = rf_path f, relative_path = rf_relative_path f, language = rf_language f,
           exercise = rf_exercise f, caret = rf_cursor f, dirty = rf_dirty f, file_text = t,
           highlight_of = hl, baseline_of = base\<rparr>
   }"

definition with_cursor :: "student_file \<Rightarrow> cursor \<Rightarrow> student_file" where
  "with_cursor f c = f\<lparr>caret := Some c\<rparr>"

definition snapshot_cursor :: "snapshot \<Rightarrow> cursor option" where
  "snapshot_cursor s = (case s of File f \<Rightarrow> caret f | _ \<Rightarrow> None)"

definition as_file :: "snapshot option \<Rightarrow> student_file option" where
  "as_file s = (case s of Some (File f) \<Rightarrow> Some f | _ \<Rightarrow> None)"

definition snapshot_from_report ::
    "('g, 'p, 'ops, 'o, 'st, 'sc) engines \<Rightarrow> report_state \<Rightarrow> snapshot option \<Rightarrow> snapshot option" where
  "snapshot_from_report eng st previous =
     (case st of
        Report_Declined \<Rightarrow> Some Declined
      | Report_Empty \<Rightarrow> Some Empty
      | Report_Cursor basis c \<Rightarrow>
          (case previous of Some (File f) \<Rightarrow> Some (File (with_cursor f c)) | _ \<Rightarrow> Some Empty)
      | Report_File f \<Rightarrow> map_option File (file_from_report eng f (as_file previous)))"

section \<open>Against a reference solution\<close>

definition CONTEXT :: nat where
  "CONTEXT = 3"

fun replace_crlf :: "str \<Rightarrow> str" where
  "replace_crlf (a # b # s) =
     (if a = c_cr \<and> b = c_nl then c_nl # replace_crlf s else a # replace_crlf (b # s))"
| "replace_crlf s = s"

definition normalize :: "str \<Rightarrow> str" where
  "normalize t =
     (let s = replace_crlf t in if s \<noteq> [] \<and> \<not> ends_with [c_nl] s then s @ [c_nl] else s)"

definition change_line :: "change_tag \<times> str \<Rightarrow> diff_line" where
  "change_line c =
     (let t = trim_end (\<lambda>x. x = c_nl) (snd c) in
      case fst c of Change_Equal \<Rightarrow> Context t | Change_Delete \<Rightarrow> Removed t | Change_Insert \<Rightarrow> Added t)"

text \<open>\<^verbatim>\<open>u32::try_from\<close>.\<close>

definition to_u32 :: "nat \<Rightarrow> 32 word option" where
  "to_u32 n = (if n < 2 ^ 32 then Some (word_of_nat n) else None)"

definition group_hunk :: "line_op list \<Rightarrow> report_hunk option" where
  "group_hunk ops =
     (case ops of
        [] \<Rightarrow> None
      | (oi, ni, _) # _ \<Rightarrow> do {
          a \<leftarrow> to_u32 (oi + 1);
          b \<leftarrow> to_u32 (ni + 1);
          Some \<lparr>rh_old_start = a, rh_new_start = b,
                rh_lines = map change_line (concat (map (\<lambda>(_, _, cs). cs) ops))\<rparr>
        })"

definition compare_hunks ::
    "('g, 'p, 'ops, 'o, 'st, 'sc) engines \<Rightarrow> str \<Rightarrow> str \<Rightarrow> report_hunk list" where
  "compare_hunks eng reference buf =
     List.map_filter group_hunk (line_diff eng CONTEXT (normalize reference) (normalize buf))"

datatype unavailable_reason = No_Repository | Not_GitHub | Not_Readable str

datatype comparison =
  Unconfigured | Unavailable_Because unavailable_reason | NoReference | Uncomparable | Identical
| Differs diff

record located =
  located_path :: str
  located_ref :: "str option"

definition located_new :: "repo_path \<Rightarrow> git_ref option \<Rightarrow> located" where
  "located_new p r = \<lparr>located_path = path_str p, located_ref = map_option ref_str r\<rparr>"

record solution =
  comparison :: comparison
  solution_file :: "located option"

definition compared_with ::
    "('g, 'p, 'ops, 'o, 'st, 'sc) engines \<Rightarrow> student_file \<Rightarrow> str \<Rightarrow> comparison option" where
  "compared_with eng f reference =
     (if truncated (file_text f) then Some Uncomparable
      else (let hs = compare_hunks eng reference (content (file_text f)) in
        if hs = [] then Some Identical
        else map_option Differs
               (diff_new (engine eng) (alnum eng) (word_diff eng) hs
                 (colour_of (detect (engine eng) (language f) (relative_path f)) (highlight_of f)))))"

section \<open>The text within its cap\<close>

lemma cut_end_boundary: "is_char_boundary s (cut_end s n)"
  by (induction n) auto

lemma cut_end_le: "cut_end s n \<le> n"
  by (induction n) auto

lemma cut_end_max: "is_char_boundary s m \<Longrightarrow> m \<le> n \<Longrightarrow> m \<le> cut_end s n"
  by (induction n) (auto simp: le_Suc_eq)

text \<open>No more is lost to the boundary than three bytes.\<close>

lemma boundary_below:
  assumes "n \<le> blen s"
  shows "\<exists>m. is_char_boundary s m \<and> m \<le> n \<and> n < m + 4"
  using assms
proof (induction s arbitrary: n)
  case (Cons c s)
  show ?case
  proof (cases "n < len_utf8 c")
    case True
    with len_utf8_le_4 [of c] show ?thesis by (intro exI [of _ 0]) simp
  next
    case False
    have "n - len_utf8 c \<le> blen s" using Cons.prems by simp
    from Cons.IH [OF this] obtain m where m: "is_char_boundary s m" "m \<le> n - len_utf8 c"
      "n - len_utf8 c < m + 4"
      by blast
    have "is_char_boundary (c # s) (len_utf8 c + m)"
      using m(1) unfolding is_char_boundary_iff by (metis append_Cons blen_simps(2))
    with m False show ?thesis by (intro exI [of _ "len_utf8 c + m"]) auto
  qed
qed auto

lemma text_new_cut:
  "\<exists>rest. t = content (text_new t b) @ rest \<and>
     (rest = [] \<longleftrightarrow> blen t \<le> MAX_CONTENT_BYTES) \<and>
     (rest \<noteq> [] \<longrightarrow> blen (content (text_new t b)) \<le> MAX_CONTENT_BYTES \<and>
        MAX_CONTENT_BYTES < blen (content (text_new t b)) + 4)"
proof (cases "blen t \<le> MAX_CONTENT_BYTES")
  case True
  then show ?thesis by (simp add: text_new_def)
next
  case False
  let ?n = "cut_end t MAX_CONTENT_BYTES"
  obtain a b' where ab: "t = a @ b'" "blen a = ?n"
    using cut_end_boundary unfolding is_char_boundary_iff by metis
  then have c: "content (text_new t b) = a"
    using False split_byte_Some [of t ?n a b'] by (simp add: text_new_def truncate_at_def)
  obtain m where "is_char_boundary t m" "m \<le> MAX_CONTENT_BYTES" "MAX_CONTENT_BYTES < m + 4"
    using boundary_below [of MAX_CONTENT_BYTES t] False by auto
  then have n: "?n \<le> MAX_CONTENT_BYTES" "MAX_CONTENT_BYTES < ?n + 4"
    using cut_end_max [of t m MAX_CONTENT_BYTES] cut_end_le [of t MAX_CONTENT_BYTES] by simp_all
  have "b' \<noteq> []" using False n(1) ab by auto
  with ab n False show ?thesis unfolding c by (intro exI [of _ b']) simp
qed

lemma text_new_within: "blen (content (text_new t b)) \<le> MAX_CONTENT_BYTES"
proof -
  obtain rest where "t = content (text_new t b) @ rest" "rest = [] \<longleftrightarrow> blen t \<le> MAX_CONTENT_BYTES"
    "rest \<noteq> [] \<longrightarrow> blen (content (text_new t b)) \<le> MAX_CONTENT_BYTES"
    using text_new_cut by blast
  then show ?thesis by (cases "rest = []") simp_all
qed

section \<open>Reusing a parse\<close>

text \<open>A file of the server: its highlight is what parsing its own text would give, and that
  text is within the cap.\<close>

definition file_ok :: "('g, 'p, 'ops, 'o, 'st, 'sc) engines \<Rightarrow> student_file \<Rightarrow> bool" where
  "file_ok eng f \<longleftrightarrow>
     highlight_of f =
       parse_buffer eng (detect (engine eng) (language f) (relative_path f)) (file_text f) \<and>
     blen (content (file_text f)) \<le> MAX_CONTENT_BYTES"

definition snapshot_ok :: "('g, 'p, 'ops, 'o, 'st, 'sc) engines \<Rightarrow> snapshot \<Rightarrow> bool" where
  "snapshot_ok eng s \<longleftrightarrow> (\<forall>f. s = File f \<longrightarrow> file_ok eng f)"

lemma parse_buffer_content: "content t = content u \<Longrightarrow> parse_buffer eng gr t = parse_buffer eng gr u"
  by (simp add: parse_buffer_def text_lines_def)

lemma file_from_report_previous:
  assumes "\<forall>p. previous = Some p \<longrightarrow> file_ok eng p"
  shows "file_from_report eng f previous = file_from_report eng f None"
proof -
  let ?t = "text_new (rf_content f) (rf_truncated f)"
  let ?gr = "detect (engine eng) (rf_language f) (rf_relative_path f)"
  have "highlight_of p = parse_buffer eng ?gr ?t"
    if "previous = Some p" "colours_like p ?t (rf_language f) (rf_relative_path f)" for p
    using assms that parse_buffer_content [of "file_text p" ?t eng]
    by (simp add: file_ok_def colours_like_def)
  then have "(case opt_filter (\<lambda>p. colours_like p ?t (rf_language f) (rf_relative_path f)) previous of
       Some p \<Rightarrow> highlight_of p | None \<Rightarrow> parse_buffer eng ?gr ?t) = parse_buffer eng ?gr ?t"
    by (cases previous) simp_all
  then show ?thesis unfolding file_from_report_def by simp
qed

lemma file_from_report_ok: "file_from_report eng f None = Some g \<Longrightarrow> file_ok eng g"
  using text_new_within
  by (auto simp: file_from_report_def file_ok_def Let_def bind_eq_Some_conv)

lemma file_from_report_total:
  "diff_law (word_diff eng) \<Longrightarrow> \<exists>g. file_from_report eng f previous = Some g"
proof -
  assume law: "diff_law (word_diff eng)"
  have "\<exists>d. diff_new (engine eng) (alnum eng) (word_diff eng) hs col = Some d" for hs col
    using diff_new_ok [OF law] by metis
  then show ?thesis
    unfolding file_from_report_def Let_def by (cases "rf_baseline f") (auto simp: bind_eq_Some_conv)
qed

lemma with_cursor_ok: "file_ok eng f \<Longrightarrow> file_ok eng (with_cursor f c)"
  by (simp add: file_ok_def with_cursor_def)

lemma snapshot_from_report_ok:
  assumes "\<forall>s. previous = Some s \<longrightarrow> snapshot_ok eng s"
    "snapshot_from_report eng st previous = Some s"
  shows "snapshot_ok eng s"
proof (cases st)
  case (Report_File f)
  have "\<forall>p. as_file previous = Some p \<longrightarrow> file_ok eng p"
    using assms(1) by (auto simp: as_file_def snapshot_ok_def split: option.splits snapshot.splits)
  then have "file_from_report eng f (as_file previous) = file_from_report eng f None"
    by (rule file_from_report_previous)
  then show ?thesis
    using assms(2) Report_File
    by (auto simp: snapshot_from_report_def snapshot_ok_def dest: file_from_report_ok)
next
  case (Report_Cursor b c)
  then show ?thesis
    using assms
    by (auto simp: snapshot_from_report_def snapshot_ok_def with_cursor_ok
        split: option.splits snapshot.splits)
qed (use assms in \<open>auto simp: snapshot_from_report_def snapshot_ok_def\<close>)

lemma snapshot_from_report_total:
  "diff_law (word_diff eng) \<Longrightarrow> \<exists>s. snapshot_from_report eng st previous = Some s"
  using file_from_report_total [of eng]
  by (cases st) (auto simp: snapshot_from_report_def split: option.splits snapshot.splits)

section \<open>Comparing\<close>

text \<open>
  The documented contract of the grouped line diff: there are no groups exactly when the
  texts are equal, and a group has an operation, within texts of fewer than \<^verbatim>\<open>u32::MAX\<close> lines.
\<close>

definition line_diff_law :: "(nat \<Rightarrow> str \<Rightarrow> str \<Rightarrow> line_op list list) \<Rightarrow> bool" where
  "line_diff_law ld \<longleftrightarrow> (\<forall>n a b.
     (ld n a b = [] \<longleftrightarrow> a = b) \<and>
     (\<forall>g \<in> set (ld n a b). g \<noteq> [] \<and> fst (hd g) \<le> length a \<and> fst (snd (hd g)) \<le> length b))"

lemma group_hunk_Some:
  "g \<noteq> [] \<Longrightarrow> fst (hd g) + 1 < 2 ^ 32 \<Longrightarrow> fst (snd (hd g)) + 1 < 2 ^ 32 \<Longrightarrow> \<exists>h. group_hunk g = Some h"
  by (cases g) (auto simp: group_hunk_def to_u32_def split: prod.splits)

lemma map_filter_Nil: "List.map_filter f xs = [] \<longleftrightarrow> (\<forall>x \<in> set xs. f x = None)"
  by (induction xs) (auto simp: List.map_filter_def split: option.splits)

lemma compare_hunks_Nil:
  assumes "line_diff_law (line_diff eng)" "length (normalize r) + 1 < 2 ^ 32"
    "length (normalize b) + 1 < 2 ^ 32"
  shows "compare_hunks eng r b = [] \<longleftrightarrow> normalize r = normalize b"
proof -
  let ?gs = "line_diff eng CONTEXT (normalize r) (normalize b)"
  have "\<exists>h. group_hunk g = Some h" if "g \<in> set ?gs" for g
  proof (rule group_hunk_Some)
    show "g \<noteq> []" using assms(1) that by (simp add: line_diff_law_def)
    have "fst (hd g) \<le> length (normalize r)" "fst (snd (hd g)) \<le> length (normalize b)"
      using assms(1) that by (simp_all add: line_diff_law_def)
    then show "fst (hd g) + 1 < 2 ^ 32" "fst (snd (hd g)) + 1 < 2 ^ 32" using assms(2,3) by linarith+
  qed
  then have "compare_hunks eng r b = [] \<longleftrightarrow> ?gs = []"
    unfolding compare_hunks_def map_filter_Nil by (cases ?gs) auto
  then show ?thesis using assms(1) by (simp add: line_diff_law_def)
qed


section \<open>Properties\<close>


text \<open>A comparison with a reference solution never panics. It is refused exactly for a
  buffer that was cut short, says identical exactly when the two texts are equal up to line
  endings and a final newline, and otherwise draws the rows of every difference.\<close>

theorem comparison_tells_the_difference:
  assumes "diff_law (word_diff eng)" "line_diff_law (line_diff eng)"
    "length (normalize reference) + 1 < 2 ^ 32"
    "length (normalize (content (file_text f))) + 1 < 2 ^ 32"
  shows "compared_with eng f reference =
      (if truncated (file_text f) then Some Uncomparable
       else if normalize reference = normalize (content (file_text f)) then Some Identical
       else map_option Differs (diff_new (engine eng) (alnum eng) (word_diff eng)
          (compare_hunks eng reference (content (file_text f)))
          (colour_of (detect (engine eng) (language f) (relative_path f)) (highlight_of f)))) \<and>
    (\<exists>d. diff_new (engine eng) (alnum eng) (word_diff eng)
          (compare_hunks eng reference (content (file_text f)))
          (colour_of (detect (engine eng) (language f) (relative_path f)) (highlight_of f)) = Some d \<and>
        diff_ok (compare_hunks eng reference (content (file_text f))) d)"
proof
  let ?hs = "compare_hunks eng reference (content (file_text f))"
  let ?col = "colour_of (detect (engine eng) (language f) (relative_path f)) (highlight_of f)"
  obtain d where "diff_new (engine eng) (alnum eng) (word_diff eng) ?hs ?col = Some d" "diff_ok ?hs d"
    using diff_new_ok [OF assms(1)] by blast
  then show "\<exists>d. diff_new (engine eng) (alnum eng) (word_diff eng) ?hs ?col = Some d \<and> diff_ok ?hs d"
    by blast
qed (use compare_hunks_Nil [OF assms(2-4)] in \<open>simp add: compared_with_def Let_def\<close>)

definition toy_engines :: "(unit, unit, bool, bool, bool, str) engines" where
  "toy_engines = \<lparr>engine = toy_syntect, alnum = is_ascii_alphanumeric, word_diff = prefix_capture,
     line_diff = (\<lambda>_ a b. if a = b then [] else [[(0, 0, [(Change_Delete, a), (Change_Insert, b)])]])\<rparr>"

definition untracked_file ::
    "('g, 'p, 'ops, 'o, 'st, 'sc) engines \<Rightarrow> str \<Rightarrow> student_file" where
  "untracked_file eng t = \<lparr>path = [], relative_path = lit ''a.py'', language = lit ''python'',
     exercise = None, caret = None, dirty = False, file_text = text_new t False,
     highlight_of = parse_buffer eng (detect (engine eng) (lit ''python'') (lit ''a.py'')) (text_new t False),
     baseline_of = Untracked\<rparr>"

lemma toy_laws: "diff_law (word_diff toy_engines)" "line_diff_law (line_diff toy_engines)"
  using prefix_capture_law by (simp_all add: toy_engines_def line_diff_law_def)

theorem comparison_tells_the_difference_witness:
  "compared_with toy_engines (untracked_file toy_engines (lit ''a'' @ [c_cr, c_nl])) (lit ''a'') =
     Some Identical"
proof -
  let ?f = "untracked_file toy_engines (lit ''a'' @ [c_cr, c_nl])"
  have "content (file_text ?f) = [Cp 97, c_cr, c_nl]" "\<not> truncated (file_text ?f)"
    by (simp_all add: untracked_file_def text_new_def lit_def MAX_CONTENT_BYTES_def len_utf8_def)
  moreover have "normalize [Cp 97, c_cr, c_nl] = [Cp 97, c_nl]" "normalize (lit ''a'') = [Cp 97, c_nl]"
    by (simp_all add: normalize_def lit_def ends_with_def strip_suffix_def strip_prefix_def)
  ultimately show ?thesis
    using comparison_tells_the_difference [OF toy_laws, of "lit ''a''" ?f] by simp
qed

end
