(* ===== verification/Expiring.thy ===== *)
theory Expiring
  imports Errors
begin

text \<open>
  The hash maps the server keeps in memory, and the interface its expiring maps share. A
  \<^verbatim>\<open>HashMap\<close> is an association list with distinct keys. The locale \<open>expiring_map\<close> is the contract
  of the snapshot store, the solutions cache, the sessions and the token cache: a reader only
  accepts a fresh entry, and whatever a write sweeps out was not fresh. Its lemmas show that
  the sweep cannot be observed: reads agree with those of a map that forgets nothing.
\<close>

type_synonym ('k, 'v) hashmap = "('k \<times> 'v) list"

definition wf_map :: "('k, 'v) hashmap \<Rightarrow> bool" where
  "wf_map m \<longleftrightarrow> distinct (map fst m)"

definition retain :: "('v \<Rightarrow> bool) \<Rightarrow> ('k, 'v) hashmap \<Rightarrow> ('k, 'v) hashmap" where
  "retain p m = filter (\<lambda>kv. p (snd kv)) m"

lemma wf_map_Nil [simp]: "wf_map []"
  by (simp add: wf_map_def)

lemma wf_map_update [simp]: "wf_map m \<Longrightarrow> wf_map (AList.update k v m)"
  by (simp add: wf_map_def distinct_update)

lemma wf_map_delete [simp]: "wf_map m \<Longrightarrow> wf_map (AList.delete k m)"
  by (simp add: wf_map_def distinct_delete)

lemma map_of_update [simp]: "map_of (AList.update k v m) = (map_of m)(k \<mapsto> v)"
  by (simp add: update_conv')

lemma map_of_delete [simp]: "map_of (AList.delete k m) = (map_of m)(k := None)"
  by (simp add: delete_conv')

lemma wf_map_retain [simp]: "wf_map m \<Longrightarrow> wf_map (retain p m)"
  by (simp add: wf_map_def retain_def distinct_map_filter)

lemma map_of_retain: "wf_map m \<Longrightarrow> map_of (retain p m) k = opt_filter p (map_of m k)"
proof (induction m)
  case (Cons kv m)
  have "map_of m (fst kv) = None"
    using Cons.prems by (auto simp: wf_map_def map_of_eq_None_iff)
  with Cons show ?case by (auto simp: wf_map_def retain_def)
qed (simp add: retain_def)

section \<open>The interface\<close>

locale expiring_map =
  fixes inv :: "'s \<Rightarrow> bool"
    and look :: "'s \<Rightarrow> 'k \<Rightarrow> 'e option"
    and put :: "nat \<Rightarrow> 'k \<Rightarrow> 'e \<Rightarrow> 's \<Rightarrow> 's"
    and fresh :: "nat \<Rightarrow> 'e \<Rightarrow> bool"
  assumes inv_put: "inv s \<Longrightarrow> inv (put now k e s)"
    and look_put: "inv s \<Longrightarrow> look (put now k e s) k = Some e"
    and look_put_other: "inv s \<Longrightarrow> k' \<noteq> k \<Longrightarrow>
      look (put now k e s) k' = look s k' \<or>
      look (put now k e s) k' = None \<and> opt_filter (fresh now) (look s k') = None"
    and fresh_before: "now \<le> later \<Longrightarrow> fresh later e \<Longrightarrow> fresh now e"
begin

text \<open>What a reader sees, and the map that forgets nothing seen the same way.\<close>

definition reads :: "'s \<Rightarrow> nat \<Rightarrow> 'k \<Rightarrow> 'e option" where
  "reads s now k = opt_filter (fresh now) (look s k)"

definition agrees :: "nat \<Rightarrow> 's \<Rightarrow> ('k \<Rightarrow> 'e option) \<Rightarrow> bool" where
  "agrees now s full \<longleftrightarrow> (\<forall>later \<ge> now. \<forall>k. reads s later k = opt_filter (fresh later) (full k))"

lemma agrees_later: "agrees now s full \<Longrightarrow> now \<le> later \<Longrightarrow> agrees later s full"
  by (simp add: agrees_def)

lemma agrees_reads: "agrees now s full \<Longrightarrow> reads s now k = opt_filter (fresh now) (full k)"
  by (simp add: agrees_def)

lemma stale_stays: "now \<le> later \<Longrightarrow> opt_filter (fresh now) v = None \<Longrightarrow> opt_filter (fresh later) v = None"
  using fresh_before by (auto simp: opt_filter_None)

lemma reads_put:
  assumes "inv s" "now \<le> later"
  shows "reads (put now k e s) later k' =
    (if k' = k then opt_filter (fresh later) (Some e) else reads s later k')"
proof (cases "k' = k")
  case True
  then show ?thesis using look_put [OF assms(1)] by (simp add: reads_def)
next
  case False
  then show ?thesis
    using look_put_other [OF assms(1) False, of now e] stale_stays [OF assms(2)]
    by (auto simp: reads_def)
qed

lemma agrees_put:
  "inv s \<Longrightarrow> agrees now s full \<Longrightarrow> agrees now (put now k e s) (full(k \<mapsto> e))"
  using reads_put unfolding agrees_def by auto

end

text \<open>A map that is also swept by an operation of its own, in a read that writes nothing.\<close>

locale swept_map = expiring_map inv look put fresh
  for inv :: "'s \<Rightarrow> bool" and look :: "'s \<Rightarrow> 'k \<Rightarrow> 'e option"
    and put :: "nat \<Rightarrow> 'k \<Rightarrow> 'e \<Rightarrow> 's \<Rightarrow> 's" and fresh :: "nat \<Rightarrow> 'e \<Rightarrow> bool" +
  fixes sweep :: "nat \<Rightarrow> 's \<Rightarrow> 's"
  assumes inv_sweep: "inv s \<Longrightarrow> inv (sweep now s)"
    and look_sweep: "inv s \<Longrightarrow> look (sweep now s) k = look s k \<or>
      look (sweep now s) k = None \<and> opt_filter (fresh now) (look s k) = None"
begin

lemma reads_sweep: "inv s \<Longrightarrow> now \<le> later \<Longrightarrow> reads (sweep now s) later k = reads s later k"
  using look_sweep [of s now k] stale_stays [of now later "look s k"] by (auto simp: reads_def)

lemma agrees_sweep: "inv s \<Longrightarrow> agrees now s full \<Longrightarrow> agrees now (sweep now s) full"
  using reads_sweep unfolding agrees_def by auto

end

end
