(* ===== verification/Snapshot_Store.thy ===== *)
theory Snapshot_Store
  imports Snapshots Expiring
begin

text \<open>
  \<^verbatim>\<open>crates/server/src/snapshots/store.rs\<close> and the handler \<^verbatim>\<open>ingest\<close> of
  \<^verbatim>\<open>crates/server/src/snapshots/mod.rs\<close>. Instants are milliseconds since an epoch, and
  \<^verbatim>\<open>elapsed\<close> saturates at zero, as subtraction on \<open>nat\<close> does. \<open>next_rev\<close> is a \<^verbatim>\<open>u64\<close> that no
  run exhausts, here \<open>nat\<close>. \<open>ingest\<close> awaits the parse between reading the latest snapshot and
  storing the new one, so it is two steps, \<open>ingest_begin\<close> and \<open>ingest_finish\<close>, and the lemmas
  are about every interleaving of them.
\<close>

definition TTL :: nat where
  "TTL = 180 * 1000"

definition ASK_INTERVAL :: nat where
  "ASK_INTERVAL = 750"

definition PRUNE_THRESHOLD :: nat where
  "PRUNE_THRESHOLD = 256"

record stored =
  snap :: snapshot
  received :: nat
  rev_of :: nat

record store =
  latest_map :: "(slot, stored) hashmap"
  asked_map :: "(slot, nat) hashmap"
  next_rev :: nat

record latest =
  latest_snap :: snapshot
  latest_age :: nat
  latest_rev :: nat

definition store_new :: store where
  "store_new = \<lparr>latest_map = [], asked_map = [], next_rev = 0\<rparr>"

definition stored_fresh :: "nat \<Rightarrow> stored \<Rightarrow> bool" where
  "stored_fresh now e \<longleftrightarrow> now - received e < TTL"

definition put_latest :: "nat \<Rightarrow> slot \<Rightarrow> stored \<Rightarrow> (slot, stored) hashmap \<Rightarrow> (slot, stored) hashmap" where
  "put_latest now k e m =
     AList.update k e (if length m > PRUNE_THRESHOLD then retain (stored_fresh now) m else m)"

definition store_insert :: "nat \<Rightarrow> slot \<Rightarrow> snapshot \<Rightarrow> store \<Rightarrow> nat \<times> store" where
  "store_insert now k s st =
     (let n = next_rev st + 1 in
      (n, st\<lparr>next_rev := n,
        latest_map := put_latest now k \<lparr>snap = s, received = now, rev_of = n\<rparr> (latest_map st)\<rparr>))"

definition touch :: "nat \<Rightarrow> slot \<Rightarrow> nat \<Rightarrow> store \<Rightarrow> store" where
  "touch now k n st =
     (case opt_filter (\<lambda>e. rev_of e = n) (map_of (latest_map st) k) of
        None \<Rightarrow> st
      | Some e \<Rightarrow> st\<lparr>latest_map := AList.update k (e\<lparr>received := now\<rparr>) (latest_map st)\<rparr>)"

definition latest_at :: "nat \<Rightarrow> slot \<Rightarrow> store \<Rightarrow> latest option" where
  "latest_at now k st = do {
     e \<leftarrow> map_of (latest_map st) k;
     let age = now - received e;
     if age < TTL
     then Some \<lparr>latest_snap = snap e, latest_age = age, latest_rev = rev_of e\<rparr>
     else None
   }"

definition ask_recent :: "nat \<Rightarrow> nat \<Rightarrow> bool" where
  "ask_recent now at0 \<longleftrightarrow> now - at0 < ASK_INTERVAL"

definition prune_asked :: "nat \<Rightarrow> (slot, nat) hashmap \<Rightarrow> (slot, nat) hashmap" where
  "prune_asked now m =
     (if length m > PRUNE_THRESHOLD then retain (\<lambda>at0. now - at0 < TTL) m else m)"

definition claim_ask :: "nat \<Rightarrow> slot \<Rightarrow> store \<Rightarrow> bool \<times> store" where
  "claim_ask now k st =
     (let m = prune_asked now (asked_map st);
          due = (case map_of m k of None \<Rightarrow> True | Some at0 \<Rightarrow> now - at0 \<ge> ASK_INTERVAL)
      in (due, st\<lparr>asked_map := (if due then AList.update k now m else m)\<rparr>))"

section \<open>Ingesting a report\<close>

definition ingest_student :: "str option \<Rightarrow> student \<Rightarrow> student api_result" where
  "ingest_student verified reported =
     bind_result
       (map_err (\<lambda>_. unauthorized blank_name) (transpose_result (map_option student_try_from verified)))
       (\<lambda>v. Inr (unwrap_or v reported))"

datatype ingest_start =
  Refuse api_error
| Confirm nat
| Parse report_state "snapshot option"

text \<open>Up to the parse: the checks on a cursor-only report, and what is handed to the parse.\<close>

definition ingest_begin :: "nat \<Rightarrow> slot \<Rightarrow> report_state \<Rightarrow> store \<Rightarrow> ingest_start \<times> store" where
  "ingest_begin now k st s =
     (let lat = latest_at now k s in
      case st of
        Report_Cursor basis c \<Rightarrow>
          (case opt_filter (\<lambda>l. latest_rev l = basis \<and> as_file (Some (latest_snap l)) \<noteq> None) lat of
             None \<Rightarrow> (Refuse (conflict (lit ''that snapshot is no longer the latest; send the whole file'')), s)
           | Some l \<Rightarrow>
               if snapshot_cursor (latest_snap l) = Some c then (Confirm basis, touch now k basis s)
               else (Parse st (map_option latest_snap lat), s))
      | _ \<Rightarrow> (Parse st (map_option latest_snap lat), s))"

text \<open>After it: a parse that panicked is an internal error and stores nothing.\<close>

definition ingest_finish :: "nat \<Rightarrow> slot \<Rightarrow> snapshot option \<Rightarrow> store \<Rightarrow> nat api_result \<times> store" where
  "ingest_finish now k parsed s =
     (case parsed of
        None \<Rightarrow> (Inl (internal (lit ''panic'')), s)
      | Some sn \<Rightarrow> (let (n, s') = store_insert now k sn s in (Inr n, s')))"

section \<open>The store as an expiring map\<close>

definition wf_store :: "store \<Rightarrow> bool" where
  "wf_store st \<longleftrightarrow> wf_map (latest_map st) \<and> wf_map (asked_map st)"

interpretation snapshots: expiring_map wf_map map_of put_latest stored_fresh
proof unfold_locales
  fix s :: "(slot, stored) hashmap" and k k' :: slot and e :: stored and now :: nat
  assume wf: "wf_map s"
  show "wf_map (put_latest now k e s)" "map_of (put_latest now k e s) k = Some e"
    using wf by (simp_all add: put_latest_def)
  show "k' \<noteq> k \<Longrightarrow> map_of (put_latest now k e s) k' = map_of s k' \<or>
      map_of (put_latest now k e s) k' = None \<and> opt_filter (stored_fresh now) (map_of s k') = None"
    using map_of_retain [OF wf, of "stored_fresh now" k']
    by (cases "opt_filter (stored_fresh now) (map_of s k')") (auto simp: put_latest_def)
next
  show "now \<le> later \<Longrightarrow> stored_fresh later e \<Longrightarrow> stored_fresh now e" for now later e
    by (simp add: stored_fresh_def)
qed

definition put_asked :: "nat \<Rightarrow> slot \<Rightarrow> nat \<Rightarrow> (slot, nat) hashmap \<Rightarrow> (slot, nat) hashmap" where
  "put_asked now k e m = AList.update k e (prune_asked now m)"

interpretation asks: swept_map wf_map map_of put_asked ask_recent prune_asked
proof unfold_locales
  fix s :: "(slot, nat) hashmap" and k k' :: slot and e now :: nat
  assume wf: "wf_map s"
  show swept: "map_of (prune_asked now s) k = map_of s k \<or>
      map_of (prune_asked now s) k = None \<and> opt_filter (ask_recent now) (map_of s k) = None" for k
    using map_of_retain [OF wf, of "\<lambda>at0. now - at0 < TTL" k]
    by (cases "map_of s k") (auto simp: prune_asked_def ask_recent_def TTL_def ASK_INTERVAL_def)
  show "wf_map (prune_asked now s)" "wf_map (put_asked now k e s)"
    using wf by (simp_all add: put_asked_def prune_asked_def)
  show "map_of (put_asked now k e s) k = Some e" by (simp add: put_asked_def)
  show "k' \<noteq> k \<Longrightarrow> map_of (put_asked now k e s) k' = map_of s k' \<or>
      map_of (put_asked now k e s) k' = None \<and> opt_filter (ask_recent now) (map_of s k') = None"
    using swept [of k'] by (simp add: put_asked_def)
next
  show "now \<le> later \<Longrightarrow> ask_recent later e \<Longrightarrow> ask_recent now e" for now later e
    by (simp add: ask_recent_def)
qed

lemma latest_at_reads:
  "latest_at now k st = map_option
     (\<lambda>e. \<lparr>latest_snap = snap e, latest_age = now - received e, latest_rev = rev_of e\<rparr>)
     (snapshots.reads (latest_map st) now k)"
  by (cases "map_of (latest_map st) k")
    (auto simp: latest_at_def snapshots.reads_def stored_fresh_def Let_def)

lemma claim_ask_reads:
  assumes "wf_map (asked_map st)"
  shows "claim_ask now k st =
    (if asks.reads (asked_map st) now k = None
     then (True, st\<lparr>asked_map := put_asked now k now (asked_map st)\<rparr>)
     else (False, st\<lparr>asked_map := prune_asked now (asked_map st)\<rparr>))"
proof -
  have "(case map_of (prune_asked now (asked_map st)) k of None \<Rightarrow> True | Some a \<Rightarrow> now - a \<ge> ASK_INTERVAL) \<longleftrightarrow>
      asks.reads (asked_map st) now k = None"
    using map_of_retain [OF assms, of "\<lambda>at0. now - at0 < TTL" k]
    by (cases "map_of (asked_map st) k")
      (auto simp: prune_asked_def asks.reads_def ask_recent_def TTL_def ASK_INTERVAL_def)
  then show ?thesis by (auto simp: claim_ask_def Let_def put_asked_def)
qed

section \<open>Runs of the server\<close>

text \<open>
  What happens to the store: time passes, a report arrives, the parse of an earlier report
  ends (any of them), a teacher reads a slot, or asks whether to nudge it. Each event has a
  visible answer. The pending parses are kept with their slots.
\<close>

datatype store_event = Tick nat | Begin slot report_state | Finish nat | Read slot | Claim slot

datatype store_answer =
  Nothing | Started ingest_start | Finished "nat api_result" | Latest "latest option" | Due bool

record world =
  clock :: nat
  the_store :: store
  pending :: "(slot \<times> snapshot option) list"

definition drop_at :: "nat \<Rightarrow> 'a list \<Rightarrow> 'a list" where
  "drop_at i xs = take i xs @ drop (Suc i) xs"

fun store_step ::
    "('g, 'p, 'ops, 'o, 'st, 'sc) engines \<Rightarrow> store_event \<Rightarrow> world \<Rightarrow> store_answer \<times> world" where
  "store_step eng (Tick n) w = (Nothing, w\<lparr>clock := clock w + n\<rparr>)"
| "store_step eng (Begin k st) w =
     (let (a, s) = ingest_begin (clock w) k st (the_store w) in
      (Started a, w\<lparr>the_store := s,
         pending := (case a of
            Parse st' previous \<Rightarrow> pending w @ [(k, snapshot_from_report eng st' previous)]
          | _ \<Rightarrow> pending w)\<rparr>))"
| "store_step eng (Finish i) w =
     (case get (pending w) i of
        None \<Rightarrow> (Nothing, w)
      | Some (k, parsed) \<Rightarrow>
          (let (r, s) = ingest_finish (clock w) k parsed (the_store w) in
           (Finished r, w\<lparr>the_store := s, pending := drop_at i (pending w)\<rparr>)))"
| "store_step eng (Read k) w = (Latest (latest_at (clock w) k (the_store w)), w)"
| "store_step eng (Claim k) w =
     (let (due, s) = claim_ask (clock w) k (the_store w) in (Due due, w\<lparr>the_store := s\<rparr>))"

fun store_run ::
    "('g, 'p, 'ops, 'o, 'st, 'sc) engines \<Rightarrow> store_event list \<Rightarrow> world \<Rightarrow> store_answer list \<times> world" where
  "store_run eng [] w = ([], w)"
| "store_run eng (ev # evs) w =
     (let (a, w1) = store_step eng ev w; (as, w2) = store_run eng evs w1 in (a # as, w2))"

definition world_new :: world where
  "world_new = \<lparr>clock = 0, the_store = store_new, pending = []\<rparr>"

subsection \<open>The store that forgets nothing\<close>

text \<open>
  The specification: per slot the last snapshot stored, with its time and number, and the last
  time the slot was asked. Nothing is ever swept out; what is too old is just not shown.
\<close>

record spec_world =
  spec_clock :: nat
  spec_latest :: "slot \<Rightarrow> stored option"
  spec_asked :: "slot \<Rightarrow> nat option"
  spec_rev :: nat
  spec_pending :: "(slot \<times> snapshot option) list"

definition spec_new :: spec_world where
  "spec_new = \<lparr>spec_clock = 0, spec_latest = (\<lambda>_. None), spec_asked = (\<lambda>_. None), spec_rev = 0,
     spec_pending = []\<rparr>"

definition spec_read :: "spec_world \<Rightarrow> slot \<Rightarrow> latest option" where
  "spec_read w k = map_option
     (\<lambda>e. \<lparr>latest_snap = snap e, latest_age = spec_clock w - received e, latest_rev = rev_of e\<rparr>)
     (opt_filter (stored_fresh (spec_clock w)) (spec_latest w k))"

definition spec_begin :: "slot \<Rightarrow> report_state \<Rightarrow> spec_world \<Rightarrow> ingest_start \<times> spec_world" where
  "spec_begin k st w =
     (let lat = spec_read w k in
      case st of
        Report_Cursor basis c \<Rightarrow>
          (case lat of
             Some l \<Rightarrow>
               if latest_rev l = basis \<and> as_file (Some (latest_snap l)) \<noteq> None
               then if snapshot_cursor (latest_snap l) = Some c
                    then (Confirm basis, w\<lparr>spec_latest := (spec_latest w)(k \<mapsto>
                            \<lparr>snap = latest_snap l, received = spec_clock w, rev_of = basis\<rparr>)\<rparr>)
                    else (Parse st (Some (latest_snap l)), w)
               else (Refuse (conflict (lit ''that snapshot is no longer the latest; send the whole file'')), w)
           | None \<Rightarrow> (Refuse (conflict (lit ''that snapshot is no longer the latest; send the whole file'')), w))
      | _ \<Rightarrow> (Parse st (map_option latest_snap lat), w))"

fun spec_step ::
    "('g, 'p, 'ops, 'o, 'st, 'sc) engines \<Rightarrow> store_event \<Rightarrow> spec_world \<Rightarrow> store_answer \<times> spec_world" where
  "spec_step eng (Tick n) w = (Nothing, w\<lparr>spec_clock := spec_clock w + n\<rparr>)"
| "spec_step eng (Begin k st) w =
     (let (a, w1) = spec_begin k st w in
      (Started a, w1\<lparr>spec_pending := (case a of
            Parse st' previous \<Rightarrow> spec_pending w @ [(k, snapshot_from_report eng st' previous)]
          | _ \<Rightarrow> spec_pending w)\<rparr>))"
| "spec_step eng (Finish i) w =
     (case get (spec_pending w) i of
        None \<Rightarrow> (Nothing, w)
      | Some (k, None) \<Rightarrow>
          (Finished (Inl (internal (lit ''panic''))), w\<lparr>spec_pending := drop_at i (spec_pending w)\<rparr>)
      | Some (k, Some sn) \<Rightarrow>
          (Finished (Inr (spec_rev w + 1)),
           w\<lparr>spec_rev := spec_rev w + 1,
             spec_latest := (spec_latest w)(k \<mapsto>
               \<lparr>snap = sn, received = spec_clock w, rev_of = spec_rev w + 1\<rparr>),
             spec_pending := drop_at i (spec_pending w)\<rparr>))"
| "spec_step eng (Read k) w = (Latest (spec_read w k), w)"
| "spec_step eng (Claim k) w =
     (let due = (opt_filter (ask_recent (spec_clock w)) (spec_asked w k) = None) in
      (Due due, if due then w\<lparr>spec_asked := (spec_asked w)(k \<mapsto> spec_clock w)\<rparr> else w))"

fun spec_run ::
    "('g, 'p, 'ops, 'o, 'st, 'sc) engines \<Rightarrow> store_event list \<Rightarrow> spec_world \<Rightarrow>
       store_answer list \<times> spec_world" where
  "spec_run eng [] w = ([], w)"
| "spec_run eng (ev # evs) w =
     (let (a, w1) = spec_step eng ev w; (as, w2) = spec_run eng evs w1 in (a # as, w2))"

text \<open>The simulation relation.\<close>

definition simulates :: "world \<Rightarrow> spec_world \<Rightarrow> bool" where
  "simulates w v \<longleftrightarrow>
     wf_store (the_store w) \<and> spec_clock v = clock w \<and> spec_rev v = next_rev (the_store w) \<and>
     spec_pending v = pending w \<and>
     snapshots.agrees (clock w) (latest_map (the_store w)) (spec_latest v) \<and>
     asks.agrees (clock w) (asked_map (the_store w)) (spec_asked v)"

lemma simulates_new: "simulates world_new spec_new"
  by (simp add: simulates_def world_new_def spec_new_def store_new_def wf_store_def
      snapshots.agrees_def asks.agrees_def snapshots.reads_def asks.reads_def)

lemma simulates_read: "simulates w v \<Longrightarrow> latest_at (clock w) k (the_store w) = spec_read v k"
proof -
  assume sim: "simulates w v"
  then have "snapshots.reads (latest_map (the_store w)) (clock w) k =
      opt_filter (stored_fresh (clock w)) (spec_latest v k)"
    by (intro snapshots.agrees_reads) (simp add: simulates_def)
  with sim show ?thesis by (simp add: simulates_def latest_at_reads spec_read_def)
qed

text \<open>A write that does not sweep agrees with the map that forgets nothing too.\<close>

lemma agrees_update:
  assumes "snapshots.agrees now m full"
  shows "snapshots.agrees now (AList.update k e m) (full(k \<mapsto> e))"
  using assms by (auto simp: snapshots.agrees_def snapshots.reads_def)

lemma ingest_begin_simulates:
  assumes "simulates w v"
  shows "\<exists>a s v'. ingest_begin (clock w) k st (the_store w) = (a, s) \<and> spec_begin k st v = (a, v') \<and>
    simulates (w\<lparr>the_store := s\<rparr>) v' \<and> spec_pending v' = spec_pending v"
proof (cases st)
  case (Report_Cursor basis c)
  let ?lat = "latest_at (clock w) k (the_store w)"
  have read: "spec_read v k = ?lat" using simulates_read [OF assms] by simp
  show ?thesis
  proof (cases "\<exists>l. ?lat = Some l \<and> latest_rev l = basis \<and> as_file (Some (latest_snap l)) \<noteq> None \<and>
      snapshot_cursor (latest_snap l) = Some c")
    case True
    then obtain l where l: "?lat = Some l" "latest_rev l = basis" "as_file (Some (latest_snap l)) \<noteq> None"
      "snapshot_cursor (latest_snap l) = Some c" by blast
    obtain e where e: "map_of (latest_map (the_store w)) k = Some e" "snap e = latest_snap l" "rev_of e = basis"
      using l(1,2) by (auto simp: latest_at_def bind_eq_Some_conv Let_def split: if_splits)
    let ?e = "\<lparr>snap = latest_snap l, received = clock w, rev_of = basis\<rparr>"
    have "e\<lparr>received := clock w\<rparr> = ?e" using e by (cases e) simp
    then have "touch (clock w) k basis (the_store w) =
        (the_store w)\<lparr>latest_map := AList.update k ?e (latest_map (the_store w))\<rparr>"
      using e(1,3) by (simp add: touch_def \<open>e\<lparr>received := clock w\<rparr> = ?e\<close>)
    then show ?thesis
      using l read Report_Cursor assms agrees_update
      by (simp add: ingest_begin_def spec_begin_def Let_def simulates_def wf_store_def)
  next
    case False
    then show ?thesis
      using read Report_Cursor assms
      by (cases ?lat) (auto simp: ingest_begin_def spec_begin_def Let_def)
  qed
qed (use assms simulates_read [OF assms] in \<open>simp_all add: ingest_begin_def spec_begin_def Let_def\<close>)

lemma store_step_simulates:
  assumes "simulates w v"
  shows "fst (store_step eng ev w) = fst (spec_step eng ev v) \<and>
    simulates (snd (store_step eng ev w)) (snd (spec_step eng ev v))"
proof (cases ev)
  case (Tick n)
  moreover have "snapshots.agrees (clock w + n) (latest_map (the_store w)) (spec_latest v)"
    by (rule snapshots.agrees_later [of "clock w"]) (use assms in \<open>simp_all add: simulates_def\<close>)
  moreover have "asks.agrees (clock w + n) (asked_map (the_store w)) (spec_asked v)"
    by (rule asks.agrees_later [of "clock w"]) (use assms in \<open>simp_all add: simulates_def\<close>)
  ultimately show ?thesis using assms by (simp add: simulates_def)
next
  case (Begin k st)
  obtain a s v' where "ingest_begin (clock w) k st (the_store w) = (a, s)" "spec_begin k st v = (a, v')"
    "simulates (w\<lparr>the_store := s\<rparr>) v'" "spec_pending v' = spec_pending v"
    using ingest_begin_simulates [OF assms] by blast
  with Begin assms show ?thesis by (simp add: simulates_def split: ingest_start.splits)
next
  case (Finish i)
  have pend: "spec_pending v = pending w" using assms by (simp add: simulates_def)
  show ?thesis
  proof (cases "get (pending w) i")
    case None
    with Finish assms pend show ?thesis by simp
  next
    case (Some kp)
    then obtain k parsed where kp: "get (pending w) i = Some (k, parsed)" by (cases kp) simp
    then show ?thesis
      using Finish assms pend snapshots.agrees_put
      by (cases parsed)
        (auto simp: ingest_finish_def store_insert_def simulates_def wf_store_def Let_def snapshots.inv_put)
  qed
next
  case (Read k)
  with assms simulates_read show ?thesis by simp
next
  case (Claim k)
  have wf: "wf_map (asked_map (the_store w))" and clock: "spec_clock v = clock w"
    and agr: "asks.agrees (clock w) (asked_map (the_store w)) (spec_asked v)"
    using assms by (simp_all add: simulates_def wf_store_def)
  have due: "asks.reads (asked_map (the_store w)) (clock w) k =
      opt_filter (ask_recent (clock w)) (spec_asked v k)"
    using agr by (rule asks.agrees_reads)
  show ?thesis
    using Claim assms due clock asks.agrees_put [OF wf agr, of k "clock w"] asks.agrees_sweep [OF wf agr]
      asks.inv_sweep [OF wf]
    by (auto simp: claim_ask_reads [OF wf] simulates_def wf_store_def asks.inv_put Let_def
        simp del: opt_filter_Some)
qed

lemma store_run_simulates:
  "simulates w v \<Longrightarrow> fst (store_run eng evs w) = fst (spec_run eng evs v) \<and>
     simulates (snd (store_run eng evs w)) (snd (spec_run eng evs v))"
proof (induction evs arbitrary: w v)
  case (Cons ev evs)
  note step = store_step_simulates [OF Cons.prems, of eng ev]
  with Cons.IH [of "snd (store_step eng ev w)" "snd (spec_step eng ev v)"]
  show ?case by (simp add: split_beta Let_def)
qed simp


subsection \<open>What a number identifies, and what a reader is shown\<close>

definition spec_ok :: "('g, 'p, 'ops, 'o, 'st, 'sc) engines \<Rightarrow> spec_world \<Rightarrow> bool" where
  "spec_ok eng v \<longleftrightarrow>
     (\<forall>k e. spec_latest v k = Some e \<longrightarrow> snapshot_ok eng (snap e) \<and> rev_of e \<le> spec_rev v) \<and>
     (\<forall>k k' e e'. spec_latest v k = Some e \<longrightarrow> spec_latest v k' = Some e' \<longrightarrow>
        rev_of e = rev_of e' \<longrightarrow> k = k') \<and>
     (\<forall>(k, p) \<in> set (spec_pending v). \<forall>s. p = Some s \<longrightarrow> snapshot_ok eng s)"

text \<open>\<open>v'\<close> comes after \<open>v\<close>: what it holds under an old number, \<open>v\<close> held too.\<close>

definition after :: "spec_world \<Rightarrow> spec_world \<Rightarrow> bool" where
  "after v v' \<longleftrightarrow> spec_rev v \<le> spec_rev v' \<and>
     (\<forall>k e'. spec_latest v' k = Some e' \<longrightarrow>
        spec_rev v < rev_of e' \<or>
        (\<exists>e. spec_latest v k = Some e \<and> snap e = snap e' \<and> rev_of e = rev_of e'))"

lemma after_refl [simp]: "after v v"
  by (simp add: after_def)

lemma after_trans: "after u v \<Longrightarrow> after v w \<Longrightarrow> after u w"
proof -
  assume uv: "after u v" and vw: "after v w"
  show ?thesis
    unfolding after_def
  proof (intro conjI allI impI)
    show "spec_rev u \<le> spec_rev w" using uv vw by (simp add: after_def)
    fix k e' assume "spec_latest w k = Some e'"
    then consider "spec_rev v < rev_of e'"
      | e where "spec_latest v k = Some e" "snap e = snap e'" "rev_of e = rev_of e'"
      using vw unfolding after_def by blast
    then show "spec_rev u < rev_of e' \<or>
        (\<exists>e. spec_latest u k = Some e \<and> snap e = snap e' \<and> rev_of e = rev_of e')"
    proof cases
      case 1
      then show ?thesis using uv by (simp add: after_def)
    next
      case 2
      then show ?thesis using uv unfolding after_def by fastforce
    qed
  qed
qed

lemma spec_ok_new: "spec_ok eng spec_new"
  by (simp add: spec_ok_def spec_new_def)

lemma set_drop_at: "set (drop_at i xs) \<subseteq> set xs"
  by (auto simp: drop_at_def dest: in_set_takeD in_set_dropD)

lemma get_in_set: "get xs i = Some x \<Longrightarrow> x \<in> set xs"
  by (auto simp: get_def split: if_splits)

lemma spec_read_Some:
  "spec_read v k = Some l \<Longrightarrow> \<exists>e. spec_latest v k = Some e \<and> snap e = latest_snap l \<and>
     rev_of e = latest_rev l \<and> latest_age l < TTL"
  by (auto simp: spec_read_def stored_fresh_def)

lemma spec_begin_ok:
  assumes "spec_ok eng v" "spec_begin k st v = (a, v')"
  shows "spec_ok eng v' \<and> after v v' \<and> spec_pending v' = spec_pending v \<and>
    (\<forall>st' p. a = Parse st' p \<longrightarrow> (\<forall>s. p = Some s \<longrightarrow> snapshot_ok eng s))"
proof -
  have read: "snapshot_ok eng (latest_snap l)" if "spec_read v k = Some l" for l
    using spec_read_Some [OF that] assms(1) unfolding spec_ok_def by metis
  show ?thesis
  proof (cases "\<exists>basis c l. st = Report_Cursor basis c \<and> spec_read v k = Some l \<and> latest_rev l = basis \<and>
      as_file (Some (latest_snap l)) \<noteq> None \<and> snapshot_cursor (latest_snap l) = Some c")
    case True
    then obtain basis c l where l: "st = Report_Cursor basis c" "spec_read v k = Some l"
      "latest_rev l = basis" "as_file (Some (latest_snap l)) \<noteq> None"
      "snapshot_cursor (latest_snap l) = Some c" by blast
    obtain e where e: "spec_latest v k = Some e" "snap e = latest_snap l" "rev_of e = basis"
      using spec_read_Some [OF l(2)] l(3) by blast
    have v': "a = Confirm basis" "v' = v\<lparr>spec_latest := (spec_latest v)(k \<mapsto>
        \<lparr>snap = latest_snap l, received = spec_clock v, rev_of = basis\<rparr>)\<rparr>"
      using assms(2) l by (simp_all add: spec_begin_def)
    have "spec_ok eng v'"
      using assms(1) e read [OF l(2)] unfolding v'(2) spec_ok_def by (auto split: if_splits)
    moreover have "after v v'"
      using e unfolding v'(2) after_def by auto
    ultimately show ?thesis using v' by simp
  next
    case False
    then have "v' = v" and "\<forall>st' p. a = Parse st' p \<longrightarrow> p = map_option latest_snap (spec_read v k)"
      using assms(2)
      by (cases st; auto simp: spec_begin_def Let_def split: option.splits if_splits)+
    then show ?thesis using assms(1) read by (cases "spec_read v k") auto
  qed
qed

lemma spec_step_ok:
  assumes "spec_ok eng v"
  shows "spec_ok eng (snd (spec_step eng ev v)) \<and> after v (snd (spec_step eng ev v))"
proof (cases ev)
  case (Begin k st)
  obtain a v' where 1: "spec_begin k st v = (a, v')" by force
  note ok = spec_begin_ok [OF assms 1]
  let ?p = "case a of Parse st' previous \<Rightarrow> spec_pending v @ [(k, snapshot_from_report eng st' previous)]
    | _ \<Rightarrow> spec_pending v"
  have "\<forall>(k, p) \<in> set ?p. \<forall>s. p = Some s \<longrightarrow> snapshot_ok eng s"
    using assms ok snapshot_from_report_ok [of _ eng]
    by (cases a) (auto simp: spec_ok_def)
  then show ?thesis using Begin 1 ok by (simp add: spec_ok_def after_def)
next
  case (Finish i)
  show ?thesis
  proof (cases "get (spec_pending v) i")
    case None
    with Finish assms show ?thesis by simp
  next
    case (Some kp)
    obtain k p where kp: "kp = (k, p)" by (cases kp)
    have mem: "(k, p) \<in> set (spec_pending v)" using Some kp get_in_set by fast
    have pend: "\<forall>(k, p) \<in> set (drop_at i (spec_pending v)). \<forall>s. p = Some s \<longrightarrow> snapshot_ok eng s"
      using assms set_drop_at unfolding spec_ok_def by fast
    show ?thesis
    proof (cases p)
      case None
      with Finish Some kp assms pend show ?thesis by (simp add: spec_ok_def after_def)
    next
      case (Some sn)
      let ?v = "snd (spec_step eng ev v)"
      have v: "?v = v\<lparr>spec_rev := spec_rev v + 1, spec_latest := (spec_latest v)(k \<mapsto>
          \<lparr>snap = sn, received = spec_clock v, rev_of = spec_rev v + 1\<rparr>),
          spec_pending := drop_at i (spec_pending v)\<rparr>"
        using Finish \<open>get (spec_pending v) i = Some kp\<close> kp Some by simp
      have sn: "snapshot_ok eng sn" using assms mem Some by (auto simp: spec_ok_def)
      have old: "spec_latest v k' = Some e \<Longrightarrow> rev_of e < spec_rev v + 1" for k' e
        using assms by (force simp: spec_ok_def)
      have "spec_ok eng ?v"
        unfolding v spec_ok_def using assms sn pend old
        by (auto simp: spec_ok_def le_SucI split: if_splits) (metis less_irrefl)+
      moreover have "after v ?v" unfolding v after_def by auto
      ultimately show ?thesis by simp
    qed
  qed
qed (use assms in \<open>auto simp: spec_ok_def after_def Let_def\<close>)

lemma spec_run_ok:
  "spec_ok eng v \<Longrightarrow> spec_ok eng (snd (spec_run eng evs v)) \<and> after v (snd (spec_run eng evs v))"
proof (induction evs arbitrary: v)
  case (Cons ev evs)
  note step = spec_step_ok [OF Cons.prems, of ev]
  then show ?case
    using Cons.IH [of "snd (spec_step eng ev v)"] after_trans by (auto simp: split_beta Let_def)
qed simp

lemma spec_run_append:
  "snd (spec_run eng (evs @ evs') v) = snd (spec_run eng evs' (snd (spec_run eng evs v)))"
  by (induction evs arbitrary: v) (simp_all add: split_beta Let_def)

abbreviation world_after ::
    "('g, 'p, 'ops, 'o, 'st, 'sc) engines \<Rightarrow> store_event list \<Rightarrow> world" where
  "world_after eng evs \<equiv> snd (store_run eng evs world_new)"

definition read_after ::
    "('g, 'p, 'ops, 'o, 'st, 'sc) engines \<Rightarrow> store_event list \<Rightarrow> slot \<Rightarrow> latest option" where
  "read_after eng evs k = latest_at (clock (world_after eng evs)) k (the_store (world_after eng evs))"

lemma read_after_spec:
  "read_after eng evs k = spec_read (snd (spec_run eng evs spec_new)) k"
  using simulates_read store_run_simulates [OF simulates_new] unfolding read_after_def by blast


section \<open>Properties\<close>

text \<open>C20: However reports, parses, teachers' reads and asks interleave, the store answers as one
  that never forgets anything: sweeping out old entries is never visible, neither in what is
  shown nor in whom is asked again.\<close>

theorem sweeping_is_invisible:
  "fst (store_run eng evs world_new) = fst (spec_run eng evs spec_new)"
  using store_run_simulates [OF simulates_new] by blast

text \<open>C30: What a teacher is shown is recent and whole: its age is below the limit, its text is
  within the cap, its highlight is what parsing that text afresh gives, however many parses
  were reused on the way.\<close>

theorem shown_file_is_sound:
  assumes "read_after eng evs k = Some l" "latest_snap l = File f"
  shows "latest_age l < TTL \<and> blen (content (file_text f)) \<le> MAX_CONTENT_BYTES \<and>
    highlight_of f =
      parse_buffer eng (detect (engine eng) (language f) (relative_path f)) (file_text f)"
proof -
  let ?v = "snd (spec_run eng evs spec_new)"
  obtain e where e: "spec_latest ?v k = Some e" "snap e = latest_snap l" "latest_age l < TTL"
    using spec_read_Some assms(1) unfolding read_after_spec by blast
  have "spec_ok eng ?v" using spec_run_ok [OF spec_ok_new] by blast
  then have "snapshot_ok eng (snap e)" using e(1) unfolding spec_ok_def by blast
  then show ?thesis using e assms(2) by (simp add: snapshot_ok_def file_ok_def)
qed

text \<open>A number identifies one snapshot: whenever two reads in a run answer with the same
  number, they are of the same student and show the same snapshot.\<close>

theorem number_identifies_snapshot:
  assumes "read_after eng evs k = Some l" "read_after eng (evs @ evs') k' = Some l'"
    "latest_rev l = latest_rev l'"
  shows "k = k' \<and> latest_snap l = latest_snap l'"
proof -
  let ?v = "snd (spec_run eng evs spec_new)"
  let ?w = "snd (spec_run eng evs' ?v)"
  obtain e where e: "spec_latest ?v k = Some e" "snap e = latest_snap l" "rev_of e = latest_rev l"
    using spec_read_Some assms(1) unfolding read_after_spec by blast
  obtain e' where e': "spec_latest ?w k' = Some e'" "snap e' = latest_snap l'" "rev_of e' = latest_rev l'"
    using spec_read_Some assms(2) unfolding read_after_spec spec_run_append by blast
  have ok: "spec_ok eng ?v" using spec_run_ok [OF spec_ok_new] by blast
  then have "after ?v ?w" using spec_run_ok by blast
  moreover have "rev_of e' \<le> spec_rev ?v" using ok e e' assms(3) unfolding spec_ok_def by metis
  ultimately obtain e0 where "spec_latest ?v k' = Some e0" "snap e0 = snap e'" "rev_of e0 = rev_of e'"
    using e'(1) unfolding after_def by (metis leD)
  moreover from this have "k = k'" using ok e e' assms(3) unfolding spec_ok_def by metis
  ultimately show ?thesis using e e' by simp
qed

subsection \<open>Examples\<close>

definition untracked_report :: "str \<Rightarrow> report_file" where
  "untracked_report t = \<lparr>rf_path = [], rf_relative_path = lit ''a.py'', rf_language = lit ''python'',
     rf_exercise = None, rf_cursor = None, rf_dirty = False, rf_content = t, rf_truncated = False,
     rf_baseline = Report_Untracked\<rparr>"

lemma untracked_from_report:
  "\<forall>p. previous = Some p \<longrightarrow> file_ok eng p \<Longrightarrow>
     file_from_report eng (untracked_report t) previous = Some (untracked_file eng t)"
  by (simp only: file_from_report_previous)
    (simp add: file_from_report_def untracked_report_def untracked_file_def Let_def)

lemma untracked_file_ok: "file_ok eng (untracked_file eng t)"
  using text_new_within by (simp add: file_ok_def untracked_file_def)

definition ada :: slot where
  "ada = \<lparr>slot_course = Uuid 1, slot_student = Student (lit ''ada'')\<rparr>"

lemma snapshot_first_file:
  "snapshot_from_report eng (Report_File (untracked_report t)) None = Some (File (untracked_file eng t))"
  using untracked_from_report [of None] by (simp add: snapshot_from_report_def as_file_def)

lemma snapshot_next_file:
  "file_ok eng f \<Longrightarrow> snapshot_from_report eng (Report_File (untracked_report t)) (Some (File f)) =
     Some (File (untracked_file eng t))"
  using untracked_from_report [of "Some f" eng] by (simp add: snapshot_from_report_def as_file_def)

lemma snapshot_caret:
  "snapshot_from_report eng (Report_Cursor b c) (Some (File f)) = Some (File (with_cursor f c))"
  by (simp add: snapshot_from_report_def)

lemmas store_eval = store_step.simps world_new_def store_new_def ingest_begin_def ingest_finish_def
  latest_at_def store_insert_def put_latest_def Let_def TTL_def PRUNE_THRESHOLD_def get_def drop_at_def

lemma first_read:
  "read_after eng [Begin ada (Report_File (untracked_report t)), Finish 0] ada =
     Some \<lparr>latest_snap = File (untracked_file eng t), latest_age = 0, latest_rev = 1\<rparr>"
  by (simp add: read_after_def store_eval snapshot_first_file)

theorem shown_file_is_sound_witness:
  "0 < TTL \<and> blen (content (file_text (untracked_file toy_engines (lit ''x'')))) \<le> MAX_CONTENT_BYTES \<and>
    highlight_of (untracked_file toy_engines (lit ''x'')) =
      parse_buffer toy_engines (detect (engine toy_engines) (lit ''python'') (lit ''a.py''))
        (text_new (lit ''x'') False)"
  using shown_file_is_sound [OF first_read [of toy_engines "lit ''x''"]]
  by (simp add: untracked_file_def)

theorem number_identifies_snapshot_witness:
  "ada = ada \<and> File (untracked_file toy_engines (lit ''x'')) = File (untracked_file toy_engines (lit ''x''))"
  using number_identifies_snapshot
    [OF first_read [of toy_engines "lit ''x''"], of "[]" ada] first_read [of toy_engines "lit ''x''"]
  by simp

text \<open>A caret report can bring back a file that was already replaced. Its basis is checked
  before the parse is awaited and not again when the result is stored: if the editor's next
  file is stored in between, the next read shows the older text, under the newest number.\<close>

theorem late_caret_report_restores_old_file:
  "read_after eng
     [Begin ada (Report_File (untracked_report old)), Finish 0,
      Begin ada (Report_Cursor 1 c), Begin ada (Report_File (untracked_report new)),
      Finish 1, Finish 0] ada =
   Some \<lparr>latest_snap = File (with_cursor (untracked_file eng old) c), latest_age = 0, latest_rev = 3\<rparr>"
proof -
  have "caret (untracked_file eng old) = None" by (simp add: untracked_file_def)
  then show ?thesis
    by (simp add: read_after_def store_eval snapshot_first_file snapshot_next_file untracked_file_ok
        snapshot_caret as_file_def snapshot_cursor_def)
qed

text \<open>An editor never chooses its own name where identities are verified: the verified one
  is taken, and one that is no student name is refused, whatever the report says.\<close>

theorem verified_identity_overrides:
  "ingest_student (Some name) reported =
     (if trim name = [] then Inl (unauthorized blank_name) else Inr (Student name)) \<and>
   ingest_student None reported = Inr reported"
  by (simp add: ingest_student_def student_try_from_def transpose_result_def)

end
