(* ===== verification/Utf8.thy ===== *)
theory Utf8
  imports Errors
begin

text \<open>
  The UTF-8 decoding of Rust's standard library, as the server calls it: \<^verbatim>\<open>String::from_utf8\<close>
  (\<open>from_utf8\<close>) refuses a malformed sequence, \<^verbatim>\<open>String::from_utf8_lossy\<close> (\<open>from_utf8_lossy\<close>)
  replaces each maximal part of one by U+FFFD. A byte is a \<open>nat\<close> below 256. The lemmas give the
  round trip with \<open>encode\<close> and the length of what is decoded.
\<close>

type_synonym byte = nat

definition scalar :: "rchar \<Rightarrow> bool" where
  "scalar c \<longleftrightarrow> code c < 55296 \<or> (57344 \<le> code c \<and> code c < 1114112)"

definition encode_char :: "rchar \<Rightarrow> byte list" where
  "encode_char c =
     (let n = code c in
      if n < 128 then [n]
      else if n < 2048 then [192 + n div 64, 128 + n mod 64]
      else if n < 65536 then [224 + n div 4096, 128 + n div 64 mod 64, 128 + n mod 64]
      else [240 + n div 262144, 128 + n div 4096 mod 64, 128 + n div 64 mod 64, 128 + n mod 64])"

definition encode :: "str \<Rightarrow> byte list" where
  "encode s = concat (map encode_char s)"

definition cont :: "byte \<Rightarrow> bool" where
  "cont b \<longleftrightarrow> 128 \<le> b \<and> b < 192"

text \<open>What may follow a leading byte: the range of the second one.\<close>

definition second_ok :: "byte \<Rightarrow> byte \<Rightarrow> bool" where
  "second_ok a b \<longleftrightarrow>
     (if 194 \<le> a \<and> a < 224 then cont b
      else if a = 224 then 160 \<le> b \<and> b < 192
      else if a = 237 then 128 \<le> b \<and> b < 160
      else if 224 < a \<and> a < 240 then cont b
      else if a = 240 then 144 \<le> b \<and> b < 192
      else if 240 < a \<and> a < 244 then cont b
      else if a = 244 then 128 \<le> b \<and> b < 144
      else False)"

text \<open>One character from the front, or how many bytes of a malformed one to skip.\<close>

definition next_char :: "byte list \<Rightarrow> nat + (rchar \<times> byte list)" where
  "next_char bs =
     (case bs of
        [] \<Rightarrow> Inl 0
      | a # r \<Rightarrow>
          if a < 128 then Inr (Cp a, r)
          else (case r of
              [] \<Rightarrow> Inl 1
            | b # r \<Rightarrow>
                if \<not> second_ok a b then Inl 1
                else if a < 224 then Inr (Cp ((a - 192) * 64 + (b - 128)), r)
                else (case r of
                    [] \<Rightarrow> Inl 2
                  | c # r \<Rightarrow>
                      if \<not> cont c then Inl 2
                      else if a < 240
                           then Inr (Cp ((a - 224) * 4096 + (b - 128) * 64 + (c - 128)), r)
                      else (case r of
                          [] \<Rightarrow> Inl 3
                        | d # r \<Rightarrow>
                            if \<not> cont d then Inl 3
                            else Inr (Cp ((a - 240) * 262144 + (b - 128) * 4096 + (c - 128) * 64 +
                                   (d - 128)), r)))))"

lemma next_char_shorter: "next_char bs = Inr (c, r) \<Longrightarrow> length r < length bs"
  by (auto simp: next_char_def split: list.splits if_splits)

fun decode_fuel :: "nat \<Rightarrow> byte list \<Rightarrow> str option" where
  "decode_fuel 0 bs = None"
| "decode_fuel (Suc n) bs =
     (if bs = [] then Some []
      else (case next_char bs of
              Inl _ \<Rightarrow> None
            | Inr (c, r) \<Rightarrow> map_option ((#) c) (decode_fuel n r)))"

text \<open>A byte at least is consumed per character: one more than the length is fuel enough.\<close>

definition from_utf8 :: "byte list \<Rightarrow> str option" where
  "from_utf8 bs = decode_fuel (Suc (length bs)) bs"

definition replacement :: rchar where
  "replacement = Cp 65533"

fun lossy_fuel :: "nat \<Rightarrow> byte list \<Rightarrow> str" where
  "lossy_fuel 0 bs = []"
| "lossy_fuel (Suc n) bs =
     (if bs = [] then []
      else (case next_char bs of
              Inl k \<Rightarrow> replacement # lossy_fuel n (drop k bs)
            | Inr (c, r) \<Rightarrow> c # lossy_fuel n r))"

definition from_utf8_lossy :: "byte list \<Rightarrow> str" where
  "from_utf8_lossy bs = lossy_fuel (Suc (length bs)) bs"

lemma encode_simps [simp]:
  "encode [] = []" "encode (c # s) = encode_char c @ encode s" "encode (s @ t) = encode s @ encode t"
  by (simp_all add: encode_def)

lemma length_encode_char [simp]: "length (encode_char c) = len_utf8 c"
  by (simp add: encode_char_def len_utf8_def Let_def)

lemma length_encode [simp]: "length (encode s) = blen s"
  by (induction s) simp_all

lemma encode_char_not_Nil [simp]: "encode_char c \<noteq> []"
  by (simp add: encode_char_def Let_def)

lemma split_64:
  fixes n :: nat
  shows "n = n div 4096 * 4096 + n div 64 mod 64 * 64 + n mod 64"
    "n = n div 262144 * 262144 + n div 4096 mod 64 * 4096 + n div 64 mod 64 * 64 + n mod 64"
    "n < 65536 \<Longrightarrow> n div 4096 < 16" "n < 1114112 \<Longrightarrow> n div 262144 < 5"
proof -
  have a: "n = n div 64 * 64 + n mod 64" "n div 64 = n div 64 div 64 * 64 + n div 64 mod 64"
    "n div 64 div 64 = n div 64 div 64 div 64 * 64 + n div 64 div 64 mod 64"
    by simp_all
  have b: "n div 4096 = n div 64 div 64" "n div 262144 = n div 64 div 64 div 64"
    by (simp_all add: div_mult2_eq [symmetric])
  show 1: "n = n div 4096 * 4096 + n div 64 mod 64 * 64 + n mod 64"
    unfolding b using a(1,2) by linarith
  show "n = n div 262144 * 262144 + n div 4096 mod 64 * 4096 + n div 64 mod 64 * 64 + n mod 64"
    unfolding b using a by linarith
qed (simp_all add: less_mult_imp_div_less)

lemma next_char_encode:
  assumes "scalar c"
  shows "next_char (encode_char c @ bs) = Inr (c, bs)"
proof -
  obtain n where c: "c = Cp n" by (cases c)
  have s: "n < 55296 \<or> (57344 \<le> n \<and> n < 1114112)" using assms c by (simp add: scalar_def)
  consider "n < 128" | "128 \<le> n" "n < 2048" | "2048 \<le> n" "n < 65536" | "65536 \<le> n" by linarith
  then show ?thesis
  proof cases
    case 1
    then show ?thesis by (simp add: c encode_char_def next_char_def)
  next
    case 2
    then have "2 \<le> n div 64" "n div 64 < 32" by auto
    with 2 show ?thesis
      by (simp add: c encode_char_def next_char_def second_ok_def cont_def)
  next
    case 3
    define x y z where "x = n div 4096" "y = n div 64 mod 64" "z = n mod 64"
    have xyz: "n = x * 4096 + y * 64 + z" "x < 16" "y < 64" "z < 64"
      using 3 split_64 [of n] by (simp_all add: x_y_z_def)
    have "x = 0 \<Longrightarrow> 32 \<le> y" "x = 13 \<Longrightarrow> y < 32" using xyz 3 s by linarith+
    moreover have "encode_char c = [224 + x, 128 + y, 128 + z]"
      using 3 by (simp add: c encode_char_def x_y_z_def)
    ultimately show ?thesis
      using xyz by (auto simp: next_char_def second_ok_def cont_def c)
  next
    case 4
    define w x y z where "w = n div 262144" "x = n div 4096 mod 64" "y = n div 64 mod 64" "z = n mod 64"
    have wxyz: "n = w * 262144 + x * 4096 + y * 64 + z" "w < 5" "x < 64" "y < 64" "z < 64"
      using 4 s split_64 [of n] by (simp_all add: w_x_y_z_def)
    have "w = 0 \<Longrightarrow> 16 \<le> x" "w = 4 \<Longrightarrow> x < 16" using wxyz 4 s by linarith+
    moreover have "encode_char c = [240 + w, 128 + x, 128 + y, 128 + z]"
      using 4 by (simp add: c encode_char_def w_x_y_z_def)
    ultimately show ?thesis
      using wxyz by (auto simp: next_char_def second_ok_def cont_def c)
  qed
qed

lemma decode_fuel_encode:
  "list_all scalar s \<Longrightarrow> length s < n \<Longrightarrow> decode_fuel n (encode s) = Some s"
proof (induction s arbitrary: n)
  case Nil
  then show ?case by (cases n) simp_all
next
  case (Cons c s)
  then obtain m where "n = Suc m" by (cases n) auto
  with Cons show ?case by (simp add: next_char_encode)
qed

lemma from_utf8_encode: "list_all scalar s \<Longrightarrow> from_utf8 (encode s) = Some s"
  unfolding from_utf8_def
  by (rule decode_fuel_encode) (simp_all add: length_le_blen le_imp_less_Suc)

lemma lossy_fuel_encode:
  "list_all scalar s \<Longrightarrow> length s < n \<Longrightarrow> lossy_fuel n (encode s) = s"
proof (induction s arbitrary: n)
  case Nil
  then show ?case by (cases n) simp_all
next
  case (Cons c s)
  then obtain m where "n = Suc m" by (cases n) auto
  with Cons show ?case by (simp add: next_char_encode)
qed

lemma from_utf8_lossy_encode: "list_all scalar s \<Longrightarrow> from_utf8_lossy (encode s) = s"
  unfolding from_utf8_lossy_def
  by (rule lossy_fuel_encode) (simp_all add: length_le_blen le_imp_less_Suc)

lemma next_char_length:
  "next_char bs = Inr (c, r) \<Longrightarrow> length bs = len_utf8 c + length r"
  by (auto simp: next_char_def second_ok_def cont_def len_utf8_def split: list.splits if_splits)

lemma decode_fuel_length: "decode_fuel n bs = Some s \<Longrightarrow> blen s = length bs"
proof (induction n arbitrary: bs s)
  case (Suc n)
  then show ?case
    by (cases "bs = []") (auto split: sum.splits prod.splits dest: next_char_length)
qed simp

lemma from_utf8_length: "from_utf8 bs = Some s \<Longrightarrow> blen s = length bs"
  unfolding from_utf8_def by (rule decode_fuel_length)

end
