(* ===== verification/GitHub.thy ===== *)
theory GitHub
  imports Sources Expiring Utf8
begin

text \<open>
  A linked repository: \<^verbatim>\<open>crates/server/src/repo.rs\<close> (which repository a URL names, which exercises
  it holds, given what reading it gave) and \<^verbatim>\<open>github_access.rs\<close> with the token cache of
  \<^verbatim>\<open>github_app.rs\<close> (which credential may be sent, given what minting gives). The requests that read
  and mint are those of \<open>GitHub_Reads\<close>, the read of one file that of \<open>Fetch\<close>. The lemmas show that
  the exercises found are distinct and that a credential only goes where it may.
\<close>

section \<open>Which repository\<close>

definition repo_char :: "rchar \<Rightarrow> bool" where
  "repo_char c \<longleftrightarrow> is_ascii_alphanumeric c \<or> c \<in> {c_dot, c_underscore, c_dash}"

definition is_safe_segment :: "str \<Rightarrow> bool" where
  "is_safe_segment s \<longleftrightarrow> s \<noteq> [] \<and> s \<noteq> lit ''.'' \<and> s \<noteq> lit ''..'' \<and> list_all repo_char s"

definition parse_github :: "str \<Rightarrow> (str \<times> str) option" where
  "parse_github repo_url = do {
     let s = trim repo_url;
     rest \<leftarrow> or_else (strip_prefix (lit ''https://github.com/'') s)
       (or_else (strip_prefix (lit ''http://github.com/'') s)
         (or_else (strip_prefix (lit ''ssh://git@github.com/'') s)
           (strip_prefix (lit ''git@github.com:'') s)));
     let rest = trim_end (\<lambda>c. c = c_slash) rest;
     (case split_on ((=) c_slash) rest of
        owner # repo # _ \<Rightarrow>
          (let repo = unwrap_or (strip_suffix (lit ''.git'') repo) repo in
           if is_safe_segment owner \<and> is_safe_segment repo then Some (owner, repo) else None)
      | _ \<Rightarrow> None)
   }"

record github_repo =
  owner :: str
  repo_name :: str

definition github_repo_parse :: "str \<Rightarrow> github_repo option" where
  "github_repo_parse repo_url =
     map_option (\<lambda>(o1, n). \<lparr>owner = o1, repo_name = n\<rparr>) (parse_github repo_url)"

definition wf_repo :: "github_repo \<Rightarrow> bool" where
  "wf_repo r \<longleftrightarrow> is_safe_segment (owner r) \<and> is_safe_segment (repo_name r)"

lemma parse_github_safe:
  assumes "parse_github url = Some (o1, n)"
  shows "is_safe_segment o1 \<and> is_safe_segment n"
proof -
  obtain rest where "(case split_on ((=) c_slash) (trim_end (\<lambda>c. c = c_slash) rest) of
        a # b # _ \<Rightarrow>
          (let c = unwrap_or (strip_suffix (lit ''.git'') b) b in
           if is_safe_segment a \<and> is_safe_segment c then Some (a, c) else None)
      | _ \<Rightarrow> None) = Some (o1, n)"
    using assms unfolding parse_github_def Let_def bind_eq_Some_conv by blast
  then show ?thesis by (auto simp: Let_def split: list.splits if_splits)
qed

lemma github_repo_parse_wf: "github_repo_parse url = Some r \<Longrightarrow> wf_repo r"
  using parse_github_safe by (auto simp: github_repo_parse_def wf_repo_def)

section \<open>Which exercises\<close>

text \<open>A parsed JSON value; a number is kept as its text.\<close>

datatype json = JNull | JNumber str | JString str | JArray "json list" | JObject "(str \<times> json) list" | JOther

definition json_get :: "str \<Rightarrow> json \<Rightarrow> json option" where
  "json_get k j = (case j of JObject fs \<Rightarrow> map_of fs k | _ \<Rightarrow> None)"

definition as_array :: "json \<Rightarrow> json list option" where
  "as_array j = (case j of JArray js \<Rightarrow> Some js | _ \<Rightarrow> None)"

definition as_string :: "json \<Rightarrow> str option" where
  "as_string j = (case j of JString s \<Rightarrow> Some s | _ \<Rightarrow> None)"

record discovered =
  disc_slug :: str
  disc_title :: str

definition discovered_of :: "str \<Rightarrow> discovered" where
  "discovered_of s = \<lparr>disc_slug = s, disc_title = title_from_slug s\<rparr>"

fun config_loop :: "json list \<Rightarrow> discovered list \<Rightarrow> discovered list" where
  "config_loop [] out = out"
| "config_loop (ex # exs) out =
     (case Option.bind (json_get (lit ''name'') ex) as_string of
        None \<Rightarrow> config_loop exs out
      | Some name \<Rightarrow>
          (case normalize_slug name of
             None \<Rightarrow> config_loop exs out
           | Some s \<Rightarrow>
               if list_ex (\<lambda>e. disc_slug e = s) out then config_loop exs out
               else config_loop exs (out @ [discovered_of s])))"

definition exercises_from_config :: "json \<Rightarrow> discovered list" where
  "exercises_from_config cfg =
     (case Option.bind (json_get (lit ''exercises'') cfg) as_array of
        None \<Rightarrow> []
      | Some arr \<Rightarrow> config_loop arr [])"

definition is_ignored_dir :: "str \<Rightarrow> bool" where
  "is_ignored_dir name \<longleftrightarrow> starts_with (lit ''.'') name \<or>
     name \<in> set (map lit [''node_modules'', ''target'', ''dist'', ''build'', ''out'', ''bin'', ''obj'',
       ''vendor'', ''__pycache__''])"

record content_entry =
  entry_kind :: str
  entry_name :: str

text \<open>\<^verbatim>\<open>Vec::dedup_by\<close>: of a run of equals, the first stays.\<close>

fun dedup_by :: "('a \<Rightarrow> 'b) \<Rightarrow> 'a list \<Rightarrow> 'a list" where
  "dedup_by f (a # b # xs) = (if f a = f b then dedup_by f (a # xs) else a # dedup_by f (b # xs))"
| "dedup_by f xs = xs"

definition exercises_from_root :: "content_entry list \<Rightarrow> discovered list" where
  "exercises_from_root entries =
     dedup_by disc_slug (sort_key disc_slug
       (List.map_filter (\<lambda>e. map_option discovered_of (normalize_slug (entry_name e)))
         (filter (\<lambda>e. entry_kind e = lit ''dir'' \<and> \<not> is_ignored_dir (entry_name e)) entries)))"

text \<open>\<open>cfg\<close> is the repository's \<^verbatim>\<open>.hermione.json\<close>, if it could be read and parsed; \<open>listing\<close> the
  answer for its top level.\<close>

definition discover_exercises :: "json option \<Rightarrow> 'e + content_entry list \<Rightarrow> 'e + discovered list" where
  "discover_exercises cfg listing =
     (case map_option exercises_from_config cfg of
        Some (e # es) \<Rightarrow> Inr (e # es)
      | _ \<Rightarrow> bind_result listing (\<lambda>entries. Inr (exercises_from_root entries)))"

record tree_entry =
  tree_path :: str
  tree_kind :: str

definition fetch_dirs :: "'e + tree_entry list \<Rightarrow> 'e + str list" where
  "fetch_dirs tree = bind_result tree (\<lambda>entries. Inr (sort (map tree_path
     (filter (\<lambda>e. \<not> list_ex is_ignored_dir (split_on ((=) c_slash) (tree_path e)))
       (filter (\<lambda>e. tree_kind e = lit ''tree'') entries)))))"

definition good_discovery :: "discovered list \<Rightarrow> bool" where
  "good_discovery ds \<longleftrightarrow> distinct (map disc_slug ds) \<and>
     (\<forall>d \<in> set ds. is_slug (disc_slug d) \<and> normalize_slug (disc_title d) = Some (disc_slug d))"

lemma discovered_of_good:
  "normalize_slug name = Some s \<Longrightarrow> is_slug s \<and> normalize_slug (title_from_slug s) = Some s"
  using normalize_slug_shape normalize_slug_title by blast

lemma config_loop_good: "good_discovery out \<Longrightarrow> good_discovery (config_loop exs out)"
proof (induction exs arbitrary: out)
  case (Cons ex exs)
  show ?case
  proof (cases "Option.bind (json_get (lit ''name'') ex) as_string")
    case None
    with Cons show ?thesis by simp
  next
    case (Some name)
    show ?thesis
    proof (cases "normalize_slug name")
      case None
      with Some Cons show ?thesis by simp
    next
      case (Some s)
      have "good_discovery (out @ [discovered_of s])" if "\<not> list_ex (\<lambda>e. disc_slug e = s) out"
        using Cons.prems that discovered_of_good [OF Some]
        by (auto simp: good_discovery_def list_ex_iff discovered_of_def)
      with Some Cons \<open>Option.bind _ as_string = Some name\<close> show ?thesis by simp
    qed
  qed
qed simp

lemma set_dedup_by: "set (dedup_by f xs) \<subseteq> set xs"
  by (induction f xs rule: dedup_by.induct) auto

lemma dedup_by_sorted:
  "sorted (map f xs) \<Longrightarrow> sorted_wrt (<) (map f (dedup_by f xs)) \<and>
     (xs \<noteq> [] \<longrightarrow> dedup_by f xs \<noteq> [] \<and> f (hd (dedup_by f xs)) = f (hd xs))"
  for f :: "'a \<Rightarrow> 'b :: linorder"
proof (induction f xs rule: dedup_by.induct)
  case (1 f a b xs)
  show ?case
  proof (cases "f a = f b")
    case True
    with 1 show ?thesis by auto
  next
    case False
    moreover have "f a \<le> f b" using 1(3) by simp
    ultimately have lt: "f a < f b" by (simp add: less_le)
    let ?d = "dedup_by f (b # xs)"
    have d: "sorted_wrt (<) (map f ?d)" "?d \<noteq> []" "f (hd ?d) = f b"
      using 1(2) [OF False] 1(3) by simp_all
    have "f a < f x" if "x \<in> set ?d" for x
      using 1(3) lt set_dedup_by [of f "b # xs"] that by fastforce
    with d False show ?thesis by simp
  qed
qed auto

lemma exercises_from_root_good:
  "good_discovery (exercises_from_root entries) \<and>
     sorted (map disc_slug (exercises_from_root entries))"
proof -
  let ?xs = "sort_key disc_slug
       (List.map_filter (\<lambda>e. map_option discovered_of (normalize_slug (entry_name e)))
         (filter (\<lambda>e. entry_kind e = lit ''dir'' \<and> \<not> is_ignored_dir (entry_name e)) entries))"
  have "is_slug (disc_slug d) \<and> normalize_slug (disc_title d) = Some (disc_slug d)"
    if "d \<in> set ?xs" for d
    using that discovered_of_good
    by (fastforce simp: List.map_filter_def discovered_of_def)
  moreover have "sorted_wrt (<) (map disc_slug (dedup_by disc_slug ?xs))"
    using dedup_by_sorted [of disc_slug ?xs] by simp
  then have "distinct (map disc_slug (dedup_by disc_slug ?xs)) \<and> sorted (map disc_slug (dedup_by disc_slug ?xs))"
    by (simp add: strict_sorted_iff)
  ultimately show ?thesis
    using set_dedup_by [of disc_slug ?xs] unfolding exercises_from_root_def good_discovery_def by blast
qed

lemma discover_exercises_good:
  "discover_exercises cfg listing = Inr ds \<Longrightarrow> good_discovery ds"
  using config_loop_good [of "[]"] exercises_from_root_good
  by (auto simp: discover_exercises_def exercises_from_config_def good_discovery_def
      split: option.splits list.splits)

section \<open>Which credential\<close>

record minted =
  token :: str
  expires_at :: nat

definition EXPIRY_MARGIN_SECS :: nat where
  "EXPIRY_MARGIN_SECS = 60"

type_synonym repo_key = "str \<times> str"
type_synonym token_cache = "(repo_key, minted) hashmap"

text \<open>An empty slot of the source is a key that is not in the map.\<close>

definition repo_key_of :: "str \<Rightarrow> str \<Rightarrow> repo_key" where
  "repo_key_of o1 r = (to_ascii_lowercase o1, to_ascii_lowercase r)"

definition minted_fresh :: "nat \<Rightarrow> minted \<Rightarrow> bool" where
  "minted_fresh now m \<longleftrightarrow> expires_at m > now + EXPIRY_MARGIN_SECS"

definition put_minted :: "nat \<Rightarrow> repo_key \<Rightarrow> minted \<Rightarrow> token_cache \<Rightarrow> token_cache" where
  "put_minted now k m cache = AList.update k m cache"

definition get_or_mint ::
    "nat \<Rightarrow> str \<Rightarrow> str \<Rightarrow> str + minted \<Rightarrow> token_cache \<Rightarrow> (str + str) \<times> token_cache" where
  "get_or_mint now o1 r mint cache =
     (let k = repo_key_of o1 r in
      case opt_filter (minted_fresh now) (map_of cache k) of
        Some m \<Rightarrow> (Inr (token m), cache)
      | None \<Rightarrow>
          (case mint of
             Inl e \<Rightarrow> (Inl e, cache)
           | Inr m \<Rightarrow> (Inr (token m), put_minted now k m cache)))"

interpretation tokens: expiring_map wf_map map_of put_minted minted_fresh
  by unfold_locales (auto simp: put_minted_def minted_fresh_def)

definition owner_allowed :: "str \<Rightarrow> str list \<Rightarrow> bool" where
  "owner_allowed o1 allowed =
     (let o1 = trim o1 in list_ex (\<lambda>a. eq_ignore_ascii_case (trim a) o1) allowed)"

record github_access =
  shared_token :: "str option"
  allowed_owners :: "str list"
  has_app :: bool

record credential =
  cred_token :: "str option"
  withheld :: bool

definition credential_for ::
    "nat \<Rightarrow> github_access \<Rightarrow> str + minted \<Rightarrow> str \<Rightarrow> str \<Rightarrow> token_cache \<Rightarrow> credential \<times> token_cache" where
  "credential_for now acc mint o1 r cache =
     (let (app_token, cache) =
            (if has_app acc
             then (let (res, cache) = get_or_mint now o1 r mint cache in (result_ok res, cache))
             else (None, cache));
          allowed = owner_allowed o1 (allowed_owners acc);
          shared = opt_filter (\<lambda>_. allowed) (shared_token acc);
          held = (app_token = None \<and> shared_token acc \<noteq> None \<and> \<not> allowed)
      in (\<lparr>cred_token = or_else app_token shared, withheld = held\<rparr>, cache))"

text \<open>Why a linked repository could not be read, and what the teacher who linked it is told.\<close>

datatype repo_error = Repo_Not_Found | Repo_Status str | Repo_Transport str

fun repo_error_text :: "repo_error \<Rightarrow> str" where
  "repo_error_text Repo_Not_Found =
     lit ''repository not found or not accessible (private repos need a token)''"
| "repo_error_text (Repo_Status st) = lit ''GitHub API returned '' @ st"
| "repo_error_text (Repo_Transport e) = lit ''could not read GitHub's answer: '' @ e"

definition for_teacher :: "str \<Rightarrow> credential \<Rightarrow> repo_error \<Rightarrow> str" where
  "for_teacher o1 cred e =
     (case e of
        Repo_Transport _ \<Rightarrow> lit ''could not reach GitHub''
      | _ \<Rightarrow> if withheld cred
             then repo_error_text e @ [Cp 32, Cp 8212, Cp 32] @ lit ''owner '' @ [Cp 39] @ o1 @ [Cp 39] @
               lit '' is not in HERMIONE_GITHUB_ALLOWED_OWNERS and no GitHub '' @
               lit ''App is installed on the repo, so no token was used''
             else repo_error_text e)"

text \<open>A run of credential requests: when, for which repository, and what minting would give.\<close>

record cred_call =
  call_at :: nat
  call_owner :: str
  call_repo :: str
  call_mint :: "str + minted"

fun cred_run :: "github_access \<Rightarrow> cred_call list \<Rightarrow> token_cache \<Rightarrow> token_cache" where
  "cred_run acc [] cache = cache"
| "cred_run acc (c # cs) cache =
     cred_run acc cs (snd (credential_for (call_at c) acc (call_mint c) (call_owner c) (call_repo c) cache))"

definition minted_for :: "cred_call list \<Rightarrow> repo_key \<Rightarrow> minted \<Rightarrow> bool" where
  "minted_for calls k m \<longleftrightarrow>
     (\<exists>c \<in> set calls. repo_key_of (call_owner c) (call_repo c) = k \<and> call_mint c = Inr m)"

definition cache_ok :: "cred_call list \<Rightarrow> token_cache \<Rightarrow> bool" where
  "cache_ok calls cache \<longleftrightarrow> wf_map cache \<and> (\<forall>k m. map_of cache k = Some m \<longrightarrow> minted_for calls k m)"

lemma get_or_mint_reads:
  "get_or_mint now o1 r mint cache =
     (case tokens.reads cache now (repo_key_of o1 r) of
        Some m \<Rightarrow> (Inr (token m), cache)
      | None \<Rightarrow> (case mint of Inl e \<Rightarrow> (Inl e, cache)
          | Inr m \<Rightarrow> (Inr (token m), put_minted now (repo_key_of o1 r) m cache)))"
  by (simp add: get_or_mint_def tokens.reads_def Let_def)

lemma get_or_mint_ok:
  assumes "cache_ok calls cache"
    "get_or_mint (call_at c) (call_owner c) (call_repo c) (call_mint c) cache = (res, cache')"
  shows "cache_ok (calls @ [c]) cache' \<and>
    (\<forall>t. res = Inr t \<longrightarrow> (\<exists>m. minted_for (calls @ [c]) (repo_key_of (call_owner c) (call_repo c)) m \<and>
       token m = t \<and> (minted_fresh (call_at c) m \<or> call_mint c = Inr m)))"
proof -
  have mono: "minted_for calls k m \<Longrightarrow> minted_for (calls @ [c]) k m" for k m
    by (auto simp: minted_for_def)
  show ?thesis
  proof (cases "tokens.reads cache (call_at c) (repo_key_of (call_owner c) (call_repo c))")
    case (Some m)
    then have "map_of cache (repo_key_of (call_owner c) (call_repo c)) = Some m"
      "minted_fresh (call_at c) m"
      by (auto simp: tokens.reads_def)
    moreover have "res = Inr (token m)" "cache' = cache"
      using assms(2) Some by (simp_all add: get_or_mint_reads)
    moreover have "minted_for (calls @ [c]) (repo_key_of (call_owner c) (call_repo c)) m"
      using assms(1) mono calculation(1) unfolding cache_ok_def by blast
    ultimately show ?thesis using assms(1) mono unfolding cache_ok_def by blast
  next
    case None
    show ?thesis
    proof (cases "call_mint c")
      case (Inl e)
      then show ?thesis using assms None mono by (auto simp: get_or_mint_reads cache_ok_def)
    next
      case (Inr m)
      have new: "minted_for (calls @ [c]) (repo_key_of (call_owner c) (call_repo c)) m"
        using Inr by (auto simp: minted_for_def)
      have "res = Inr (token m)"
        "cache' = put_minted (call_at c) (repo_key_of (call_owner c) (call_repo c)) m cache"
        using assms(2) None Inr by (simp_all add: get_or_mint_reads)
      then show ?thesis
        using assms(1) mono new Inr by (auto simp: cache_ok_def put_minted_def)
    qed
  qed
qed

lemma credential_for_ok:
  assumes "cache_ok calls cache"
    "credential_for (call_at c) acc (call_mint c) (call_owner c) (call_repo c) cache = (cred, cache')"
  shows "cache_ok (calls @ [c]) cache' \<and>
    (\<forall>t. cred_token cred = Some t \<longrightarrow>
       (has_app acc \<and> (\<exists>m. minted_for (calls @ [c]) (repo_key_of (call_owner c) (call_repo c)) m \<and>
          token m = t \<and> (minted_fresh (call_at c) m \<or> call_mint c = Inr m))) \<or>
       (shared_token acc = Some t \<and> owner_allowed (call_owner c) (allowed_owners acc)))"
proof -
  obtain res cache1 where g: "get_or_mint (call_at c) (call_owner c) (call_repo c) (call_mint c) cache = (res, cache1)"
    by fastforce
  note ok = get_or_mint_ok [OF assms(1) g]
  have weak: "cache_ok (calls @ [c]) cache"
    using assms(1) by (auto simp: cache_ok_def minted_for_def)
  show ?thesis
  proof (cases "has_app acc")
    case True
    then have "cache' = cache1" "cred_token cred = or_else (result_ok res)
        (opt_filter (\<lambda>_. owner_allowed (call_owner c) (allowed_owners acc)) (shared_token acc))"
      using assms(2) g by (auto simp: credential_for_def Let_def)
    with ok True show ?thesis by (auto simp: or_else_Some)
  next
    case False
    then show ?thesis using assms(2) weak by (auto simp: credential_for_def Let_def)
  qed
qed

lemma cred_run_ok: "cache_ok calls cache \<Longrightarrow> cache_ok (calls @ cs) (cred_run acc cs cache)"
proof (induction cs arbitrary: calls cache)
  case (Cons c cs)
  obtain cred cache' where "credential_for (call_at c) acc (call_mint c) (call_owner c) (call_repo c) cache =
      (cred, cache')" by fastforce
  with credential_for_ok [OF Cons.prems this] Cons.IH [of "calls @ [c]" cache'] show ?case by simp
qed simp


section \<open>Properties\<close>

text \<open>C34: After any requests for credentials, a token that is handed out for a repository is
  either one the app minted for that very repository, then or before and not about to expire,
  or the shared token, and that only when the owner is on the list.\<close>

theorem credentials_go_where_they_may:
  assumes "fst (credential_for (call_at c) acc (call_mint c) (call_owner c) (call_repo c)
      (cred_run acc cs [])) = \<lparr>cred_token = Some t, withheld = w\<rparr>"
  shows "(has_app acc \<and> (\<exists>m. minted_for (cs @ [c]) (repo_key_of (call_owner c) (call_repo c)) m \<and>
      token m = t \<and> (minted_fresh (call_at c) m \<or> call_mint c = Inr m))) \<or>
    (shared_token acc = Some t \<and> owner_allowed (call_owner c) (allowed_owners acc))"
proof -
  have "cache_ok [] []" by (simp add: cache_ok_def)
  then have "cache_ok cs (cred_run acc cs [])" using cred_run_ok [of "[]" "[]" cs] by simp
  from credential_for_ok [OF this, of c acc] assms show ?thesis
    by (cases "credential_for (call_at c) acc (call_mint c) (call_owner c) (call_repo c)
      (cred_run acc cs [])") auto
qed

theorem credentials_go_where_they_may_witness:
  "owner_allowed (lit ''Acme'') [lit '' acme'']"
proof -
  let ?acc = "\<lparr>shared_token = Some (lit ''pat''), allowed_owners = [lit '' acme''], has_app = False\<rparr>"
  let ?c = "\<lparr>call_at = 0, call_owner = lit ''Acme'', call_repo = lit ''r'', call_mint = Inl []\<rparr>"
  have "fst (credential_for (call_at ?c) ?acc (call_mint ?c) (call_owner ?c) (call_repo ?c)
      (cred_run ?acc [] [])) = \<lparr>cred_token = Some (lit ''pat''), withheld = False\<rparr>"
    by (simp add: credential_for_def owner_allowed_def eq_ignore_ascii_case_def
        to_ascii_lowercase_def lit_def trim_def trim_matches_def trim_start_def trim_end_def
        is_whitespace_def ascii_defs Let_def)
  from credentials_go_where_they_may [OF this] show ?thesis by simp
qed

text \<open>Discovered exercises have distinct slugs in normal form, and each title normalizes
  back to its slug.\<close>

theorem discovered_exercises_are_distinct:
  "(case discover_exercises cfg listing of Inr ds \<Rightarrow> good_discovery ds | Inl e \<Rightarrow> True)"
  using discover_exercises_good by (auto split: sum.splits)

end
