(* ===== verification/Fetch.thy ===== *)
theory Fetch
  imports GitHub
begin

text \<open>
  \<^verbatim>\<open>crates/server/src/solutions/fetch.rs\<close>: one file of a repository through the GitHub contents
  API. A request is its decoded path segments, its query and its credential; \<open>send\<close> is the
  network. A body arrives in chunks, \<open>None\<close> being a transport failure. The requests made are
  returned with the outcome.
\<close>

definition MAX_BYTES :: nat where
  "MAX_BYTES = 256 * 1024"

datatype fetch_error = Denied | RepoOrRefNotFound | RateLimited | TooLarge | NotText | Unavailable_Error

record request =
  req_segments :: "str list"
  req_query :: "(str \<times> str) list"
  req_token :: "str option"
  req_accept :: str

record response =
  status :: nat
  rate_remaining :: "str option"
  content_type :: "str option"
  content_length :: "nat option"
  chunks :: "byte list option list"

text \<open>\<^verbatim>\<open>path_segments_mut().extend\<close> of the URL type: each item is one encoded segment, except that
  it documents dots and double dots as ignored.\<close>

definition url_extend :: "str list \<Rightarrow> str list \<Rightarrow> str list" where
  "url_extend base segs = base @ filter (\<lambda>s. s \<noteq> lit ''.'' \<and> s \<noteq> lit ''..'') segs"

definition contents_request ::
    "github_repo \<Rightarrow> git_ref option \<Rightarrow> repo_path \<Rightarrow> str option \<Rightarrow> request" where
  "contents_request repo r p tok =
     \<lparr>req_segments = url_extend (url_extend [] [lit ''repos'', owner repo, repo_name repo, lit ''contents''])
        (segments p),
      req_query = (case r of None \<Rightarrow> [] | Some g \<Rightarrow> [(lit ''ref'', ref_str g)]),
      req_token = tok, req_accept = lit ''application/vnd.github.raw+json''\<rparr>"

definition commit_request :: "github_repo \<Rightarrow> git_ref option \<Rightarrow> str option \<Rightarrow> request" where
  "commit_request repo r tok =
     \<lparr>req_segments = url_extend (url_extend [] [lit ''repos'', owner repo, repo_name repo, lit ''commits''])
        (case r of Some g \<Rightarrow> split_on ((=) c_slash) (ref_str g) | None \<Rightarrow> [lit ''HEAD'']),
      req_query = [], req_token = tok, req_accept = lit ''application/vnd.github.sha''\<rparr>"

definition refusal :: "nat \<Rightarrow> str option \<Rightarrow> fetch_error" where
  "refusal st remaining =
     (let out_of_requests = (remaining = Some (lit ''0'')) in
      if st = 429 then RateLimited
      else if st = 403 \<and> out_of_requests then RateLimited
      else if st = 401 \<or> st = 403 then Denied
      else if st = 404 \<or> st = 422 then RepoOrRefNotFound
      else Unavailable_Error)"

definition is_success :: "nat \<Rightarrow> bool" where
  "is_success st \<longleftrightarrow> 200 \<le> st \<and> st < 300"

fun read_body :: "byte list option list \<Rightarrow> byte list \<Rightarrow> fetch_error + byte list" where
  "read_body [] body = Inr body"
| "read_body (None # cs) body = Inl Unavailable_Error"
| "read_body (Some c # cs) body =
     (if length body + length c > MAX_BYTES then Inl TooLarge else read_body cs (body @ c))"

definition read_file :: "response \<Rightarrow> fetch_error + str option" where
  "read_file resp =
     (if (case content_type resp of Some t \<Rightarrow> starts_with (lit ''application/json'') t | None \<Rightarrow> False)
      then Inr None
      else if (case content_length resp of Some n \<Rightarrow> n > MAX_BYTES | None \<Rightarrow> False) then Inl TooLarge
      else bind_result (read_body (chunks resp) [])
        (\<lambda>body. case from_utf8 body of Some t \<Rightarrow> Inr (Some t) | None \<Rightarrow> Inl NotText))"

definition fetch ::
    "(request \<Rightarrow> response option) \<Rightarrow> credential \<Rightarrow> github_repo \<Rightarrow> git_ref option \<Rightarrow> repo_path \<Rightarrow>
       (fetch_error + str option) \<times> request list" where
  "fetch send cred repo r p =
     (let tok = cred_token cred;
          req = contents_request repo r p tok
      in case send req of
           None \<Rightarrow> (Inl Unavailable_Error, [req])
         | Some resp \<Rightarrow>
             if status resp = 404
             then (let probe = commit_request repo r tok in
                   (case send probe of
                      None \<Rightarrow> Inl Unavailable_Error
                    | Some pr \<Rightarrow>
                        if is_success (status pr) then Inr None
                        else Inl (refusal (status pr) (rate_remaining pr)), [req, probe]))
             else if \<not> is_success (status resp)
             then (Inl (refusal (status resp) (rate_remaining resp)), [req])
             else (read_file resp, [req]))"

section \<open>Where requests go and what they answer\<close>

lemma url_extend_safe: "list_all safe_segment segs \<Longrightarrow> url_extend base segs = base @ segs"
  by (auto simp: url_extend_def safe_segment_def list_all_iff intro!: filter_True)

lemma url_extend_repo:
  "wf_repo repo \<Longrightarrow> t \<noteq> lit ''.'' \<Longrightarrow> t \<noteq> lit ''..'' \<Longrightarrow>
     url_extend [] [lit ''repos'', owner repo, repo_name repo, t] =
       [lit ''repos'', owner repo, repo_name repo, t]"
  by (simp add: url_extend_def wf_repo_def is_safe_segment_def)

lemma contents_request_segments:
  "wf_repo repo \<Longrightarrow> wf_path p \<Longrightarrow>
     req_segments (contents_request repo r p tok) =
       [lit ''repos'', owner repo, repo_name repo, lit ''contents''] @ segments p"
  using url_extend_safe [of "segments p"] by (simp add: contents_request_def url_extend_repo wf_path_def)

lemma read_body_bound:
  "read_body cs body = Inr b \<Longrightarrow> length body \<le> MAX_BYTES \<Longrightarrow> length b \<le> MAX_BYTES"
  by (induction cs body rule: read_body.induct) (auto split: if_splits)

lemma read_body_all:
  "read_body cs body = Inr b \<Longrightarrow> \<exists>bs. cs = map Some bs \<and> b = body @ concat bs"
proof (induction cs body rule: read_body.induct)
  case (3 c cs body)
  then obtain bs where "cs = map Some bs" "b = (body @ c) @ concat bs" by (auto split: if_splits)
  then show ?case by (intro exI [of _ "c # bs"]) simp
qed auto

lemma read_file_text:
  assumes "read_file resp = Inr (Some t)"
  shows "blen t \<le> MAX_BYTES \<and> (\<exists>bs. chunks resp = map Some bs \<and> from_utf8 (concat bs) = Some t)"
proof -
  obtain body where b: "read_body (chunks resp) [] = Inr body" "from_utf8 body = Some t"
    using assms by (auto simp: read_file_def split: if_splits option.splits)
  then show ?thesis
    using read_body_bound [OF b(1)] read_body_all [OF b(1)] from_utf8_length [OF b(2)] by auto
qed

text \<open>Every request of a fetch names the repository first and carries the one credential.\<close>

definition stays_on :: "github_repo \<Rightarrow> str option \<Rightarrow> request \<Rightarrow> bool" where
  "stays_on repo tok req \<longleftrightarrow> take 3 (req_segments req) = [lit ''repos'', owner repo, repo_name repo] \<and>
     req_token req = tok"

lemma fetch_requests:
  assumes "wf_repo repo"
  shows "list_all (stays_on repo (cred_token cred)) (snd (fetch send cred repo r p)) \<and>
    length (snd (fetch send cred repo r p)) \<le> 2"
proof -
  have "url_extend base segs = base @ drop (length base) (url_extend base segs)" for base segs
    by (simp add: url_extend_def)
  then have "stays_on repo tok (contents_request repo r p tok)" "stays_on repo tok (commit_request repo r tok)"
    for tok
    using assms by (simp_all add: stays_on_def contents_request_def commit_request_def url_extend_repo)
      (simp_all add: url_extend_def)
  then show ?thesis by (simp add: fetch_def Let_def split: option.splits)
qed


section \<open>Properties\<close>

text \<open>C33: A fetch for a parsed repository and path makes at most two requests, each for that
  repository and with the one credential; the first names exactly the file's segments under
  its contents, with no query but the ref. A text it returns is the whole body, decoded, and
  within the size limit.\<close>

theorem fetch_stays_on_its_file:
  assumes "github_repo_parse url = Some repo" "repo_path_parse raw = Inr p"
  shows "list_all (stays_on repo (cred_token cred)) (snd (fetch send cred repo r p)) \<and>
    length (snd (fetch send cred repo r p)) \<le> 2 \<and>
    req_segments (hd (snd (fetch send cred repo r p))) =
      [lit ''repos'', owner repo, repo_name repo, lit ''contents''] @ segments p \<and>
    (case fst (fetch send cred repo r p) of
       Inr (Some t) \<Rightarrow> blen t \<le> MAX_BYTES \<and>
         (\<exists>resp bs. send (contents_request repo r p (cred_token cred)) = Some resp \<and>
            chunks resp = map Some bs \<and> from_utf8 (concat bs) = Some t)
     | _ \<Rightarrow> True)"
proof (intro conjI)
  note wf = github_repo_parse_wf [OF assms(1)] repo_path_parse_Inr(1) [OF assms(2)]
  show "list_all (stays_on repo (cred_token cred)) (snd (fetch send cred repo r p))"
    "length (snd (fetch send cred repo r p)) \<le> 2"
    using fetch_requests [OF wf(1)] by blast+
  have "hd (snd (fetch send cred repo r p)) = contents_request repo r p (cred_token cred)"
    by (simp add: fetch_def Let_def split: option.splits)
  then show "req_segments (hd (snd (fetch send cred repo r p))) =
      [lit ''repos'', owner repo, repo_name repo, lit ''contents''] @ segments p"
    using contents_request_segments [OF wf] by simp
  have "blen t \<le> MAX_BYTES \<and> (\<exists>resp bs. send (contents_request repo r p (cred_token cred)) = Some resp \<and>
      chunks resp = map Some bs \<and> from_utf8 (concat bs) = Some t)"
    if "fst (fetch send cred repo r p) = Inr (Some t)" for t
    using that read_file_text
    by (auto simp: fetch_def Let_def split: option.splits if_splits)
  then show "case fst (fetch send cred repo r p) of
       Inr (Some t) \<Rightarrow> blen t \<le> MAX_BYTES \<and>
         (\<exists>resp bs. send (contents_request repo r p (cred_token cred)) = Some resp \<and>
            chunks resp = map Some bs \<and> from_utf8 (concat bs) = Some t)
     | _ \<Rightarrow> True"
    by (auto split: sum.splits option.splits)
qed

definition cs101 :: github_repo where
  "cs101 = \<lparr>owner = lit ''acme'', repo_name = lit ''cs101''\<rparr>"

lemmas url_eval = github_repo_parse_def parse_github_def lit_def trim_def trim_matches_def
  trim_start_def trim_end_def is_whitespace_def strip_prefix_def strip_suffix_def
  is_safe_segment_def repo_char_def ascii_defs Let_def

theorem fetch_stays_on_its_file_witness:
  "req_segments (hd (snd (fetch (\<lambda>_. None) \<lparr>cred_token = None, withheld = False\<rparr> cs101 None
     (RepoPath (lit ''ex1/a.py''))))) =
   [lit ''repos'', lit ''acme'', lit ''cs101'', lit ''contents'', lit ''ex1'', lit ''a.py'']"
proof -
  have "github_repo_parse (lit ''git@github.com:acme/cs101.git'') = Some cs101"
    by (simp add: url_eval cs101_def)
  moreover have "repo_path_parse (lit ''ex1/a.py'') = Inr (RepoPath (lit ''ex1/a.py''))"
    by (simp add: source_eval)
  moreover have "segments (RepoPath (lit ''ex1/a.py'')) = [lit ''ex1'', lit ''a.py'']"
    by (simp add: segments_def lit_def)
  ultimately show ?thesis
    using fetch_stays_on_its_file [of "lit ''git@github.com:acme/cs101.git''" cs101 "lit ''ex1/a.py''"
      "RepoPath (lit ''ex1/a.py'')" "\<lparr>cred_token = None, withheld = False\<rparr>" "\<lambda>_. None" None]
    by (simp add: cs101_def)
qed

end
