(* ===== verification/Solutions.thy ===== *)
theory Solutions
  imports Fetch Snapshot_Store
begin

text \<open>
  \<^verbatim>\<open>crates/server/src/solutions/cache.rs\<close>: reference solutions read once and remembered for a
  while, and \<^verbatim>\<open>solution_for\<close> of \<^verbatim>\<open>snapshots/mod.rs\<close>, which compares a student's file with one.
  Readers of one file queue on its slot, so reads of a slot are one after the other and each is
  one step here: \<open>now\<close> is the instant it looks, \<open>done_at\<close> the instant its fetch ends. A slot
  whose entry is not there yet is a key that is not in the map. The lemmas show that sweeping
  cannot be observed and that an answer is never older than its kind allows.
\<close>

definition FOUND_TTL :: nat where "FOUND_TTL = 300"
definition MISSING_TTL :: nat where "MISSING_TTL = 60"
definition FAILED_TTL :: nat where "FAILED_TTL = 20"
definition SWEEP_AT :: nat where "SWEEP_AT = 512"

type_synonym outcome = "fetch_error + str option"

record key =
  key_repo :: github_repo
  key_ref :: "git_ref option"
  key_path :: repo_path

record entry =
  entry_at :: nat
  entry_outcome :: outcome

fun ttl_of :: "outcome \<Rightarrow> nat" where
  "ttl_of (Inr (Some _)) = FOUND_TTL"
| "ttl_of (Inr None) = MISSING_TTL"
| "ttl_of (Inl _) = FAILED_TTL"

definition entry_fresh :: "nat \<Rightarrow> entry \<Rightarrow> bool" where
  "entry_fresh now e \<longleftrightarrow> now - entry_at e < ttl_of (entry_outcome e)"

type_synonym solutions = "(key, entry) hashmap"

definition sweep_slots :: "nat \<Rightarrow> solutions \<Rightarrow> solutions" where
  "sweep_slots now m = (if length m \<ge> SWEEP_AT then retain (entry_fresh now) m else m)"

definition key_of :: "github_repo \<Rightarrow> solutions_source \<Rightarrow> repo_path \<Rightarrow> key" where
  "key_of repo src p = \<lparr>key_repo = repo, key_ref = git_ref src, key_path = locate src p\<rparr>"

text \<open>\<open>fetched\<close> is what a fetch of the key would give now; the middle result tells whether it was
  made.\<close>

definition solutions_read ::
    "nat \<Rightarrow> nat \<Rightarrow> (key \<Rightarrow> outcome) \<Rightarrow> key \<Rightarrow> solutions \<Rightarrow> outcome \<times> bool \<times> solutions" where
  "solutions_read now done_at fetched k m =
     (let m = sweep_slots now m in
      case opt_filter (entry_fresh now) (map_of m k) of
        Some e \<Rightarrow> (entry_outcome e, False, m)
      | None \<Rightarrow>
          (let res = fetched k in
           (res, True, AList.update k \<lparr>entry_at = done_at, entry_outcome = res\<rparr> m)))"

section \<open>The cache as a swept map\<close>

definition put_entry :: "nat \<Rightarrow> key \<Rightarrow> entry \<Rightarrow> solutions \<Rightarrow> solutions" where
  "put_entry now k e m = AList.update k e (sweep_slots now m)"

interpretation cached: swept_map wf_map map_of put_entry entry_fresh sweep_slots
proof unfold_locales
  fix s :: solutions and k k' :: key and e :: entry and now :: nat
  assume wf: "wf_map s"
  show swept: "map_of (sweep_slots now s) k = map_of s k \<or>
      map_of (sweep_slots now s) k = None \<and> opt_filter (entry_fresh now) (map_of s k) = None" for k
    using map_of_retain [OF wf, of "entry_fresh now" k]
    by (cases "map_of s k") (auto simp: sweep_slots_def)
  show "wf_map (sweep_slots now s)" "wf_map (put_entry now k e s)"
    using wf by (simp_all add: sweep_slots_def put_entry_def)
  show "map_of (put_entry now k e s) k = Some e" by (simp add: put_entry_def)
  show "k' \<noteq> k \<Longrightarrow> map_of (put_entry now k e s) k' = map_of s k' \<or>
      map_of (put_entry now k e s) k' = None \<and> opt_filter (entry_fresh now) (map_of s k') = None"
    using swept [of k'] by (simp add: put_entry_def)
next
  show "now \<le> later \<Longrightarrow> entry_fresh later e \<Longrightarrow> entry_fresh now e" for now later e
    by (simp add: entry_fresh_def)
qed

lemma solutions_read_reads:
  assumes "wf_map m"
  shows "solutions_read now done_at fetched k m =
    (case cached.reads m now k of
       Some e \<Rightarrow> (entry_outcome e, False, sweep_slots now m)
     | None \<Rightarrow> (fetched k, True, put_entry now k \<lparr>entry_at = done_at, entry_outcome = fetched k\<rparr> m))"
  using cached.reads_sweep [OF assms, of now now k]
  by (auto simp: solutions_read_def Let_def put_entry_def cached.reads_def
      simp del: opt_filter_Some split: option.splits)

section \<open>Runs\<close>

text \<open>A read: how long after the one before it, how long a fetch would take, of which file, and
  what a fetch would give. The cache without sweeping is the map of every fetch.\<close>

record read_call =
  wait :: nat
  fetch_time :: nat
  wanted :: key
  world_says :: "key \<Rightarrow> outcome"

fun read_run :: "nat \<Rightarrow> read_call list \<Rightarrow> solutions \<Rightarrow> (outcome \<times> bool) list" where
  "read_run start [] m = []"
| "read_run start (c # cs) m =
     (let now = start + wait c;
          (res, fetched, m) = solutions_read now (now + fetch_time c) (world_says c) (wanted c) m
      in (res, fetched) # read_run (if fetched then now + fetch_time c else now) cs m)"

text \<open>The specification: every fetch is remembered, and believed for as long as its kind allows.\<close>

fun read_spec :: "nat \<Rightarrow> read_call list \<Rightarrow> (key \<Rightarrow> entry option) \<Rightarrow> (outcome \<times> bool) list" where
  "read_spec start [] full = []"
| "read_spec start (c # cs) full =
     (let now = start + wait c in
      case full (wanted c) of
        Some e \<Rightarrow>
          if now - entry_at e < ttl_of (entry_outcome e)
          then (entry_outcome e, False) # read_spec now cs full
          else (world_says c (wanted c), True) # read_spec (now + fetch_time c) cs
                 (full(wanted c \<mapsto> \<lparr>entry_at = now + fetch_time c, entry_outcome = world_says c (wanted c)\<rparr>))
      | None \<Rightarrow>
          (world_says c (wanted c), True) # read_spec (now + fetch_time c) cs
            (full(wanted c \<mapsto> \<lparr>entry_at = now + fetch_time c, entry_outcome = world_says c (wanted c)\<rparr>)))"

lemma read_spec_step:
  "read_spec start (c # cs) full =
     (let now = start + wait c in
      case opt_filter (entry_fresh now) (full (wanted c)) of
        Some e \<Rightarrow> (entry_outcome e, False) # read_spec now cs full
      | None \<Rightarrow> (world_says c (wanted c), True) # read_spec (now + fetch_time c) cs
          (full(wanted c \<mapsto> \<lparr>entry_at = now + fetch_time c, entry_outcome = world_says c (wanted c)\<rparr>)))"
  by (cases "full (wanted c)") (auto simp: Let_def entry_fresh_def)

lemma read_run_spec:
  "wf_map m \<Longrightarrow> cached.agrees start m full \<Longrightarrow> read_run start cs m = read_spec start cs full"
proof (induction cs arbitrary: start m full)
  case (Cons c cs)
  define now where "now = start + wait c"
  have agr: "cached.agrees now m full"
    using Cons.prems(2) by (rule cached.agrees_later) (simp add: now_def)
  have reads: "cached.reads m now (wanted c) = opt_filter (entry_fresh now) (full (wanted c))"
    using agr by (rule cached.agrees_reads)
  show ?case
  proof (cases "cached.reads m now (wanted c)")
    case (Some e)
    have "read_run now cs (sweep_slots now m) = read_spec now cs full"
      using Cons.IH cached.inv_sweep [OF Cons.prems(1)] cached.agrees_sweep [OF Cons.prems(1) agr] .
    with Some reads show ?thesis
      by (simp add: read_spec_step solutions_read_reads [OF Cons.prems(1)] now_def [symmetric]
          del: read_spec.simps)
  next
    case None
    let ?e = "\<lparr>entry_at = now + fetch_time c, entry_outcome = world_says c (wanted c)\<rparr>"
    have "cached.agrees (now + fetch_time c) (put_entry now (wanted c) ?e m) (full(wanted c \<mapsto> ?e))"
      using cached.agrees_put [OF Cons.prems(1) agr] by (rule cached.agrees_later) simp
    then have "read_run (now + fetch_time c) cs (put_entry now (wanted c) ?e m) =
        read_spec (now + fetch_time c) cs (full(wanted c \<mapsto> ?e))"
      using Cons.IH cached.inv_put [OF Cons.prems(1)] by blast
    with None reads show ?thesis
      by (simp add: read_spec_step solutions_read_reads [OF Cons.prems(1)] now_def [symmetric]
          del: read_spec.simps)
  qed
qed simp

section \<open>The student's file against the solution\<close>

record course_settings =
  repo_url :: "str option"
  solutions_ref :: "str option"
  solutions_dir :: "str option"

definition fetch_message :: "fetch_error \<Rightarrow> str" where
  "fetch_message e =
     (case e of
        Denied \<Rightarrow> lit ''denied'' | RepoOrRefNotFound \<Rightarrow> lit ''notFound''
      | RateLimited \<Rightarrow> lit ''rateLimited'' | TooLarge \<Rightarrow> lit ''tooLarge''
      | NotText \<Rightarrow> lit ''notText'' | Unavailable_Error \<Rightarrow> lit ''unreachable'')"

text \<open>\<open>read\<close> is the cache's answer for a repository, a source and a path. The inner option is the
  one of the source (no solution to show); \<open>compared_with\<close> panicking makes it \<open>None\<close> too, as
  \<^verbatim>\<open>spawn_blocking(..).await.ok()\<close> does.\<close>

definition solution_for ::
    "('g, 'p, 'ops, 'o, 'st, 'sc) engines \<Rightarrow> course_settings \<Rightarrow>
       (github_repo \<Rightarrow> solutions_source \<Rightarrow> repo_path \<Rightarrow> outcome) \<Rightarrow> snapshot \<Rightarrow> solution option" where
  "solution_for eng course read_cached sn =
     (let without_file = (\<lambda>c. Some \<lparr>comparison = c, solution_file = None\<rparr>) in
      case sn of
        File f \<Rightarrow>
          (case from_settings (solutions_ref course) (solutions_dir course) of
             None \<Rightarrow> without_file Unconfigured
           | Some src \<Rightarrow>
               (case repo_url course of
                  None \<Rightarrow> without_file (Unavailable_Because No_Repository)
                | Some url \<Rightarrow>
                    (case github_repo_parse url of
                       None \<Rightarrow> without_file (Unavailable_Because Not_GitHub)
                     | Some repo \<Rightarrow>
                         (case repo_path_parse (relative_path f) of
                            Inl _ \<Rightarrow> without_file NoReference
                          | Inr p \<Rightarrow>
                              (let located = located_new (locate src p) (git_ref src) in
                               case read_cached repo src p of
                                 Inl e \<Rightarrow>
                                   Some \<lparr>comparison = Unavailable_Because (Not_Readable (fetch_message e)),
                                         solution_file = Some located\<rparr>
                               | Inr None \<Rightarrow>
                                   Some \<lparr>comparison = NoReference, solution_file = Some located\<rparr>
                               | Inr (Some reference) \<Rightarrow>
                                   map_option (\<lambda>c. \<lparr>comparison = c, solution_file = Some located\<rparr>)
                                     (compared_with eng f reference))))))
      | _ \<Rightarrow> None)"

text \<open>A solution is shown exactly for a file, and the file named is under the course's folder.\<close>

lemma solution_for_located:
  assumes "solution_for eng course read_cached sn = Some sol" "solution_file sol = Some loc"
  shows "\<exists>src p f. sn = File f \<and> from_settings (solutions_ref course) (solutions_dir course) = Some src \<and>
    repo_path_parse (relative_path f) = Inr p \<and> located_path loc = path_str (locate src p)"
  using assms
  by (auto simp: solution_for_def Let_def located_new_def split: snapshot.splits option.splits sum.splits)

lemma compared_with_total:
  "diff_law (word_diff eng) \<Longrightarrow> \<exists>c. compared_with eng f reference = Some c"
  by (simp add: compared_with_def Let_def diff_new_total)

lemma solution_for_file:
  assumes "diff_law (word_diff eng)"
  shows "solution_for eng course read_cached sn = None \<longleftrightarrow> as_file (Some sn) = None"
proof (cases sn)
  case (File f)
  have "\<exists>c. compared_with eng f reference = Some c" for reference
    using compared_with_total [OF assms] .
  then have "compared_with eng f reference \<noteq> None" for reference by (metis option.distinct(1))
  with File show ?thesis
    by (auto simp: solution_for_def as_file_def Let_def split: option.splits sum.splits)
qed (simp_all add: solution_for_def as_file_def)


section \<open>Properties\<close>

text \<open>C32: The cache of reference solutions answers, and asks the network, exactly as one that
  remembers every fetch and believes a file for five minutes, a missing one for one and a
  failure for twenty seconds: the sweep of a full cache is never visible.\<close>

theorem cache_believes_by_kind:
  "read_run start cs [] = read_spec start cs (\<lambda>_. None)"
  by (rule read_run_spec) (simp_all add: cached.agrees_def cached.reads_def)

text \<open>A teacher asking for the comparison gets one exactly when the snapshot is a file; the
  diff never panics, and a solution file that is named lies under the course's folder.\<close>

theorem comparison_is_answered:
  assumes "diff_law (word_diff eng)"
  shows "(solution_for eng course read_cached sn = None \<longleftrightarrow> as_file (Some sn) = None) \<and>
    (case Option.bind (solution_for eng course read_cached sn) solution_file of
       None \<Rightarrow> True
     | Some loc \<Rightarrow> \<exists>src p f. sn = File f \<and>
         from_settings (solutions_ref course) (solutions_dir course) = Some src \<and>
         repo_path_parse (relative_path f) = Inr p \<and> located_path loc = path_str (locate src p))"
  using solution_for_file [OF assms] solution_for_located [of eng course read_cached sn]
  by (auto simp: bind_eq_Some_conv split: option.splits)

theorem comparison_is_answered_witness:
  "solution_for toy_engines \<lparr>repo_url = None, solutions_ref = None, solutions_dir = None\<rparr>
     (\<lambda>_ _ _. Inr None) Declined = None"
  using comparison_is_answered [OF toy_laws(1),
    of "\<lparr>repo_url = None, solutions_ref = None, solutions_dir = None\<rparr>" "\<lambda>_ _ _. Inr None" Declined]
  by (simp add: as_file_def)

end
