(* ===== verification/Solution_Slots.thy ===== *)
theory Solution_Slots
  imports Solutions
begin

text \<open>
  Readers of the solutions cache at the same time: \<^verbatim>\<open>read\<close> and \<^verbatim>\<open>slot\<close> of
  \<^verbatim>\<open>crates/server/src/solutions/cache.rs\<close> as the steps between which other readers run. A slot is
  an index into \<open>cells\<close>, as the code's \<^verbatim>\<open>Arc\<close> points to one; its mutex is the queue of those
  that hold it (the first) or wait for it, which tokio serves in order, and \<^verbatim>\<open>try_lock\<close> succeeds
  on an empty queue. A reader's future may be dropped at any await. \<open>fetches\<close> and \<open>cell_key\<close> only
  record. The lemmas show that no answer is older than its kind allows, that as long as nothing is
  swept the readers of a file share one request, and how a sweep can make it two.
\<close>

section \<open>The steps of a read\<close>

type_synonym reader = nat

record cell =
  cell_key :: key
  cell_entry :: "entry option"
  cell_queue :: "reader list"

datatype phase = Cloned nat | Queued nat | Fetching nat nat | Answered outcome nat

record fetch_log =
  log_key :: key
  log_start :: nat
  log_end :: nat
  log_outcome :: outcome

record slots =
  clock :: nat
  slot_ids :: "(key, nat) hashmap"
  cells :: "cell list"
  readers :: "reader \<rightharpoonup> key \<times> phase"
  fetches :: "fetch_log list"

definition slots_new :: slots where
  "slots_new = \<lparr>clock = 0, slot_ids = [], cells = [], readers = Map.empty, fetches = []\<rparr>"

definition cell_kept :: "nat \<Rightarrow> cell \<Rightarrow> bool" where
  "cell_kept now c \<longleftrightarrow>
     (if cell_queue c = [] then (case cell_entry c of None \<Rightarrow> False | Some e \<Rightarrow> entry_fresh now e)
      else True)"

definition sweep_ids :: "slots \<Rightarrow> (key, nat) hashmap" where
  "sweep_ids st =
     (if length (slot_ids st) \<ge> SWEEP_AT
      then retain (\<lambda>s. cell_kept (clock st) (cells st ! s)) (slot_ids st) else slot_ids st)"

definition slot_for :: "key \<Rightarrow> slots \<Rightarrow> nat \<times> slots" where
  "slot_for k st =
     (let m = sweep_ids st in
      case map_of m k of
        Some s \<Rightarrow> (s, st\<lparr>slot_ids := m\<rparr>)
      | None \<Rightarrow>
          (let s = length (cells st) in
           (s, st\<lparr>slot_ids := AList.update k s m,
                  cells := cells st @ [\<lparr>cell_key = k, cell_entry = None, cell_queue = []\<rparr>]\<rparr>)))"

datatype slot_event =
  Enter reader key | Lock reader | Look reader | Fetched reader outcome | Leave reader | Pass nat

definition on_cell :: "nat \<Rightarrow> (cell \<Rightarrow> cell) \<Rightarrow> slots \<Rightarrow> slots" where
  "on_cell s f st = st\<lparr>cells := (cells st)[s := f (cells st ! s)]\<rparr>"

definition now_reader :: "reader \<Rightarrow> key \<times> phase \<Rightarrow> slots \<Rightarrow> slots" where
  "now_reader r kp st = st\<lparr>readers := (readers st)(r \<mapsto> kp)\<rparr>"

definition release :: "reader \<Rightarrow> cell \<Rightarrow> cell" where
  "release r c = c\<lparr>cell_queue := remove1 r (cell_queue c)\<rparr>"

fun slot_step :: "slot_event \<Rightarrow> slots \<Rightarrow> slots option" where
  "slot_step (Enter r k) st =
     (case readers st r of
        Some _ \<Rightarrow> None
      | None \<Rightarrow> (let (s, st) = slot_for k st in Some (now_reader r (k, Cloned s) st)))"
| "slot_step (Lock r) st =
     (case readers st r of
        Some (k, Cloned s) \<Rightarrow>
          Some (now_reader r (k, Queued s) (on_cell s (\<lambda>c. c\<lparr>cell_queue := cell_queue c @ [r]\<rparr>) st))
      | _ \<Rightarrow> None)"
| "slot_step (Look r) st =
     (case readers st r of
        Some (k, Queued s) \<Rightarrow>
          (case cell_queue (cells st ! s) of
             [] \<Rightarrow> None
           | first # _ \<Rightarrow>
               if first \<noteq> r then None
               else (case opt_filter (entry_fresh (clock st)) (cell_entry (cells st ! s)) of
                   Some e \<Rightarrow>
                     Some (now_reader r (k, Answered (entry_outcome e) (clock st)) (on_cell s (release r) st))
                 | None \<Rightarrow> Some (now_reader r (k, Fetching s (clock st)) st)))
      | _ \<Rightarrow> None)"
| "slot_step (Fetched r res) st =
     (case readers st r of
        Some (k, Fetching s began) \<Rightarrow>
          Some (now_reader r (k, Answered res (clock st))
            (on_cell s (\<lambda>c. release r (c\<lparr>cell_entry := Some \<lparr>entry_at = clock st, entry_outcome = res\<rparr>\<rparr>))
              (st\<lparr>fetches := \<lparr>log_key = k, log_start = began, log_end = clock st, log_outcome = res\<rparr> # fetches st\<rparr>)))
      | _ \<Rightarrow> None)"
| "slot_step (Leave r) st =
     (case readers st r of
        None \<Rightarrow> None
      | Some (k, p) \<Rightarrow>
          (let st = st\<lparr>readers := (readers st)(r := None)\<rparr> in
           Some (case p of
               Queued s \<Rightarrow> on_cell s (release r) st
             | Fetching s _ \<Rightarrow> on_cell s (release r) st
             | _ \<Rightarrow> st)))"
| "slot_step (Pass d) st = Some (st\<lparr>clock := clock st + d\<rparr>)"

fun slot_run :: "slot_event list \<Rightarrow> slots \<Rightarrow> slots option" where
  "slot_run [] st = Some st"
| "slot_run (ev # evs) st = Option.bind (slot_step ev st) (slot_run evs)"

lemma slot_run_append: "slot_run (xs @ ys) st = Option.bind (slot_run xs st) (slot_run ys)"
  by (induction xs arbitrary: st) (auto split: bind_splits)


lemma on_cell_simps [simp]:
  "clock (on_cell s f st) = clock st" "slot_ids (on_cell s f st) = slot_ids st"
  "readers (on_cell s f st) = readers st" "fetches (on_cell s f st) = fetches st"
  "length (cells (on_cell s f st)) = length (cells st)"
  "s' < length (cells st) \<Longrightarrow> cells (on_cell s f st) ! s' = (if s' = s then f (cells st ! s) else cells st ! s')"
  by (simp_all add: on_cell_def nth_list_update)

lemma now_reader_simps [simp]:
  "clock (now_reader r kp st) = clock st" "slot_ids (now_reader r kp st) = slot_ids st"
  "readers (now_reader r kp st) = (readers st)(r \<mapsto> kp)" "fetches (now_reader r kp st) = fetches st"
  "cells (now_reader r kp st) = cells st"
  by (simp_all add: now_reader_def)

lemma release_simps [simp]:
  "cell_key (release r c) = cell_key c" "cell_entry (release r c) = cell_entry c"
  "cell_queue (release r c) = remove1 r (cell_queue c)"
  by (simp_all add: release_def)

section \<open>What every step keeps\<close>

fun at_slot :: "phase \<Rightarrow> nat option" where
  "at_slot (Cloned s) = Some s"
| "at_slot (Queued s) = Some s"
| "at_slot (Fetching s _) = Some s"
| "at_slot (Answered _ _) = None"

fun queued_at :: "phase \<Rightarrow> nat option" where
  "queued_at (Queued s) = Some s"
| "queued_at (Fetching s _) = Some s"
| "queued_at _ = None"

lemma queued_at_slot: "queued_at p = Some s \<Longrightarrow> at_slot p = Some s"
  by (cases p) simp_all

definition names_sound :: "slots \<Rightarrow> bool" where
  "names_sound st \<longleftrightarrow> wf_map (slot_ids st) \<and>
     (\<forall>k s. map_of (slot_ids st) k = Some s \<longrightarrow> s < length (cells st) \<and> cell_key (cells st ! s) = k)"

definition readers_sound :: "slots \<Rightarrow> bool" where
  "readers_sound st \<longleftrightarrow>
     (\<forall>r k p s. readers st r = Some (k, p) \<longrightarrow> at_slot p = Some s \<longrightarrow>
        s < length (cells st) \<and> cell_key (cells st ! s) = k)"

definition queues_sound :: "slots \<Rightarrow> bool" where
  "queues_sound st \<longleftrightarrow>
     (\<forall>s < length (cells st). distinct (cell_queue (cells st ! s)) \<and>
        (\<forall>r. r \<in> set (cell_queue (cells st ! s)) \<longleftrightarrow>
           (\<exists>k p. readers st r = Some (k, p) \<and> queued_at p = Some s))) \<and>
     (\<forall>r k s began. readers st r = Some (k, Fetching s began) \<longrightarrow>
        began \<le> clock st \<and> (\<exists>rest. cell_queue (cells st ! s) = r # rest))"

text \<open>An answer is believed at an instant when a fetch of the file ended with it, not longer ago
  than its kind is kept.\<close>

definition believed :: "fetch_log list \<Rightarrow> key \<Rightarrow> outcome \<Rightarrow> nat \<Rightarrow> bool" where
  "believed fs k res t \<longleftrightarrow>
     (\<exists>l \<in> set fs. log_key l = k \<and> log_outcome l = res \<and> log_end l \<le> t \<and> t < log_end l + ttl_of res)"

definition answers_sound :: "slots \<Rightarrow> bool" where
  "answers_sound st \<longleftrightarrow>
     (\<forall>s < length (cells st). \<forall>e. cell_entry (cells st ! s) = Some e \<longrightarrow> entry_at e \<le> clock st \<and>
        (\<exists>l \<in> set (fetches st). log_key l = cell_key (cells st ! s) \<and> log_outcome l = entry_outcome e \<and>
           log_end l = entry_at e)) \<and>
     (\<forall>r k res t. readers st r = Some (k, Answered res t) \<longrightarrow> believed (fetches st) k res t)"

lemmas slots_sound_defs = names_sound_def readers_sound_def queues_sound_def answers_sound_def

lemma ttl_pos [simp]: "0 < ttl_of res"
  by (cases res rule: ttl_of.cases) (simp_all add: FOUND_TTL_def MISSING_TTL_def FAILED_TTL_def)

lemma slots_new_sound: "names_sound slots_new" "readers_sound slots_new" "queues_sound slots_new" "answers_sound slots_new"
  by (simp_all add: slots_sound_defs slots_new_def)

lemma map_of_sweep_ids:
  "wf_map (slot_ids st) \<Longrightarrow> map_of (sweep_ids st) k = Some s \<Longrightarrow> map_of (slot_ids st) k = Some s"
  by (auto simp: sweep_ids_def map_of_retain split: if_splits)

lemma slot_for_cases:
  assumes "slot_for k st = (s, st')"
  obtains (old) "map_of (sweep_ids st) k = Some s" "st' = st\<lparr>slot_ids := sweep_ids st\<rparr>"
  | (fresh) "map_of (sweep_ids st) k = None" "s = length (cells st)"
      "st' = st\<lparr>slot_ids := AList.update k s (sweep_ids st),
         cells := cells st @ [\<lparr>cell_key = k, cell_entry = None, cell_queue = []\<rparr>]\<rparr>"
  using assms that by (auto simp: slot_for_def Let_def split: option.splits)

lemma slot_for_sound:
  assumes "slot_for k st = (s, st')" "names_sound st" "readers_sound st" "queues_sound st" "answers_sound st"
  shows "names_sound st'" "readers_sound st'" "queues_sound st'" "answers_sound st'"
    "s < length (cells st')" "cell_key (cells st' ! s) = k"
proof -
  note ids = map_of_sweep_ids [of st]
  have wf: "wf_map (sweep_ids st)" using assms(2) by (simp add: names_sound_def sweep_ids_def)
  have "names_sound st' \<and> s < length (cells st') \<and> cell_key (cells st' ! s) = k"
    using assms(1)
  proof (cases rule: slot_for_cases)
    case old
    then show ?thesis using assms(2) wf ids by (auto simp: names_sound_def)
  next
    case fresh
    then show ?thesis using assms(2) wf ids by (auto simp: names_sound_def nth_append less_Suc_eq)
  qed
  then show "names_sound st'" "s < length (cells st')" "cell_key (cells st' ! s) = k" by simp_all
  have at: "readers st r = Some (k, p) \<Longrightarrow> at_slot p = Some s \<Longrightarrow> s < length (cells st)" for r k p s
    using assms(3) by (auto simp: readers_sound_def)
  show "readers_sound st'" "answers_sound st'"
    using assms(1) by (cases rule: slot_for_cases; use assms(3,5) in \<open>fastforce simp: readers_sound_def answers_sound_def nth_append less_Suc_eq\<close>)+
  show "queues_sound st'"
    using assms(1)
  proof (cases rule: slot_for_cases)
    case old
    then show ?thesis using assms(4) by (simp add: queues_sound_def)
  next
    case fresh
    then show ?thesis
      using assms(4) at queued_at_slot
      by (fastforce simp: queues_sound_def nth_append less_Suc_eq)
  qed
qed

text \<open>Every step leads to what it leads to: the cases of \<open>slot_step\<close> that are enabled.\<close>

lemma slot_step_cases [consumes 1, case_names enter lock hit miss fetched leave leave_queue pass]:
  assumes "slot_step ev st = Some st'"
  obtains r k s st1 where "ev = Enter r k" "readers st r = None" "slot_for k st = (s, st1)"
      "st' = now_reader r (k, Cloned s) st1"
  | r k s where "ev = Lock r" "readers st r = Some (k, Cloned s)"
      "st' = now_reader r (k, Queued s) (on_cell s (\<lambda>c. c\<lparr>cell_queue := cell_queue c @ [r]\<rparr>) st)"
  | r k s rest e where "ev = Look r" "readers st r = Some (k, Queued s)" "cell_queue (cells st ! s) = r # rest"
      "cell_entry (cells st ! s) = Some e" "entry_fresh (clock st) e"
      "st' = now_reader r (k, Answered (entry_outcome e) (clock st)) (on_cell s (release r) st)"
  | r k s rest where "ev = Look r" "readers st r = Some (k, Queued s)" "cell_queue (cells st ! s) = r # rest"
      "\<forall>e. cell_entry (cells st ! s) = Some e \<longrightarrow> \<not> entry_fresh (clock st) e"
      "st' = now_reader r (k, Fetching s (clock st)) st"
  | r k s began res where "ev = Fetched r res" "readers st r = Some (k, Fetching s began)"
      "st' = now_reader r (k, Answered res (clock st))
         (on_cell s (\<lambda>c. release r (c\<lparr>cell_entry := Some \<lparr>entry_at = clock st, entry_outcome = res\<rparr>\<rparr>))
           (st\<lparr>fetches := \<lparr>log_key = k, log_start = began, log_end = clock st, log_outcome = res\<rparr> # fetches st\<rparr>))"
  | r k p where "ev = Leave r" "readers st r = Some (k, p)" "queued_at p = None"
      "st' = st\<lparr>readers := (readers st)(r := None)\<rparr>"
  | r k p s where "ev = Leave r" "readers st r = Some (k, p)" "queued_at p = Some s"
      "st' = on_cell s (release r) (st\<lparr>readers := (readers st)(r := None)\<rparr>)"
  | d where "ev = Pass d" "st' = st\<lparr>clock := clock st + d\<rparr>"
  using assms
  by (cases ev; fastforce simp: Let_def opt_filter_None split: option.splits phase.splits list.splits if_splits prod.splits)

lemma believed_Cons: "believed fs k res t \<Longrightarrow> believed (l # fs) k res t"
  by (auto simp: believed_def)

lemma slot_step_sound:
  assumes "slot_step ev st = Some st'" "names_sound st" "readers_sound st" "queues_sound st" "answers_sound st"
  shows "names_sound st' \<and> readers_sound st'"
  using assms(1)
proof (cases rule: slot_step_cases)
  case (enter r k s st1)
  from slot_for_sound [OF enter(3) assms(2-)] show ?thesis
    by (simp add: enter(4) names_sound_def readers_sound_def)
qed (use assms(2,3) in \<open>auto simp: names_sound_def readers_sound_def split: if_splits\<close>)

lemma queues_pop:
  assumes q: "queues_sound st" and r: "readers st r = Some (k, p)" "queued_at p = Some s"
    and queue: "\<And>s'. s' < length (cells st) \<Longrightarrow> cell_queue (cells st' ! s') =
        (if s' = s then remove1 r (cell_queue (cells st ! s)) else cell_queue (cells st ! s'))"
    and same: "length (cells st') = length (cells st)" "clock st' = clock st" "readers st' = (readers st)(r := v)"
    and v: "\<And>k' p'. v = Some (k', p') \<Longrightarrow> queued_at p' = None"
    and slots: "readers_sound st"
  shows "queues_sound st'"
  unfolding queues_sound_def
proof (intro conjI allI impI)
  fix s' assume s': "s' < length (cells st')"
  have d: "distinct (cell_queue (cells st ! s'))" and mem: "\<And>r'. r' \<in> set (cell_queue (cells st ! s')) \<longleftrightarrow>
      (\<exists>k p. readers st r' = Some (k, p) \<and> queued_at p = Some s')"
    using q s' same(1) by (auto simp: queues_sound_def)
  show "distinct (cell_queue (cells st' ! s'))" using queue [of s'] s' same(1) d by (auto simp: distinct_remove1)
  fix r'
  show "r' \<in> set (cell_queue (cells st' ! s')) \<longleftrightarrow> (\<exists>k p. readers st' r' = Some (k, p) \<and> queued_at p = Some s')"
    using queue [of s'] s' same mem [of r'] d r v by (cases "r' = r") auto
next
  fix r' k' s' began assume fetching: "readers st' r' = Some (k', Fetching s' began)"
  with v have r': "r' \<noteq> r" using same(3) by (metis fun_upd_same option.distinct(1) queued_at.simps(2))
  then have old: "readers st r' = Some (k', Fetching s' began)" using fetching same(3) by simp
  then show "began \<le> clock st'" using q same(2) by (auto simp: queues_sound_def)
  have "s' < length (cells st)" using old slots by (auto simp: readers_sound_def)
  moreover obtain rest where "cell_queue (cells st ! s') = r' # rest"
    using q old unfolding queues_sound_def by blast
  ultimately show "\<exists>rest. cell_queue (cells st' ! s') = r' # rest" using queue [of s'] r' by auto
qed

lemma slot_step_queues:
  assumes "slot_step ev st = Some st'" "names_sound st" "readers_sound st" "queues_sound st" "answers_sound st"
  shows "queues_sound st'"
  using assms(1)
proof (cases rule: slot_step_cases)
  case (enter r k s st1)
  have "readers st1 = readers st" using enter(3) by (auto simp: slot_for_def Let_def split: option.splits)
  with slot_for_sound(3) [OF enter(3) assms(2-)] enter(2) show ?thesis
    by (auto simp: enter(4) queues_sound_def)
next
  case (lock r k s)
  then show ?thesis using assms(3,4) by (fastforce simp: queues_sound_def readers_sound_def split: if_splits)
next
  case (hit r k s rest e)
  then have "s < length (cells st)" using assms(3) by (auto simp: readers_sound_def)
  then show ?thesis by (intro queues_pop [OF assms(4) hit(2) _ _ _ _ _ _ assms(3), of s]) (auto simp: hit(6))
next
  case (miss r k s rest)
  then show ?thesis using assms(3,4) by (fastforce simp: queues_sound_def readers_sound_def split: if_splits)
next
  case (fetched r k s began res)
  then have "s < length (cells st)" using assms(3) by (auto simp: readers_sound_def)
  then show ?thesis by (intro queues_pop [OF assms(4) fetched(2) _ _ _ _ _ _ assms(3), of s]) (auto simp: fetched(3))
next
  case (leave r k p)
  then show ?thesis using assms(4) by (fastforce simp: queues_sound_def split: if_splits)
next
  case (leave_queue r k p s)
  then have "s < length (cells st)" using assms(3) queued_at_slot [of p] by (auto simp: readers_sound_def)
  then show ?thesis
    by (intro queues_pop [OF assms(4) leave_queue(2,3) _ _ _ _ _ assms(3), of _ None]) (auto simp: leave_queue(4) on_cell_def nth_list_update)
next
  case (pass d)
  then show ?thesis using assms(4) by (fastforce simp: queues_sound_def)
qed

lemma slot_step_answers:
  assumes "slot_step ev st = Some st'" "names_sound st" "readers_sound st" "queues_sound st" "answers_sound st"
  shows "answers_sound st'"
  using assms(1)
proof (cases rule: slot_step_cases)
  case (enter r k s st1)
  with slot_for_sound(4) [OF enter(3) assms(2-)] show ?thesis by (auto simp: answers_sound_def)
next
  case (hit r k s rest e)
  have s: "s < length (cells st)" "cell_key (cells st ! s) = k" using hit(2) assms(3) by (auto simp: readers_sound_def)
  then have "believed (fetches st) k (entry_outcome e) (clock st)"
    using hit(4,5) assms(5) unfolding answers_sound_def believed_def entry_fresh_def
    by (metis less_diff_conv2 add.commute)
  then show ?thesis using assms(5) s by (auto simp: hit(6) answers_sound_def)
next
  case (fetched r k s began res)
  have s: "s < length (cells st)" "cell_key (cells st ! s) = k" using fetched(2) assms(3) by (auto simp: readers_sound_def)
  have "believed (\<lparr>log_key = k, log_start = began, log_end = clock st, log_outcome = res\<rparr> # fetches st) k res (clock st)"
    by (simp add: believed_def)
  then show ?thesis using assms(5) s by (auto simp: fetched(3) answers_sound_def intro: believed_Cons)
next
  case (lock r k s)
  then have "s < length (cells st)" using assms(3) by (auto simp: readers_sound_def)
  then show ?thesis using assms(5) by (auto simp: lock(3) answers_sound_def)
next
  case (miss r k s rest)
  then show ?thesis using assms(5) by (auto simp: answers_sound_def)
next
  case (leave r k p)
  then show ?thesis using assms(5) by (auto simp: answers_sound_def)
next
  case (leave_queue r k p s)
  then have "s < length (cells st)" using assms(3) queued_at_slot [of p] by (auto simp: readers_sound_def)
  then show ?thesis using assms(5) by (auto simp: leave_queue(4) answers_sound_def on_cell_def nth_list_update)
next
  case (pass d)
  then show ?thesis using assms(5) by (fastforce simp: answers_sound_def)
qed

definition slots_sound :: "slots \<Rightarrow> bool" where
  "slots_sound st \<longleftrightarrow> names_sound st \<and> readers_sound st \<and> queues_sound st \<and> answers_sound st"

lemma slots_sound_new: "slots_sound slots_new"
  by (simp add: slots_sound_def slots_new_sound)

lemma slots_sound_step: "slot_step ev st = Some st' \<Longrightarrow> slots_sound st \<Longrightarrow> slots_sound st'"
  using slot_step_sound slot_step_queues slot_step_answers by (simp add: slots_sound_def)

lemma slots_sound_run: "slot_run evs st = Some st' \<Longrightarrow> slots_sound st \<Longrightarrow> slots_sound st'"
  by (induction evs arbitrary: st) (auto simp: bind_eq_Some_conv intro: slots_sound_step)

text \<open>Whoever waits for a slot waits for somebody who can go on.\<close>

lemma first_can_act:
  assumes "slots_sound st" "readers st r = Some (k, Queued s)"
  shows "\<exists>first rest. cell_queue (cells st ! s) = first # rest \<and>
    (slot_step (Look first) st \<noteq> None \<or> (\<forall>res. slot_step (Fetched first res) st \<noteq> None))"
proof -
  have s: "s < length (cells st)" using assms by (auto simp: slots_sound_def readers_sound_def)
  have mem: "\<And>r. r \<in> set (cell_queue (cells st ! s)) \<longleftrightarrow> (\<exists>k p. readers st r = Some (k, p) \<and> queued_at p = Some s)"
    using assms(1) s by (auto simp: slots_sound_def queues_sound_def)
  have "r \<in> set (cell_queue (cells st ! s))" using mem assms(2) by auto
  then obtain first rest where q: "cell_queue (cells st ! s) = first # rest" by (cases "cell_queue (cells st ! s)") auto
  then obtain k' p where p: "readers st first = Some (k', p)" "queued_at p = Some s" using mem [of first] by auto
  then show ?thesis using q by (cases p) (auto split: option.splits)
qed

section \<open>Readers of one file share a request\<close>

definition asked_keys :: "slot_event list \<Rightarrow> key set" where
  "asked_keys evs = set (concat (map (\<lambda>ev. case ev of Enter r k \<Rightarrow> [k] | _ \<Rightarrow> []) evs))"

definition spaced :: "fetch_log list \<Rightarrow> bool" where
  "spaced = sorted_wrt (\<lambda>new old. log_key new = log_key old \<longrightarrow> log_end old + ttl_of (log_outcome old) \<le> log_start new)"

text \<open>A cell holds the outcome of a fetch, or of one that ended when that had expired.\<close>

definition held_by :: "fetch_log \<Rightarrow> cell \<Rightarrow> bool" where
  "held_by l c \<longleftrightarrow> cell_key c = log_key l \<and>
     (case cell_entry c of
        None \<Rightarrow> False
      | Some e \<Rightarrow> log_end l = entry_at e \<and> log_outcome l = entry_outcome e \<or>
          log_end l + ttl_of (log_outcome l) \<le> entry_at e)"

text \<open>Nothing was swept: every slot is in the map; it holds the newest fetch of its file, and a
  fetch under way began when all earlier ones had expired.\<close>

definition shared :: "slots \<Rightarrow> bool" where
  "shared st \<longleftrightarrow>
     (\<forall>s < length (cells st). map_of (slot_ids st) (cell_key (cells st ! s)) = Some s) \<and>
     (\<forall>l \<in> set (fetches st). \<exists>s < length (cells st). held_by l (cells st ! s)) \<and>
     (\<forall>r k s began. readers st r = Some (k, Fetching s began) \<longrightarrow>
        (\<forall>l \<in> set (fetches st). log_key l = k \<longrightarrow> log_end l + ttl_of (log_outcome l) \<le> began)) \<and>
     spaced (fetches st)"

lemma shared_new: "shared slots_new"
  by (simp add: shared_def spaced_def slots_new_def)

lemma shared_slot: "shared st \<Longrightarrow> s < length (cells st) \<Longrightarrow> s' < length (cells st) \<Longrightarrow>
    cell_key (cells st ! s) = cell_key (cells st ! s') \<Longrightarrow> s = s'"
  by (metis option.inject shared_def)

lemma slot_for_shared:
  assumes "slot_for k st = (s, st')" "shared st" "names_sound st" "length (slot_ids st) < SWEEP_AT"
  shows "shared st'" "set (map fst (slot_ids st')) = insert k (set (map fst (slot_ids st)))"
proof -
  have ids: "sweep_ids st = slot_ids st" using assms(4) by (simp add: sweep_ids_def)
  have "shared st' \<and> set (map fst (slot_ids st')) = insert k (set (map fst (slot_ids st)))"
    using assms(1)
  proof (cases rule: slot_for_cases)
    case old
    then have "k \<in> set (map fst (slot_ids st))" by (metis ids domI dom_map_of_conv_image_fst list.set_map)
    then show ?thesis using old assms(2) ids by (auto simp: shared_def)
  next
    case fresh
    then have none: "map_of (slot_ids st) k = None" by (simp add: ids)
    have key: "cell_key (cells st ! s') \<noteq> k" if "s' < length (cells st)" for s'
      using assms(2) that none by (auto simp: shared_def)
    have logs: "\<exists>s<length (cells st'). held_by l (cells st' ! s)" if l: "l \<in> set (fetches st)" for l
    proof -
      obtain s where "s < length (cells st)" "held_by l (cells st ! s)" using assms(2) l by (auto simp: shared_def)
      then show ?thesis by (intro exI [of _ s]) (simp add: fresh(3) nth_append)
    qed
    have "shared st'"
      unfolding shared_def
    proof (intro conjI ballI logs)
      show "\<forall>s<length (cells st'). map_of (slot_ids st') (cell_key (cells st' ! s)) = Some s"
        using assms(2) key by (auto simp: fresh(2,3) shared_def nth_append less_Suc_eq ids)
    qed (use assms(2) in \<open>auto simp: fresh(3) shared_def\<close>)
    then show ?thesis by (simp add: fresh(3) ids dom_update)
  qed
  then show "shared st'" "set (map fst (slot_ids st')) = insert k (set (map fst (slot_ids st)))" by simp_all
qed

lemma held_on_cell:
  assumes "\<forall>l \<in> set fs. \<exists>s < length (cells st). held_by l (cells st ! s)"
    "\<And>l s'. l \<in> set fs \<Longrightarrow> s' < length (cells st) \<Longrightarrow> held_by l (cells st ! s') \<Longrightarrow>
       s' = s \<Longrightarrow> held_by l (f (cells st ! s))"
  shows "\<forall>l \<in> set fs. \<exists>s' < length (cells st). held_by l (cells (on_cell s f st) ! s')"
proof
  fix l assume l: "l \<in> set fs"
  then obtain s' where s': "s' < length (cells st)" "held_by l (cells st ! s')" using assms(1) by blast
  then show "\<exists>s' < length (cells st). held_by l (cells (on_cell s f st) ! s')"
    using assms(2) [OF l] by (intro exI [of _ s']) auto
qed

lemma held_by_same: "cell_key c' = cell_key c \<Longrightarrow> cell_entry c' = cell_entry c \<Longrightarrow> held_by l c' = held_by l c"
  by (simp add: held_by_def)

lemma shared_on_cell:
  assumes "shared st" "s < length (cells st)" "\<And>c. cell_key (f c) = cell_key c" "\<And>c. cell_entry (f c) = cell_entry c"
  shows "shared (on_cell s f st)"
proof -
  have "\<forall>l \<in> set (fetches st). \<exists>s' < length (cells st). held_by l (cells (on_cell s f st) ! s')"
    using assms(1) by (intro held_on_cell) (auto simp: shared_def held_by_same [OF assms(3,4)])
  then show ?thesis using assms by (auto simp: shared_def)
qed

lemma shared_readers:
  assumes "shared st" "\<And>k s began. v = Some (k, Fetching s began) \<Longrightarrow>
    \<forall>l \<in> set (fetches st). log_key l = k \<longrightarrow> log_end l + ttl_of (log_outcome l) \<le> began"
  shows "shared (st\<lparr>readers := (readers st)(r := v)\<rparr>)"
  using assms unfolding shared_def by simp

lemma shared_now_reader:
  assumes "shared st" "\<And>s began. p = Fetching s began \<Longrightarrow>
    \<forall>l \<in> set (fetches st). log_key l = k \<longrightarrow> log_end l + ttl_of (log_outcome l) \<le> began"
  shows "shared (now_reader r (k, p) st)"
  using shared_readers [of st "Some (k, p)" r] assms by (simp add: now_reader_def)

text \<open>One file is fetched by one reader at a time.\<close>

lemma one_at_a_time:
  assumes "shared st" "slots_sound st" "readers st r = Some (k, Fetching s a)" "readers st r' = Some (k, Fetching s' a')"
  shows "r = r'"
proof -
  have "s < length (cells st)" "s' < length (cells st)" "cell_key (cells st ! s) = cell_key (cells st ! s')"
    using assms(2-4) by (auto simp: slots_sound_def readers_sound_def)
  then have "s = s'" using shared_slot [OF assms(1)] by blast
  moreover have "\<exists>rest. cell_queue (cells st ! s) = r # rest" "\<exists>rest. cell_queue (cells st ! s') = r' # rest"
    using assms(2-4) unfolding slots_sound_def queues_sound_def by blast+
  ultimately show ?thesis by auto
qed

lemma shared_fetched:
  assumes sh: "shared st" and ok: "slots_sound st" and r: "readers st r = Some (k, Fetching s began)"
  shows "shared (now_reader r (k, Answered res (clock st))
    (on_cell s (\<lambda>c. release r (c\<lparr>cell_entry := Some \<lparr>entry_at = clock st, entry_outcome = res\<rparr>\<rparr>))
      (st\<lparr>fetches := \<lparr>log_key = k, log_start = began, log_end = clock st, log_outcome = res\<rparr> # fetches st\<rparr>)))"
    (is "shared (now_reader r ?kp (on_cell s ?f (st\<lparr>fetches := ?l # fetches st\<rparr>)))")
proof -
  let ?st = "on_cell s ?f (st\<lparr>fetches := ?l # fetches st\<rparr>)"
  have s: "s < length (cells st)" "cell_key (cells st ! s) = k" using ok r by (auto simp: slots_sound_def readers_sound_def)
  have began: "began \<le> clock st" using ok r by (auto simp: slots_sound_def queues_sound_def)
  have expired: "\<forall>l \<in> set (fetches st). log_key l = k \<longrightarrow> log_end l + ttl_of (log_outcome l) \<le> began"
    using sh r by (simp add: shared_def)
  have "\<forall>l \<in> set (fetches st). \<exists>s' < length (cells (st\<lparr>fetches := ?l # fetches st\<rparr>)). held_by l (cells ?st ! s')"
    using sh s expired began
    by (intro held_on_cell) (fastforce simp: shared_def held_by_def)+
  moreover have "held_by ?l (cells ?st ! s)" using s by (simp add: held_by_def)
  moreover have "spaced (?l # fetches st)" using sh expired by (auto simp: shared_def spaced_def)
  moreover have "\<forall>l \<in> set (fetches ?st). log_key l = k' \<longrightarrow> log_end l + ttl_of (log_outcome l) \<le> a'"
    if "r' \<noteq> r" "readers st r' = Some (k', Fetching s' a')" for r' k' s' a'
  proof -
    have "k' \<noteq> k" using one_at_a_time [OF sh ok r] that by metis
    then show ?thesis using sh that by (simp add: shared_def)
  qed
  ultimately show ?thesis using sh s by (auto simp: shared_def)
qed

lemma stale_means_expired:
  assumes sh: "shared st" and ok: "slots_sound st" and s: "s < length (cells st)"
    and stale: "\<forall>e. cell_entry (cells st ! s) = Some e \<longrightarrow> \<not> entry_fresh (clock st) e"
    and l: "l \<in> set (fetches st)" "log_key l = cell_key (cells st ! s)"
  shows "log_end l + ttl_of (log_outcome l) \<le> clock st"
proof -
  obtain s' where s': "s' < length (cells st)" "held_by l (cells st ! s')" using sh l(1) by (auto simp: shared_def)
  moreover have "s' = s" using shared_slot [OF sh s'(1) s] s'(2) l(2) by (simp add: held_by_def)
  ultimately obtain e where e: "cell_entry (cells st ! s) = Some e"
      "log_end l = entry_at e \<and> log_outcome l = entry_outcome e \<or> log_end l + ttl_of (log_outcome l) \<le> entry_at e"
    by (auto simp: held_by_def split: option.splits)
  moreover have "entry_at e \<le> clock st" using ok s e(1) by (auto simp: slots_sound_def answers_sound_def)
  ultimately show ?thesis using stale by (auto simp: entry_fresh_def)
qed

lemma shared_step:
  assumes "slot_step ev st = Some st'" "shared st" "slots_sound st" "length (slot_ids st) < SWEEP_AT"
  shows "shared st'"
  using assms(1)
proof (cases rule: slot_step_cases)
  case (enter r k s st1)
  then show ?thesis
    using slot_for_shared(1) [OF enter(3) assms(2) _ assms(4)] assms(3)
    by (auto simp: slots_sound_def intro: shared_now_reader)
next
  case (lock r k s)
  then have "s < length (cells st)" using assms(3) by (auto simp: slots_sound_def readers_sound_def)
  then show ?thesis using assms(2) by (auto simp: lock(3) intro!: shared_now_reader shared_on_cell)
next
  case (hit r k s rest e)
  then have "s < length (cells st)" using assms(3) by (auto simp: slots_sound_def readers_sound_def)
  then show ?thesis using assms(2) by (auto simp: hit(6) intro!: shared_now_reader shared_on_cell)
next
  case (miss r k s rest)
  then have s: "s < length (cells st)" "cell_key (cells st ! s) = k"
    using assms(3) by (auto simp: slots_sound_def readers_sound_def)
  then show ?thesis
    using stale_means_expired [OF assms(2,3) s(1) miss(4)]
    by (auto simp: miss(5) intro!: shared_now_reader [OF assms(2)])
next
  case (fetched r k s began res)
  then show ?thesis using shared_fetched [OF assms(2,3)] by simp
next
  case (leave r k p)
  then show ?thesis using shared_readers [OF assms(2), of None r] by simp
next
  case (leave_queue r k p s)
  then have "s < length (cells st)" using assms(3) queued_at_slot [of p] by (auto simp: slots_sound_def readers_sound_def)
  then show ?thesis using shared_readers [OF assms(2), of None r] by (auto simp: leave_queue(4) intro!: shared_on_cell)
next
  case (pass d)
  then show ?thesis using assms(2) by (simp add: shared_def)
qed

lemma slot_ids_step:
  assumes "slot_step ev st = Some st'" "shared st" "slots_sound st" "length (slot_ids st) < SWEEP_AT"
  shows "set (map fst (slot_ids st')) = set (map fst (slot_ids st)) \<union> asked_keys [ev]"
  using assms(1)
proof (cases rule: slot_step_cases)
  case (enter r k s st1)
  then show ?thesis
    using slot_for_shared(2) [OF enter(3) assms(2) _ assms(4)] assms(3) by (simp add: slots_sound_def asked_keys_def)
qed (simp_all add: asked_keys_def)

lemma length_slot_ids:
  "slots_sound st \<Longrightarrow> length (slot_ids st) = card (set (map fst (slot_ids st)))"
  using distinct_card [of "map fst (slot_ids st)"] by (simp add: slots_sound_def names_sound_def wf_map_def)

lemma finite_asked_keys [simp]: "finite (asked_keys evs)"
  unfolding asked_keys_def by (rule finite_set)

lemma asked_keys_Cons: "asked_keys (ev # evs) = asked_keys [ev] \<union> asked_keys evs"
  by (simp add: asked_keys_def)

lemma shared_run:
  "slot_run evs st = Some st' \<Longrightarrow> shared st \<Longrightarrow> slots_sound st \<Longrightarrow>
   card (set (map fst (slot_ids st)) \<union> asked_keys evs) < SWEEP_AT \<Longrightarrow> shared st'"
proof (induction evs arbitrary: st)
  case (Cons ev evs)
  then obtain st1 where st1: "slot_step ev st = Some st1" "slot_run evs st1 = Some st'"
    by (auto simp: bind_eq_Some_conv)
  have "card (set (map fst (slot_ids st))) \<le> card (set (map fst (slot_ids st)) \<union> asked_keys (ev # evs))"
    by (intro card_mono) auto
  then have few: "length (slot_ids st) < SWEEP_AT"
    using Cons.prems(4) length_slot_ids [OF Cons.prems(3)] by linarith
  have "set (map fst (slot_ids st1)) \<union> asked_keys evs = set (map fst (slot_ids st)) \<union> asked_keys (ev # evs)"
    using slot_ids_step [OF st1(1) Cons.prems(2,3) few]
    unfolding asked_keys_Cons [of ev evs] by (simp add: Un_assoc)
  with Cons.IH [OF st1(2) shared_step [OF st1(1) Cons.prems(2,3) few] slots_sound_step [OF st1(1) Cons.prems(3)]]
    Cons.prems(4) show ?case by (simp only:)
qed simp

section \<open>A sweep between two readers\<close>

text \<open>Readers that have asked for their slots and not yet reached its mutex: in a full cache the
  next reader's sweep drops them all.\<close>

definition enters :: "key list \<Rightarrow> slot_event list" where
  "enters ks = map (\<lambda>i. Enter i (ks ! i)) [0..<length ks]"

definition entered :: "key list \<Rightarrow> slots" where
  "entered ks = \<lparr>clock = 0, slot_ids = zip ks [0..<length ks],
     cells = map (\<lambda>k. \<lparr>cell_key = k, cell_entry = None, cell_queue = []\<rparr>) ks,
     readers = (\<lambda>i. if i < length ks then Some (ks ! i, Cloned i) else None), fetches = []\<rparr>"

lemma update_absent: "map_of m k = None \<Longrightarrow> AList.update k v m = m @ [(k, v)]"
  by (induction m) (auto split: if_splits)

lemma enter_next:
  assumes "k \<notin> set ks" "length ks < SWEEP_AT"
  shows "slot_step (Enter (length ks) k) (entered ks) = Some (entered (ks @ [k]))"
proof -
  have none: "map_of (zip ks [0..<length ks]) k = None" using assms(1) by (simp add: map_of_zip_is_None)
  have ids: "sweep_ids (entered ks) = zip ks [0..<length ks]" using assms(2) by (simp add: sweep_ids_def entered_def)
  have "slot_for k (entered ks) = (length ks, (entered ks)\<lparr>slot_ids := zip (ks @ [k]) [0..<Suc (length ks)],
      cells := cells (entered (ks @ [k]))\<rparr>)"
    by (simp add: slot_for_def ids none update_absent [OF none] Let_def) (simp add: entered_def)
  moreover have "readers (entered ks) (length ks) = None" by (simp add: entered_def)
  ultimately show ?thesis
    by (auto simp: now_reader_def entered_def nth_append fun_eq_iff less_Suc_eq)
qed

lemma enters_run:
  "distinct ks \<Longrightarrow> length ks \<le> SWEEP_AT \<Longrightarrow> slot_run (enters ks) slots_new = Some (entered ks)"
proof (induction ks rule: rev_induct)
  case Nil
  then show ?case by (simp add: enters_def entered_def slots_new_def)
next
  case (snoc k ks)
  have "enters (ks @ [k]) = enters ks @ [Enter (length ks) k]" by (simp add: enters_def nth_append)
  then show ?case using snoc enter_next [of k ks] by (simp add: slot_run_append)
qed

lemma retain_none: "\<forall>kv \<in> set m. \<not> p (snd kv) \<Longrightarrow> retain p m = []"
  by (simp add: retain_def)

lemma sweep_entered: "length ks = SWEEP_AT \<Longrightarrow> sweep_ids (entered ks) = []"
  unfolding sweep_ids_def by (auto simp: entered_def cell_kept_def set_zip intro!: retain_none)

text \<open>Two readers fetch the first file at once: the slot of the first one was empty and nobody was
  in its queue yet when the cache was swept.\<close>

lemma swept_slot_is_fetched_twice:
  assumes "distinct ks" "length ks = SWEEP_AT" "k \<notin> set ks"
  shows "\<exists>st s s'. slot_run (enters ks @ [Enter SWEEP_AT k, Enter (Suc SWEEP_AT) (ks ! 0),
      Lock 0, Look 0, Lock (Suc SWEEP_AT), Look (Suc SWEEP_AT)]) slots_new = Some st \<and>
    readers st 0 = Some (ks ! 0, Fetching s 0) \<and> readers st (Suc SWEEP_AT) = Some (ks ! 0, Fetching s' 0)"
proof -
  let ?new = "\<lambda>k. \<lparr>cell_key = k, cell_entry = None, cell_queue = []\<rparr>"
  let ?st = "(entered ks)\<lparr>slot_ids := [(k, SWEEP_AT)], cells := cells (entered ks) @ [?new k]\<rparr>"
  have len: "length (cells (entered ks)) = SWEEP_AT" "0 < SWEEP_AT" using assms(2) by (simp_all add: entered_def SWEEP_AT_def)
  have ne: "ks ! 0 \<noteq> k" using assms(2,3) len(2) by (metis nth_mem)
  have first: "readers (entered ks) 0 = Some (ks ! 0, Cloned 0)" "cells (entered ks) ! 0 = ?new (ks ! 0)"
    "readers (entered ks) n = None" if "SWEEP_AT \<le> n" for n
    using assms(2) len(2) that by (simp_all add: entered_def)
  have clk: "clock (entered ks) = 0" by (simp add: entered_def)
  have k: "slot_step (Enter SWEEP_AT k) (entered ks) = Some (now_reader SWEEP_AT (k, Cloned SWEEP_AT) ?st)"
    using len first by (simp add: slot_for_def sweep_entered [OF assms(2)] Let_def)
  let ?rest = "[Enter (Suc SWEEP_AT) (ks ! 0), Lock 0, Look 0, Lock (Suc SWEEP_AT), Look (Suc SWEEP_AT)]"
  have "\<exists>st s s'. slot_run ?rest (now_reader SWEEP_AT (k, Cloned SWEEP_AT) ?st) = Some st \<and>
      readers st 0 = Some (ks ! 0, Fetching s 0) \<and> readers st (Suc SWEEP_AT) = Some (ks ! 0, Fetching s' 0)"
    using ne len first(1,2) [of SWEEP_AT] first(3) [of "Suc SWEEP_AT"]
    by (simp add: slot_for_def sweep_ids_def Let_def clk nth_append SWEEP_AT_def on_cell_def now_reader_def)
  then show ?thesis
    using enters_run [OF assms(1)] assms(2) by (simp add: slot_run_append k del: slot_step.simps)
qed

section \<open>Property\<close>

text \<open>C18: Readers of the solutions cache that run at the same time, each step of theirs between
  any steps of others and any of them dropped at any await: whatever a reader is answered, some
  fetch of its file gave, no longer ago than that kind of outcome is kept; a reader that waits for
  a slot waits for one that can go on; and while fewer than 512 files are asked for, a file is
  fetched by one reader at a time, and never again before its last fetch has expired.\<close>

theorem readers_share_one_request:
  assumes "slot_run evs slots_new = Some st"
  shows "(\<forall>r k res t. readers st r = Some (k, Answered res t) \<longrightarrow> believed (fetches st) k res t) \<and>
    (\<forall>r k s. readers st r = Some (k, Queued s) \<longrightarrow>
       (\<exists>first rest. cell_queue (cells st ! s) = first # rest \<and>
          (slot_step (Look first) st \<noteq> None \<or> (\<forall>res. slot_step (Fetched first res) st \<noteq> None)))) \<and>
    (card (asked_keys evs) < SWEEP_AT \<longrightarrow> spaced (fetches st) \<and>
       (\<forall>r r' k s s' a a'. readers st r = Some (k, Fetching s a) \<longrightarrow>
          readers st r' = Some (k, Fetching s' a') \<longrightarrow> r = r'))"
proof -
  have ok: "slots_sound st" by (rule slots_sound_run [OF assms slots_sound_new])
  have sh: "shared st" if "card (asked_keys evs) < SWEEP_AT"
    using shared_run [OF assms shared_new slots_sound_new] that by (simp add: slots_new_def)
  have "\<forall>r k res t. readers st r = Some (k, Answered res t) \<longrightarrow> believed (fetches st) k res t"
    using ok by (simp add: slots_sound_def answers_sound_def)
  moreover have "card (asked_keys evs) < SWEEP_AT \<longrightarrow> spaced (fetches st)" using sh by (simp add: shared_def)
  ultimately show ?thesis using first_can_act [OF ok] one_at_a_time [OF sh ok] by blast
qed

definition demo_key :: key where
  "demo_key = \<lparr>key_repo = \<lparr>owner = lit ''a'', repo_name = lit ''b''\<rparr>, key_ref = None, key_path = RepoPath (lit ''x'')\<rparr>"

text \<open>Two readers of one file: the second waits, and is answered with what the first fetched.\<close>

theorem readers_share_one_request_witness:
  "\<exists>st. slot_run [Enter 0 demo_key, Enter 1 demo_key, Lock 1, Lock 0, Look 1, Pass 2, Fetched 1 (Inr None),
      Pass 59, Look 0] slots_new = Some st \<and>
    readers st 0 = Some (demo_key, Answered (Inr None) 61) \<and> length (fetches st) = 1 \<and>
    believed (fetches st) demo_key (Inr None) 61"
proof -
  let ?evs = "[Enter 0 demo_key, Enter 1 demo_key, Lock 1, Lock 0, Look 1, Pass 2, Fetched 1 (Inr None), Pass 59, Look 0]"
  obtain st where st: "slot_run ?evs slots_new = Some st" "readers st 0 = Some (demo_key, Answered (Inr None) 61)"
      "length (fetches st) = 1"
    by (auto simp: slots_new_def slot_for_def sweep_ids_def Let_def now_reader_def on_cell_def release_def
        entry_fresh_def MISSING_TTL_def SWEEP_AT_def)
  with readers_share_one_request [OF st(1)] show ?thesis by blast
qed

end
