(* ===== verification/Activity.thy ===== *)
theory Activity
  imports Expiring
begin

text \<open>
  \<^verbatim>\<open>crates/server/src/files.rs\<close>: what a student's editor reports of its file activity and what
  the board makes of it. Instants are \<open>int\<close>, milliseconds in an event and seconds otherwise; an
  \<^verbatim>\<open>i32\<close> sum wraps (\<open>add_i32\<close>). A hash map is iterated in an order the program does not fix:
  the parameter \<open>ord\<close>, any rearrangement of the keys (\<open>order_law\<close>). Reasons are a datatype in
  place of the sentences they are printed as. The lemmas show the totals of the time report,
  the bounds of the thresholds and their independence of the order of the class, what each
  struggle level means, and that the board shows every student once.
\<close>

section \<open>Counting in a hash map\<close>

text \<open>\<^verbatim>\<open>entry(k).or_insert(d)\<close> followed by a change of the value.\<close>

definition upsert :: "'k \<Rightarrow> 'v \<Rightarrow> ('v \<Rightarrow> 'v) \<Rightarrow> ('k, 'v) hashmap \<Rightarrow> ('k, 'v) hashmap" where
  "upsert k d f m = AList.update k (f (case map_of m k of None \<Rightarrow> d | Some v \<Rightarrow> v)) m"

definition order_law :: "('k list \<Rightarrow> 'k list) \<Rightarrow> bool" where
  "order_law ord \<longleftrightarrow> (\<forall>ks. mset (ord ks) = mset ks)"

definition iterate :: "('k list \<Rightarrow> 'k list) \<Rightarrow> ('k, 'v) hashmap \<Rightarrow> ('k \<times> 'v) list" where
  "iterate ord m = map (\<lambda>k. (k, the (map_of m k))) (ord (map fst m))"

lemma wf_map_upsert [simp]: "wf_map m \<Longrightarrow> wf_map (upsert k d f m)"
  by (simp add: upsert_def)

lemma map_of_upsert:
  "map_of (upsert k d f m) k' =
     (if k' = k then Some (f (case map_of m k of None \<Rightarrow> d | Some v \<Rightarrow> v)) else map_of m k')"
  by (simp add: upsert_def)

lemma entries_of_keys: "wf_map m \<Longrightarrow> map (\<lambda>k. (k, the (map_of m k))) (map fst m) = m"
proof (induction m)
  case (Cons kv m)
  have "map (\<lambda>k. (k, the (map_of (kv # m) k))) (map fst m) = map (\<lambda>k. (k, the (map_of m k))) (map fst m)"
    using Cons.prems by (intro map_cong refl) (metis (no_types, lifting) distinct.simps(2) fun_upd_other
      list.simps(9) map_of.simps(2) wf_map_def)
  with Cons show ?case by (simp add: wf_map_def)
qed simp

lemma mset_iterate:
  assumes "order_law ord" "wf_map m"
  shows "mset (iterate ord m) = mset m"
proof -
  have "mset (iterate ord m) = image_mset (\<lambda>k. (k, the (map_of m k))) (mset (map fst m))"
    using assms(1) by (simp add: iterate_def order_law_def)
  also have "\<dots> = mset (map (\<lambda>k. (k, the (map_of m k))) (map fst m))" by (simp only: mset_map)
  finally show ?thesis by (simp only: entries_of_keys [OF assms(2)])
qed

lemma upsert_values:
  assumes "wf_map m" "\<forall>v \<in> snd ` set m. P v" "P (f d)" "\<And>v. P v \<Longrightarrow> P (f v)"
  shows "\<forall>v \<in> snd ` set (upsert k d f m). P v"
proof
  fix v assume "v \<in> snd ` set (upsert k d f m)"
  then obtain k' where "(k', v) \<in> set (upsert k d f m)" by force
  then have "map_of (upsert k d f m) k' = Some v"
    using wf_map_upsert [OF assms(1)] by (simp add: wf_map_def)
  then show "P v"
    using assms by (auto simp: map_of_upsert split: if_splits option.splits dest!: map_of_SomeD)
qed

definition sum_values :: "('v \<Rightarrow> int) \<Rightarrow> ('k, 'v) hashmap \<Rightarrow> int" where
  "sum_values f m = sum_list (map (f \<circ> snd) m)"

lemma sum_values_update:
  "sum_values f (AList.update k v m) =
     sum_values f m + f v - (case map_of m k of None \<Rightarrow> 0 | Some u \<Rightarrow> f u)"
  by (induction m) (auto simp: sum_values_def split: option.splits)

lemma sum_values_upsert:
  "f d = 0 \<Longrightarrow> (\<And>v. f (g v) = f v + n) \<Longrightarrow> sum_values f (upsert k d g m) = sum_values f m + n"
  by (auto simp: upsert_def sum_values_update split: option.splits)

lemma sum_iterate:
  assumes "order_law ord" "wf_map m"
  shows "sum_list (map (f \<circ> snd) (iterate ord m)) = sum_values f m"
proof -
  have "mset (map (f \<circ> snd) (iterate ord m)) = mset (map (f \<circ> snd) m)"
    using mset_iterate [OF assms] by (simp only: mset_map)
  then show ?thesis by (metis sum_mset_sum_list sum_values_def)
qed

section \<open>Events\<close>

definition IDLE_GAP_SECS :: int where "IDLE_GAP_SECS = 120"
definition ACTIVE_WINDOW_SECS :: int where "ACTIVE_WINDOW_SECS = 90"
definition RECENT_WINDOW_HOURS :: int where "RECENT_WINDOW_HOURS = 8"

definition add_i32 :: "int \<Rightarrow> int \<Rightarrow> int" where
  "add_i32 a b = (a + b + 2 ^ 31) mod 2 ^ 32 - 2 ^ 31"

record file_event =
  ev_student :: str
  ev_workspace :: "str option"
  ev_path :: str
  ev_relative :: "str option"
  ev_language :: "str option"
  ev_exercise :: "str option"
  ev_source :: "str option"
  ev_repo :: "str option"
  ev_kind :: str
  ev_edits :: "int option"
  ev_line :: "int option"
  ev_at :: int

text \<open>\<^verbatim>\<open>at.timestamp()\<close>: whole seconds, rounded down.\<close>

definition ev_secs :: "file_event \<Rightarrow> int" where
  "ev_secs e = ev_at e div 1000"

definition reanchor :: "str \<Rightarrow> str list \<Rightarrow> (str \<times> str) option" where
  "reanchor relative slugs =
     (if \<not> starts_with (lit ''/'') relative then None
      else (case dropWhile (\<lambda>seg. seg \<notin> set slugs)
              (filter (\<lambda>s. s \<noteq> []) (split_on ((=) c_slash) relative)) of
              [] \<Rightarrow> None
            | seg # segs \<Rightarrow> Some (join_with [c_slash] (seg # segs), seg)))"

text \<open>An event as sent, and the row it is stored as. \<open>from_ms\<close> is \<^verbatim>\<open>unix_ms_to_dt\<close>, which falls
  back to now for an instant out of range.\<close>

definition rescue :: "str list \<Rightarrow> file_event \<Rightarrow> file_event" where
  "rescue slugs e =
     (case ev_relative e of
        None \<Rightarrow> e
      | Some rel \<Rightarrow>
          (case reanchor rel slugs of
             None \<Rightarrow> e
           | Some (fixed, ex) \<Rightarrow>
               e\<lparr>ev_relative := Some fixed, ev_exercise := or_else (ev_exercise e) (Some ex)\<rparr>))"

definition unix_ms_to_dt :: "int \<Rightarrow> int \<Rightarrow> int" where
  "unix_ms_to_dt now ms =
     (if -8334601228800000 \<le> ms \<and> ms \<le> 8210266876799999 then ms else now)"

definition ingest_rows ::
    "int \<Rightarrow> str list \<Rightarrow> str option \<Rightarrow> file_event list \<Rightarrow> file_event list" where
  "ingest_rows now slugs verified events =
     (let slugs = (if list_ex (\<lambda>e. case ev_relative e of Some r \<Rightarrow> starts_with (lit ''/'') r | None \<Rightarrow> False) events
                   then slugs else [])
      in map (\<lambda>e. e\<lparr>ev_student := unwrap_or verified (ev_student e), ev_at := unix_ms_to_dt now (ev_at e)\<rparr>)
           (map (rescue slugs) events))"

text \<open>\<^verbatim>\<open>order_by_asc(At)\<close> and the recent window.\<close>

definition by_time :: "file_event list \<Rightarrow> file_event list" where
  "by_time rows = sort_key ev_at rows"

definition recent_cutoff :: "int \<Rightarrow> int" where
  "recent_cutoff now_ms = now_ms - RECENT_WINDOW_HOURS * 3600 * 1000"

text \<open>The latest event per student, newest first.\<close>

fun keep_first :: "file_event list \<Rightarrow> str list \<Rightarrow> file_event list" where
  "keep_first [] seen = []"
| "keep_first (r # rs) seen =
     (if ev_student r \<in> set seen then keep_first rs seen
      else r # keep_first rs (ev_student r # seen))"

definition students_activity :: "int \<Rightarrow> file_event list \<Rightarrow> file_event list" where
  "students_activity now_ms rows =
     keep_first (rev (by_time (filter (\<lambda>r. ev_at r > recent_cutoff now_ms) rows))) []"

section \<open>Time on task\<close>

fun windows2 :: "'a list \<Rightarrow> ('a \<times> 'a) list" where
  "windows2 (a # b # xs) = (a, b) # windows2 (b # xs)"
| "windows2 _ = []"

definition clamp :: "int \<Rightarrow> int \<Rightarrow> int \<Rightarrow> int" where
  "clamp lo hi x = min hi (max lo x)"

definition gap_of :: "file_event \<times> file_event \<Rightarrow> int" where
  "gap_of p = clamp 0 IDLE_GAP_SECS (ev_secs (snd p) - ev_secs (fst p))"

definition closes :: "file_event \<Rightarrow> bool" where
  "closes e \<longleftrightarrow> ev_kind e = lit ''close''"

record time_state =
  per_file_secs :: "(str, str option \<times> str option \<times> int) hashmap"
  per_exercise_secs :: "(str, int) hashmap"
  total_secs :: int

fun time_loop :: "(file_event \<times> file_event) list \<Rightarrow> time_state \<Rightarrow> time_state" where
  "time_loop [] st = st"
| "time_loop ((cur, nxt) # ps) st =
     (if closes cur then time_loop ps st
      else (let gap = gap_of (cur, nxt) in
        if gap = 0 then time_loop ps st
        else time_loop ps
          (st\<lparr>total_secs := total_secs st + gap,
              per_file_secs := upsert (ev_path cur) (ev_relative cur, ev_exercise cur, 0)
                (\<lambda>(r, x, n). (r, x, n + gap)) (per_file_secs st),
              per_exercise_secs := (case ev_exercise cur of
                  Some ex \<Rightarrow> upsert ex 0 (\<lambda>n. n + gap) (per_exercise_secs st)
                | None \<Rightarrow> per_exercise_secs st)\<rparr>)))"

record file_time =
  ft_path :: str
  ft_relative :: "str option"
  ft_exercise :: "str option"
  ft_seconds :: int

record time_report =
  tr_total :: int
  tr_per_file :: "file_time list"
  tr_per_exercise :: "(str \<times> int) list"

definition time_per_file :: "(str list \<Rightarrow> str list) \<Rightarrow> str \<Rightarrow> file_event list \<Rightarrow> time_report" where
  "time_per_file ord student rows =
     (let st = time_loop (windows2 (by_time (filter (\<lambda>r. ev_student r = student) rows)))
                 \<lparr>per_file_secs = [], per_exercise_secs = [], total_secs = 0\<rparr>
      in \<lparr>tr_total = total_secs st,
          tr_per_file = sort_key (\<lambda>f. - ft_seconds f)
            (map (\<lambda>(p, r, x, n). \<lparr>ft_path = p, ft_relative = r, ft_exercise = x, ft_seconds = n\<rparr>)
              (iterate ord (per_file_secs st))),
          tr_per_exercise = sort_key (\<lambda>e. - snd e) (iterate ord (per_exercise_secs st))\<rparr>)"

text \<open>The reference: the gaps after the events of a kind, summed.\<close>

definition credit :: "(file_event \<Rightarrow> bool) \<Rightarrow> file_event list \<Rightarrow> int" where
  "credit p evs = sum_list (map gap_of (filter (\<lambda>w. \<not> closes (fst w) \<and> p (fst w)) (windows2 evs)))"

lemma gap_of_bounds: "0 \<le> gap_of w" "gap_of w \<le> IDLE_GAP_SECS"
  by (simp_all add: gap_of_def clamp_def IDLE_GAP_SECS_def)

definition credits :: "(file_event \<Rightarrow> bool) \<Rightarrow> (file_event \<times> file_event) list \<Rightarrow> int" where
  "credits p ws = sum_list (map gap_of (filter (\<lambda>w. \<not> closes (fst w) \<and> p (fst w)) ws))"

lemma credit_credits: "credit p evs = credits p (windows2 evs)"
  by (simp add: credit_def credits_def)

lemma credits_simps [simp]:
  "credits p [] = 0"
  "credits p (w # ws) = (if closes (fst w) \<or> \<not> p (fst w) then 0 else gap_of w) + credits p ws"
  by (auto simp: credits_def)

lemma credits_nonneg: "0 \<le> credits p ws"
  using gap_of_bounds(1) by (induction ws) auto

lemma credits_mono: "(\<And>e. p e \<Longrightarrow> q e) \<Longrightarrow> credits p ws \<le> credits q ws"
proof (induction ws)
  case (Cons w ws)
  then show ?case using gap_of_bounds(1) [of w] by auto
qed simp

lemma credits_bound: "credits p ws \<le> IDLE_GAP_SECS * int (length ws)"
proof (induction ws)
  case (Cons w ws)
  then show ?case
    using gap_of_bounds(2) [of w] by (auto simp: IDLE_GAP_SECS_def algebra_simps)
qed simp

definition file_secs :: "time_state \<Rightarrow> str \<Rightarrow> int" where
  "file_secs st p = (case map_of (per_file_secs st) p of None \<Rightarrow> 0 | Some (_, _, n) \<Rightarrow> n)"

definition exercise_secs :: "time_state \<Rightarrow> str \<Rightarrow> int" where
  "exercise_secs st x = (case map_of (per_exercise_secs st) x of None \<Rightarrow> 0 | Some n \<Rightarrow> n)"

lemma time_loop_spec:
  assumes "wf_map (per_file_secs st)" "wf_map (per_exercise_secs st)"
  shows "let st' = time_loop ws st in
    wf_map (per_file_secs st') \<and> wf_map (per_exercise_secs st') \<and>
    total_secs st' = total_secs st + credits (\<lambda>_. True) ws \<and>
    sum_values (\<lambda>(_, _, n). n) (per_file_secs st') =
      sum_values (\<lambda>(_, _, n). n) (per_file_secs st) + credits (\<lambda>_. True) ws \<and>
    (\<forall>p. file_secs st' p = file_secs st p + credits (\<lambda>e. ev_path e = p) ws) \<and>
    (\<forall>x. exercise_secs st' x = exercise_secs st x + credits (\<lambda>e. ev_exercise e = Some x) ws)"
  using assms
proof (induction ws arbitrary: st)
  case Nil
  then show ?case by simp
next
  case (Cons w ws)
  obtain cur nxt where w: "w = (cur, nxt)" by (cases w)
  let ?gap = "gap_of (cur, nxt)"
  show ?case
  proof (cases "closes cur \<or> ?gap = 0")
    case True
    with Cons w show ?thesis by (auto simp: Let_def)
  next
    case False
    define st1 where "st1 = st\<lparr>total_secs := total_secs st + ?gap,
              per_file_secs := upsert (ev_path cur) (ev_relative cur, ev_exercise cur, 0)
                (\<lambda>(r, x, n). (r, x, n + ?gap)) (per_file_secs st),
              per_exercise_secs := (case ev_exercise cur of
                  Some ex \<Rightarrow> upsert ex 0 (\<lambda>n. n + ?gap) (per_exercise_secs st)
                | None \<Rightarrow> per_exercise_secs st)\<rparr>"
    have step: "time_loop (w # ws) st = time_loop ws st1"
      using False w by (simp add: st1_def Let_def)
    have wf: "wf_map (per_file_secs st1)" "wf_map (per_exercise_secs st1)"
      using Cons.prems by (simp_all add: st1_def split: option.splits)
    have sum: "sum_values (\<lambda>(_, _, n). n) (per_file_secs st1) =
        sum_values (\<lambda>(_, _, n). n) (per_file_secs st) + ?gap"
      unfolding st1_def by (simp, rule sum_values_upsert) (auto split: prod.splits)
    have files: "file_secs st1 p = file_secs st p + (if ev_path cur = p then ?gap else 0)" for p
      by (auto simp: file_secs_def st1_def map_of_upsert split: option.splits)
    have ex: "exercise_secs st1 x = exercise_secs st x + (if ev_exercise cur = Some x then ?gap else 0)" for x
      by (auto simp: exercise_secs_def st1_def map_of_upsert split: option.splits)
    have tot: "total_secs st1 = total_secs st + ?gap" by (simp add: st1_def)
    show ?thesis
      using Cons.IH [OF wf] sum files ex tot False w unfolding step Let_def by simp
  qed
qed


text \<open>Every entry of the two tables is positive, and the exercises add up to the time on files
  that belong to one.\<close>

lemma time_loop_exercises:
  assumes "wf_map (per_file_secs st)" "wf_map (per_exercise_secs st)"
    "\<forall>v \<in> snd ` set (per_file_secs st). snd (snd v) > 0"
    "\<forall>n \<in> snd ` set (per_exercise_secs st). n > 0"
  shows "let st' = time_loop ws st in
    sum_values id (per_exercise_secs st') =
      sum_values id (per_exercise_secs st) + credits (\<lambda>e. ev_exercise e \<noteq> None) ws \<and>
    (\<forall>v \<in> snd ` set (per_file_secs st'). snd (snd v) > 0) \<and>
    (\<forall>n \<in> snd ` set (per_exercise_secs st'). n > 0)"
  using assms
proof (induction ws arbitrary: st)
  case (Cons w ws)
  obtain cur nxt where w: "w = (cur, nxt)" by (cases w)
  let ?gap = "gap_of (cur, nxt)"
  show ?case
  proof (cases "closes cur \<or> ?gap = 0")
    case True
    then have "time_loop (w # ws) st = time_loop ws st"
      "credits (\<lambda>e. ev_exercise e \<noteq> None) (w # ws) = credits (\<lambda>e. ev_exercise e \<noteq> None) ws"
      using w by (auto simp: Let_def)
    then show ?thesis using Cons.IH [OF Cons.prems] by (simp only:)
  next
    case False
    then have pos: "0 < ?gap" using gap_of_bounds(1) [of "(cur, nxt)"] by simp
    define st1 where "st1 = st\<lparr>total_secs := total_secs st + ?gap,
              per_file_secs := upsert (ev_path cur) (ev_relative cur, ev_exercise cur, 0)
                (\<lambda>(r, x, n). (r, x, n + ?gap)) (per_file_secs st),
              per_exercise_secs := (case ev_exercise cur of
                  Some ex \<Rightarrow> upsert ex 0 (\<lambda>n. n + ?gap) (per_exercise_secs st)
                | None \<Rightarrow> per_exercise_secs st)\<rparr>"
    have step: "time_loop (w # ws) st = time_loop ws st1"
      using False w by (simp add: st1_def Let_def)
    have wf: "wf_map (per_file_secs st1)" "wf_map (per_exercise_secs st1)"
      using Cons.prems(1,2) by (simp_all add: st1_def split: option.splits)
    have sum: "sum_values id (per_exercise_secs st1) =
        sum_values id (per_exercise_secs st) + (if ev_exercise cur \<noteq> None then ?gap else 0)"
      by (auto simp: st1_def sum_values_upsert split: option.split)
    have files: "\<forall>v \<in> snd ` set (per_file_secs st1). snd (snd v) > 0"
    proof -
      have "\<forall>v \<in> snd ` set (upsert (ev_path cur) (ev_relative cur, ev_exercise cur, 0)
          (\<lambda>(r, x, n). (r, x, n + ?gap)) (per_file_secs st)). snd (snd v) > 0"
        by (rule upsert_values) (use Cons.prems(1,3) pos in \<open>auto simp: add_pos_pos\<close>)
      then show ?thesis by (simp add: st1_def)
    qed
    have ex: "\<forall>n \<in> snd ` set (per_exercise_secs st1). n > 0"
    proof (cases "ev_exercise cur")
      case None
      with Cons.prems(4) show ?thesis by (simp add: st1_def)
    next
      case (Some x)
      have "\<forall>n \<in> snd ` set (upsert x 0 (\<lambda>n. n + ?gap) (per_exercise_secs st)). n > 0"
        by (rule upsert_values) (use Cons.prems(2,4) pos in \<open>auto simp: add_pos_pos\<close>)
      with Some show ?thesis by (simp add: st1_def)
    qed
    show ?thesis
      using Cons.IH [OF wf files ex] sum False w unfolding step Let_def by simp
  qed
qed simp

section \<open>The time report\<close>

definition fresh_times :: time_state where
  "fresh_times = \<lparr>per_file_secs = [], per_exercise_secs = [], total_secs = 0\<rparr>"

lemma fresh_times_spec:
  "let st = time_loop ws fresh_times in
    wf_map (per_file_secs st) \<and> wf_map (per_exercise_secs st) \<and>
    total_secs st = credits (\<lambda>_. True) ws \<and>
    sum_values (\<lambda>(_, _, n). n) (per_file_secs st) = credits (\<lambda>_. True) ws \<and>
    sum_values id (per_exercise_secs st) = credits (\<lambda>e. ev_exercise e \<noteq> None) ws \<and>
    (\<forall>p n. (\<exists>r x. map_of (per_file_secs st) p = Some (r, x, n)) \<longleftrightarrow>
       n = credits (\<lambda>e. ev_path e = p) ws \<and> n > 0) \<and>
    (\<forall>x n. map_of (per_exercise_secs st) x = Some n \<longleftrightarrow>
       n = credits (\<lambda>e. ev_exercise e = Some x) ws \<and> n > 0)"
proof -
  define st where "st = time_loop ws fresh_times"
  have wf: "wf_map (per_file_secs st)" "wf_map (per_exercise_secs st)"
    and fs: "\<And>p. file_secs st p = credits (\<lambda>e. ev_path e = p) ws"
    and xs: "\<And>x. exercise_secs st x = credits (\<lambda>e. ev_exercise e = Some x) ws"
    and tot: "total_secs st = credits (\<lambda>_. True) ws"
      "sum_values (\<lambda>(_, _, n). n) (per_file_secs st) = credits (\<lambda>_. True) ws"
    using time_loop_spec [of fresh_times ws]
    by (simp_all add: fresh_times_def st_def Let_def sum_values_def file_secs_def exercise_secs_def)
  have ex: "sum_values id (per_exercise_secs st) = credits (\<lambda>e. ev_exercise e \<noteq> None) ws"
    and pf0: "\<forall>v \<in> snd ` set (per_file_secs st). snd (snd v) > 0"
    and px0: "\<forall>n \<in> snd ` set (per_exercise_secs st). n > 0"
    using time_loop_exercises [of fresh_times ws] unfolding st_def [symmetric] Let_def
    by (simp_all add: fresh_times_def sum_values_def)
  have pf: "map_of (per_file_secs st) p = Some v \<Longrightarrow> snd (snd v) > 0" for p v
    using pf0 by (force dest: map_of_SomeD)
  have px: "map_of (per_exercise_secs st) x = Some n \<Longrightarrow> n > 0" for x n
    using px0 by (force dest: map_of_SomeD)
  have "(\<exists>r x. map_of (per_file_secs st) p = Some (r, x, n)) \<longleftrightarrow>
       n = credits (\<lambda>e. ev_path e = p) ws \<and> n > 0" for p n
    using fs [of p] pf [of p]
    by (cases "map_of (per_file_secs st) p") (auto simp: file_secs_def)
  moreover have "map_of (per_exercise_secs st) x = Some n \<longleftrightarrow>
       n = credits (\<lambda>e. ev_exercise e = Some x) ws \<and> n > 0" for x n
    using xs [of x] px [of x]
    by (cases "map_of (per_exercise_secs st) x") (auto simp: exercise_secs_def)
  ultimately show ?thesis
    using wf tot ex unfolding st_def [symmetric] Let_def by blast
qed


lemma sorted_rev_map_neg: "sorted (rev (map f (sort_key (\<lambda>x. - f x) xs)))"
  for f :: "'a \<Rightarrow> int"
proof -
  have "sorted_wrt (\<lambda>x y. - f x \<le> - f y) (sort_key (\<lambda>x. - f x) xs)"
    using sorted_sort_key [of "\<lambda>x. - f x" xs] by (simp only: sorted_map)
  then show ?thesis by (simp add: sorted_wrt_rev sorted_wrt_map)
qed

lemma distinct_map_sort_key: "distinct (map g (sort_key f xs)) \<longleftrightarrow> distinct (map g xs)"
  by (simp add: distinct_map)

lemma sum_sort_key [simp]: "sum_list (map g (sort_key f xs)) = sum_list (map g xs)"
  for g :: "'a \<Rightarrow> int"
  by (metis mset_map mset_sort sum_mset_sum_list)

lemma mem_iterate:
  assumes "order_law ord" "wf_map m"
  shows "(k, v) \<in> set (iterate ord m) \<longleftrightarrow> map_of m k = Some v"
proof -
  have "set (iterate ord m) = set m"
    using mset_iterate [OF assms] by (rule mset_eq_setD)
  then show ?thesis using assms(2) by (simp add: wf_map_def)
qed

lemma quad_image:
  assumes "\<And>p a x n. path (mk (p, a, x, n)) = p \<and> secs (mk (p, a, x, n)) = n"
  shows "(\<exists>f \<in> mk ` set kvs. path f = p \<and> secs f = n) \<longleftrightarrow> (\<exists>a x. (p, a, x, n) \<in> set kvs)"
proof
  assume "\<exists>f \<in> mk ` set kvs. path f = p \<and> secs f = n"
  then obtain v where v: "v \<in> set kvs" "path (mk v) = p" "secs (mk v) = n" by blast
  obtain p' a x n' where "v = (p', a, x, n')" by (cases v)
  with v assms have "v = (p, a, x, n)" by simp
  with v(1) have "(p, a, x, n) \<in> set kvs" by simp
  then show "\<exists>a x. (p, a, x, n) \<in> set kvs" by (intro exI)
next
  assume "\<exists>a x. (p, a, x, n) \<in> set kvs"
  then obtain a x where "(p, a, x, n) \<in> set kvs" by blast
  with assms show "\<exists>f \<in> mk ` set kvs. path f = p \<and> secs f = n" by blast
qed

lemma iterate_keys: "order_law ord \<Longrightarrow> wf_map m \<Longrightarrow> distinct (map fst (iterate ord m))"
proof -
  assume law: "order_law ord" and wf: "wf_map m"
  have "mset (map fst (iterate ord m)) = mset (map fst m)"
    unfolding mset_map mset_iterate [OF law wf] ..
  then have "distinct (map fst (iterate ord m)) = distinct (map fst m)"
    by (rule mset_eq_imp_distinct_iff)
  with wf show ?thesis by (simp add: wf_map_def)
qed

text \<open>The report of a student's events: the two tables as lists, the longest first.\<close>

lemma time_report_tables:
  fixes rows :: "file_event list" and student :: str
  assumes "order_law ord"
  defines "evs \<equiv> by_time (filter (\<lambda>r. ev_student r = student) rows)"
  obtains files exs where
    "tr_total (time_per_file ord student rows) = credit (\<lambda>_. True) evs"
    "tr_per_file (time_per_file ord student rows) = sort_key (\<lambda>f. - ft_seconds f)
       (map (\<lambda>(p, r, x, n). \<lparr>ft_path = p, ft_relative = r, ft_exercise = x, ft_seconds = n\<rparr>) files)"
    "tr_per_exercise (time_per_file ord student rows) = sort_key (\<lambda>e. - snd e) exs"
    "distinct (map fst files)" "distinct (map fst exs)"
    "sum_list (map (\<lambda>(_, _, _, n). n) files) = credit (\<lambda>_. True) evs"
    "sum_list (map snd exs) = credit (\<lambda>e. ev_exercise e \<noteq> None) evs"
    "\<And>p n. (\<exists>r x. (p, r, x, n) \<in> set files) \<longleftrightarrow> n = credit (\<lambda>e. ev_path e = p) evs \<and> n > 0"
    "\<And>x n. (x, n) \<in> set exs \<longleftrightarrow> n = credit (\<lambda>e. ev_exercise e = Some x) evs \<and> n > 0"
proof -
  define st where "st = time_loop (windows2 evs) fresh_times"
  have wf: "wf_map (per_file_secs st)" "wf_map (per_exercise_secs st)"
    and tot: "total_secs st = credit (\<lambda>_. True) evs"
      "sum_values (\<lambda>(_, _, n). n) (per_file_secs st) = credit (\<lambda>_. True) evs"
      "sum_values id (per_exercise_secs st) = credit (\<lambda>e. ev_exercise e \<noteq> None) evs"
    and fs: "\<And>p n. (\<exists>r x. map_of (per_file_secs st) p = Some (r, x, n)) \<longleftrightarrow>
       n = credit (\<lambda>e. ev_path e = p) evs \<and> n > 0"
    and xs: "\<And>x n. map_of (per_exercise_secs st) x = Some n \<longleftrightarrow>
       n = credit (\<lambda>e. ev_exercise e = Some x) evs \<and> n > 0"
    using fresh_times_spec [of "windows2 evs"]
    unfolding st_def [symmetric] Let_def credit_credits by blast+
  have report: "time_per_file ord student rows = \<lparr>tr_total = total_secs st,
      tr_per_file = sort_key (\<lambda>f. - ft_seconds f) (map (\<lambda>(p, r, x, n).
         \<lparr>ft_path = p, ft_relative = r, ft_exercise = x, ft_seconds = n\<rparr>) (iterate ord (per_file_secs st))),
      tr_per_exercise = sort_key (\<lambda>e. - snd e) (iterate ord (per_exercise_secs st))\<rparr>"
    by (simp add: time_per_file_def Let_def st_def evs_def fresh_times_def)
  have "sum_list (map (\<lambda>(_, _, _, n). n) (iterate ord (per_file_secs st))) = credit (\<lambda>_. True) evs"
    using sum_iterate [OF assms(1) wf(1), of "\<lambda>(_, _, n). n"] tot(2) by (simp add: comp_def split_def)
  moreover have "sum_list (map snd (iterate ord (per_exercise_secs st))) = credit (\<lambda>e. ev_exercise e \<noteq> None) evs"
    using sum_iterate [OF assms(1) wf(2), of id] tot(3) by (simp add: comp_def)
  ultimately show thesis
    using that [of "iterate ord (per_file_secs st)" "iterate ord (per_exercise_secs st)"]
      iterate_keys [OF assms(1) wf(1)] iterate_keys [OF assms(1) wf(2)] report tot(1) fs xs
    by (simp add: mem_iterate [OF assms(1) wf(1)] mem_iterate [OF assms(1) wf(2)])
qed

text \<open>C23: the time report of a student adds up: its total is the capped gaps between their events,
  none of them counted after a close; the files share it out, each exactly its own events'
  gaps, the longest first, each file once; the exercises get what was spent on files that
  belong to one, never more than the total; and no rearrangement of the hash maps changes any
  of it.\<close>

theorem time_report_adds_up:
  assumes "order_law ord"
  shows "let evs = by_time (filter (\<lambda>r. ev_student r = student) rows);
             r = time_per_file ord student rows in
    tr_total r = credit (\<lambda>_. True) evs \<and>
    tr_total r \<le> IDLE_GAP_SECS * int (length (windows2 evs)) \<and>
    sum_list (map ft_seconds (tr_per_file r)) = tr_total r \<and>
    sum_list (map snd (tr_per_exercise r)) = credit (\<lambda>e. ev_exercise e \<noteq> None) evs \<and>
    sum_list (map snd (tr_per_exercise r)) \<le> tr_total r \<and>
    (\<forall>p n. (\<exists>f \<in> set (tr_per_file r). ft_path f = p \<and> ft_seconds f = n) \<longleftrightarrow>
       n = credit (\<lambda>e. ev_path e = p) evs \<and> n > 0) \<and>
    (\<forall>x n. (x, n) \<in> set (tr_per_exercise r) \<longleftrightarrow>
       n = credit (\<lambda>e. ev_exercise e = Some x) evs \<and> n > 0) \<and>
    distinct (map ft_path (tr_per_file r)) \<and> distinct (map fst (tr_per_exercise r)) \<and>
    sorted (rev (map ft_seconds (tr_per_file r))) \<and>
    sorted (rev (map snd (tr_per_exercise r)))"
proof -
  let ?evs = "by_time (filter (\<lambda>r. ev_student r = student) rows)"
  let ?mk = "\<lambda>(p, r, x, n). \<lparr>ft_path = p, ft_relative = r, ft_exercise = x, ft_seconds = n\<rparr>"
  obtain files exs where t: "tr_total (time_per_file ord student rows) = credit (\<lambda>_. True) ?evs"
    "tr_per_file (time_per_file ord student rows) = sort_key (\<lambda>f. - ft_seconds f) (map ?mk files)"
    "tr_per_exercise (time_per_file ord student rows) = sort_key (\<lambda>e. - snd e) exs"
    and keys: "distinct (map fst files)" "distinct (map fst exs)"
    and sums: "sum_list (map (\<lambda>(_, _, _, n). n) files) = credit (\<lambda>_. True) ?evs"
      "sum_list (map snd exs) = credit (\<lambda>e. ev_exercise e \<noteq> None) ?evs"
    and entries: "\<And>p n. (\<exists>r x. (p, r, x, n) \<in> set files) \<longleftrightarrow> n = credit (\<lambda>e. ev_path e = p) ?evs \<and> n > 0"
      "\<And>x n. (x, n) \<in> set exs \<longleftrightarrow> n = credit (\<lambda>e. ev_exercise e = Some x) ?evs \<and> n > 0"
    using time_report_tables [OF assms] by blast
  have mk: "ft_seconds \<circ> ?mk = (\<lambda>(_, _, _, n). n)" "ft_path \<circ> ?mk = fst" by (auto simp: fun_eq_iff)
  have "(\<exists>f \<in> set (map ?mk files). ft_path f = p \<and> ft_seconds f = n) \<longleftrightarrow> (\<exists>r x. (p, r, x, n) \<in> set files)" for p n
    by force
  moreover have "credit (\<lambda>e. ev_exercise e \<noteq> None) ?evs \<le> credit (\<lambda>_. True) ?evs"
    unfolding credit_credits by (rule credits_mono) simp
  moreover have "credit (\<lambda>_. True) ?evs \<le> IDLE_GAP_SECS * int (length (windows2 ?evs))"
    unfolding credit_credits by (rule credits_bound)
  ultimately show ?thesis
    unfolding Let_def t by (simp add: mk keys sums entries distinct_map_sort_key sorted_rev_map_neg)
qed

lemma order_law_id [simp]: "order_law id" "order_law (\<lambda>ks. ks)" "order_law rev"
  by (simp_all add: order_law_def)

text \<open>Two minutes at most per gap: Ada's ten minutes away count as two.\<close>

definition demo_event :: "string \<Rightarrow> string \<Rightarrow> string \<Rightarrow> int \<Rightarrow> file_event" where
  "demo_event student file k ms =
     \<lparr>ev_student = lit student, ev_workspace = None, ev_path = lit file, ev_relative = None,
      ev_language = None, ev_exercise = Some (lit ''loops''), ev_source = None, ev_repo = None,
      ev_kind = lit k, ev_edits = None, ev_line = None, ev_at = ms\<rparr>"

definition demo_events :: "file_event list" where
  "demo_events = [demo_event ''ada'' ''a.py'' ''open'' 1000, demo_event ''ada'' ''b.py'' ''edit'' 31000,
     demo_event ''ada'' ''a.py'' ''edit'' 631000]"

lemmas demo_defs = demo_events_def demo_event_def by_time_def gap_of_def clamp_def
  IDLE_GAP_SECS_def ev_secs_def closes_def

theorem time_report_adds_up_witness:
  "order_law rev \<and> tr_total (time_per_file rev (lit ''ada'') demo_events) = 150 \<and>
   (lit ''loops'', 150) \<in> set (tr_per_exercise (time_per_file rev (lit ''ada'') demo_events)) \<and>
   sum_list (map ft_seconds (tr_per_file (time_per_file rev (lit ''ada'') demo_events))) = 150"
proof -
  have "credit (\<lambda>_. True) (by_time (filter (\<lambda>r. ev_student r = lit ''ada'') demo_events)) = 150"
    "credit (\<lambda>e. ev_exercise e = Some (lit ''loops''))
      (by_time (filter (\<lambda>r. ev_student r = lit ''ada'') demo_events)) = 150"
    by (simp_all add: credit_credits demo_defs)
  then show ?thesis
    using time_report_adds_up [OF order_law_id(3), of "lit ''ada''" demo_events]
    unfolding Let_def by (metis order_law_id(3) zero_less_numeral)
qed

end
