(* ===== verification/Fences.thy ===== *)
theory Fences
  imports Activity
begin

text \<open>
  The struggle rules of \<^verbatim>\<open>crates/server/src/files.rs\<close>: quantiles, the thresholds of an
  exercise (\<^verbatim>\<open>Fences\<close>) and the assessment of a student (\<^verbatim>\<open>assess\<close>). The code interpolates in
  \<^verbatim>\<open>f64\<close>; with the quantiles it uses every value is a multiple of a quarter below \<^verbatim>\<open>2^53\<close>, so
  the rational arithmetic here is the same number. Integer division truncates (\<open>tdiv\<close>).
\<close>

definition tdiv :: "int \<Rightarrow> int \<Rightarrow> int" where
  "tdiv a b = sgn a * sgn b * (\<bar>a\<bar> div \<bar>b\<bar>)"

lemma tdiv_nonneg [simp]: "0 \<le> a \<Longrightarrow> 0 < b \<Longrightarrow> tdiv a b = a div b"
  by (cases "a = 0") (simp_all add: tdiv_def sgn_if)

lemma tdiv_neg: "a < 0 \<Longrightarrow> 0 < b \<Longrightarrow> tdiv a b \<le> 0"
  by (simp add: tdiv_def sgn_if pos_imp_zdiv_nonneg_iff)

text \<open>\<^verbatim>\<open>f64::round\<close>: to the nearest, halves away from zero.\<close>

definition round_away :: "rat \<Rightarrow> int" where
  "round_away x = (if x < 0 then - \<lfloor>1 / 2 - x\<rfloor> else \<lfloor>x + 1 / 2\<rfloor>)"

definition interpolate :: "int list \<Rightarrow> rat \<Rightarrow> rat" where
  "interpolate xs pos =
     (let lo = nat \<lfloor>pos\<rfloor>; hi = nat \<lceil>pos\<rceil>; frac = pos - of_nat lo
      in of_int (xs ! lo) + of_int (xs ! hi - xs ! lo) * frac)"

definition quantile :: "int list \<Rightarrow> rat \<Rightarrow> int" where
  "quantile xs q = round_away (interpolate xs (q * of_nat (length xs - 1)))"

definition WATCH_SECS :: int where "WATCH_SECS = 10 * 60"
definition HELP_SECS :: int where "HELP_SECS = 25 * 60"
definition MIN_COHORT :: nat where "MIN_COHORT = 5"
definition MIN_WATCH_SECS :: int where "MIN_WATCH_SECS = 5 * 60"
definition MIN_HELP_SECS :: int where "MIN_HELP_SECS = 10 * 60"
definition STALL_SECS :: int where "STALL_SECS = 5 * 60"
definition EDIT_WINDOW_SECS :: int where "EDIT_WINDOW_SECS = 5 * 60"

record fences =
  watch_at :: int
  help_at :: int
  cohort :: nat
  median :: int

definition fences_fixed :: fences where
  "fences_fixed = \<lparr>watch_at = WATCH_SECS, help_at = HELP_SECS, cohort = 0, median = 0\<rparr>"

definition for_cohort :: "int list \<Rightarrow> fences" where
  "for_cohort ts =
     (if length ts < MIN_COHORT then fences_fixed
      else (let t = sort ts;
                q1 = quantile t (1 / 4); med = quantile t (1 / 2); q3 = quantile t (3 / 4);
                iqr = q3 - q1
            in \<lparr>watch_at = max (max (q3 + tdiv (iqr * 3) 2) (tdiv (med * 3) 2)) MIN_WATCH_SECS,
                help_at = max (max (q3 + iqr * 3) (med * 2)) MIN_HELP_SECS,
                cohort = length t, median = med\<rparr>))"

record signals =
  errors :: int
  failed_runs :: int

definition signals_default :: signals where
  "signals_default = \<lparr>errors = 0, failed_runs = 0\<rparr>"

record edit_activity =
  recent :: int
  since_last :: "int option"

definition edits_default :: edit_activity where
  "edits_default = \<lparr>recent = 0, since_last = None\<rparr>"

datatype level = Ok | Watch | Help

primrec struggle_rank :: "level \<Rightarrow> nat" where
  "struggle_rank Ok = 0" | "struggle_rank Watch = 1" | "struggle_rank Help = 2"

datatype reason =
  Errors_In_Runs int | Failed_Runs int | Minutes_Of_Median int int | Minutes int | No_Edits_For int

definition assess :: "signals \<Rightarrow> int \<Rightarrow> edit_activity \<Rightarrow> fences \<Rightarrow> level \<times> reason list" where
  "assess sig secs edits f =
     (let long = (secs \<ge> watch_at f);
          stalled = (long \<and> (case since_last edits of Some s \<Rightarrow> s \<ge> STALL_SECS | None \<Rightarrow> False));
          working = (recent edits > 0 \<and>
            (case since_last edits of Some s \<Rightarrow> s < STALL_SECS | None \<Rightarrow> False));
          is_help = (errors sig \<ge> 3 \<or> failed_runs sig \<ge> 2 \<or> (secs \<ge> help_at f \<and> \<not> working) \<or>
            (stalled \<and> (errors sig \<ge> 1 \<or> failed_runs sig \<ge> 1)));
          is_watch = (stalled \<or> errors sig \<ge> 1 \<or> failed_runs sig \<ge> 1 \<or> long);
          reasons =
            (if errors sig > 0 then [Errors_In_Runs (errors sig)] else []) @
            (if failed_runs sig > 0 then [Failed_Runs (failed_runs sig)] else []) @
            (if long then [if cohort f > 0 then Minutes_Of_Median (tdiv secs 60) (tdiv (median f) 60)
                           else Minutes (tdiv secs 60)] else []) @
            (case (stalled, since_last edits) of (True, Some s) \<Rightarrow> [No_Edits_For (tdiv s 60)] | _ \<Rightarrow> [])
      in (if is_help then Help else if is_watch then Watch else Ok, reasons))"

section \<open>Quantiles\<close>

lemma round_away_mono: "x \<le> y \<Longrightarrow> round_away x \<le> round_away y"
proof -
  assume le: "x \<le> y"
  consider "y < 0" | "x < 0" "0 \<le> y" | "0 \<le> x" "0 \<le> y" using le by linarith
  then show ?thesis
  proof cases
    case 1
    then have "x < 0" using le by simp
    moreover have "\<lfloor>1 / 2 - y\<rfloor> \<le> \<lfloor>1 / 2 - x\<rfloor>" using le by (intro floor_mono) simp
    ultimately show ?thesis using 1 by (simp add: round_away_def)
  next
    case 2
    then have "0 \<le> \<lfloor>1 / 2 - x\<rfloor>" "0 \<le> \<lfloor>y + 1 / 2\<rfloor>" by (simp_all add: zero_le_floor)
    then have "- \<lfloor>1 / 2 - x\<rfloor> \<le> \<lfloor>y + 1 / 2\<rfloor>" by linarith
    with 2 show ?thesis by (simp add: round_away_def)
  next
    case 3
    then show ?thesis using le by (simp add: round_away_def floor_mono)
  qed
qed

lemma round_away_int [simp]: "round_away (of_int n) = n"
proof (cases "n < 0")
  case True
  have "\<lfloor>1 / 2 - (of_int n :: rat)\<rfloor> = - n" by (simp add: floor_eq_iff)
  with True show ?thesis by (simp add: round_away_def)
next
  case False
  have "\<lfloor>of_int n + (1 / 2 :: rat)\<rfloor> = n" by (simp add: floor_eq_iff)
  with False show ?thesis by (simp add: round_away_def)
qed

lemma index_below: "i \<le> int (length xs - 1) \<Longrightarrow> xs \<noteq> [] \<Longrightarrow> nat i < length xs"
  by (cases xs) auto

text \<open>Between two ranks the interpolation stays between their values.\<close>

lemma interpolate_between:
  assumes "sorted xs" "0 \<le> pos" "pos \<le> of_nat (length xs - 1)" "xs \<noteq> []"
  shows "of_int (xs ! nat \<lfloor>pos\<rfloor>) \<le> interpolate xs pos \<and> interpolate xs pos \<le> of_int (xs ! nat \<lceil>pos\<rceil>)"
proof -
  let ?lo = "nat \<lfloor>pos\<rfloor>" and ?hi = "nat \<lceil>pos\<rceil>"
  have lo: "of_nat ?lo \<le> pos" "pos - of_nat ?lo < 1" using assms(2) by (simp_all, linarith+)
  have "\<lceil>pos\<rceil> \<le> int (length xs - 1)" using assms(3) by (simp add: ceiling_le_iff)
  then have hi: "?hi < length xs" using assms(4) by (rule index_below)
  have "?lo \<le> ?hi" by (rule nat_mono) linarith
  then have d: "0 \<le> xs ! ?hi - xs ! ?lo" using assms(1) hi by (simp add: sorted_nth_mono)
  have "0 \<le> of_int (xs ! ?hi - xs ! ?lo) * (pos - of_nat ?lo)"
    using d lo by (intro mult_nonneg_nonneg) simp_all
  moreover have "of_int (xs ! ?hi - xs ! ?lo) * (pos - of_nat ?lo) \<le> of_int (xs ! ?hi - xs ! ?lo) * 1"
    using d lo by (intro mult_left_mono) simp_all
  ultimately show ?thesis by (simp add: interpolate_def Let_def)
qed

lemma interpolate_mono:
  assumes "sorted xs" "0 \<le> p" "p \<le> p'" "p' \<le> of_nat (length xs - 1)" "xs \<noteq> []"
  shows "interpolate xs p \<le> interpolate xs p'"
proof (cases "\<lceil>p\<rceil> \<le> \<lfloor>p'\<rfloor>")
  case True
  have p': "0 \<le> p'" using assms by simp
  have "\<lfloor>p'\<rfloor> \<le> int (length xs - 1)" using assms(4) by (metis floor_mono floor_of_nat)
  then have "nat \<lfloor>p'\<rfloor> < length xs" using assms(5) by (rule index_below)
  then have "xs ! nat \<lceil>p\<rceil> \<le> xs ! nat \<lfloor>p'\<rfloor>"
    using True assms(1) by (intro sorted_nth_mono nat_mono)
  then have "(of_int (xs ! nat \<lceil>p\<rceil>) :: rat) \<le> of_int (xs ! nat \<lfloor>p'\<rfloor>)" by simp
  then show ?thesis
    using interpolate_between [OF assms(1,2) order_trans [OF assms(3,4)] assms(5)]
      interpolate_between [OF assms(1) p' assms(4,5)] by linarith
next
  case False
  have fl: "\<lfloor>p\<rfloor> \<le> \<lfloor>p'\<rfloor>" "\<lceil>p\<rceil> \<le> \<lceil>p'\<rceil>" using assms(3) by (simp_all add: floor_mono ceiling_mono)
  have "\<lceil>p\<rceil> \<le> \<lfloor>p\<rfloor> + 1" "\<lceil>p'\<rceil> \<le> \<lfloor>p'\<rfloor> + 1" "\<lfloor>p\<rfloor> \<le> \<lceil>p\<rceil>"
    by (simp_all add: ceiling_le_iff) (linarith+)
  with False fl have eq: "\<lfloor>p\<rfloor> = \<lfloor>p'\<rfloor>" "\<lceil>p\<rceil> = \<lfloor>p\<rfloor> + 1" "\<lceil>p'\<rceil> = \<lceil>p\<rceil>" by linarith+
  let ?lo = "nat \<lfloor>p\<rfloor>" and ?hi = "nat \<lceil>p\<rceil>"
  have "\<lceil>p'\<rceil> \<le> int (length xs - 1)" using assms(4) by (simp add: ceiling_le_iff)
  then have "?hi < length xs" using index_below [of "\<lceil>p'\<rceil>" xs] assms(5) eq by simp
  moreover have "?lo \<le> ?hi" using eq by (intro nat_mono) linarith
  ultimately have "0 \<le> xs ! ?hi - xs ! ?lo" using assms(1) by (simp add: sorted_nth_mono)
  then have "of_int (xs ! ?hi - xs ! ?lo) * (p - of_nat ?lo) \<le>
      of_int (xs ! ?hi - xs ! ?lo) * (p' - of_nat ?lo)"
    using assms(3) by (intro mult_left_mono) simp_all
  with eq show ?thesis by (simp add: interpolate_def Let_def)
qed

lemma quantile_mono:
  assumes "sorted xs" "xs \<noteq> []" "0 \<le> q" "q \<le> q'" "q' \<le> 1"
  shows "quantile xs q \<le> quantile xs q'"
  unfolding quantile_def
proof (rule round_away_mono, rule interpolate_mono)
  show "q * of_nat (length xs - 1) \<le> q' * of_nat (length xs - 1)"
    using assms(4) by (intro mult_right_mono) simp_all
  show "q' * of_nat (length xs - 1) \<le> of_nat (length xs - 1)"
    using assms(5) mult_right_mono [of q' 1 "of_nat (length xs - 1)"] by simp
qed (use assms in simp_all)

lemma quantile_bounds:
  assumes "sorted xs" "xs \<noteq> []" "0 \<le> q" "q \<le> 1"
  shows "hd xs \<le> quantile xs q \<and> quantile xs q \<le> last xs"
proof -
  have "quantile xs 0 = hd xs" "quantile xs 1 = last xs"
    using assms(2) by (simp_all add: quantile_def interpolate_def hd_conv_nth last_conv_nth)
  then show ?thesis
    using quantile_mono [OF assms(1,2), of 0 q] quantile_mono [OF assms(1,2), of q 1] assms(3,4) by simp
qed

section \<open>Thresholds\<close>

definition fences_ok :: "fences \<Rightarrow> bool" where
  "fences_ok f \<longleftrightarrow> MIN_WATCH_SECS \<le> watch_at f \<and> MIN_HELP_SECS \<le> help_at f \<and> watch_at f \<le> help_at f"

lemma fences_fixed_ok: "fences_ok fences_fixed"
  by (simp add: fences_ok_def fences_fixed_def WATCH_SECS_def HELP_SECS_def MIN_WATCH_SECS_def
      MIN_HELP_SECS_def)

lemma for_cohort_ok: "fences_ok (for_cohort ts)"
proof (cases "length ts < MIN_COHORT")
  case True
  then show ?thesis by (simp add: for_cohort_def fences_fixed_ok)
next
  case False
  define q1 med q3 where "q1 = quantile (sort ts) (1 / 4)" "med = quantile (sort ts) (1 / 2)"
    "q3 = quantile (sort ts) (3 / 4)"
  have "sort ts \<noteq> []"
  proof
    assume "sort ts = []"
    then have "length ts = 0" by (metis length_sort list.size(3))
    with False show False by (simp add: MIN_COHORT_def)
  qed
  then have iqr: "0 \<le> q3 - q1"
    using quantile_mono [of "sort ts" "1 / 4" "3 / 4"] by (simp add: q1_med_q3_def)
  have m: "tdiv (med * 3) 2 \<le> max (med * 2) 0"
  proof (cases "0 \<le> med")
    case True
    then have "tdiv (med * 3) 2 = med * 3 div 2" by simp
    then show ?thesis using True by linarith
  next
    case False
    then show ?thesis using tdiv_neg [of "med * 3" 2] by simp
  qed
  have "tdiv ((q3 - q1) * 3) 2 = (q3 - q1) * 3 div 2" using iqr by simp
  moreover have "r * 3 div 2 \<le> r * 3" if "0 \<le> r" for r :: int using that by presburger
  ultimately have "q3 + tdiv ((q3 - q1) * 3) 2 \<le> q3 + (q3 - q1) * 3" using iqr by simp
  moreover have "A \<le> B \<Longrightarrow> C \<le> max D 0 \<Longrightarrow> max (max A C) 300 \<le> max (max B D) 600"
    for A B C D :: int by linarith
  ultimately have "max (max (q3 + tdiv ((q3 - q1) * 3) 2) (tdiv (med * 3) 2)) MIN_WATCH_SECS \<le>
      max (max (q3 + (q3 - q1) * 3) (med * 2)) MIN_HELP_SECS"
    using m by (simp only: MIN_WATCH_SECS_def MIN_HELP_SECS_def)
  then show ?thesis
    unfolding for_cohort_def fences_ok_def Let_def q1_med_q3_def [symmetric] using False by simp
qed

lemma for_cohort_perm: "mset ts = mset ts' \<Longrightarrow> for_cohort ts = for_cohort ts'"
proof -
  assume eq: "mset ts = mset ts'"
  then have "sort ts = sort ts'" by (intro properties_for_sort) simp_all
  moreover have "length ts = length ts'" using eq by (rule mset_eq_length)
  ultimately show ?thesis by (simp add: for_cohort_def)
qed


section \<open>What a level means\<close>

text \<open>The three levels from the signals alone, for thresholds in order.\<close>

definition looks_stuck :: "edit_activity \<Rightarrow> bool" where
  "looks_stuck e \<longleftrightarrow> (case since_last e of Some s \<Rightarrow> s \<ge> STALL_SECS | None \<Rightarrow> False)"

definition is_typing :: "edit_activity \<Rightarrow> bool" where
  "is_typing e \<longleftrightarrow> recent e > 0 \<and> (case since_last e of Some s \<Rightarrow> s < STALL_SECS | None \<Rightarrow> False)"

lemma assess_level:
  assumes "fences_ok f"
  shows "fst (assess sig secs e f) =
    (if errors sig \<ge> 3 \<or> failed_runs sig \<ge> 2 \<or> (secs \<ge> help_at f \<and> \<not> is_typing e) \<or>
        (secs \<ge> watch_at f \<and> looks_stuck e \<and> (errors sig \<ge> 1 \<or> failed_runs sig \<ge> 1)) then Help
     else if errors sig \<ge> 1 \<or> failed_runs sig \<ge> 1 \<or> secs \<ge> watch_at f then Watch else Ok)"
  by (auto simp: assess_def Let_def looks_stuck_def is_typing_def)

lemma assess_reasons:
  assumes "fences_ok f"
  shows "fst (assess sig secs e f) = Ok \<longleftrightarrow> snd (assess sig secs e f) = []"
proof -
  have "snd (assess sig secs e f) = [] \<longleftrightarrow> errors sig \<le> 0 \<and> failed_runs sig \<le> 0 \<and> secs < watch_at f"
    by (auto simp: assess_def Let_def split: option.splits)
  moreover have "watch_at f \<le> help_at f" using assms by (simp add: fences_ok_def)
  ultimately show ?thesis by (auto simp: assess_level [OF assms])
qed

lemma rank_less: "struggle_rank a \<le> struggle_rank b \<longleftrightarrow> a = b \<or> a = Ok \<or> b = Help"
  by (cases a; cases b) auto

lemma assess_mono:
  assumes "fences_ok f" "errors s \<le> errors s'" "failed_runs s \<le> failed_runs s'" "secs \<le> secs'"
  shows "struggle_rank (fst (assess s secs e f)) \<le> struggle_rank (fst (assess s' secs' e f))"
  using assms(2-4) by (auto simp: assess_level [OF assms(1)] rank_less)

section \<open>Properties\<close>

text \<open>The thresholds of an exercise do not depend on the order in which the class is listed,
  and they are always in order and above their floors: nobody is flagged for time before five
  minutes, nor as needing help before ten.\<close>

theorem thresholds_are_ordered_and_fair:
  "fences_ok (for_cohort ts) \<and> for_cohort (rev ts) = for_cohort ts \<and>
   for_cohort (sort ts) = for_cohort ts"
  using for_cohort_ok for_cohort_perm [of "rev ts" ts] for_cohort_perm [of "sort ts" ts] by simp

text \<open>With the thresholds of any class, a student is given a reason exactly when the level
  is above ok; more errors, more failed runs or more time never lower the level; and a student
  who is visibly typing, with no errors or failed runs, is at most watched.\<close>

theorem assessment_is_explained_and_monotone:
  "(fst (assess sig secs e (for_cohort ts)) = Ok \<longleftrightarrow> snd (assess sig secs e (for_cohort ts)) = []) \<and>
   struggle_rank (fst (assess sig secs e (for_cohort ts))) \<le>
     struggle_rank (fst (assess \<lparr>errors = errors sig + int a, failed_runs = failed_runs sig + int b\<rparr>
       (secs + int c) e (for_cohort ts))) \<and>
   fst (assess signals_default secs \<lparr>recent = 1 + int n, since_last = Some (299 - int k)\<rparr> (for_cohort ts))
     \<noteq> Help"
  using assess_reasons [OF for_cohort_ok]
    assess_mono [OF for_cohort_ok, of sig "\<lparr>errors = errors sig + int a, failed_runs = failed_runs sig + int b\<rparr>"
      secs "secs + int c" e ts]
  by (simp add: assess_level [OF for_cohort_ok] signals_default_def is_typing_def STALL_SECS_def)

end
