(* ===== verification/Board.thy ===== *)
theory Board
  imports Fences
begin

text \<open>
  The live board: \<^verbatim>\<open>overview\<close> of \<^verbatim>\<open>crates/server/src/files.rs\<close>, from the rows it reads to the
  groups it answers with. The three reads of the database are the arguments. The lemmas show
  that every student with recent activity is on the board once, in the group of the exercise
  they are on, and that the time shown is the time report's.
\<close>

record session_row =
  s_student :: str
  s_id :: str
  s_status :: str
  s_errors :: int
  s_exit :: "int option"
  s_started :: int

record overview_student =
  os_student :: str
  os_file :: "str option"
  os_language :: "str option"
  os_exercise :: "str option"
  os_last_seen :: int
  os_active :: bool
  os_seconds :: int
  os_started :: "int option"
  os_terminal :: "(str \<times> str) option"
  os_source :: "str option"
  os_repo :: "str option"
  os_level :: level
  os_reasons :: "reason list"
  os_errors :: int
  os_failed :: int
  os_edits :: int
  os_last_edit :: "int option"

record group_stats =
  gs_total :: nat
  gs_active :: nat
  gs_need_help :: nat
  gs_median :: int
  gs_watch :: int
  gs_help :: int
  gs_cohort :: nat

record exercise_group =
  eg_exercise :: str
  eg_title :: str
  eg_students :: "overview_student list"
  eg_stats :: group_stats

record overview =
  ov_exercises :: "exercise_group list"
  ov_none :: "overview_student list"

section \<open>Terminals\<close>

text \<open>Sessions come newest first: the first one of a student is the terminal shown.\<close>

fun terminals_of :: "session_row list \<Rightarrow> (str, str \<times> str) hashmap \<Rightarrow> (str, str \<times> str) hashmap" where
  "terminals_of [] m = m"
| "terminals_of (s # ss) m = terminals_of ss (upsert (s_student s) (s_id s, s_status s) id m)"

definition add_session :: "session_row \<Rightarrow> signals \<Rightarrow> signals" where
  "add_session s sig =
     \<lparr>errors = add_i32 (errors sig) (s_errors s),
      failed_runs = (case s_exit s of
         Some c \<Rightarrow> if c \<noteq> 0 then add_i32 (failed_runs sig) 1 else failed_runs sig
       | None \<Rightarrow> failed_runs sig)\<rparr>"

fun signals_of :: "session_row list \<Rightarrow> (str, signals) hashmap \<Rightarrow> (str, signals) hashmap" where
  "signals_of [] m = m"
| "signals_of (s # ss) m = signals_of ss (upsert (s_student s) signals_default (add_session s) m)"

section \<open>The class on each exercise\<close>

fun bucket :: "file_event list \<Rightarrow> (str, file_event list) hashmap \<Rightarrow> (str, file_event list) hashmap" where
  "bucket [] m = m"
| "bucket (e # es) m = bucket es (upsert (ev_student e) [] (\<lambda>l. l @ [e]) m)"

fun exercise_times :: "(file_event \<times> file_event) list \<Rightarrow> (str, int) hashmap \<Rightarrow> (str, int) hashmap" where
  "exercise_times [] m = m"
| "exercise_times ((cur, nxt) # ws) m =
     (case ev_exercise cur of
        None \<Rightarrow> exercise_times ws m
      | Some ex \<Rightarrow>
          if closes cur then exercise_times ws m
          else exercise_times ws (upsert ex 0 (\<lambda>n. n + gap_of (cur, nxt)) m))"

fun push_times :: "(str \<times> int) list \<Rightarrow> (str, int list) hashmap \<Rightarrow> (str, int list) hashmap" where
  "push_times [] m = m"
| "push_times ((ex, secs) # ts) m =
     push_times ts (if secs > 0 then upsert ex [] (\<lambda>l. l @ [secs]) m else m)"

fun cohort_times ::
    "(str list \<Rightarrow> str list) \<Rightarrow> (str \<times> file_event list) list \<Rightarrow> (str, int list) hashmap \<Rightarrow>
       (str, int list) hashmap" where
  "cohort_times ord [] m = m"
| "cohort_times ord ((_, evs) # rest) m =
     cohort_times ord rest (push_times (iterate ord (exercise_times (windows2 evs) [])) m)"

definition fences_for :: "(str, int list) hashmap \<Rightarrow> str \<Rightarrow> fences" where
  "fences_for ct ex = (case map_of ct ex of None \<Rightarrow> fences_fixed | Some ts \<Rightarrow> for_cohort ts)"

section \<open>One student\<close>

fun first_touch :: "str option \<Rightarrow> file_event list \<Rightarrow> int option \<Rightarrow> int option" where
  "first_touch ex [] s = s"
| "first_touch ex (e # es) s =
     first_touch ex es (if ev_exercise e = ex
       then Some (case s of None \<Rightarrow> ev_at e | Some t \<Rightarrow> min t (ev_at e)) else s)"

fun time_on :: "str option \<Rightarrow> (file_event \<times> file_event) list \<Rightarrow> int \<Rightarrow> int" where
  "time_on ex [] n = n"
| "time_on ex ((cur, nxt) # ws) n =
     (if closes cur \<or> ev_exercise cur \<noteq> ex then time_on ex ws n
      else time_on ex ws (n + gap_of (cur, nxt)))"

fun edit_loop :: "int \<Rightarrow> str option \<Rightarrow> file_event list \<Rightarrow> int \<Rightarrow> int option \<Rightarrow> int \<times> int option" where
  "edit_loop now ex [] n lst = (n, lst)"
| "edit_loop now ex (e # es) n lst =
     (if ev_kind e \<noteq> lit ''edit'' \<or> ev_exercise e \<noteq> ex then edit_loop now ex es n lst
      else (let t = ev_secs e in
        edit_loop now ex es
          (if now - t \<le> EDIT_WINDOW_SECS then add_i32 n (unwrap_or (ev_edits e) 0) else n)
          (Some (case lst of None \<Rightarrow> t | Some p \<Rightarrow> max p t))))"

definition student_view ::
    "int \<Rightarrow> (str, str \<times> str) hashmap \<Rightarrow> (str, signals) hashmap \<Rightarrow> (str \<Rightarrow> fences) \<Rightarrow> str \<Rightarrow>
       file_event list \<Rightarrow> overview_student option" where
  "student_view now terms sigs fs student evs =
     (if evs = [] then None
      else (let lst = last evs;
                ex = ev_exercise lst;
                secs = time_on ex (windows2 evs) 0;
                is_active = (now - ev_secs lst \<le> ACTIVE_WINDOW_SECS);
                (n, last_edit) = edit_loop now ex evs 0 None;
                edits = \<lparr>recent = n, since_last = (case (is_active, last_edit) of
                   (True, Some t) \<Rightarrow> Some (now - t) | _ \<Rightarrow> None)\<rparr>;
                sig = unwrap_or (map_of sigs student) signals_default;
                (lvl, reasons) = assess sig secs edits
                  (case ex of None \<Rightarrow> fences_fixed | Some x \<Rightarrow> fs x)
            in Some \<lparr>os_student = student,
                 os_file = or_else (ev_relative lst) (Some (ev_path lst)),
                 os_language = ev_language lst, os_exercise = ex, os_last_seen = ev_at lst,
                 os_active = is_active, os_seconds = secs, os_started = first_touch ex evs None,
                 os_terminal = map_of terms student, os_source = ev_source lst, os_repo = ev_repo lst,
                 os_level = lvl, os_reasons = reasons, os_errors = errors sig,
                 os_failed = failed_runs sig, os_edits = recent edits,
                 os_last_edit = map_option (\<lambda>t. t * 1000) last_edit\<rparr>))"

section \<open>Groups\<close>

definition group_stats_of :: "overview_student list \<Rightarrow> fences \<Rightarrow> group_stats" where
  "group_stats_of students f =
     (let secs = sort (map os_seconds students) in
      \<lparr>gs_total = length students,
       gs_active = length (filter os_active students),
       gs_need_help = length (filter (\<lambda>s. os_level s = Help) students),
       gs_median = (if secs = [] then 0 else secs ! (length secs div 2)),
       gs_watch = watch_at f, gs_help = help_at f, gs_cohort = cohort f\<rparr>)"

definition into_group :: "str \<Rightarrow> str \<Rightarrow> overview_student list \<Rightarrow> fences \<Rightarrow> exercise_group" where
  "into_group ex title students f =
     (let ss = sort_key (\<lambda>s. (- int (struggle_rank (os_level s)), - os_seconds s)) students in
      \<lparr>eg_exercise = ex, eg_title = title, eg_students = ss, eg_stats = group_stats_of ss f\<rparr>)"

fun split_groups ::
    "overview_student list \<Rightarrow> (str, overview_student list) hashmap \<Rightarrow> overview_student list \<Rightarrow>
       (str, overview_student list) hashmap \<times> overview_student list" where
  "split_groups [] g none = (g, none)"
| "split_groups (s # ss) g none =
     (case os_exercise s of
        Some ex \<Rightarrow> split_groups ss (upsert ex [] (\<lambda>l. l @ [s]) g) none
      | None \<Rightarrow> split_groups ss g (none @ [s]))"

text \<open>Defined exercises are emitted in order, each taking its group out of the map.\<close>

fun emit_defined ::
    "(str \<Rightarrow> fences) \<Rightarrow> (str \<times> str) list \<Rightarrow> (str, overview_student list) hashmap \<Rightarrow> exercise_group list \<Rightarrow>
       (str, overview_student list) hashmap \<times> exercise_group list" where
  "emit_defined fs [] g out = (g, out)"
| "emit_defined fs ((slug, title) # ds) g out =
     emit_defined fs ds (AList.delete slug g)
       (out @ [into_group slug title (unwrap_or (map_of g slug) []) (fs slug)])"

definition overview_of ::
    "(str list \<Rightarrow> str list) \<Rightarrow> int \<Rightarrow> file_event list \<Rightarrow> session_row list \<Rightarrow> (str \<times> str) list \<Rightarrow> overview"
  where
  "overview_of ord now events recent_sessions defined =
     (let terms = terminals_of recent_sessions [];
          sigs = signals_of recent_sessions [];
          per_student = bucket events [];
          fs = fences_for (cohort_times ord (iterate ord per_student) []);
          students = List.map_filter (\<lambda>(st, evs). student_view now terms sigs fs st evs)
            (iterate ord per_student);
          (g, none) = split_groups students [] [];
          (g, out) = emit_defined fs defined g [];
          leftover = sort_key fst (iterate ord g)
      in \<lparr>ov_exercises = out @ map (\<lambda>(slug, ss). into_group slug slug ss (fs slug)) leftover,
          ov_none = sort_key (\<lambda>s. - os_last_seen s) none\<rparr>)"

text \<open>The handler: the recent window of both tables, in the order it asks for.\<close>

definition overview_handler ::
    "(str list \<Rightarrow> str list) \<Rightarrow> int \<Rightarrow> file_event list \<Rightarrow> session_row list \<Rightarrow> (str \<times> str) list \<Rightarrow> overview"
  where
  "overview_handler ord now_ms rows sess defined =
     overview_of ord (now_ms div 1000)
       (by_time (filter (\<lambda>r. ev_at r > recent_cutoff now_ms) rows))
       (rev (sort_key s_started (filter (\<lambda>s. s_started s > recent_cutoff now_ms) sess))) defined"

section \<open>Buckets\<close>

lemma bucket_wf: "wf_map m \<Longrightarrow> wf_map (bucket es m)"
  by (induction es m rule: bucket.induct) simp_all

lemma bucket_map_of:
  "map_of (bucket es m) k =
     (let mine = filter (\<lambda>e. ev_student e = k) es in
      case map_of m k of
        None \<Rightarrow> if mine = [] then None else Some mine
      | Some l \<Rightarrow> Some (l @ mine))"
  by (induction es m rule: bucket.induct) (auto simp: map_of_upsert Let_def split: option.splits)

lemma bucket_of: "map_of (bucket es []) k =
    (if k \<in> ev_student ` set es then Some (filter (\<lambda>e. ev_student e = k) es) else None)"
  by (auto simp: bucket_map_of Let_def filter_empty_conv)

lemma bucket_keys: "set (map fst (bucket es [])) = ev_student ` set es"
proof -
  have "set (map fst (bucket es [])) = dom (map_of (bucket es []))"
    by (simp add: dom_map_of_conv_image_fst)
  also have "\<dots> = ev_student ` set es"
    by (auto simp: dom_def bucket_of split: if_splits)
  finally show ?thesis .
qed

lemma time_on_credits: "time_on ex ws n = n + credits (\<lambda>e. ev_exercise e = ex) ws"
  by (induction ex ws n rule: time_on.induct) auto

section \<open>Everyone once\<close>

definition names :: "overview_student list \<Rightarrow> str multiset" where
  "names ss = mset (map os_student ss)"

definition held :: "(str, overview_student list) hashmap \<Rightarrow> overview_student multiset" where
  "held g = mset (concat (map snd g))"

lemma held_upsert:
  "held (upsert ex [] (\<lambda>l. l @ [s]) g) = held g + {#s#}"
proof -
  have "held (AList.update k v g) + (case map_of g k of None \<Rightarrow> {#} | Some u \<Rightarrow> mset u) =
      held g + mset v" for k v
    by (induction g) (auto simp: held_def split: option.splits)
  from this [of ex "(case map_of g ex of None \<Rightarrow> [] | Some v \<Rightarrow> v) @ [s]"]
  show ?thesis by (simp add: upsert_def split: option.splits)
qed

lemma held_delete:
  "wf_map g \<Longrightarrow> held g = mset (unwrap_or (map_of g k) []) + held (AList.delete k g)"
proof (induction g)
  case (Cons kv g)
  show ?case
  proof (cases "fst kv = k")
    case True
    then have "AList.delete k g = g"
      using Cons.prems by (intro delete_id) (auto simp: wf_map_def)
    with True show ?thesis by (simp add: held_def)
  next
    case False
    with Cons show ?thesis by (cases kv) (simp add: held_def wf_map_def)
  qed
qed (simp add: held_def)

lemma split_groups_ok:
  "wf_map g \<Longrightarrow> split_groups ss g none = (g', none') \<Longrightarrow>
     (\<forall>k l. map_of g k = Some l \<longrightarrow> (\<forall>s \<in> set l. os_exercise s = Some k)) \<Longrightarrow>
     (\<forall>s \<in> set none. os_exercise s = None) \<Longrightarrow>
     wf_map g' \<and> held g' + mset none' = held g + mset none + mset ss \<and>
     (\<forall>k l. map_of g' k = Some l \<longrightarrow> (\<forall>s \<in> set l. os_exercise s = Some k)) \<and>
     (\<forall>s \<in> set none'. os_exercise s = None)"
proof (induction ss g none rule: split_groups.induct)
  case (2 s ss g none)
  show ?case
  proof (cases "os_exercise s")
    case None
    with 2 show ?thesis by simp
  next
    case (Some ex)
    have "\<forall>k l. map_of (upsert ex [] (\<lambda>l. l @ [s]) g) k = Some l \<longrightarrow> (\<forall>s \<in> set l. os_exercise s = Some k)"
      using 2(5) Some by (cases "map_of g ex") (auto simp: map_of_upsert split: if_splits)
    with 2 Some show ?thesis by (simp add: held_upsert)
  qed
qed simp

definition group_members :: "exercise_group list \<Rightarrow> overview_student multiset" where
  "group_members gs = mset (concat (map eg_students gs))"

definition right_group :: "exercise_group \<Rightarrow> bool" where
  "right_group g \<longleftrightarrow> (\<forall>s \<in> set (eg_students g). os_exercise s = Some (eg_exercise g))"

lemma into_group_members:
  "mset (eg_students (into_group ex t ss f)) = mset ss"
  "eg_exercise (into_group ex t ss f) = ex"
  "set (eg_students (into_group ex t ss f)) = set ss"
  by (simp_all add: into_group_def Let_def)

lemma emit_defined_ok:
  "wf_map g \<Longrightarrow> emit_defined fs ds g out = (g', out') \<Longrightarrow>
     (\<forall>k l. map_of g k = Some l \<longrightarrow> (\<forall>s \<in> set l. os_exercise s = Some k)) \<Longrightarrow>
     (\<forall>x \<in> set out. right_group x) \<Longrightarrow>
     wf_map g' \<and> held g' + group_members out' = held g + group_members out \<and>
     (\<forall>k l. map_of g' k = Some l \<longrightarrow> (\<forall>s \<in> set l. os_exercise s = Some k)) \<and>
     (\<forall>x \<in> set out'. right_group x) \<and>
     map eg_exercise out' = map eg_exercise out @ map fst ds"
proof (induction fs ds g out rule: emit_defined.induct)
  case (2 fs slug title ds g out)
  let ?x = "into_group slug title (unwrap_or (map_of g slug) []) (fs slug)"
  have "right_group ?x"
    using 2(4) by (cases "map_of g slug") (auto simp: right_group_def into_group_members)
  moreover have "\<forall>k l. map_of (AList.delete slug g) k = Some l \<longrightarrow> (\<forall>s \<in> set l. os_exercise s = Some k)"
    using 2(4) by auto
  ultimately show ?case
    using 2 held_delete [OF 2(2), of slug]
    by (simp add: group_members_def into_group_members)
qed simp


lemma student_view_fields:
  assumes "student_view now terms sigs fs st evs = Some s"
  shows "os_student s = st" "os_exercise s = ev_exercise (last evs)"
    "os_last_seen s = ev_at (last evs)"
    "os_active s \<longleftrightarrow> now - ev_secs (last evs) \<le> ACTIVE_WINDOW_SECS"
    "os_seconds s = credit (\<lambda>e. ev_exercise e = os_exercise s) evs"
    "os_terminal s = map_of terms st"
  using assms
  by (auto simp: student_view_def Let_def time_on_credits credit_credits split: if_splits prod.splits)

lemma all_views:
  assumes "order_law ord"
  shows "mset (map os_student (List.map_filter (\<lambda>(st, evs). student_view now terms sigs fs st evs)
            (iterate ord (bucket events [])))) = mset_set (ev_student ` set events)" (is ?A)
    and "s \<in> set (List.map_filter (\<lambda>(st, evs). student_view now terms sigs fs st evs)
            (iterate ord (bucket events []))) \<Longrightarrow>
          student_view now terms sigs fs (os_student s)
            (filter (\<lambda>e. ev_student e = os_student s) events) = Some s"
proof -
  let ?b = "bucket events []"
  have wf: "wf_map ?b" by (rule bucket_wf) simp
  have mem: "(st, evs) \<in> set (iterate ord ?b) \<longleftrightarrow>
      st \<in> ev_student ` set events \<and> evs = filter (\<lambda>e. ev_student e = st) events" for st evs
    by (auto simp: mem_iterate [OF assms wf] bucket_of)
  have full: "\<exists>s. student_view now terms sigs fs (fst kv) (snd kv) = Some s \<and> os_student s = fst kv"
    if "kv \<in> set (iterate ord ?b)" for kv
  proof -
    obtain st evs where kv: "kv = (st, evs)" by (cases kv)
    with that mem have "evs \<noteq> []" by (auto simp: filter_empty_conv)
    then have "student_view now terms sigs fs st evs \<noteq> None"
      by (simp add: student_view_def Let_def split: prod.splits)
    then obtain s where "student_view now terms sigs fs st evs = Some s" by blast
    with kv show ?thesis using student_view_fields(1) by auto
  qed
  have "map os_student (List.map_filter (\<lambda>(st, evs). student_view now terms sigs fs st evs) kvs) =
      map fst kvs"
    if "\<forall>kv \<in> set kvs. \<exists>s. student_view now terms sigs fs (fst kv) (snd kv) = Some s \<and> os_student s = fst kv"
    for kvs
    using that by (induction kvs) (auto simp: List.map_filter_def split: prod.splits)
  then have "map os_student (List.map_filter (\<lambda>(st, evs). student_view now terms sigs fs st evs)
      (iterate ord ?b)) = map fst (iterate ord ?b)"
    using full by blast
  moreover have "mset (map fst (iterate ord ?b)) = mset_set (ev_student ` set events)"
  proof -
    have "set (map fst (iterate ord ?b)) = ev_student ` set events"
    proof -
      have "set (map fst kvs) = K" if "\<And>k v. (k, v) \<in> set kvs \<longleftrightarrow> k \<in> K \<and> v = f k"
        for kvs :: "(str \<times> file_event list) list" and K f
      proof (rule set_eqI)
        fix k
        have "k \<in> set (map fst kvs) \<longleftrightarrow> (\<exists>v. (k, v) \<in> set kvs)" by force
        then show "k \<in> set (map fst kvs) \<longleftrightarrow> k \<in> K" using that by simp
      qed
      from this [of "iterate ord ?b" _ "\<lambda>st. filter (\<lambda>e. ev_student e = st) events", OF mem]
      show ?thesis .
    qed
    then show ?thesis using mset_set_set [OF iterate_keys [OF assms wf]] by simp
  qed
  ultimately show ?A by simp
  assume "s \<in> set (List.map_filter (\<lambda>(st, evs). student_view now terms sigs fs st evs) (iterate ord ?b))"
  then obtain st evs where "(st, evs) \<in> set (iterate ord ?b)"
    "student_view now terms sigs fs st evs = Some s"
    by (auto simp: List.map_filter_def)
  then show "student_view now terms sigs fs (os_student s)
      (filter (\<lambda>e. ev_student e = os_student s) events) = Some s"
    using mem student_view_fields(1) by metis
qed


lemma leftover_groups:
  assumes "order_law ord" "wf_map g"
    "\<forall>k l. map_of g k = Some l \<longrightarrow> (\<forall>s \<in> set l. os_exercise s = Some k)"
  shows "group_members (map (\<lambda>(slug, ss). into_group slug slug ss (fs slug)) (sort_key fst (iterate ord g))) =
      held g"
    "\<forall>x \<in> set (map (\<lambda>(slug, ss). into_group slug slug ss (fs slug)) (sort_key fst (iterate ord g))).
      right_group x"
proof -
  have "group_members (map (\<lambda>(slug, ss). into_group slug slug ss (fs slug)) kvs) =
      mset (concat (map snd kvs))" for kvs
    by (induction kvs) (auto simp: group_members_def into_group_members)
  moreover have "mset (concat (map snd (sort_key fst (iterate ord g)))) = mset (concat (map snd g))"
  proof -
    have "mset (map snd (sort_key fst (iterate ord g))) = mset (map snd g)"
      by (simp add: mset_iterate [OF assms(1,2)])
    then have "mset (map mset (map snd (sort_key fst (iterate ord g)))) = mset (map mset (map snd g))"
      by (metis mset_map)
    then show ?thesis
      by (simp only: mset_concat) (metis sum_mset_sum_list)
  qed
  ultimately show "group_members (map (\<lambda>(slug, ss). into_group slug slug ss (fs slug))
      (sort_key fst (iterate ord g))) = held g"
    by (simp add: held_def)
  show "\<forall>x \<in> set (map (\<lambda>(slug, ss). into_group slug slug ss (fs slug)) (sort_key fst (iterate ord g))).
      right_group x"
    using assms(3) by (auto simp: right_group_def into_group_members mem_iterate [OF assms(1,2)])
qed

definition on_board :: "overview \<Rightarrow> overview_student multiset" where
  "on_board ov = group_members (ov_exercises ov) + mset (ov_none ov)"

lemma overview_spec:
  assumes "order_law ord"
  shows "let ov = overview_of ord now events sess defined in
    image_mset os_student (on_board ov) = mset_set (ev_student ` set events) \<and>
    (\<forall>g \<in> set (ov_exercises ov). right_group g) \<and>
    (\<forall>s \<in> set (ov_none ov). os_exercise s = None) \<and>
    take (length defined) (map eg_exercise (ov_exercises ov)) = map fst defined \<and>
    (\<forall>s \<in># on_board ov.
       let mine = filter (\<lambda>e. ev_student e = os_student s) events in
       os_exercise s = ev_exercise (last mine) \<and> os_last_seen s = ev_at (last mine) \<and>
       os_active s = (now - ev_secs (last mine) \<le> ACTIVE_WINDOW_SECS) \<and>
       os_seconds s = credit (\<lambda>e. ev_exercise e = os_exercise s) mine)"
proof -
  define ov where "ov = overview_of ord now events sess defined"
  define fs where "fs = fences_for (cohort_times ord (iterate ord (bucket events [])) [])"
  define sv where "sv = student_view now (terminals_of sess []) (signals_of sess []) fs"
  define students where "students = List.map_filter (\<lambda>(st, evs). sv st evs) (iterate ord (bucket events []))"
  obtain g none where g: "split_groups students [] [] = (g, none)" by (cases "split_groups students [] []")
  obtain g' out where g': "emit_defined fs defined g [] = (g', out)" by (cases "emit_defined fs defined g []")
  define rest where "rest = map (\<lambda>(slug, ss). into_group slug slug ss (fs slug)) (sort_key fst (iterate ord g'))"
  have ov: "ov = \<lparr>ov_exercises = out @ rest, ov_none = sort_key (\<lambda>s. - os_last_seen s) none\<rparr>"
    using g g' by (simp add: ov_def overview_of_def Let_def fs_def sv_def students_def rest_def)
  have G: "wf_map g" "held g + mset none = mset students"
      "\<forall>k l. map_of g k = Some l \<longrightarrow> (\<forall>s \<in> set l. os_exercise s = Some k)"
      "\<forall>s \<in> set none. os_exercise s = None"
    using split_groups_ok [OF _ g] by (simp_all add: held_def)
  have G': "wf_map g'" "held g' + group_members out = held g"
      "\<forall>k l. map_of g' k = Some l \<longrightarrow> (\<forall>s \<in> set l. os_exercise s = Some k)"
      "\<forall>x \<in> set out. right_group x" "map eg_exercise out = map fst defined"
    using emit_defined_ok [OF G(1) g' G(3)] by (simp_all add: group_members_def)
  note R = leftover_groups [OF assms G'(1,3), of fs, folded rest_def]
  have board: "on_board ov = mset students"
    using R(1) G(2) G'(2) unfolding ov on_board_def group_members_def
    by simp (metis (no_types, lifting) add.commute add.left_commute)
  have 1: "image_mset os_student (on_board ov) = mset_set (ev_student ` set events)"
    using all_views(1) [OF assms, of now "terminals_of sess []" "signals_of sess []" fs events]
    by (simp add: board students_def sv_def flip: mset_map)
  have 2: "\<forall>g \<in> set (ov_exercises ov). right_group g" "\<forall>s \<in> set (ov_none ov). os_exercise s = None"
    using R(2) G(4) G'(4) by (auto simp: ov)
  have "length out = length defined" using arg_cong [OF G'(5), of length] by simp
  then have 3: "take (length defined) (map eg_exercise (ov_exercises ov)) = map fst defined"
    using G'(5) by (simp add: ov)
  have 4: "os_exercise s = ev_exercise (last mine) \<and> os_last_seen s = ev_at (last mine) \<and>
       os_active s = (now - ev_secs (last mine) \<le> ACTIVE_WINDOW_SECS) \<and>
       os_seconds s = credit (\<lambda>e. ev_exercise e = os_exercise s) mine"
    if "s \<in># on_board ov" "mine = filter (\<lambda>e. ev_student e = os_student s) events" for s mine
  proof -
    have "s \<in> set students" using that(1) by (simp add: board)
    then have "student_view now (terminals_of sess []) (signals_of sess []) fs (os_student s) mine = Some s"
      using all_views(2) [OF assms] that(2) unfolding students_def sv_def by blast
    then show ?thesis using student_view_fields [of now _ _ fs] by (intro conjI)
  qed
  show ?thesis
    unfolding ov_def [symmetric] Let_def using 1 2 3 4 by blast
qed

text \<open>C21: the live board is complete and tidy: every student with an event in the window is on it
  exactly once, a student whose latest file is of an exercise in that exercise's group and the
  others in the last list; the groups start with the course's exercises in their order, those
  without students included; what a card says about file, presence and time is what the
  student's own events say, the time being the capped gaps on the exercise they are on now.\<close>

theorem board_shows_everyone_once:
  assumes "order_law ord"
  shows "let ov = overview_of ord now events sess defined in
    image_mset os_student (on_board ov) = mset_set (ev_student ` set events) \<and>
    (\<forall>g \<in> set (ov_exercises ov). right_group g) \<and>
    (\<forall>s \<in> set (ov_none ov). os_exercise s = None) \<and>
    take (length defined) (map eg_exercise (ov_exercises ov)) = map fst defined \<and>
    (\<forall>s \<in># on_board ov.
       let mine = filter (\<lambda>e. ev_student e = os_student s) events in
       os_exercise s = ev_exercise (last mine) \<and> os_last_seen s = ev_at (last mine) \<and>
       os_active s = (now - ev_secs (last mine) \<le> ACTIVE_WINDOW_SECS) \<and>
       os_seconds s = credit (\<lambda>e. ev_exercise e = os_exercise s) mine)"
  using overview_spec [OF assms] .

theorem board_shows_everyone_once_witness:
  "order_law rev \<and> image_mset os_student (on_board (overview_of rev 700 demo_events [] [])) = {#lit ''ada''#}"
proof -
  have "ev_student ` set demo_events = {lit ''ada''}" by (simp add: demo_defs)
  then show ?thesis
    using board_shows_everyone_once [OF order_law_id(3), of 700 demo_events "[]" "[]"]
    unfolding Let_def by simp
qed



end
