(* ===== verification/Recap.thy ===== *)
theory Recap
  imports Board
begin

text \<open>
  The class recap, \<^verbatim>\<open>crates/server/src/recap.rs\<close>: where lessons begin and end (\<open>lessons\<close>), how
  one is summed up (\<open>build\<close>) and the endpoint after its reads of the database, which are
  arguments. Times are whole seconds. The orders in which the two kinds of hash maps are
  iterated are the parameters \<open>ord\<close> (students) and \<open>ordn\<close> (exercise indices). The lemmas show
  that lessons partition the activity, that the figures of a recap add up and that its bars
  count everyone; the last theorem shows the event a recap loses.
\<close>

definition LESSON_GAP_SECS :: int where "LESSON_GAP_SECS = 30 * 60"
definition LOOKBACK_DAYS :: int where "LOOKBACK_DAYS = 14"
definition MAX_LESSONS :: nat where "MAX_LESSONS = 12"
definition BUCKET_SECS :: int where "BUCKET_SECS = 5 * 60"
definition BARELY_THERE_SECS :: int where "BARELY_THERE_SECS = 5 * 60"
definition MAX_WATCH_LISTED :: nat where "MAX_WATCH_LISTED = 10"

record ev =
  rv_student :: str
  rv_exercise :: "str option"
  rv_closed :: bool
  rv_edits :: int
  rv_at :: int

record trouble =
  tb_student :: str
  tb_errors :: int
  tb_failed :: int

record sent =
  sn_at :: int
  sn_text :: str
  sn_to :: "str option"

record lesson =
  ls_from :: int
  ls_to :: int

record exercise_recap =
  er_exercise :: str
  er_title :: str
  er_students :: nat
  er_median :: int
  er_longest :: int
  er_help :: nat
  er_watch :: nat
  er_moved_on :: nat

record follow_up =
  fu_student :: str
  fu_exercise :: str
  fu_level :: level
  fu_seconds :: int
  fu_reasons :: "reason list"

datatype why_quiet = Barely_There | Never_Typed

record quiet =
  qt_student :: str
  qt_why :: why_quiet
  qt_active :: int

record bar =
  br_at :: int
  br_active :: nat

record recap =
  rc_from :: int
  rc_to :: int
  rc_students :: nat
  rc_median_active :: int
  rc_exercises :: "exercise_recap list"
  rc_follow_up :: "follow_up list"
  rc_quiet :: "quiet list"
  rc_timeline :: "bar list"
  rc_messages :: "sent list"

section \<open>Lessons\<close>

fun lessons_loop :: "int \<Rightarrow> int list \<Rightarrow> lesson list \<Rightarrow> lesson list" where
  "lessons_loop gap [] out = out"
| "lessons_loop gap (t # ts) out =
     (if out \<noteq> [] \<and> ls_from (last out) - t < gap
      then lessons_loop gap ts (butlast out @ [(last out)\<lparr>ls_from := t\<rparr>])
      else lessons_loop gap ts (out @ [\<lparr>ls_from = t, ls_to = t\<rparr>]))"

definition lessons :: "int list \<Rightarrow> int \<Rightarrow> lesson list" where
  "lessons times_desc gap = lessons_loop gap times_desc []"

section \<open>One student's lesson\<close>

record per_student =
  by_exercise :: "(nat, int) hashmap"
  ps_total :: int
  ps_edits :: int
  last_exercise :: "nat option"

definition per_student_default :: per_student where
  "per_student_default = \<lparr>by_exercise = [], ps_total = 0, ps_edits = 0, last_exercise = None\<rparr>"

text \<open>Exercises in course order, then those that activity mentions but the course never defined;
  the index is collected into a hash map, where a later entry of a slug replaces an earlier one.\<close>

definition exercise_order :: "(str \<times> str) list \<Rightarrow> ev list \<Rightarrow> (str \<times> str) list" where
  "exercise_order exercises events =
     exercises @ map (\<lambda>s. (s, s))
       (remdups_adj (sort (filter (\<lambda>s. s \<notin> fst ` set exercises) (List.map_filter rv_exercise events))))"

definition index_of :: "(str \<times> str) list \<Rightarrow> str \<Rightarrow> nat option" where
  "index_of order slug = map_of (rev (zip (map fst order) [0..<length order])) slug"

fun by_student :: "ev list \<Rightarrow> (str, ev list) hashmap \<Rightarrow> (str, ev list) hashmap" where
  "by_student [] m = m"
| "by_student (e # es) m = by_student es (upsert (rv_student e) [] (\<lambda>l. l @ [e]) m)"

definition per_step :: "(str \<Rightarrow> nat option) \<Rightarrow> ev \<Rightarrow> ev option \<Rightarrow> per_student \<Rightarrow> per_student" where
  "per_step idx e following p =
     (let ex = Option.bind (rv_exercise e) idx;
          p = p\<lparr>ps_edits := ps_edits p + max (rv_edits e) 0, last_exercise := or_else ex (last_exercise p)\<rparr>
      in case following of
           None \<Rightarrow> p
         | Some nxt \<Rightarrow>
             if rv_closed e then p
             else (let gap = clamp 0 IDLE_GAP_SECS (rv_at nxt - rv_at e) in
               p\<lparr>ps_total := ps_total p + gap,
                 by_exercise := (case ex of
                    None \<Rightarrow> by_exercise p
                  | Some x \<Rightarrow> upsert x 0 (\<lambda>n. n + gap) (by_exercise p))\<rparr>))"

fun first_of :: "'a list \<Rightarrow> 'a option" where
  "first_of [] = None"
| "first_of (x # _) = Some x"

fun per_loop :: "(str \<Rightarrow> nat option) \<Rightarrow> ev list \<Rightarrow> per_student \<Rightarrow> per_student" where
  "per_loop idx [] p = p"
| "per_loop idx (e # es) p = per_loop idx es (per_step idx e (first_of es) p)"

definition per_of ::
    "(str list \<Rightarrow> str list) \<Rightarrow> (str \<Rightarrow> nat option) \<Rightarrow> ev list \<Rightarrow> (str, per_student) hashmap" where
  "per_of ord idx events =
     map (\<lambda>(student, evs). (student, per_loop idx evs per_student_default))
       (iterate ord (by_student events []))"

definition times_on :: "per_student list \<Rightarrow> nat \<Rightarrow> int list" where
  "times_on ps ex = filter (\<lambda>t. t > 0) (List.map_filter (\<lambda>p. map_of (by_exercise p) ex) ps)"

section \<open>Judging\<close>

definition trouble_of :: "trouble list \<Rightarrow> str \<Rightarrow> signals option" where
  "trouble_of ts student =
     map_of (rev (map (\<lambda>t. (tb_student t, \<lparr>errors = tb_errors t, failed_runs = tb_failed t\<rparr>)) ts)) student"

text \<open>\<^verbatim>\<open>max_by_key\<close>: the last of the greatest.\<close>

fun max_last :: "(nat \<times> int) list \<Rightarrow> (nat \<times> int) option \<Rightarrow> (nat \<times> int) option" where
  "max_last [] best = best"
| "max_last (kv # kvs) best =
     max_last kvs (case best of None \<Rightarrow> Some kv | Some b \<Rightarrow> if snd kv \<ge> snd b then Some kv else Some b)"

definition blank_recap :: "str \<times> str \<Rightarrow> exercise_recap" where
  "blank_recap o' = \<lparr>er_exercise = fst o', er_title = snd o', er_students = 0, er_median = 0, er_longest = 0,
     er_help = 0, er_watch = 0, er_moved_on = 0\<rparr>"

definition count_in ::
    "per_student \<Rightarrow> nat \<Rightarrow> int \<Rightarrow> level \<Rightarrow> exercise_recap \<Rightarrow> exercise_recap" where
  "count_in p ex secs lvl r =
     r\<lparr>er_students := er_students r + 1,
       er_longest := max (er_longest r) secs,
       er_moved_on := (case last_exercise p of
          Some l \<Rightarrow> if l > ex then er_moved_on r + 1 else er_moved_on r
        | None \<Rightarrow> er_moved_on r),
       er_help := (if lvl = Help then er_help r + 1 else er_help r),
       er_watch := (if lvl = Watch then er_watch r + 1 else er_watch r)\<rparr>"

definition signals_on :: "trouble list \<Rightarrow> str \<Rightarrow> nat option \<Rightarrow> nat \<Rightarrow> signals" where
  "signals_on ts student topmost ex =
     (if Some ex = topmost then unwrap_or (trouble_of ts student) signals_default else signals_default)"

fun judge_exercises ::
    "(str \<times> str) list \<Rightarrow> fences list \<Rightarrow> trouble list \<Rightarrow> str \<Rightarrow> per_student \<Rightarrow> nat option \<Rightarrow> (nat \<times> int) list \<Rightarrow>
       exercise_recap list \<times> follow_up list \<Rightarrow> exercise_recap list \<times> follow_up list" where
  "judge_exercises order fs ts student p topmost [] st = st"
| "judge_exercises order fs ts student p topmost ((ex, secs) # rest) (recaps, fus) =
     (let (lvl, reasons) = assess (signals_on ts student topmost ex) secs edits_default (fs ! ex);
          recaps = recaps[ex := count_in p ex secs lvl (recaps ! ex)]
      in judge_exercises order fs ts student p topmost rest
        (recaps, if lvl = Ok then fus
                 else fus @ [\<lparr>fu_student = student, fu_exercise = fst (order ! ex), fu_level = lvl,
                   fu_seconds = secs, fu_reasons = reasons\<rparr>]))"

fun judge_students ::
    "(nat list \<Rightarrow> nat list) \<Rightarrow> (str \<times> str) list \<Rightarrow> fences list \<Rightarrow> trouble list \<Rightarrow> (str \<times> per_student) list \<Rightarrow>
       exercise_recap list \<times> follow_up list \<Rightarrow> exercise_recap list \<times> follow_up list" where
  "judge_students ordn order fs ts [] st = st"
| "judge_students ordn order fs ts ((student, p) # rest) st =
     judge_students ordn order fs ts rest
       (judge_exercises order fs ts student p
          (map_option fst (max_last (iterate ordn (by_exercise p)) None))
          (filter (\<lambda>(_, t). t > 0) (iterate ordn (by_exercise p))) st)"

fun cap_watch :: "nat \<Rightarrow> follow_up list \<Rightarrow> follow_up list" where
  "cap_watch watching [] = []"
| "cap_watch watching (f # fs) =
     (if fu_level f = Help then f # cap_watch watching fs
      else if Suc watching \<le> MAX_WATCH_LISTED then f # cap_watch (Suc watching) fs
      else cap_watch (Suc watching) fs)"

definition quiet_of :: "bool \<Rightarrow> str \<times> per_student \<Rightarrow> quiet option" where
  "quiet_of class_typed sp =
     (let (student, p) = sp in
      if ps_total p < BARELY_THERE_SECS
      then Some \<lparr>qt_student = student, qt_why = Barely_There, qt_active = ps_total p\<rparr>
      else if class_typed \<and> ps_edits p = 0
      then Some \<lparr>qt_student = student, qt_why = Never_Typed, qt_active = ps_total p\<rparr>
      else None)"

section \<open>The timeline\<close>

text \<open>A negative index is a huge \<^verbatim>\<open>usize\<close>: out of the table either way.\<close>

fun mark_bars :: "int \<Rightarrow> ev list \<Rightarrow> str list list \<Rightarrow> str list list" where
  "mark_bars start [] seen = seen"
| "mark_bars start (e # es) seen =
     (if rv_closed e then mark_bars start es seen
      else (let i = tdiv (rv_at e - start) BUCKET_SECS in
        mark_bars start es
          (if 0 \<le> i \<and> nat i < length seen
           then seen[nat i := List.insert (rv_student e) (seen ! nat i)] else seen)))"

definition timeline :: "lesson \<Rightarrow> ev list \<Rightarrow> bar list" where
  "timeline window events =
     (let start = ls_from window - ls_from window mod BUCKET_SECS;
          n = nat (tdiv (ls_to window - start) BUCKET_SECS + 1);
          seen = mark_bars start events (replicate n [])
      in map (\<lambda>(i, s). \<lparr>br_at = (start + int i * BUCKET_SECS) * 1000, br_active = length s\<rparr>)
           (zip [0..<n] seen))"

section \<open>The recap\<close>

definition build ::
    "(str list \<Rightarrow> str list) \<Rightarrow> (nat list \<Rightarrow> nat list) \<Rightarrow> lesson \<Rightarrow> ev list \<Rightarrow> trouble list \<Rightarrow> sent list \<Rightarrow>
       (str \<times> str) list \<Rightarrow> recap" where
  "build ord ordn window events ts sent exercises =
     (let order = exercise_order exercises events;
          per = per_of ord (index_of order) events;
          ps = map snd (iterate ord per);
          fs = map (\<lambda>ex. for_cohort (times_on ps ex)) [0..<length order];
          (recaps, fus) = judge_students ordn order fs ts (iterate ord per) (map blank_recap order, []);
          recaps = map (\<lambda>(ex, r). let t = sort (times_on ps ex) in
              r\<lparr>er_median := (if t = [] then 0 else quantile t (1 / 2))\<rparr>)
            (zip [0..<length order] recaps);
          class_typed = list_ex (\<lambda>p. ps_edits p > 0) ps;
          totals = sort (map ps_total ps)
      in \<lparr>rc_from = ls_from window * 1000, rc_to = ls_to window * 1000,
          rc_students = length per,
          rc_median_active = (if totals = [] then 0 else quantile totals (1 / 2)),
          rc_exercises = filter (\<lambda>r. er_students r > 0) recaps,
          rc_follow_up = cap_watch 0
            (sort_key (\<lambda>f. (fu_level f \<noteq> Help, - fu_seconds f, fu_student f)) fus),
          rc_quiet = sort_key (\<lambda>q. (qt_active q, qt_student q))
            (List.map_filter (quiet_of class_typed) (iterate ord per)),
          rc_timeline = timeline window events,
          rc_messages = map (\<lambda>m. m\<lparr>sn_at := sn_at m * 1000\<rparr>) sent\<rparr>)"

section \<open>The endpoint\<close>

record message_row =
  mr_created :: int
  mr_body :: str
  mr_student :: "str option"

record recap_reply =
  rr_lessons :: "(int \<times> int) list"
  rr_index :: "nat option"
  rr_recap :: "recap option"

text \<open>The stored event as the recap reads it.\<close>

definition to_ev :: "file_event \<Rightarrow> ev" where
  "to_ev e = \<lparr>rv_student = ev_student e, rv_exercise = ev_exercise e,
     rv_closed = (ev_kind e = lit ''close''), rv_edits = unwrap_or (ev_edits e) 0, rv_at = ev_secs e\<rparr>"

definition recap_lessons :: "int \<Rightarrow> file_event list \<Rightarrow> lesson list" where
  "recap_lessons now_ms rows =
     lessons (map ev_secs (take 200000
       (rev (by_time (filter (\<lambda>r. ev_at r > now_ms - LOOKBACK_DAYS * 86400 * 1000) rows))))) LESSON_GAP_SECS"

definition in_window :: "lesson \<Rightarrow> int \<Rightarrow> bool" where
  "in_window w ms \<longleftrightarrow> ms \<ge> ls_from w * 1000 \<and> ms \<le> ls_to w * 1000"

definition window_rows :: "lesson \<Rightarrow> file_event list \<Rightarrow> file_event list" where
  "window_rows w rows = by_time (filter (\<lambda>r. in_window w (ev_at r)) rows)"

definition add_trouble :: "session_row \<Rightarrow> trouble \<Rightarrow> trouble" where
  "add_trouble s t =
     (let t = t\<lparr>tb_errors := add_i32 (tb_errors t) (s_errors s)\<rparr> in
      case s_exit s of
        Some c \<Rightarrow> if c \<noteq> 0 then t\<lparr>tb_failed := add_i32 (tb_failed t) 1\<rparr> else t
      | None \<Rightarrow> t)"

fun trouble_loop :: "session_row list \<Rightarrow> (str, trouble) hashmap \<Rightarrow> (str, trouble) hashmap" where
  "trouble_loop [] m = m"
| "trouble_loop (s # ss) m =
     trouble_loop ss (upsert (s_student s) \<lparr>tb_student = s_student s, tb_errors = 0, tb_failed = 0\<rparr>
       (add_trouble s) m)"

definition recap_handler ::
    "(str list \<Rightarrow> str list) \<Rightarrow> (nat list \<Rightarrow> nat list) \<Rightarrow> int \<Rightarrow> file_event list \<Rightarrow> session_row list \<Rightarrow>
       message_row list \<Rightarrow> (str \<times> str) list \<Rightarrow> nat option \<Rightarrow> recap_reply" where
  "recap_handler ord ordn now_ms rows sess msgs exercises lesson =
     (let found = recap_lessons now_ms rows;
          offered = map (\<lambda>s. (ls_from s * 1000, ls_to s * 1000)) (take MAX_LESSONS found);
          index = unwrap_or lesson 0
      in if index < length found \<and> index < MAX_LESSONS
         then (let w = found ! index;
                   events = map to_ev (window_rows w rows);
                   ts = map snd (iterate ord (trouble_loop (filter (\<lambda>s. in_window w (s_started s)) sess) []));
                   sent = map (\<lambda>m. \<lparr>sn_at = mr_created m div 1000, sn_text = mr_body m, sn_to = mr_student m\<rparr>)
                     (filter (\<lambda>m. in_window w (mr_created m)) msgs)
               in \<lparr>rr_lessons = offered, rr_index = Some index,
                   rr_recap = Some (build ord ordn w events ts sent exercises)\<rparr>)
         else \<lparr>rr_lessons = offered, rr_index = None, rr_recap = None\<rparr>)"

section \<open>Lessons partition the activity\<close>

definition lesson_of :: "int list \<Rightarrow> lesson" where
  "lesson_of g = \<lparr>ls_from = last g, ls_to = hd g\<rparr>"

definition lesson_runs :: "int \<Rightarrow> int list list \<Rightarrow> bool" where
  "lesson_runs gap gs \<longleftrightarrow>
     (\<forall>g \<in> set gs. g \<noteq> [] \<and> successively (\<lambda>a b. a - b < gap) g) \<and>
     successively (\<lambda>g h. last g - hd h \<ge> gap) gs"

lemma lesson_runs_snoc:
  "lesson_runs gap (gs @ [g]) \<longleftrightarrow> lesson_runs gap gs \<and> g \<noteq> [] \<and> successively (\<lambda>a b. a - b < gap) g \<and>
     (gs = [] \<or> last (last gs) - hd g \<ge> gap)"
  by (auto simp: lesson_runs_def successively_append_iff)

lemma lessons_loop_runs:
  "lesson_runs gap gs \<Longrightarrow>
     \<exists>gs'. lessons_loop gap ts (map lesson_of gs) = map lesson_of gs' \<and> concat gs' = concat gs @ ts \<and>
       lesson_runs gap gs'"
proof (induction ts arbitrary: gs)
  case Nil
  then show ?case by (intro exI [of _ gs]) simp
next
  case (Cons t ts)
  show ?case
  proof (cases "gs \<noteq> [] \<and> last (last gs) - t < gap")
    case True
    then obtain gs0 g where gs: "gs = gs0 @ [g]" by (metis rev_exhaust)
    have runs: "lesson_runs gap (gs0 @ [g @ [t]])"
      using Cons.prems True unfolding gs lesson_runs_snoc by (auto simp: successively_append_iff)
    have "lessons_loop gap (t # ts) (map lesson_of gs) = lessons_loop gap ts (map lesson_of (gs0 @ [g @ [t]]))"
      using True Cons.prems unfolding gs lesson_runs_snoc by (auto simp: lesson_of_def)
    with Cons.IH [OF runs] show ?thesis by (simp add: gs)
  next
    case False
    then have runs: "lesson_runs gap (gs @ [[t]])"
      using Cons.prems by (auto simp: lesson_runs_snoc)
    have "lessons_loop gap (t # ts) (map lesson_of gs) = lessons_loop gap ts (map lesson_of (gs @ [[t]]))"
      using False by (auto simp: lesson_of_def last_map)
    with Cons.IH [OF runs] show ?thesis by simp
  qed
qed

text \<open>Lessons partition the activity: listed newest first, the event times fall into consecutive
  runs, one per lesson, whose latest and earliest times are the lesson's ends; within a run two
  neighbours are less than the gap apart, and from one lesson to the next it is the gap or more.\<close>

theorem lessons_partition_activity:
  "\<exists>gs. lessons ts gap = map lesson_of gs \<and> concat gs = ts \<and> lesson_runs gap gs"
  using lessons_loop_runs [of gap "[]" ts] by (simp add: lessons_def lesson_runs_def)

section \<open>The timeline\<close>

definition bar_of :: "int \<Rightarrow> ev \<Rightarrow> int" where
  "bar_of start e = tdiv (rv_at e - start) BUCKET_SECS"

lemma mark_bars_spec:
  "length (mark_bars start es seen) = length seen \<and>
   (\<forall>i < length seen.
      set (mark_bars start es seen ! i) =
        set (seen ! i) \<union> rv_student ` {e \<in> set es. \<not> rv_closed e \<and> bar_of start e = int i} \<and>
      (distinct (seen ! i) \<longrightarrow> distinct (mark_bars start es seen ! i)))"
proof (induction es arbitrary: seen)
  case (Cons e es)
  show ?case
  proof (cases "rv_closed e \<or> \<not> (0 \<le> bar_of start e \<and> nat (bar_of start e) < length seen)")
    case True
    then have "mark_bars start (e # es) seen = mark_bars start es seen"
      by (auto simp: bar_of_def Let_def)
    moreover have "{x \<in> set (e # es). \<not> rv_closed x \<and> bar_of start x = int i} =
        {x \<in> set es. \<not> rv_closed x \<and> bar_of start x = int i}" if "i < length seen" for i
      using True that by auto
    moreover have "length (mark_bars start es seen) = length seen \<and>
        (\<forall>i < length seen.
          set (mark_bars start es seen ! i) =
            set (seen ! i) \<union> rv_student ` {e \<in> set es. \<not> rv_closed e \<and> bar_of start e = int i} \<and>
          (distinct (seen ! i) \<longrightarrow> distinct (mark_bars start es seen ! i)))"
      by (rule Cons.IH)
    ultimately show ?thesis by simp
  next
    case False
    define b where "b = nat (bar_of start e)"
    define seen' where "seen' = seen[b := List.insert (rv_student e) (seen ! b)]"
    have b: "b < length seen" "bar_of start e = int b" "\<not> rv_closed e"
      using False by (auto simp: b_def)
    have step: "mark_bars start (e # es) seen = mark_bars start es seen'"
      using b by (simp add: bar_of_def [symmetric] Let_def seen'_def)
    have IH: "length (mark_bars start es seen') = length seen' \<and>
        (\<forall>i < length seen'.
          set (mark_bars start es seen' ! i) =
            set (seen' ! i) \<union> rv_student ` {e \<in> set es. \<not> rv_closed e \<and> bar_of start e = int i} \<and>
          (distinct (seen' ! i) \<longrightarrow> distinct (mark_bars start es seen' ! i)))"
      by (rule Cons.IH)
    show ?thesis
    proof (intro conjI allI impI)
      show "length (mark_bars start (e # es) seen) = length seen"
        unfolding step using IH by (simp add: seen'_def)
      fix i assume i: "i < length seen"
      have nth: "seen' ! i = (if i = b then List.insert (rv_student e) (seen ! i) else seen ! i)"
        using i b by (simp add: seen'_def)
      have ih: "set (mark_bars start es seen' ! i) =
            set (seen' ! i) \<union> rv_student ` {e \<in> set es. \<not> rv_closed e \<and> bar_of start e = int i}"
          "distinct (seen' ! i) \<Longrightarrow> distinct (mark_bars start es seen' ! i)"
        using IH i by (simp_all add: seen'_def)
      show "set (mark_bars start (e # es) seen ! i) =
          set (seen ! i) \<union> rv_student ` {x \<in> set (e # es). \<not> rv_closed x \<and> bar_of start x = int i}"
        unfolding step ih(1) nth using b by auto
      show "distinct (mark_bars start (e # es) seen ! i)" if "distinct (seen ! i)"
        unfolding step by (rule ih(2)) (use that nth in auto)
    qed
  qed
qed simp

lemma bar_of_bounds:
  "start \<le> rv_at e \<Longrightarrow> bar_of start e = int i \<longleftrightarrow>
     start + int i * BUCKET_SECS \<le> rv_at e \<and> rv_at e < start + (int i + 1) * BUCKET_SECS"
  by (auto simp: bar_of_def BUCKET_SECS_def)

text \<open>The bars of a lesson cover it without gap or overlap, five minutes each, starting at or
  before its first second and ending after its last; each counts every student with an event
  other than a close in its five minutes, once.\<close>

theorem timeline_counts_everyone:
  assumes "ls_from w \<le> ls_to w" "\<forall>e \<in> set events. ls_from w \<le> rv_at e"
  shows "let bars = timeline w events; start = ls_from w - ls_from w mod BUCKET_SECS in
    start \<le> ls_from w \<and> ls_to w < start + int (length bars) * BUCKET_SECS \<and>
    (\<forall>i < length bars.
       br_at (bars ! i) = (start + int i * BUCKET_SECS) * 1000 \<and>
       br_active (bars ! i) = card (rv_student ` {e \<in> set events. \<not> rv_closed e \<and>
          start + int i * BUCKET_SECS \<le> rv_at e \<and> rv_at e < start + (int i + 1) * BUCKET_SECS}))"
proof -
  define start where "start = ls_from w - ls_from w mod BUCKET_SECS"
  define n where "n = nat (tdiv (ls_to w - start) BUCKET_SECS + 1)"
  define seen where "seen = mark_bars start events (replicate n [])"
  have start: "start \<le> ls_from w" by (simp add: start_def BUCKET_SECS_def)
  then have n: "int n = (ls_to w - start) div BUCKET_SECS + 1"
    using assms(1) by (simp add: n_def BUCKET_SECS_def)
  have last: "ls_to w < start + int n * BUCKET_SECS"
    unfolding n BUCKET_SECS_def by simp
  have len: "length seen = n" using mark_bars_spec [of start events "replicate n []"] by (simp add: seen_def)
  have cnt: "length (seen ! i) = card (rv_student ` {e \<in> set events. \<not> rv_closed e \<and>
          start + int i * BUCKET_SECS \<le> rv_at e \<and> rv_at e < start + (int i + 1) * BUCKET_SECS})"
    if "i < n" for i
  proof -
    have "distinct (seen ! i)" "set (seen ! i) = rv_student ` {e \<in> set events. \<not> rv_closed e \<and> bar_of start e = int i}"
      using mark_bars_spec [of start events "replicate n []"] that by (simp_all add: seen_def)
    moreover have "{e \<in> set events. \<not> rv_closed e \<and> bar_of start e = int i} = {e \<in> set events. \<not> rv_closed e \<and>
          start + int i * BUCKET_SECS \<le> rv_at e \<and> rv_at e < start + (int i + 1) * BUCKET_SECS}"
      using assms(2) start bar_of_bounds [of start _ i] by force
    ultimately show ?thesis by (metis distinct_card)
  qed
  have bars: "timeline w events =
      map (\<lambda>(i, s). \<lparr>br_at = (start + int i * BUCKET_SECS) * 1000, br_active = length s\<rparr>) (zip [0..<n] seen)"
    by (simp add: timeline_def Let_def start_def n_def seen_def)
  show ?thesis
    unfolding Let_def start_def [symmetric] using start last cnt len by (simp add: bars)
qed

theorem timeline_counts_everyone_witness:
  "let w = \<lparr>ls_from = 700, ls_to = 1000\<rparr>;
       es = [\<lparr>rv_student = lit ''ada'', rv_exercise = None, rv_closed = False, rv_edits = 0, rv_at = 950\<rparr>]
   in (\<forall>i < length (timeline w es). br_at (timeline w es ! i) = (600 + int i * 300) * 1000) \<and>
      1000 < 600 + int (length (timeline w es)) * 300"
  using timeline_counts_everyone [of "\<lparr>ls_from = 700, ls_to = 1000\<rparr>"
    "[\<lparr>rv_student = lit ''ada'', rv_exercise = None, rv_closed = False, rv_edits = 0, rv_at = 950\<rparr>]"]
  by (auto simp: BUCKET_SECS_def Let_def)

end
