(* ===== verification/Recap_Totals.thy ===== *)
theory Recap_Totals
  imports Recap
begin

text \<open>
  The figures of a recap: the order of its exercises, the time credited to a student on each,
  and the tallies of the judging loops of \<^verbatim>\<open>recap.rs\<close>, which the last theorem sums up.
\<close>

section \<open>The exercises of a lesson\<close>

lemma distinct_remdups_adj_sorted: "sorted xs \<Longrightarrow> distinct (remdups_adj xs)"
  by (induction xs rule: remdups_adj.induct) auto

lemma exercise_order_distinct:
  assumes "distinct (map fst exercises)"
  shows "distinct (map fst (exercise_order exercises events))"
  using assms by (auto simp: exercise_order_def comp_def distinct_remdups_adj_sorted)

lemma exercise_order_complete:
  "e \<in> set events \<Longrightarrow> rv_exercise e = Some s \<Longrightarrow> s \<in> fst ` set (exercise_order exercises events)"
  by (force simp: exercise_order_def List.map_filter_def image_Un image_iff)

lemma index_of_Some:
  assumes "distinct (map fst order)"
  shows "index_of order s = Some i \<longleftrightarrow> i < length order \<and> fst (order ! i) = s"
proof -
  have "distinct (map fst (rev (zip (map fst order) [0..<length order])))"
    using assms by (simp add: rev_map [symmetric])
  then have "index_of order s = Some i \<longleftrightarrow> (s, i) \<in> set (zip (map fst order) [0..<length order])"
    by (simp add: index_of_def)
  also have "\<dots> \<longleftrightarrow> (\<exists>n < length order. fst (order ! n) = s \<and> n = i)"
    by (auto simp: set_zip intro: exI [of _ i])
  finally show ?thesis by auto
qed

lemma index_of_bind:
  assumes "distinct (map fst order)" "i < length order"
  shows "Option.bind x (index_of order) = Some i \<longleftrightarrow> x = Some (fst (order ! i))"
  by (cases x) (auto simp: index_of_Some [OF assms(1)] assms(2) nth_eq_iff_index_eq [OF assms(1), simplified])

section \<open>Time on an exercise\<close>

fun worked :: "(ev \<Rightarrow> bool) \<Rightarrow> ev list \<Rightarrow> int" where
  "worked q (e # f # es) =
     (if rv_closed e \<or> \<not> q e then 0 else clamp 0 IDLE_GAP_SECS (rv_at f - rv_at e)) + worked q (f # es)"
| "worked q _ = 0"

lemma worked_is_credit: "worked q (map to_ev rows) = credit (\<lambda>e. q (to_ev e)) rows"
proof -
  have "worked q (map to_ev rows) = credits (\<lambda>e. q (to_ev e)) (windows2 rows)"
    by (induction rows rule: windows2.induct) (auto simp: to_ev_def closes_def gap_of_def)
  then show ?thesis by (simp add: credit_credits)
qed

definition secs_on :: "per_student \<Rightarrow> nat \<Rightarrow> int" where
  "secs_on p x = (case map_of (by_exercise p) x of None \<Rightarrow> 0 | Some n \<Rightarrow> n)"

definition gap_after :: "(ev \<Rightarrow> bool) \<Rightarrow> ev \<Rightarrow> ev option \<Rightarrow> int" where
  "gap_after q e following =
     (case following of None \<Rightarrow> 0 | Some f \<Rightarrow>
        if rv_closed e \<or> \<not> q e then 0 else clamp 0 IDLE_GAP_SECS (rv_at f - rv_at e))"

lemma worked_Cons: "worked q (e # es) = gap_after q e (first_of es) + worked q es"
  by (cases es) (simp_all add: gap_after_def)

lemma per_step_spec:
  assumes "wf_map (by_exercise p)"
  shows "wf_map (by_exercise (per_step idx e nxt p))"
    "ps_total (per_step idx e nxt p) = ps_total p + gap_after (\<lambda>_. True) e nxt"
    "secs_on (per_step idx e nxt p) x =
       secs_on p x + gap_after (\<lambda>e. Option.bind (rv_exercise e) idx = Some x) e nxt"
    "fst ` set (by_exercise (per_step idx e nxt p)) \<subseteq> fst ` set (by_exercise p) \<union> {k. \<exists>s. idx s = Some k}"
proof -
  show "wf_map (by_exercise (per_step idx e nxt p))"
    using assms by (simp add: per_step_def Let_def split: option.splits)
  show "ps_total (per_step idx e nxt p) = ps_total p + gap_after (\<lambda>_. True) e nxt"
    by (simp add: per_step_def gap_after_def Let_def split: option.splits)
  show "secs_on (per_step idx e nxt p) x =
       secs_on p x + gap_after (\<lambda>e. Option.bind (rv_exercise e) idx = Some x) e nxt"
    by (cases "Option.bind (rv_exercise e) idx"; cases nxt)
      (auto simp: per_step_def gap_after_def Let_def secs_on_def map_of_upsert split: option.splits)
  show "fst ` set (by_exercise (per_step idx e nxt p)) \<subseteq> fst ` set (by_exercise p) \<union> {k. \<exists>s. idx s = Some k}"
    by (cases "rv_exercise e"; cases nxt)
      (auto simp: per_step_def Let_def upsert_def dom_update [simplified dom_map_of_conv_image_fst]
        split: option.splits if_splits)
qed

lemma subset_union_trans: "A \<subseteq> B \<union> K \<Longrightarrow> B \<subseteq> C \<union> K \<Longrightarrow> A \<subseteq> C \<union> K"
  by blast

lemma per_loop_spec:
  assumes "wf_map (by_exercise p)"
  shows "wf_map (by_exercise (per_loop idx es p)) \<and>
    ps_total (per_loop idx es p) = ps_total p + worked (\<lambda>_. True) es \<and>
    (\<forall>x. secs_on (per_loop idx es p) x = secs_on p x + worked (\<lambda>e. Option.bind (rv_exercise e) idx = Some x) es) \<and>
    fst ` set (by_exercise (per_loop idx es p)) \<subseteq> fst ` set (by_exercise p) \<union> {k. \<exists>s. idx s = Some k}"
  using assms
proof (induction es arbitrary: p)
  case (Cons e es)
  note S = per_step_spec [OF Cons.prems, of idx e "first_of es"]
  have "fst ` set (by_exercise (per_loop idx (e # es) p)) \<subseteq> fst ` set (by_exercise p) \<union> {k. \<exists>s. idx s = Some k}"
    unfolding per_loop.simps using Cons.IH [OF S(1)] S(4) by (elim conjE) (rule subset_union_trans)
  then show ?case
    using Cons.IH [OF S(1)] by (simp add: worked_Cons S(2,3))
qed simp

section \<open>The judging loops\<close>

definition listed :: "level \<Rightarrow> str \<Rightarrow> follow_up list \<Rightarrow> nat" where
  "listed lvl ex fus = length (filter (\<lambda>f. fu_level f = lvl \<and> fu_exercise f = ex) fus)"

lemma listed_simps [simp]:
  "listed lvl ex [] = 0"
  "listed lvl ex (fus @ gus) = listed lvl ex fus + listed lvl ex gus"
  "listed lvl ex (f # fus) = (if fu_level f = lvl \<and> fu_exercise f = ex then 1 else 0) + listed lvl ex fus"
  by (simp_all add: listed_def)

definition tallied :: "(str \<times> str) list \<Rightarrow> exercise_recap list \<Rightarrow> follow_up list \<Rightarrow> bool" where
  "tallied order rs fus \<longleftrightarrow> length rs = length order \<and>
     (\<forall>i < length order. er_exercise (rs ! i) = fst (order ! i) \<and>
        er_help (rs ! i) = listed Help (fst (order ! i)) fus \<and>
        er_watch (rs ! i) = listed Watch (fst (order ! i)) fus \<and>
        er_help (rs ! i) + er_watch (rs ! i) \<le> er_students (rs ! i)) \<and>
     sum_list (map er_watch rs) = length (filter (\<lambda>f. fu_level f = Watch) fus) \<and>
     (\<forall>f \<in> set fus. fu_level f \<noteq> Ok)"

lemma tallied_step:
  assumes dist: "distinct (map fst order)" and inv: "tallied order rs fus" and ex: "ex < length order"
    and f: "fu_exercise f = fst (order ! ex)" "fu_level f = lvl"
  shows "tallied order (rs[ex := count_in p ex secs lvl (rs ! ex)]) (if lvl = Ok then fus else fus @ [f])"
proof -
  have len: "length rs = length order" using inv by (simp add: tallied_def)
  have eq: "fst (order ! ex) = fst (order ! i) \<longleftrightarrow> i = ex" if "i < length order" for i
    using nth_eq_iff_index_eq [OF dist, of ex i] that ex by auto
  define r where "r = count_in p ex secs lvl (rs ! ex)"
  have r: "er_exercise r = er_exercise (rs ! ex)" "er_students r = er_students (rs ! ex) + 1"
    "er_help r = er_help (rs ! ex) + (if lvl = Help then 1 else 0)"
    "er_watch r = er_watch (rs ! ex) + (if lvl = Watch then 1 else 0)"
    by (simp_all add: r_def count_in_def)
  have "map er_watch (rs[ex := r]) = (map er_watch rs)[ex := er_watch r]"
    by (simp add: map_update)
  moreover have "er_watch (rs ! ex) \<le> sum_list (map er_watch rs)"
    using ex len by (intro member_le_sum_list) auto
  ultimately have sum: "sum_list (map er_watch (rs[ex := r])) =
      sum_list (map er_watch rs) + (if lvl = Watch then 1 else 0)"
    using ex len r(4) by (simp add: sum_list_update)
  have pt: "er_exercise (rs[ex := r] ! i) = fst (order ! i) \<and>
        er_help (rs[ex := r] ! i) = listed Help (fst (order ! i)) (if lvl = Ok then fus else fus @ [f]) \<and>
        er_watch (rs[ex := r] ! i) = listed Watch (fst (order ! i)) (if lvl = Ok then fus else fus @ [f]) \<and>
        er_help (rs[ex := r] ! i) + er_watch (rs[ex := r] ! i) \<le> er_students (rs[ex := r] ! i)"
    if i: "i < length order" for i
  proof -
    have old: "er_exercise (rs ! i) = fst (order ! i)"
        "er_help (rs ! i) = listed Help (fst (order ! i)) fus"
        "er_watch (rs ! i) = listed Watch (fst (order ! i)) fus"
        "er_help (rs ! i) + er_watch (rs ! i) \<le> er_students (rs ! i)"
      using inv i unfolding tallied_def by blast+
    show ?thesis
    proof (cases "i = ex")
      case True
      with old r f ex len show ?thesis by (cases lvl) simp_all
    next
      case False
      with old eq [OF i] f show ?thesis by simp
    qed
  qed
  define gus where "gus = (if lvl = Ok then fus else fus @ [f])"
  have "length (filter (\<lambda>f. fu_level f = Watch) gus) =
      length (filter (\<lambda>f. fu_level f = Watch) fus) + (if lvl = Watch then 1 else 0)"
    using f(2) by (auto simp: gus_def)
  moreover have "sum_list (map er_watch rs) = length (filter (\<lambda>f. fu_level f = Watch) fus)"
    using inv by (simp add: tallied_def)
  ultimately have "sum_list (map er_watch (rs[ex := r])) = length (filter (\<lambda>f. fu_level f = Watch) gus)"
    using sum by simp
  moreover have "length (rs[ex := r]) = length order" using len by simp
  moreover have "\<forall>g \<in> set gus. fu_level g \<noteq> Ok"
    using inv f(2) by (auto simp: tallied_def gus_def)
  ultimately show ?thesis
    using pt unfolding tallied_def r_def [symmetric] gus_def [symmetric] by blast
qed

definition credited :: "(str \<times> str) list \<Rightarrow> (str \<times> per_student) list \<Rightarrow> follow_up \<Rightarrow> bool" where
  "credited order kvs f \<longleftrightarrow> (\<exists>p ex. (fu_student f, p) \<in> set kvs \<and> ex < length order \<and>
     fu_exercise f = fst (order ! ex) \<and> map_of (by_exercise p) ex = Some (fu_seconds f) \<and> 0 < fu_seconds f)"

lemma judge_exercises_ok:
  assumes "distinct (map fst order)" "tallied order rs fus" "\<forall>(ex, t) \<in> set l. ex < length order"
    "\<forall>(ex, t) \<in> set l. map_of (by_exercise p) ex = Some t \<and> 0 < t" "(student, p) \<in> set kvs"
    "\<forall>f \<in> set fus. credited order kvs f"
    "judge_exercises order fs ts student p tp l (rs, fus) = (rs', fus')"
  shows "tallied order rs' fus' \<and> (\<forall>f \<in> set fus'. credited order kvs f) \<and>
    (\<forall>i < length order. er_students (rs' ! i) = er_students (rs ! i) + length (filter (\<lambda>(ex, _). ex = i) l))"
  using assms
proof (induction l arbitrary: rs fus)
  case (Cons kv l)
  obtain ex secs where kv: "kv = (ex, secs)" by (cases kv)
  obtain lvl reasons where a: "assess (signals_on ts student tp ex) secs edits_default (fs ! ex) = (lvl, reasons)"
    by (cases "assess (signals_on ts student tp ex) secs edits_default (fs ! ex)")
  define f where "f = \<lparr>fu_student = student, fu_exercise = fst (order ! ex), fu_level = lvl,
                   fu_seconds = secs, fu_reasons = reasons\<rparr>"
  define rs1 where "rs1 = rs[ex := count_in p ex secs lvl (rs ! ex)]"
  define fus1 where "fus1 = (if lvl = Ok then fus else fus @ [f])"
  have ex: "ex < length order" using Cons.prems(3) kv by auto
  have t: "tallied order rs1 fus1"
    unfolding rs1_def fus1_def by (rule tallied_step [OF Cons.prems(1,2) ex]) (simp_all add: f_def)
  have "credited order kvs f"
    using Cons.prems(4,5) kv ex by (auto simp: credited_def f_def)
  then have c: "\<forall>f \<in> set fus1. credited order kvs f"
    using Cons.prems(6) by (simp add: fus1_def)
  have step: "judge_exercises order fs ts student p tp l (rs1, fus1) = (rs', fus')"
    using Cons.prems(7) a by (cases "lvl = Ok") (simp_all add: kv rs1_def fus1_def f_def)
  have st: "er_students (rs1 ! i) = er_students (rs ! i) + (if ex = i then 1 else 0)" if "i < length order" for i
    using that ex Cons.prems(2) by (auto simp: rs1_def tallied_def nth_list_update count_in_def)
  show ?case
    using Cons.IH [OF Cons.prems(1) t _ _ Cons.prems(5) c step] Cons.prems(3,4) st kv by auto
qed auto

definition on_exercise :: "nat \<Rightarrow> (str \<times> per_student) list \<Rightarrow> nat" where
  "on_exercise i kvs = length (filter (\<lambda>(_, p). 0 < secs_on p i) kvs)"

lemma count_index:
  "distinct (map fst kvs) \<Longrightarrow> length (filter (\<lambda>(k, _). k = i) (filter (\<lambda>(_, t). t > 0) kvs)) =
     (case map_of kvs i of Some t \<Rightarrow> if t > 0 then 1 else 0 | None \<Rightarrow> 0)" for kvs :: "(nat \<times> int) list"
proof (induction kvs)
  case (Cons kv kvs)
  obtain k t where kv: "kv = (k, t)" by (cases kv)
  show ?case
  proof (cases "k = i")
    case True
    with Cons kv have "filter (\<lambda>(k, _). k = i) kvs = []" by (force simp: filter_empty_conv)
    then have "filter (\<lambda>(k, _). k = i) (filter (\<lambda>(_, t). t > 0) kvs) = []"
      by (auto simp: filter_empty_conv)
    with True kv show ?thesis by simp
  qed (use Cons kv in simp)
qed simp

lemma judge_students_ok:
  assumes "order_law ordn" "distinct (map fst order)"
    "\<forall>(s, p) \<in> set kvs. wf_map (by_exercise p) \<and> (\<forall>k \<in> fst ` set (by_exercise p). k < length order)"
    "set kvs \<subseteq> set all" "tallied order rs fus" "\<forall>f \<in> set fus. credited order all f"
    "judge_students ordn order fs ts kvs (rs, fus) = (rs', fus')"
  shows "tallied order rs' fus' \<and> (\<forall>f \<in> set fus'. credited order all f) \<and>
    (\<forall>i < length order. er_students (rs' ! i) = er_students (rs ! i) + on_exercise i kvs)"
  using assms
proof (induction kvs arbitrary: rs fus)
  case (Cons kv kvs)
  obtain student p where kv: "kv = (student, p)" by (cases kv)
  define l where "l = filter (\<lambda>(_, t). t > 0) (iterate ordn (by_exercise p))"
  define tp where "tp = map_option fst (max_last (iterate ordn (by_exercise p)) None)"
  obtain rs1 fus1 where j: "judge_exercises order fs ts student p tp l (rs, fus) = (rs1, fus1)"
    by (cases "judge_exercises order fs ts student p tp l (rs, fus)")
  have wf: "wf_map (by_exercise p)" and ks: "\<And>k. k \<in> fst ` set (by_exercise p) \<Longrightarrow> k < length order"
    using Cons.prems(3) kv by auto
  have mem: "(k, v) \<in> set (iterate ordn (by_exercise p)) \<longleftrightarrow> map_of (by_exercise p) k = Some v" for k v
    by (rule mem_iterate [OF Cons.prems(1) wf])
  have ks': "map_of (by_exercise p) k = Some v \<Longrightarrow> k < length order" for k v
    using ks by (force dest: map_of_SomeD)
  have l: "\<forall>(ex, t) \<in> set l. ex < length order"
    "\<forall>(ex, t) \<in> set l. map_of (by_exercise p) ex = Some t \<and> 0 < t"
    using ks' by (auto simp: l_def mem)
  have "map_of (iterate ordn (by_exercise p)) = map_of (by_exercise p)"
    using iterate_keys [OF Cons.prems(1) wf] mem by (intro ext) (metis map_of_eq_Some_iff not_None_eq option.exhaust)
  then have cnt: "length (filter (\<lambda>(k, _). k = i) l) = (if 0 < secs_on p i then 1 else 0)" for i
    using count_index [OF iterate_keys [OF Cons.prems(1) wf], of i]
    by (simp add: l_def secs_on_def split: option.splits)
  have J: "tallied order rs1 fus1 \<and> (\<forall>f \<in> set fus1. credited order all f) \<and>
    (\<forall>i < length order. er_students (rs1 ! i) = er_students (rs ! i) + length (filter (\<lambda>(ex, _). ex = i) l))"
    using judge_exercises_ok [OF Cons.prems(2,5) l _ Cons.prems(6) j] Cons.prems(4) kv by simp
  have step: "judge_students ordn order fs ts kvs (rs1, fus1) = (rs', fus')"
    using Cons.prems(7) j by (simp add: kv l_def tp_def)
  have "tallied order rs' fus' \<and> (\<forall>f \<in> set fus'. credited order all f) \<and>
    (\<forall>i < length order. er_students (rs' ! i) = er_students (rs1 ! i) + on_exercise i kvs)"
    using Cons.IH [OF Cons.prems(1,2) _ _ _ _ step] Cons.prems(3,4) J by simp
  with J cnt kv show ?case by (simp add: on_exercise_def)
qed (simp add: on_exercise_def)

lemma tallied_blank: "tallied order (map blank_recap order) []"
  by (simp add: tallied_def blank_recap_def comp_def)

section \<open>What a recap says\<close>

lemma cap_watch_help: "filter (\<lambda>f. fu_level f = Help) (cap_watch n fus) = filter (\<lambda>f. fu_level f = Help) fus"
  by (induction n fus rule: cap_watch.induct) auto

lemma cap_watch_others:
  "length (filter (\<lambda>f. fu_level f \<noteq> Help) (cap_watch n fus)) =
     min (MAX_WATCH_LISTED - n) (length (filter (\<lambda>f. fu_level f \<noteq> Help) fus))"
  by (induction n fus rule: cap_watch.induct) auto

lemma cap_watch_subset: "set (cap_watch n fus) \<subseteq> set fus"
  by (induction n fus rule: cap_watch.induct) auto

lemma cap_watch_sorted: "sorted (map g fus) \<Longrightarrow> sorted (map g (cap_watch n fus))"
  for g :: "follow_up \<Rightarrow> bool"
  by (induction n fus rule: cap_watch.induct) (use cap_watch_subset in \<open>auto dest!: subsetD\<close>)

lemma by_student_spec:
  "wf_map (by_student es [])"
  "map_of (by_student es []) k =
     (if k \<in> rv_student ` set es then Some (filter (\<lambda>e. rv_student e = k) es) else None)"
proof -
  have "wf_map m \<Longrightarrow> wf_map (by_student es m)" for m
    by (induction es m rule: by_student.induct) simp_all
  then show "wf_map (by_student es [])" by simp
  have "map_of (by_student es m) k =
     (let mine = filter (\<lambda>e. rv_student e = k) es in
      case map_of m k of None \<Rightarrow> if mine = [] then None else Some mine | Some l \<Rightarrow> Some (l @ mine))" for m
    by (induction es m rule: by_student.induct) (auto simp: map_of_upsert Let_def split: option.splits)
  then show "map_of (by_student es []) k =
     (if k \<in> rv_student ` set es then Some (filter (\<lambda>e. rv_student e = k) es) else None)"
    by (auto simp: Let_def filter_empty_conv)
qed

text \<open>The students of a recap, with what the loop makes of each.\<close>

lemma per_of_spec:
  assumes "order_law ord" "distinct (map fst order)"
  shows "distinct (map fst (per_of ord (index_of order) events))"
    "wf_map (per_of ord (index_of order) events)"
    "fst ` set (per_of ord (index_of order) events) = rv_student ` set events"
    "(s, p) \<in> set (per_of ord (index_of order) events) \<Longrightarrow>
       wf_map (by_exercise p) \<and> (\<forall>k \<in> fst ` set (by_exercise p). k < length order) \<and>
       ps_total p = worked (\<lambda>_. True) (filter (\<lambda>e. rv_student e = s) events) \<and>
       (\<forall>i < length order. secs_on p i =
          worked (\<lambda>e. rv_exercise e = Some (fst (order ! i))) (filter (\<lambda>e. rv_student e = s) events))"
proof -
  let ?b = "by_student events []"
  have keys: "map fst (per_of ord (index_of order) events) = map fst (iterate ord ?b)"
    by (simp add: per_of_def comp_def split_def)
  show d: "distinct (map fst (per_of ord (index_of order) events))"
    unfolding keys by (rule iterate_keys [OF assms(1) by_student_spec(1)])
  then show "wf_map (per_of ord (index_of order) events)" by (simp add: wf_map_def)
  have mem: "(s, evs) \<in> set (iterate ord ?b) \<longleftrightarrow>
      s \<in> rv_student ` set events \<and> evs = filter (\<lambda>e. rv_student e = s) events" for s evs
    by (auto simp: mem_iterate [OF assms(1) by_student_spec(1)] by_student_spec(2))
  have "set (map fst (iterate ord ?b)) = rv_student ` set events"
  proof (rule set_eqI)
    fix s
    have "s \<in> set (map fst (iterate ord ?b)) \<longleftrightarrow> (\<exists>evs. (s, evs) \<in> set (iterate ord ?b))" by force
    then show "s \<in> set (map fst (iterate ord ?b)) \<longleftrightarrow> s \<in> rv_student ` set events" using mem by simp
  qed
  then show "fst ` set (per_of ord (index_of order) events) = rv_student ` set events"
    using keys by (metis set_map)
  assume "(s, p) \<in> set (per_of ord (index_of order) events)"
  then obtain evs where "(s, evs) \<in> set (iterate ord ?b)"
    and p: "p = per_loop (index_of order) evs per_student_default"
    by (auto simp: per_of_def)
  then have evs: "evs = filter (\<lambda>e. rv_student e = s) events" using mem by blast
  have "secs_on per_student_default i = 0" for i
    by (simp add: secs_on_def per_student_default_def)
  moreover have "worked (\<lambda>e. Option.bind (rv_exercise e) (index_of order) = Some i) es =
      worked (\<lambda>e. rv_exercise e = Some (fst (order ! i))) es" if "i < length order" for i es
    using that by (simp add: index_of_bind [OF assms(2)])
  moreover have "index_of order s = Some k \<Longrightarrow> k < length order" for s k
    by (simp add: index_of_Some [OF assms(2)])
  ultimately show "wf_map (by_exercise p) \<and> (\<forall>k \<in> fst ` set (by_exercise p). k < length order) \<and>
       ps_total p = worked (\<lambda>_. True) (filter (\<lambda>e. rv_student e = s) events) \<and>
       (\<forall>i < length order. secs_on p i =
          worked (\<lambda>e. rv_exercise e = Some (fst (order ! i))) (filter (\<lambda>e. rv_student e = s) events))"
    using per_loop_spec [of per_student_default "index_of order" evs]
    unfolding p evs [symmetric] by (auto simp: per_student_default_def)
qed

definition on_it :: "ev list \<Rightarrow> str \<Rightarrow> str \<Rightarrow> int" where
  "on_it events s x = worked (\<lambda>e. rv_exercise e = Some x) (filter (\<lambda>e. rv_student e = s) events)"

definition with_medians :: "per_student list \<Rightarrow> exercise_recap list \<Rightarrow> nat \<Rightarrow> exercise_recap list" where
  "with_medians ps rs n = map (\<lambda>(ex, r). let t = sort (times_on ps ex) in
     r\<lparr>er_median := (if t = [] then 0 else quantile t (1 / 2))\<rparr>) (zip [0..<n] rs)"

lemma with_medians_nth:
  "length rs = n \<Longrightarrow> length (with_medians ps rs n) = n"
  "length rs = n \<Longrightarrow> i < n \<Longrightarrow> er_exercise (with_medians ps rs n ! i) = er_exercise (rs ! i) \<and>
     er_students (with_medians ps rs n ! i) = er_students (rs ! i) \<and>
     er_help (with_medians ps rs n ! i) = er_help (rs ! i) \<and>
     er_watch (with_medians ps rs n ! i) = er_watch (rs ! i)"
  by (simp_all add: with_medians_def Let_def)

lemma judged_spec:
  assumes "order_law ord" "order_law ordn" and dist: "distinct (map fst order)"
    and J: "judge_students ordn order fs ts (iterate ord (per_of ord (index_of order) events))
      (map blank_recap order, []) = (rs, fus)"
  shows "tallied order rs fus"
    "i < length order \<Longrightarrow> er_students (rs ! i) = card {s \<in> rv_student ` set events. 0 < on_it events s (fst (order ! i))}"
    "f \<in> set fus \<Longrightarrow> fu_seconds f = on_it events (fu_student f) (fu_exercise f) \<and> 0 < fu_seconds f"
proof -
  define per where "per = per_of ord (index_of order) events"
  note P = per_of_spec [OF assms(1) dist, where events = events, folded per_def on_it_def]
  define kvs where "kvs = iterate ord per"
  have mem: "set kvs = set per"
    using mset_iterate [OF assms(1) P(2)] unfolding kvs_def by (rule mset_eq_setD)
  have dk: "distinct (map fst kvs)" unfolding kvs_def by (rule iterate_keys [OF assms(1) P(2)])
  have wf: "\<forall>(s, p) \<in> set kvs. wf_map (by_exercise p) \<and> (\<forall>k \<in> fst ` set (by_exercise p). k < length order)"
    using P(4) mem by blast
  have secs: "secs_on p i = on_it events s (fst (order ! i))" if "(s, p) \<in> set kvs" "i < length order" for s p i
    using P(4) mem that by blast
  have K: "tallied order rs fus \<and> (\<forall>f \<in> set fus. credited order kvs f) \<and>
      (\<forall>i < length order. er_students (rs ! i) = er_students (map blank_recap order ! i) + on_exercise i kvs)"
    by (rule judge_students_ok [OF assms(2) dist wf subset_refl tallied_blank _ J [folded per_def kvs_def]]) simp
  then show "tallied order rs fus" by blast
  show "er_students (rs ! i) = card {s \<in> rv_student ` set events. 0 < on_it events s (fst (order ! i))}"
    if i: "i < length order"
  proof -
    have "fst ` set (filter (\<lambda>(_, p). 0 < secs_on p i) kvs) =
        {s \<in> fst ` set kvs. 0 < on_it events s (fst (order ! i))}"
      using secs [OF _ i] by (auto simp: image_iff)
    moreover have "distinct (map fst (filter (\<lambda>(_, p). 0 < secs_on p i) kvs))"
      using dk by (rule distinct_map_filter)
    ultimately have "on_exercise i kvs = card {s \<in> fst ` set kvs. 0 < on_it events s (fst (order ! i))}"
      using distinct_card [of "map fst (filter (\<lambda>(_, p). 0 < secs_on p i) kvs)"]
      by (simp add: on_exercise_def)
    then show ?thesis using K i by (simp add: blank_recap_def mem P(3))
  qed
  show "fu_seconds f = on_it events (fu_student f) (fu_exercise f) \<and> 0 < fu_seconds f" if "f \<in> set fus"
  proof -
    obtain p ex where f: "(fu_student f, p) \<in> set kvs" "ex < length order" "fu_exercise f = fst (order ! ex)"
        "map_of (by_exercise p) ex = Some (fu_seconds f)" "0 < fu_seconds f"
      using K \<open>f \<in> set fus\<close> unfolding credited_def by blast
    then have "secs_on p ex = fu_seconds f" by (simp add: secs_on_def)
    with secs [OF f(1,2)] f show ?thesis by simp
  qed
qed

lemma count_sorted: "length (filter P (sort_key k xs)) = length (filter P xs)"
  by (metis mset_filter mset_sort size_mset)

lemma listed_sorted_capped:
  "listed Help x (cap_watch 0 (sort_key k fus)) = listed Help x fus" for k :: "follow_up \<Rightarrow> 'k :: linorder"
proof -
  have "listed Help x gus = length (filter (\<lambda>f. fu_exercise f = x) (filter (\<lambda>f. fu_level f = Help) gus))" for gus
    by (simp add: listed_def conj_commute)
  then have "listed Help x (cap_watch 0 (sort_key k fus)) = listed Help x (sort_key k fus)"
    by (simp only: cap_watch_help)
  also have "\<dots> = listed Help x fus" by (simp add: listed_def count_sorted)
  finally show ?thesis .
qed

lemma watch_sorted_capped:
  fixes k :: "follow_up \<Rightarrow> 'k :: linorder"
  assumes "\<forall>f \<in> set fus. fu_level f \<noteq> Ok"
  shows "length (filter (\<lambda>f. fu_level f = Watch) (cap_watch 0 (sort_key k fus))) =
    min MAX_WATCH_LISTED (length (filter (\<lambda>f. fu_level f = Watch) fus))"
proof -
  have eq: "filter (\<lambda>f. fu_level f = Watch) gus = filter (\<lambda>f. fu_level f \<noteq> Help) gus" if "set gus \<subseteq> set fus" for gus
  proof (rule filter_cong [OF refl])
    fix f assume "f \<in> set gus"
    then have "fu_level f \<noteq> Ok" using that assms by blast
    then show "(fu_level f = Watch) = (fu_level f \<noteq> Help)" by (cases "fu_level f") auto
  qed
  have "length (filter (\<lambda>f. fu_level f \<noteq> Help) (sort_key k fus)) = length (filter (\<lambda>f. fu_level f \<noteq> Help) fus)"
    by (rule count_sorted)
  then show ?thesis
    using eq [of "cap_watch 0 (sort_key k fus)"] eq [of fus] cap_watch_subset [of 0 "sort_key k fus"]
    by (simp add: cap_watch_others)
qed

lemma help_first: "sorted (map (\<lambda>f. fu_level f \<noteq> Help) (cap_watch 0
    (sort_key (\<lambda>f. (fu_level f \<noteq> Help, - fu_seconds f, fu_student f)) fus)))"
proof (rule cap_watch_sorted)
  define k :: "follow_up \<Rightarrow> _" where "k = (\<lambda>f. (fu_level f \<noteq> Help, - fu_seconds f, fu_student f))"
  have "sorted_wrt (\<lambda>f g. k f \<le> k g) (sort_key k fus)"
    using sorted_sort_key [of k fus] by (simp only: sorted_map)
  then have "sorted_wrt (\<lambda>f g. (fu_level f \<noteq> Help) \<le> (fu_level g \<noteq> Help)) (sort_key k fus)"
    by (rule sorted_wrt_mono_rel [rotated]) (auto simp: k_def less_eq_prod_def)
  then show "sorted (map (\<lambda>f. fu_level f \<noteq> Help) (sort_key k fus))" by (simp only: sorted_map)
qed

lemma sum_filter_positive:
  "(\<forall>x \<in> set xs. f x \<noteq> 0 \<longrightarrow> P x) \<Longrightarrow> sum_list (map f (filter P xs)) = sum_list (map f xs)" for f :: "'a \<Rightarrow> nat"
  by (induction xs) auto

text \<open>The parts of a recap before the idle exercises and the surplus entries are left out: an entry
  per exercise in order, and the follow-up list uncut.\<close>

lemma build_parts:
  assumes "order_law ord" "order_law ordn" "distinct (map fst exercises)"
  obtains xs fus where
    "rc_students (build ord ordn w events ts msgs exercises) = card (rv_student ` set events)"
    "rc_exercises (build ord ordn w events ts msgs exercises) = filter (\<lambda>x. er_students x > 0) xs"
    "rc_follow_up (build ord ordn w events ts msgs exercises) =
       cap_watch 0 (sort_key (\<lambda>f. (fu_level f \<noteq> Help, - fu_seconds f, fu_student f)) fus)"
    "map er_exercise xs = map fst (exercise_order exercises events)"
    "\<forall>x \<in> set xs. er_students x = card {s \<in> rv_student ` set events. 0 < on_it events s (er_exercise x)} \<and>
       er_help x = listed Help (er_exercise x) fus \<and> er_help x + er_watch x \<le> er_students x"
    "sum_list (map er_watch xs) = length (filter (\<lambda>f. fu_level f = Watch) fus)"
    "\<forall>f \<in> set fus. fu_level f \<noteq> Ok \<and> fu_seconds f = on_it events (fu_student f) (fu_exercise f) \<and> 0 < fu_seconds f"
proof -
  define order where "order = exercise_order exercises events"
  define per where "per = per_of ord (index_of order) events"
  define ps where "ps = map snd (iterate ord per)"
  define n where "n = length order"
  have dist: "distinct (map fst order)"
    unfolding order_def by (rule exercise_order_distinct [OF assms(3)])
  obtain rs fus where J: "judge_students ordn order (map (\<lambda>ex. for_cohort (times_on ps ex)) [0..<n]) ts
      (iterate ord per) (map blank_recap order, []) = (rs, fus)"
    by (cases "judge_students ordn order (map (\<lambda>ex. for_cohort (times_on ps ex)) [0..<n]) ts
      (iterate ord per) (map blank_recap order, [])")
  note S = judged_spec [OF assms(1,2) dist J [unfolded per_def]]
  define xs where "xs = with_medians ps rs n"
  have len: "length rs = n" using S(1) by (simp add: tallied_def n_def)
  have xs: "length xs = n" "i < n \<Longrightarrow> er_exercise (xs ! i) = fst (order ! i) \<and>
      er_students (xs ! i) = card {s \<in> rv_student ` set events. 0 < on_it events s (fst (order ! i))} \<and>
      er_help (xs ! i) = listed Help (fst (order ! i)) fus \<and> er_watch (xs ! i) = er_watch (rs ! i) \<and>
      er_help (xs ! i) + er_watch (xs ! i) \<le> er_students (xs ! i)" for i
    using with_medians_nth [OF len] S(1) S(2) [of i] unfolding xs_def tallied_def n_def by auto
  show thesis
  proof (rule that [of xs fus])
    show "rc_students (build ord ordn w events ts msgs exercises) = card (rv_student ` set events)"
      using per_of_spec(1,3) [OF assms(1) dist, of events, folded per_def] J
      unfolding n_def ps_def per_def order_def
      by (simp add: build_def Let_def) (metis distinct_card length_map set_map)
    show "map er_exercise xs = map fst (exercise_order exercises events)"
      using xs by (intro nth_equalityI) (auto simp: n_def order_def)
    have "map er_watch xs = map er_watch rs" using xs len by (intro nth_equalityI) auto
    then show "sum_list (map er_watch xs) = length (filter (\<lambda>f. fu_level f = Watch) fus)"
      using S(1) by (simp add: tallied_def)
    show "\<forall>f \<in> set fus. fu_level f \<noteq> Ok \<and> fu_seconds f = on_it events (fu_student f) (fu_exercise f) \<and> 0 < fu_seconds f"
      using S(1,3) unfolding tallied_def by blast
    show "rc_exercises (build ord ordn w events ts msgs exercises) = filter (\<lambda>x. er_students x > 0) xs"
      "rc_follow_up (build ord ordn w events ts msgs exercises) =
         cap_watch 0 (sort_key (\<lambda>f. (fu_level f \<noteq> Help, - fu_seconds f, fu_student f)) fus)"
      using J unfolding n_def ps_def per_def order_def xs_def with_medians_def by (simp_all add: build_def Let_def)
    show "\<forall>x \<in> set xs. er_students x = card {s \<in> rv_student ` set events. 0 < on_it events s (er_exercise x)} \<and>
        er_help x = listed Help (er_exercise x) fus \<and> er_help x + er_watch x \<le> er_students x"
      using xs by (metis in_set_conv_nth)
  qed
qed

lemma filter_by_name:
  "\<forall>x \<in> set xs. P x \<longleftrightarrow> Q (f x) \<Longrightarrow> map f (filter P xs) = filter Q (map f xs)"
  by (induction xs) auto

text \<open>C22: The figures of a recap add up: it counts every student with an event; it lists exactly the
  exercises somebody worked on, in course order, each with the number of students who did; the
  number who needed help on an exercise is the number of help entries it has in the follow-up
  list, none of which is cut, while at most ten of those to watch are listed; help comes first;
  and the time of an entry is the capped gaps of that student on that exercise.\<close>

theorem recap_adds_up:
  assumes "order_law ord" "order_law ordn" "distinct (map fst exercises)"
  shows "let r = build ord ordn w events ts msgs exercises; class = rv_student ` set events in
    rc_students r = card class \<and>
    map er_exercise (rc_exercises r) =
      filter (\<lambda>x. \<exists>s \<in> class. 0 < on_it events s x) (map fst (exercise_order exercises events)) \<and>
    (\<forall>x \<in> set (rc_exercises r).
       er_students x = card {s \<in> class. 0 < on_it events s (er_exercise x)} \<and>
       er_help x = listed Help (er_exercise x) (rc_follow_up r) \<and>
       er_help x + er_watch x \<le> er_students x) \<and>
    length (filter (\<lambda>f. fu_level f = Watch) (rc_follow_up r)) =
      min MAX_WATCH_LISTED (sum_list (map er_watch (rc_exercises r))) \<and>
    sorted (map (\<lambda>f. fu_level f \<noteq> Help) (rc_follow_up r)) \<and>
    (\<forall>f \<in> set (rc_follow_up r).
       fu_level f \<noteq> Ok \<and> fu_seconds f = on_it events (fu_student f) (fu_exercise f) \<and> 0 < fu_seconds f)"
proof -
  obtain xs fus where parts:
    "rc_students (build ord ordn w events ts msgs exercises) = card (rv_student ` set events)"
    "rc_exercises (build ord ordn w events ts msgs exercises) = filter (\<lambda>x. er_students x > 0) xs"
    "rc_follow_up (build ord ordn w events ts msgs exercises) =
       cap_watch 0 (sort_key (\<lambda>f. (fu_level f \<noteq> Help, - fu_seconds f, fu_student f)) fus)"
    "map er_exercise xs = map fst (exercise_order exercises events)"
    and each: "\<forall>x \<in> set xs. er_students x = card {s \<in> rv_student ` set events. 0 < on_it events s (er_exercise x)} \<and>
       er_help x = listed Help (er_exercise x) fus \<and> er_help x + er_watch x \<le> er_students x"
    and watch: "sum_list (map er_watch xs) = length (filter (\<lambda>f. fu_level f = Watch) fus)"
    and fus: "\<forall>f \<in> set fus. fu_level f \<noteq> Ok \<and> fu_seconds f = on_it events (fu_student f) (fu_exercise f) \<and> 0 < fu_seconds f"
    using build_parts [OF assms] .
  have "map er_exercise (filter (\<lambda>x. er_students x > 0) xs) =
      filter (\<lambda>x. \<exists>s \<in> rv_student ` set events. 0 < on_it events s x) (map er_exercise xs)"
    by (rule filter_by_name) (use each in \<open>auto simp: card_gt_0_iff\<close>)
  moreover have "sum_list (map er_watch (filter (\<lambda>x. er_students x > 0) xs)) = sum_list (map er_watch xs)"
    by (rule sum_filter_positive) (use each in force)
  moreover have "\<forall>f \<in> set (cap_watch 0 (sort_key (\<lambda>f. (fu_level f \<noteq> Help, - fu_seconds f, fu_student f)) fus)). f \<in> set fus"
    using cap_watch_subset by fastforce
  moreover have "length (filter (\<lambda>f. fu_level f = Watch)
      (cap_watch 0 (sort_key (\<lambda>f. (fu_level f \<noteq> Help, - fu_seconds f, fu_student f)) fus))) =
      min MAX_WATCH_LISTED (sum_list (map er_watch xs))"
    using fus by (simp add: watch_sorted_capped watch)
  ultimately show ?thesis
    unfolding Let_def parts(1-3) listed_sorted_capped parts(4) [symmetric]
    using each fus help_first [of fus] by (simp only: set_filter) fastforce
qed

theorem recap_adds_up_witness:
  "order_law rev \<and> order_law (rev :: nat list \<Rightarrow> nat list) \<and>
   (let r = build rev rev \<lparr>ls_from = 1, ls_to = 631\<rparr> (map to_ev demo_events) [] [] [(lit ''loops'', lit ''Loops'')] in
     rc_students r = 1 \<and> map er_exercise (rc_exercises r) = [lit ''loops''])"
proof -
  let ?es = "map to_ev demo_events"
  have cls: "rv_student ` set ?es = {lit ''ada''}"
    by (simp add: demo_events_def demo_event_def to_ev_def)
  have ord: "map fst (exercise_order [(lit ''loops'', lit ''Loops'')] ?es) = [lit ''loops'']"
    by (simp add: exercise_order_def demo_events_def demo_event_def to_ev_def List.map_filter_def)
  have on: "on_it ?es (lit ''ada'') (lit ''loops'') = 150"
    by (simp add: on_it_def demo_defs to_ev_def)
  show ?thesis
    using recap_adds_up [OF order_law_id(3) order_law_id(3), of "[(lit ''loops'', lit ''Loops'')]"
        "\<lparr>ls_from = 1, ls_to = 631\<rparr>" ?es "[]" "[]"] on
    unfolding Let_def ord cls by simp
qed

section \<open>What a recap leaves out\<close>

lemma recap_lessons_newest:
  assumes "rows \<noteq> []" "length rows \<le> 200000" "\<forall>r \<in> set rows. ev_at r > now_ms - LOOKBACK_DAYS * 86400 * 1000"
  shows "recap_lessons now_ms rows \<noteq> []"
    "ls_to (hd (recap_lessons now_ms rows)) = ev_secs (last (by_time rows))"
    "ls_from (hd (recap_lessons now_ms rows)) \<le> ls_to (hd (recap_lessons now_ms rows))"
proof -
  define ts where "ts = map ev_secs (rev (by_time rows))"
  have "filter (\<lambda>r. ev_at r > now_ms - LOOKBACK_DAYS * 86400 * 1000) rows = rows"
    using assms(3) by simp
  then have L: "recap_lessons now_ms rows = lessons ts LESSON_GAP_SECS"
    using assms(2) by (simp add: recap_lessons_def ts_def by_time_def)
  obtain gs where gs: "lessons ts LESSON_GAP_SECS = map lesson_of gs" "concat gs = ts" "lesson_runs LESSON_GAP_SECS gs"
    using lessons_loop_runs [of LESSON_GAP_SECS "[]" ts] by (auto simp: lessons_def lesson_runs_def)
  have ne: "by_time rows \<noteq> []" using assms(1) by (simp add: by_time_def) (metis length_0_conv length_sort)
  then have "ts \<noteq> []" by (simp add: ts_def)
  then obtain g gs' where g: "gs = g # gs'" using gs(2) by (cases gs) auto
  then have "g \<noteq> []" using gs(3) by (simp add: lesson_runs_def)
  then have hd: "hd g = hd ts" using gs(2) g by (metis concat.simps(2) hd_append2)
  moreover have "hd ts = ev_secs (last (by_time rows))" using ne by (simp add: ts_def hd_map hd_rev)
  ultimately show "recap_lessons now_ms rows \<noteq> []"
    "ls_to (hd (recap_lessons now_ms rows)) = ev_secs (last (by_time rows))"
    by (simp_all add: L gs(1) g lesson_of_def)
  have "last g \<in> set ts" using gs(2) g \<open>g \<noteq> []\<close> by (auto simp flip: gs(2))
  moreover have "sorted (rev ts)"
  proof -
    have "sorted (map ev_at (by_time rows))" by (simp add: by_time_def)
    then have "sorted (map ev_secs (by_time rows))"
      by (auto simp: sorted_map ev_secs_def elim!: sorted_wrt_mono_rel [rotated] intro: zdiv_mono1)
    then show ?thesis by (simp add: ts_def rev_map)
  qed
  ultimately have "last g \<le> hd ts"
    using \<open>ts \<noteq> []\<close> by (cases ts) (auto simp: sorted_append)
  then show "ls_from (hd (recap_lessons now_ms rows)) \<le> ls_to (hd (recap_lessons now_ms rows))"
    by (simp add: L gs(1) g lesson_of_def hd)
qed

lemma whole_second: "t \<le> t div 1000 * 1000 \<longleftrightarrow> t mod 1000 = 0" for t :: int
  using div_mult_mod_eq [of t 1000] pos_mod_sign [of 1000 t] by (intro iffI) linarith+

text \<open>The recap of the latest lesson reads the lesson's newest event only when that event falls
  on a whole second: the lesson's end is rounded down to the second and the events are asked
  for up to that instant.\<close>

theorem recap_may_lose_the_last_event:
  assumes "rows \<noteq> []" "length rows \<le> 200000" "\<forall>r \<in> set rows. ev_at r > now_ms - LOOKBACK_DAYS * 86400 * 1000"
  shows "last (by_time rows) \<in> set (window_rows (hd (recap_lessons now_ms rows)) rows) \<longleftrightarrow>
    ev_at (last (by_time rows)) mod 1000 = 0"
proof -
  note L = recap_lessons_newest [OF assms]
  define e where "e = last (by_time rows)"
  have "by_time rows \<noteq> []" using assms(1) by (simp add: by_time_def) (metis length_0_conv length_sort)
  then have "e \<in> set (by_time rows)" unfolding e_def by (rule last_in_set)
  then have e: "e \<in> set rows" by (simp add: by_time_def)
  have "ls_from (hd (recap_lessons now_ms rows)) * 1000 \<le> ev_at e"
    using L(3) unfolding L(2) e_def [symmetric] ev_secs_def by linarith
  then have "e \<in> set (window_rows (hd (recap_lessons now_ms rows)) rows) \<longleftrightarrow> ev_at e \<le> ev_secs e * 1000"
    using e L(2) by (simp add: window_rows_def in_window_def by_time_def e_def)
  also have "\<dots> \<longleftrightarrow> ev_at e mod 1000 = 0"
    unfolding ev_secs_def by (rule whole_second)
  finally show ?thesis by (simp add: e_def)
qed

theorem recap_may_lose_the_last_event_witness:
  "let rows = [demo_event ''ada'' ''a.py'' ''edit'' 1000, demo_event ''ada'' ''a.py'' ''edit'' 61500] in
     last (by_time rows) \<notin> set (window_rows (hd (recap_lessons 61500 rows)) rows)"
proof -
  let ?rows = "[demo_event ''ada'' ''a.py'' ''edit'' 1000, demo_event ''ada'' ''a.py'' ''edit'' 61500]"
  have "last (by_time ?rows) = demo_event ''ada'' ''a.py'' ''edit'' 61500"
    by (simp add: by_time_def demo_event_def)
  then show ?thesis
    using recap_may_lose_the_last_event [of ?rows 61500]
    by (simp add: demo_event_def LOOKBACK_DAYS_def)
qed

end
