(* ===== verification/Ingest.thy ===== *)
theory Ingest
  imports Activity Text_Rules Students Utf8
begin

text \<open>
  Recording a terminal: the gRPC service of \<^verbatim>\<open>crates/server/src/grpc.rs\<close> and what is read back
  of a recording, there and in \<^verbatim>\<open>crates/server/src/http/sessions.rs\<close>. One call of
  \<^verbatim>\<open>stream_session\<close> is a run of the relation \<open>ingest\<close> over its inputs: what the client sends,
  the ticks of the flush timer and the end of the stream, each with the outcome of the writes
  to the database made while handling it. Stripping escapes and base64 are libraries, the
  parameter record \<open>codec\<close>. The lemmas show that a run that ends records every chunk in order,
  and what a run that fails leaves behind.
\<close>

record codec =
  strip_ansi :: "byte list \<Rightarrow> byte list"
  b64_encode :: "byte list \<Rightarrow> str"
  b64_decode :: "str \<Rightarrow> byte list option"

text \<open>\<^verbatim>\<open>plain\<close> of \<^verbatim>\<open>text.rs\<close>: what a person reads of a chunk of terminal output.\<close>

definition plain :: "codec \<Rightarrow> byte list \<Rightarrow> str" where
  "plain cd data = from_utf8_lossy (strip_ansi cd data)"

lemma plain_encode: "strip_ansi cd data = encode s \<Longrightarrow> list_all scalar s \<Longrightarrow> plain cd data = s"
  by (simp add: plain_def from_utf8_lossy_encode)

record chunk =
  ch_stream :: int
  ch_data :: "byte list"
  ch_offset :: int

record session_start =
  ss_student :: str
  ss_command :: str
  ss_hostname :: str
  ss_cols :: "32 word"
  ss_rows :: "32 word"

datatype ingest_event = Start session_start | Chunk chunk | Resize "32 word" "32 word" | End int

record session =
  se_course :: "uuid option"
  se_student :: str
  se_command :: str
  se_hostname :: "str option"
  se_cols :: int
  se_rows :: int
  se_status :: str
  se_started :: int
  se_ended :: "int option"
  se_exit :: "int option"
  se_errors :: int

record terminal_event =
  te_session :: uuid
  te_seq :: int
  te_offset :: int
  te_stream :: str
  te_data :: str
  te_text :: "str option"
  te_created :: int

datatype grpc_status = Unauthenticated str | Invalid_Argument str | Grpc_Internal

definition BATCH_SIZE :: nat where "BATCH_SIZE = 128"
definition HISTORY_PAGE :: nat where "HISTORY_PAGE = 500"

section \<open>Who is streaming\<close>

text \<open>The two headers as far as they read as text, the course of a token and the open mode are
  what the database and the other components answer; \<open>verify\<close> and \<open>enforced\<close> are the identity
  component's.\<close>

definition stream_begin ::
    "(str \<Rightarrow> db_err + uuid option) \<Rightarrow> bool \<Rightarrow> uuid \<Rightarrow> (str \<Rightarrow> str option) \<Rightarrow> bool \<Rightarrow> str option \<Rightarrow> str option \<Rightarrow>
       grpc_status + uuid \<times> str option" where
  "stream_begin course_by_token open_dev default_course verify enforced authorization identity =
     bind_result
       (case Option.bind authorization (strip_prefix (lit ''Bearer '')) of
          Some token \<Rightarrow> (case course_by_token token of
              Inr (Some course) \<Rightarrow> Inr course
            | Inr None \<Rightarrow> Inl (Unauthenticated (lit ''invalid enrollment token''))
            | Inl _ \<Rightarrow> Inl Grpc_Internal)
        | None \<Rightarrow> if open_dev then Inr default_course
                  else Inl (Unauthenticated (lit ''enrollment token required'')))
       (\<lambda>course. let verified = Option.bind identity verify in
          if enforced \<and> verified = None then Inl (Unauthenticated (lit ''verified identity required''))
          else Inr (course, verified))"

section \<open>One stream\<close>

record stream =
  sessions_tbl :: "(uuid, session) hashmap"
  events_tbl :: "terminal_event list"
  channels :: "uuid list"
  fanned_out :: "(uuid \<times> chunk) list"
  session_id :: "uuid option"
  seq :: int
  error_count :: int
  persisted :: int
  ended :: bool
  buffer :: "terminal_event list"

datatype stream_item = Got "ingest_event option" | Transport_Error | End_Of_Stream | Tick

text \<open>An input, the instant it is handled at, the id drawn for it, and whether the inserts and
  the updates made for it succeed.\<close>

record input =
  in_item :: stream_item
  in_now :: int
  in_uuid :: uuid
  inserts_ok :: bool
  updates_ok :: bool

datatype flow = Go stream | Stop grpc_status stream

fun then_flow :: "flow \<Rightarrow> (stream \<Rightarrow> flow) \<Rightarrow> flow" where
  "then_flow (Go s) f = f s"
| "then_flow (Stop e s) f = Stop e s"

definition flush :: "bool \<Rightarrow> stream \<Rightarrow> flow" where
  "flush ok s =
     (if buffer s = [] then Go s
      else if ok then Go (s\<lparr>events_tbl := events_tbl s @ buffer s, buffer := []\<rparr>)
      else Stop Grpc_Internal (s\<lparr>buffer := []\<rparr>))"

text \<open>An update of one row: an error when it fails or there is no such row.\<close>

definition update_session ::
    "bool \<Rightarrow> uuid \<Rightarrow> (session \<Rightarrow> session) \<Rightarrow> (uuid, session) hashmap \<Rightarrow> (uuid, session) hashmap option" where
  "update_session ok i f tbl =
     (if ok then map_option (\<lambda>r. AList.update i (f r) tbl) (map_of tbl i) else None)"

definition persist_error_count :: "bool \<Rightarrow> uuid \<Rightarrow> stream \<Rightarrow> stream" where
  "persist_error_count ok i s =
     (if error_count s = persisted s then s
      else (case update_session ok i (\<lambda>r. r\<lparr>se_errors := error_count s\<rparr>) (sessions_tbl s) of
          None \<Rightarrow> s
        | Some tbl \<Rightarrow> s\<lparr>sessions_tbl := tbl, persisted := error_count s\<rparr>))"

definition finalize :: "bool \<Rightarrow> uuid \<Rightarrow> int option \<Rightarrow> int \<Rightarrow> stream \<Rightarrow> stream" where
  "finalize ok i exit_code now s =
     (case update_session ok i
         (\<lambda>r. r\<lparr>se_status := lit ''ended'', se_ended := Some now, se_exit := exit_code\<rparr>) (sessions_tbl s) of
        None \<Rightarrow> s
      | Some tbl \<Rightarrow> s\<lparr>sessions_tbl := tbl\<rparr>)"

definition stream_label :: "int \<Rightarrow> str" where
  "stream_label n = (if n = 2 then lit ''stdin'' else lit ''stdout'')"

definition non_empty :: "str \<Rightarrow> str option" where
  "non_empty s = (if s = [] then None else Some s)"

definition new_session :: "uuid \<Rightarrow> str option \<Rightarrow> int \<Rightarrow> session_start \<Rightarrow> session" where
  "new_session course verified now st =
     \<lparr>se_course = Some course, se_student = unwrap_or verified (ss_student st),
      se_command = ss_command st, se_hostname = non_empty (ss_hostname st),
      se_cols = sint (ss_cols st), se_rows = sint (ss_rows st), se_status = lit ''active'',
      se_started = now, se_ended = None, se_exit = None, se_errors = 0\<rparr>"

definition row_of :: "codec \<Rightarrow> uuid \<Rightarrow> int \<Rightarrow> int \<Rightarrow> chunk \<Rightarrow> terminal_event" where
  "row_of cd i n now c =
     \<lparr>te_session = i, te_seq = n, te_offset = ch_offset c, te_stream = stream_label (ch_stream c),
      te_data = b64_encode cd (ch_data c), te_text = Some (plain cd (ch_data c)), te_created = now\<rparr>"

definition flags_error :: "codec \<Rightarrow> chunk \<Rightarrow> bool" where
  "flags_error cd c \<longleftrightarrow>
     stream_label (ch_stream c) = lit ''stdout'' \<and> looks_like_error (plain cd (ch_data c))"

fun handle_event :: "codec \<Rightarrow> uuid \<Rightarrow> str option \<Rightarrow> input \<Rightarrow> ingest_event \<Rightarrow> stream \<Rightarrow> flow" where
  "handle_event cd course verified i (Start st) s =
     (if \<not> inserts_ok i \<or> map_of (sessions_tbl s) (in_uuid i) \<noteq> None then Stop Grpc_Internal s
      else Go (s\<lparr>sessions_tbl := AList.update (in_uuid i) (new_session course verified (in_now i) st) (sessions_tbl s),
                 channels := List.insert (in_uuid i) (channels s), session_id := Some (in_uuid i)\<rparr>))"
| "handle_event cd course verified i (Chunk c) s =
     (case session_id s of
        None \<Rightarrow> Go s
      | Some sid \<Rightarrow>
          (let s = s\<lparr>error_count := (if flags_error cd c then add_i32 (error_count s) 1 else error_count s),
                     buffer := buffer s @ [row_of cd sid (seq s) (in_now i) c], seq := seq s + 1,
                     fanned_out := fanned_out s @ [(sid, c)]\<rparr>
           in if length (buffer s) \<ge> BATCH_SIZE then flush (inserts_ok i) s else Go s))"
| "handle_event cd course verified i (Resize cols rws) s =
     (case session_id s of
        None \<Rightarrow> Go s
      | Some sid \<Rightarrow>
          (case update_session (updates_ok i) sid (\<lambda>r. r\<lparr>se_cols := sint cols, se_rows := sint rws\<rparr>)
              (sessions_tbl s) of
             None \<Rightarrow> Go s
           | Some tbl \<Rightarrow> Go (s\<lparr>sessions_tbl := tbl\<rparr>)))"
| "handle_event cd course verified i (End exit_code) s =
     (case session_id s of
        None \<Rightarrow> Go s
      | Some sid \<Rightarrow>
          then_flow (flush (inserts_ok i) s) (\<lambda>s.
            Go ((finalize (updates_ok i) sid (Some exit_code) (in_now i)
                  (persist_error_count (updates_ok i) sid s))\<lparr>ended := True\<rparr>)))"

definition on_tick :: "input \<Rightarrow> stream \<Rightarrow> flow" where
  "on_tick i s =
     then_flow (flush (inserts_ok i) s) (\<lambda>s.
       Go (case session_id s of None \<Rightarrow> s | Some sid \<Rightarrow> persist_error_count (updates_ok i) sid s))"

text \<open>One turn of the loop that does not end the stream. A transport error is the \<^verbatim>\<open>?\<close> on the
  received item.\<close>

definition ingest_turn :: "codec \<Rightarrow> uuid \<Rightarrow> str option \<Rightarrow> input \<Rightarrow> stream \<Rightarrow> flow" where
  "ingest_turn cd course verified i s =
     (case in_item i of
        Got None \<Rightarrow> Go s
      | Got (Some e) \<Rightarrow> handle_event cd course verified i e s
      | Transport_Error \<Rightarrow> Stop Grpc_Internal s
      | Tick \<Rightarrow> on_tick i s
      | End_Of_Stream \<Rightarrow> Go s)"

definition finish_stream :: "input \<Rightarrow> stream \<Rightarrow> flow" where
  "finish_stream i s =
     then_flow (flush (inserts_ok i) s) (\<lambda>s.
       case session_id s of
         None \<Rightarrow> Go s
       | Some sid \<Rightarrow>
           (let s = persist_error_count (updates_ok i) sid s;
                s = (if ended s then s else finalize (updates_ok i) sid None (in_now i) s)
            in Go (s\<lparr>channels := removeAll sid (channels s)\<rparr>)))"

record summary =
  sm_session :: "uuid option"
  sm_chunks :: int

text \<open>A whole call, from its first input to its answer.\<close>

inductive ingest ::
    "codec \<Rightarrow> uuid \<Rightarrow> str option \<Rightarrow> stream \<Rightarrow> input list \<Rightarrow> grpc_status + summary \<Rightarrow> stream \<Rightarrow> bool"
  for cd :: codec and course :: uuid and verified :: "str option" where
  turn: "in_item i \<noteq> End_Of_Stream \<Longrightarrow> ingest_turn cd course verified i s = Go s1 \<Longrightarrow>
    ingest cd course verified s1 is r s2 \<Longrightarrow> ingest cd course verified s (i # is) r s2"
| broken: "in_item i \<noteq> End_Of_Stream \<Longrightarrow> ingest_turn cd course verified i s = Stop e s1 \<Longrightarrow>
    ingest cd course verified s (i # is) (Inl e) s1"
| drained: "in_item i = End_Of_Stream \<Longrightarrow> finish_stream i s = Go s1 \<Longrightarrow>
    ingest cd course verified s (i # is) (Inr \<lparr>sm_session = session_id s1, sm_chunks = seq s1\<rparr>) s1"
| undrained: "in_item i = End_Of_Stream \<Longrightarrow> finish_stream i s = Stop e s1 \<Longrightarrow>
    ingest cd course verified s (i # is) (Inl e) s1"

inductive_cases ingest_NilE: "ingest cd course verified s [] r s'"
inductive_cases ingest_ConsE: "ingest cd course verified s (i # is) r s'"
inductive_simps ingest_Cons: "ingest cd course verified s (i # is) r s'"

definition stream_new :: "(uuid, session) hashmap \<Rightarrow> terminal_event list \<Rightarrow> uuid list \<Rightarrow> stream" where
  "stream_new tbl evs chs =
     \<lparr>sessions_tbl = tbl, events_tbl = evs, channels = chs, fanned_out = [], session_id = None, seq = 0,
      error_count = 0, persisted = 0, ended = False, buffer = []\<rparr>"

section \<open>Reading a recording back\<close>

text \<open>\<^verbatim>\<open>paginate\<close>, \<^verbatim>\<open>fetch_and_next\<close>: pages of a fixed size until one is empty.\<close>

function pages :: "nat \<Rightarrow> 'a list \<Rightarrow> 'a list list" where
  "pages n xs = (if xs = [] \<or> n = 0 then [] else take n xs # pages n (drop n xs))"
  by auto
termination
  by (relation "measure (\<lambda>(n, xs). length xs)") auto

declare pages.simps [simp del]

lemma concat_pages: "0 < n \<Longrightarrow> concat (pages n xs) = xs"
  by (induction n xs rule: pages.induct) (simp add: pages.simps)

definition decode_chunk :: "codec \<Rightarrow> terminal_event \<Rightarrow> chunk" where
  "decode_chunk cd row =
     \<lparr>ch_stream = (if te_stream row = lit ''stdin'' then 2 else 1),
      ch_data = unwrap_or (b64_decode cd (te_data row)) [], ch_offset = te_offset row\<rparr>"

definition text_of_row :: "codec \<Rightarrow> terminal_event \<Rightarrow> str" where
  "text_of_row cd row =
     unwrap_or (te_text row) (plain cd (unwrap_or (b64_decode cd (te_data row)) []))"

fun transcript_loop :: "codec \<Rightarrow> terminal_event list list \<Rightarrow> str \<Rightarrow> str" where
  "transcript_loop cd [] body = body"
| "transcript_loop cd (rows # pgs) body =
     transcript_loop cd pgs (fold (\<lambda>r body. body @ text_of_row cd r) rows body)"

definition rows_of_session :: "uuid \<Rightarrow> terminal_event list \<Rightarrow> terminal_event list" where
  "rows_of_session i rows = sort_key te_seq (filter (\<lambda>r. te_session r = i) rows)"

definition transcript :: "codec \<Rightarrow> uuid \<Rightarrow> str option \<Rightarrow> terminal_event list \<Rightarrow> str" where
  "transcript cd i stream rows =
     (let found = rows_of_session i rows;
          found = (if stream = Some (lit ''stdin'') then filter (\<lambda>r. te_stream r = lit ''stdin'') found
                   else if stream = Some (lit ''all'') then found
                   else filter (\<lambda>r. te_stream r = lit ''stdout'') found)
      in transcript_loop cd (pages HISTORY_PAGE found) [])"

record chunk_dto =
  cd_stream :: str
  cd_offset :: int
  cd_data :: str
  cd_text :: str

definition sse_from_row :: "codec \<Rightarrow> terminal_event \<Rightarrow> chunk_dto" where
  "sse_from_row cd row =
     \<lparr>cd_stream = te_stream row, cd_offset = te_offset row, cd_data = te_data row,
      cd_text = text_of_row cd row\<rparr>"

definition sse_from_chunk :: "codec \<Rightarrow> chunk \<Rightarrow> chunk_dto" where
  "sse_from_chunk cd c =
     \<lparr>cd_stream = (if ch_stream c = 2 then lit ''stdin'' else lit ''stdout''), cd_offset = ch_offset c,
      cd_data = b64_encode cd (ch_data c), cd_text = plain cd (ch_data c)\<rparr>"

text \<open>What a viewer is streamed: the stored rows first, then what arrives live.\<close>

definition watch_session :: "codec \<Rightarrow> uuid \<Rightarrow> bool \<Rightarrow> terminal_event list \<Rightarrow> chunk list \<Rightarrow> chunk list" where
  "watch_session cd i include_history rows live =
     (if include_history
      then map (decode_chunk cd) (concat (pages HISTORY_PAGE (rows_of_session i rows))) else []) @ live"

definition stream_session_sse ::
    "codec \<Rightarrow> uuid \<Rightarrow> bool option \<Rightarrow> terminal_event list \<Rightarrow> chunk list \<Rightarrow> chunk_dto list" where
  "stream_session_sse cd i history rows live =
     (if unwrap_or history True
      then map (sse_from_row cd) (concat (pages HISTORY_PAGE (rows_of_session i rows))) else []) @
     map (sse_from_chunk cd) live"

text \<open>The listings: newest first, of every course for a viewer and of one for the dashboard.\<close>

record session_info =
  si_id :: uuid
  si_student :: str
  si_command :: str
  si_status :: str
  si_started :: int
  si_ended :: "int option"
  si_exit :: "int option"

definition session_info :: "uuid \<times> session \<Rightarrow> session_info" where
  "session_info row =
     \<lparr>si_id = fst row, si_student = se_student (snd row), si_command = se_command (snd row),
      si_status = se_status (snd row), si_started = se_started (snd row), si_ended = se_ended (snd row),
      si_exit = se_exit (snd row)\<rparr>"

definition newest_first :: "(uuid \<times> session) list \<Rightarrow> (uuid \<times> session) list" where
  "newest_first rows = sort_key (\<lambda>r. - se_started (snd r)) rows"

definition viewer_list_sessions :: "(uuid, session) hashmap \<Rightarrow> session_info list" where
  "viewer_list_sessions tbl = map session_info (newest_first tbl)"

record session_dto = session_info +
  sd_cols :: int
  sd_rows :: int

definition session_dto :: "uuid \<times> session \<Rightarrow> session_dto" where
  "session_dto row = session_info.extend (session_info row)
     (session_dto.fields (se_cols (snd row)) (se_rows (snd row)))"

definition dashboard_list_sessions :: "uuid \<Rightarrow> (uuid, session) hashmap \<Rightarrow> session_dto list" where
  "dashboard_list_sessions course tbl =
     map session_dto (newest_first (filter (\<lambda>r. se_course (snd r) = Some course) tbl))"

lemma transcript_loop_spec:
  "transcript_loop cd pgs body = body @ concat (map (text_of_row cd) (concat pgs))"
proof (induction pgs arbitrary: body)
  case (Cons rows pgs)
  have "fold (\<lambda>r body. body @ text_of_row cd r) rows b = b @ concat (map (text_of_row cd) rows)" for b
    by (induction rows arbitrary: b) simp_all
  with Cons show ?case by simp
qed simp

text \<open>A chunk shown live and the same chunk replayed from its row are the same.\<close>

lemma replay_is_live: "te_stream (row_of cd i n now c) = cd_stream (sse_from_chunk cd c)"
  "sse_from_row cd (row_of cd i n now c) = sse_from_chunk cd c"
  by (simp_all add: row_of_def sse_from_row_def sse_from_chunk_def stream_label_def text_of_row_def)

section \<open>The tape: what a stream should leave behind\<close>

record tape =
  tp_rows :: "terminal_event list"
  tp_errors :: int
  tp_ended :: bool
  tp_exit :: "int option"

definition tape_new :: tape where
  "tape_new = \<lparr>tp_rows = [], tp_errors = 0, tp_ended = False, tp_exit = None\<rparr>"

definition tape_step :: "codec \<Rightarrow> uuid \<Rightarrow> input \<Rightarrow> tape \<Rightarrow> tape" where
  "tape_step cd sid i t =
     (case in_item i of
        Got (Some (Chunk c)) \<Rightarrow>
          t\<lparr>tp_rows := tp_rows t @ [row_of cd sid (int (length (tp_rows t))) (in_now i) c],
            tp_errors := (if flags_error cd c then add_i32 (tp_errors t) 1 else tp_errors t)\<rparr>
      | Got (Some (End e)) \<Rightarrow> t\<lparr>tp_ended := True, tp_exit := Some e\<rparr>
      | _ \<Rightarrow> t)"

definition ordinary :: "input \<Rightarrow> bool" where
  "ordinary i \<longleftrightarrow> inserts_ok i \<and> updates_ok i \<and> in_item i \<noteq> Transport_Error \<and> (\<forall>st. in_item i \<noteq> Got (Some (Start st)))"

definition follows :: "terminal_event list \<Rightarrow> uuid \<Rightarrow> str \<Rightarrow> stream \<Rightarrow> tape \<Rightarrow> bool" where
  "follows base sid who s t \<longleftrightarrow>
     session_id s = Some sid \<and> events_tbl s @ buffer s = base @ tp_rows t \<and>
     seq s = int (length (tp_rows t)) \<and> error_count s = tp_errors t \<and> ended s = tp_ended t \<and>
     (\<not> ended s \<longrightarrow> tp_exit t = None) \<and>
     (\<exists>row. map_of (sessions_tbl s) sid = Some row \<and> se_errors row = persisted s \<and> se_exit row = tp_exit t \<and>
        se_student row = who \<and> (ended s \<longrightarrow> se_status row = lit ''ended''))"

lemma follows_flush:
  "follows base sid who s t \<Longrightarrow> \<exists>s1. flush True s = Go s1 \<and> follows base sid who s1 t \<and> buffer s1 = [] \<and>
     sessions_tbl s1 = sessions_tbl s"
  by (auto simp: flush_def follows_def)

lemma follows_persist:
  "follows base sid who s t \<Longrightarrow> follows base sid who (persist_error_count True sid s) t \<and>
     persisted (persist_error_count True sid s) = error_count s \<and>
     buffer (persist_error_count True sid s) = buffer s"
  by (auto simp: persist_error_count_def update_session_def follows_def)

lemma follows_finalize:
  "follows base sid who s t \<Longrightarrow>
     follows base sid who ((finalize True sid (Some e) now s)\<lparr>ended := True\<rparr>)
       (t\<lparr>tp_ended := True, tp_exit := Some e\<rparr>)"
  by (auto simp: finalize_def update_session_def follows_def)

lemma follows_turn:
  assumes "follows base sid who s t" "ordinary i" "in_item i \<noteq> End_Of_Stream"
  shows "\<exists>s1. ingest_turn cd course verified i s = Go s1 \<and> follows base sid who s1 (tape_step cd sid i t)"
proof -
  have sid: "session_id s = Some sid" using assms(1) by (simp add: follows_def)
  have ok: "inserts_ok i" "updates_ok i" using assms(2) by (simp_all add: ordinary_def)
  show ?thesis
  proof (cases "in_item i")
    case (Got e)
    show ?thesis
    proof (cases e)
      case None
      with Got assms(1) show ?thesis by (simp add: ingest_turn_def tape_step_def)
    next
      case (Some ev)
      show ?thesis
      proof (cases ev)
        case (Start st)
        with Got Some assms(2) show ?thesis by (simp add: ordinary_def)
      next
        case (Chunk c)
        define s1 where "s1 = s\<lparr>error_count := (if flags_error cd c then add_i32 (error_count s) 1 else error_count s),
                     buffer := buffer s @ [row_of cd sid (seq s) (in_now i) c], seq := seq s + 1,
                     fanned_out := fanned_out s @ [(sid, c)]\<rparr>"
        have f: "follows base sid who s1 (tape_step cd sid i t)"
          using assms(1) Got Some Chunk by (auto simp: follows_def s1_def tape_step_def)
        have "ingest_turn cd course verified i s =
            (if length (buffer s1) \<ge> BATCH_SIZE then flush True s1 else Go s1)"
          using Got Some Chunk sid ok by (simp add: ingest_turn_def s1_def Let_def)
        then show ?thesis using f follows_flush [OF f] by auto
      next
        case (Resize x31 x32)
        with Got Some assms(1) ok sid show ?thesis
          by (auto simp: ingest_turn_def tape_step_def update_session_def follows_def)
      next
        case (End e)
        obtain s1 where s1: "flush True s = Go s1" "follows base sid who s1 t"
          using follows_flush [OF assms(1)] by blast
        have "ingest_turn cd course verified i s =
            Go ((finalize True sid (Some e) (in_now i) (persist_error_count True sid s1))\<lparr>ended := True\<rparr>)"
          using Got Some End sid ok s1 by (simp add: ingest_turn_def)
        moreover have "tape_step cd sid i t = t\<lparr>tp_ended := True, tp_exit := Some e\<rparr>"
          using Got Some End by (simp add: tape_step_def)
        ultimately show ?thesis using follows_finalize follows_persist [OF s1(2)] by auto
      qed
    qed
  next
    case Tick
    obtain s1 where s1: "flush True s = Go s1" "follows base sid who s1 t"
      using follows_flush [OF assms(1)] by blast
    then have "session_id s1 = Some sid" by (simp add: follows_def)
    then have "ingest_turn cd course verified i s = Go (persist_error_count True sid s1)"
      using Tick ok s1 by (simp add: ingest_turn_def on_tick_def)
    then show ?thesis using follows_persist [OF s1(2)] Tick by (simp add: tape_step_def)
  qed (use assms(2,3) in \<open>simp_all add: ordinary_def\<close>)
qed

lemma follows_finish:
  assumes "follows base sid who s t" "ordinary i"
  shows "\<exists>s1 row. finish_stream i s = Go s1 \<and> session_id s1 = Some sid \<and> events_tbl s1 = base @ tp_rows t \<and>
    seq s1 = int (length (tp_rows t)) \<and> sid \<notin> set (channels s1) \<and>
    map_of (sessions_tbl s1) sid = Some row \<and> se_student row = who \<and> se_status row = lit ''ended'' \<and>
    se_errors row = tp_errors t \<and> se_exit row = tp_exit t"
proof -
  have ok: "inserts_ok i" "updates_ok i" using assms(2) by (simp_all add: ordinary_def)
  obtain s1 where s1: "flush True s = Go s1" "follows base sid who s1 t" "buffer s1 = []"
    using follows_flush [OF assms(1)] by blast
  define s2 where "s2 = persist_error_count True sid s1"
  have s2: "follows base sid who s2 t" "buffer s2 = []" "persisted s2 = error_count s1"
    using follows_persist [OF s1(2)] s1(3) by (simp_all add: s2_def)
  then have "persisted s2 = tp_errors t" using s1(2) by (simp add: follows_def)
  have sid: "session_id s1 = Some sid" using s1(2) by (simp add: follows_def)
  have "finish_stream i s = (let s3 = (if ended s2 then s2 else finalize True sid None (in_now i) s2)
      in Go (s3\<lparr>channels := removeAll sid (channels s3)\<rparr>))"
    using s1(1) sid ok by (simp add: finish_stream_def s2_def Let_def)
  with s2 \<open>persisted s2 = tp_errors t\<close> show ?thesis
    by (cases "ended s2") (auto simp: follows_def finalize_def update_session_def Let_def)
qed

lemma ingest_follows:
  "ingest cd course verified s is r s' \<Longrightarrow> follows base sid who s t \<Longrightarrow> \<forall>i \<in> set is. ordinary i \<Longrightarrow>
     \<exists>row. let t' = fold (tape_step cd sid) (takeWhile (\<lambda>i. in_item i \<noteq> End_Of_Stream) is) t in
       r = Inr \<lparr>sm_session = Some sid, sm_chunks = int (length (tp_rows t'))\<rparr> \<and>
       events_tbl s' = base @ tp_rows t' \<and> sid \<notin> set (channels s') \<and>
       map_of (sessions_tbl s') sid = Some row \<and> se_student row = who \<and> se_status row = lit ''ended'' \<and>
       se_errors row = tp_errors t' \<and> se_exit row = tp_exit t'"
proof (induction "is" arbitrary: s t)
  case Nil
  from Nil(1) show ?case by (cases rule: ingest.cases)
next
  case (Cons i "is")
  have ord: "ordinary i" using Cons.prems(3) by simp
  show ?case
  proof (cases "in_item i = End_Of_Stream")
    case True
    then show ?thesis
      using Cons.prems(1) follows_finish [OF Cons.prems(2) ord] by (auto simp: ingest_Cons Let_def)
  next
    case False
    obtain s1 where s1: "ingest_turn cd course verified i s = Go s1" "follows base sid who s1 (tape_step cd sid i t)"
      using follows_turn [OF Cons.prems(2) ord False] by blast
    then have "ingest cd course verified s1 is r s'"
      using Cons.prems(1) False by (auto simp: ingest_Cons)
    from Cons.IH [OF this s1(2)] show ?thesis using Cons.prems(3) False by simp
  qed
qed

lemma ingest_before_start:
  "ingest cd course verified s (pre @ is) r s' \<Longrightarrow> session_id s = None \<Longrightarrow> buffer s = [] \<Longrightarrow>
     \<forall>i \<in> set pre. ordinary i \<and> in_item i \<noteq> End_Of_Stream \<Longrightarrow> ingest cd course verified s is r s'"
proof (induction pre)
  case (Cons i pre)
  have "handle_event cd course verified i e s = Go s" if "\<forall>st. e \<noteq> Start st" for e
    using that Cons.prems(2) by (cases e) auto
  then have "ingest_turn cd course verified i s = Go s"
    using Cons.prems(2-4)
    by (auto simp: ingest_turn_def ordinary_def on_tick_def flush_def split: stream_item.splits option.splits)
  with Cons show ?case by (auto simp: ingest_Cons)
qed simp

section \<open>What is read back\<close>

fun chunks_in :: "input list \<Rightarrow> chunk list" where
  "chunks_in [] = []"
| "chunks_in (i # is) = (case in_item i of Got (Some (Chunk c)) \<Rightarrow> c # chunks_in is | _ \<Rightarrow> chunks_in is)"

lemma tape_step_rows:
  "tp_rows (tape_step cd sid i t) = tp_rows t @
     (case in_item i of Got (Some (Chunk c)) \<Rightarrow> [row_of cd sid (int (length (tp_rows t))) (in_now i) c] | _ \<Rightarrow> [])"
  by (simp add: tape_step_def split: stream_item.splits option.splits ingest_event.splits)

fun rows_from :: "codec \<Rightarrow> uuid \<Rightarrow> int \<Rightarrow> input list \<Rightarrow> terminal_event list" where
  "rows_from cd sid n [] = []"
| "rows_from cd sid n (i # is) =
     (case in_item i of
        Got (Some (Chunk c)) \<Rightarrow> row_of cd sid n (in_now i) c # rows_from cd sid (n + 1) is
      | _ \<Rightarrow> rows_from cd sid n is)"

lemma tape_rows:
  "tp_rows (fold (tape_step cd sid) is t) = tp_rows t @ rows_from cd sid (int (length (tp_rows t))) is"
  by (induction "is" arbitrary: t)
    (auto simp: tape_step_rows algebra_simps split: stream_item.splits option.splits ingest_event.splits)

lemma rows_from_facts:
  "length (rows_from cd sid n is) = length (chunks_in is)"
  "\<forall>r \<in> set (rows_from cd sid n is). te_session r = sid \<and> n \<le> te_seq r"
  "sorted (map te_seq (rows_from cd sid n is))"
  "map (sse_from_row cd) (rows_from cd sid n is) = map (sse_from_chunk cd) (chunks_in is)"
proof (induction "is" arbitrary: n)
  case (Cons i "is")
  {
    case 1
    show ?case using Cons.IH(1) by (auto split: stream_item.splits option.splits ingest_event.splits)
  next
    case 2
    show ?case using Cons.IH(2) [of "n + 1"] Cons.IH(2) [of n]
      by (auto simp: row_of_def split: stream_item.splits option.splits ingest_event.splits)
  next
    case 3
    show ?case using Cons.IH(2) [of "n + 1"] Cons.IH(3)
      by (auto simp: row_of_def split: stream_item.splits option.splits ingest_event.splits)
  next
    case 4
    show ?case using Cons.IH(4)
      by (auto simp: replay_is_live split: stream_item.splits option.splits ingest_event.splits)
  }
qed simp_all

definition wanted :: "str option \<Rightarrow> chunk \<Rightarrow> bool" where
  "wanted stream c \<longleftrightarrow>
     (if stream = Some (lit ''stdin'') then ch_stream c = 2
      else stream = Some (lit ''all'') \<or> ch_stream c \<noteq> 2)"

lemma transcript_rows_from:
  "transcript cd sid stream (rows_from cd sid n is) =
     concat (map (plain cd \<circ> ch_data) (filter (wanted stream) (chunks_in is)))"
proof -
  have A: "rows_of_session sid (rows_from cd sid n is) = rows_from cd sid n is"
    using rows_from_facts(2,3) [of cd sid n "is"]
    by (simp add: rows_of_session_def sort_key_id_if_sorted filter_id_conv)
  have T: "concat (map (text_of_row cd) (filter (\<lambda>r. p (te_stream r)) (rows_from cd sid n is))) =
      concat (map (plain cd \<circ> ch_data) (filter (\<lambda>c. p (stream_label (ch_stream c))) (chunks_in is)))" for p
    by (induction cd sid n "is" rule: rows_from.induct)
      (auto simp: row_of_def text_of_row_def split: stream_item.splits option.splits ingest_event.splits)
  show ?thesis
    using A T [of "\<lambda>l. l = lit ''stdin''"] T [of "\<lambda>l. l = lit ''stdout''"] T [of "\<lambda>_. True"]
    by (auto simp: transcript_def transcript_loop_spec concat_pages HISTORY_PAGE_def wanted_def [abs_def]
        stream_label_def Let_def)
qed

lemma ingest_total:
  "End_Of_Stream \<in> in_item ` set is \<Longrightarrow> \<exists>r s'. ingest cd course verified s is r s'"
proof (induction "is" arbitrary: s)
  case (Cons i "is")
  show ?case
  proof (cases "in_item i = End_Of_Stream")
    case True
    then show ?thesis by (cases "finish_stream i s") (auto simp: ingest_Cons)
  next
    case False
    then show ?thesis
      using Cons by (cases "ingest_turn cd course verified i s") (auto simp: ingest_Cons)
  qed
qed simp

lemma ingest_deterministic:
  "ingest cd course verified s is r s' \<Longrightarrow> ingest cd course verified s is r2 s2 \<Longrightarrow> r2 = r \<and> s2 = s'"
  by (induction arbitrary: r2 s2 rule: ingest.induct) (auto simp: ingest_Cons)

text \<open>C7: A recording is complete: when the writes succeed and the stream ends in order, the call
  returns, with the session's id and its number of chunks; every chunk after the start is in the
  table once, in order, whatever ticks and full buffers came between, and nothing else of the
  table changed; the session is closed with the reported exit code, the verified name if there
  is one and the count of error-like outputs; its channel is gone; and the transcript reads
  back exactly the text of the chunks of the side asked for.\<close>

theorem session_is_recorded:
  assumes "in_item st = Got (Some (Start who))" "inserts_ok st" "map_of tbl (in_uuid st) = None"
    "\<forall>i \<in> set pre. ordinary i \<and> in_item i \<noteq> End_Of_Stream" "\<forall>i \<in> set post. ordinary i"
    "End_Of_Stream \<in> in_item ` set post" "\<forall>r \<in> set evs. te_session r \<noteq> in_uuid st"
  shows "let sid = in_uuid st; heard = takeWhile (\<lambda>i. in_item i \<noteq> End_Of_Stream) post;
      t = fold (tape_step cd sid) heard tape_new in
    \<exists>s' row.
      (\<forall>r s2. ingest cd course verified (stream_new tbl evs chs) (pre @ st # post) r s2 \<longleftrightarrow>
         r = Inr \<lparr>sm_session = Some sid, sm_chunks = int (length (chunks_in heard))\<rparr> \<and> s2 = s') \<and>
      events_tbl s' = evs @ rows_from cd sid 0 heard \<and> sid \<notin> set (channels s') \<and>
      map_of (sessions_tbl s') sid = Some row \<and> se_student row = unwrap_or verified (ss_student who) \<and>
      se_status row = lit ''ended'' \<and> se_exit row = tp_exit t \<and> se_errors row = tp_errors t \<and>
      transcript cd sid stream (events_tbl s') =
        concat (map (plain cd \<circ> ch_data) (filter (wanted stream) (chunks_in heard)))"
proof -
  define sid where "sid = in_uuid st"
  define heard where "heard = takeWhile (\<lambda>i. in_item i \<noteq> End_Of_Stream) post"
  define s0 where "s0 = stream_new tbl evs chs"
  define s1 where "s1 = s0\<lparr>sessions_tbl := AList.update sid (new_session course verified (in_now st) who) tbl,
      channels := List.insert sid (channels s0), session_id := Some sid\<rparr>"
  have turn: "ingest_turn cd course verified st s0 = Go s1"
    using assms(1-3) by (simp add: ingest_turn_def s0_def s1_def sid_def stream_new_def)
  have f: "follows evs sid (unwrap_or verified (ss_student who)) s1 tape_new"
    by (simp add: follows_def s1_def s0_def stream_new_def tape_new_def new_session_def)
  obtain r s' where run: "ingest cd course verified s0 (pre @ st # post) r s'"
    using ingest_total [of "pre @ st # post" cd course verified s0] assms(6) by auto
  then have "ingest cd course verified s0 (st # post) r s'"
    by (rule ingest_before_start) (use assms(4) in \<open>simp_all add: s0_def stream_new_def\<close>)
  then have "ingest cd course verified s1 post r s'"
    using turn assms(1) by (auto simp: ingest_Cons)
  from ingest_follows [OF this f assms(5), folded heard_def]
  obtain row where R: "r = Inr \<lparr>sm_session = Some sid, sm_chunks = int (length (rows_from cd sid 0 heard))\<rparr>"
      "events_tbl s' = evs @ rows_from cd sid 0 heard" "sid \<notin> set (channels s')"
      "map_of (sessions_tbl s') sid = Some row" "se_student row = unwrap_or verified (ss_student who)"
      "se_status row = lit ''ended''" "se_errors row = tp_errors (fold (tape_step cd sid) heard tape_new)"
      "se_exit row = tp_exit (fold (tape_step cd sid) heard tape_new)"
    unfolding Let_def tape_rows by (auto simp: tape_new_def)
  have "filter (\<lambda>r. te_session r = sid) (events_tbl s') =
      filter (\<lambda>r. te_session r = sid) (rows_from cd sid 0 heard)"
    using R(2) assms(7) by (simp add: sid_def filter_empty_conv)
  then have "transcript cd sid stream (events_tbl s') = transcript cd sid stream (rows_from cd sid 0 heard)"
    by (simp only: transcript_def rows_of_session_def)
  then have T: "transcript cd sid stream (events_tbl s') =
      concat (map (plain cd \<circ> ch_data) (filter (wanted stream) (chunks_in heard)))"
    by (simp only: transcript_rows_from)
  have res: "r = Inr \<lparr>sm_session = Some sid, sm_chunks = int (length (chunks_in heard))\<rparr>"
    using R(1) unfolding rows_from_facts(1) .
  have U: "\<forall>r s2. ingest cd course verified s0 (pre @ st # post) r s2 \<longleftrightarrow>
      r = Inr \<lparr>sm_session = Some sid, sm_chunks = int (length (chunks_in heard))\<rparr> \<and> s2 = s'"
    using run ingest_deterministic [OF run] unfolding res by blast
  show ?thesis
    unfolding Let_def heard_def [symmetric] sid_def [symmetric] s0_def [symmetric]
    by (intro exI conjI, rule U, rule R(2), rule R(3), rule R(4), rule R(5), rule R(6), rule R(8), rule R(7), rule T)
qed

definition demo_codec :: codec where
  "demo_codec = \<lparr>strip_ansi = (\<lambda>bs. bs), b64_encode = map Cp, b64_decode = (\<lambda>s. Some (map code s))\<rparr>"

lemma demo_plain [simp]: "list_all (\<lambda>b. b < 128) bs \<Longrightarrow> plain demo_codec bs = map Cp bs"
proof -
  assume ascii: "list_all (\<lambda>b. b < 128) bs"
  then have "encode (map Cp bs) = bs" by (induction bs) (simp_all add: encode_char_def)
  moreover have "list_all scalar (map Cp bs)" using ascii by (induction bs) (simp_all add: scalar_def)
  ultimately show ?thesis by (intro plain_encode) (simp_all add: demo_codec_def)
qed

lemma demo_base64 [simp]:
  "b64_encode demo_codec bs = map Cp bs" "b64_decode demo_codec (map Cp bs) = Some bs"
  by (simp_all add: demo_codec_def comp_def)

definition demo_input :: "stream_item \<Rightarrow> input" where
  "demo_input x = \<lparr>in_item = x, in_now = 0, in_uuid = Uuid 7, inserts_ok = True, updates_ok = True\<rparr>"

definition demo_start :: session_start where
  "demo_start = \<lparr>ss_student = lit ''ada'', ss_command = lit ''bash'', ss_hostname = [], ss_cols = 80, ss_rows = 24\<rparr>"

definition demo_chunk :: "int \<Rightarrow> byte list \<Rightarrow> input" where
  "demo_chunk stream bs = demo_input (Got (Some (Chunk \<lparr>ch_stream = stream, ch_data = bs, ch_offset = 0\<rparr>)))"

lemmas demo_input_defs = demo_input_def demo_chunk_def demo_start_def ordinary_def

theorem session_is_recorded_witness:
  "\<exists>s'. ingest demo_codec (Uuid 1) None (stream_new [] [] [])
     [demo_input (Got (Some (Start demo_start))), demo_chunk 1 [104, 105], demo_input Tick,
      demo_chunk 2 [120], demo_input (Got (Some (End 3))), demo_input End_Of_Stream]
     (Inr \<lparr>sm_session = Some (Uuid 7), sm_chunks = 2\<rparr>) s' \<and>
   transcript demo_codec (Uuid 7) None (events_tbl s') = [Cp 104, Cp 105] \<and>
   (\<exists>row. map_of (sessions_tbl s') (Uuid 7) = Some row \<and> se_exit row = Some 3)"
  using session_is_recorded [of "demo_input (Got (Some (Start demo_start)))" demo_start "[]" "[]"
    "[demo_chunk 1 [104, 105], demo_input Tick, demo_chunk 2 [120], demo_input (Got (Some (End 3))),
      demo_input End_Of_Stream]" "[]" demo_codec "Uuid 1" None "[]" None]
  by (auto simp: Let_def demo_input_defs tape_step_def tape_new_def wanted_def)

text \<open>The session is the open one, its row is active and its channel is there.\<close>

definition open_in :: "uuid \<Rightarrow> stream \<Rightarrow> bool" where
  "open_in sid s \<longleftrightarrow> session_id s = Some sid \<and> sid \<in> set (channels s) \<and>
     (\<exists>row. map_of (sessions_tbl s) sid = Some row \<and> se_status row = lit ''active'')"

lemma open_in_flush: "open_in sid s \<Longrightarrow> case flush ok s of Go y \<Rightarrow> open_in sid y | Stop _ y \<Rightarrow> open_in sid y"
  by (simp add: open_in_def flush_def)

lemma open_in_persist: "open_in sid s \<Longrightarrow> open_in sid (persist_error_count ok sid s)"
  by (auto simp: open_in_def persist_error_count_def update_session_def split: option.splits)

lemma open_in_turn:
  assumes o: "open_in sid s"
    and ordinary: "\<forall>st. in_item i \<noteq> Got (Some (Start st))" "\<forall>x. in_item i \<noteq> Got (Some (End x))"
  shows "case ingest_turn cd course verified i s of Go y \<Rightarrow> open_in sid y | Stop _ y \<Rightarrow> open_in sid y"
proof (cases "in_item i")
  case (Got ev)
  then show ?thesis
  proof (cases ev)
    case (Some e)
    have "open_in sid (s\<lparr>error_count := n, buffer := b, seq := q, fanned_out := g\<rparr>)" for n b q g
      using o by (simp add: open_in_def)
    from open_in_flush [OF this] show ?thesis
      using Got Some o ordinary
      by (cases e) (auto simp: ingest_turn_def Let_def open_in_def update_session_def split: option.splits)
  qed (use o in \<open>simp add: ingest_turn_def\<close>)
next
  case Tick
  have s: "session_id s = Some sid" using o by (simp add: open_in_def)
  show ?thesis
    using open_in_flush [OF o, of "inserts_ok i"] open_in_persist s
    by (cases "flush (inserts_ok i) s") (auto simp: ingest_turn_def on_tick_def Tick open_in_def split: option.splits)
qed (use o in \<open>simp_all add: ingest_turn_def\<close>)

lemma open_in_finish: "open_in sid s \<Longrightarrow> finish_stream i s = Stop e s' \<Longrightarrow> open_in sid s'"
  using open_in_flush [of sid s "inserts_ok i"]
  by (cases "flush (inserts_ok i) s") (auto simp: finish_stream_def Let_def split: option.splits)

lemma open_in_failed:
  "ingest cd course verified s is (Inl e) s' \<Longrightarrow> open_in sid s \<Longrightarrow>
   \<forall>i \<in> set is. (\<forall>st. in_item i \<noteq> Got (Some (Start st))) \<and> (\<forall>x. in_item i \<noteq> Got (Some (End x))) \<Longrightarrow>
   open_in sid s'"
proof (induction "is" arbitrary: s)
  case Nil
  from Nil(1) show ?case by (cases rule: ingest.cases)
next
  case (Cons i "is")
  have turn: "case ingest_turn cd course verified i s of Go y \<Rightarrow> open_in sid y | Stop _ y \<Rightarrow> open_in sid y"
    using Cons.prems(2,3) by (intro open_in_turn) simp_all
  then show ?case
    using Cons open_in_finish [OF Cons.prems(2)]
    by (auto simp: ingest_Cons split: if_splits flow.splits)
qed

text \<open>C36: A stream that breaks leaves its session open: whenever the call answers with an error, be it
  a transport error or a failed write, before the recorder reported an exit, the session stays
  active for good and its channel is never removed; no step runs after the error.\<close>

theorem broken_stream_leaves_session_active:
  assumes "ingest cd course verified s is (Inl e) s'" "session_id s = Some sid"
    "map_of (sessions_tbl s) sid = Some row" "se_status row = lit ''active''"
    "\<forall>i \<in> set is. (\<forall>st. in_item i \<noteq> Got (Some (Start st))) \<and> (\<forall>x. in_item i \<noteq> Got (Some (End x)))"
    "sid \<in> set (channels s)"
  shows "(\<exists>row'. map_of (sessions_tbl s') sid = Some row' \<and> se_status row' = lit ''active'') \<and>
    sid \<in> set (channels s')"
  using open_in_failed [OF assms(1), of sid] assms(2-6) by (simp add: open_in_def)

theorem broken_stream_leaves_session_active_witness:
  "\<exists>s s'. ingest_turn demo_codec (Uuid 1) None (demo_input (Got (Some (Start demo_start)))) (stream_new [] [] []) = Go s \<and>
     ingest demo_codec (Uuid 1) None s [demo_chunk 1 [104, 105], demo_input Transport_Error] (Inl Grpc_Internal) s' \<and>
     events_tbl s' = [] \<and> (\<exists>row'. map_of (sessions_tbl s') (Uuid 7) = Some row' \<and> se_status row' = lit ''active'') \<and>
     Uuid 7 \<in> set (channels s')"
proof -
  obtain s where s: "ingest_turn demo_codec (Uuid 1) None (demo_input (Got (Some (Start demo_start)))) (stream_new [] [] []) = Go s"
      "session_id s = Some (Uuid 7)" "Uuid 7 \<in> set (channels s)" "buffer s = []" "events_tbl s = []"
      "map_of (sessions_tbl s) (Uuid 7) = Some (new_session (Uuid 1) None 0 demo_start)"
    by (simp add: ingest_turn_def demo_input_defs stream_new_def)
  obtain s' where s': "ingest demo_codec (Uuid 1) None s [demo_chunk 1 [104, 105], demo_input Transport_Error] (Inl Grpc_Internal) s'"
      "events_tbl s' = []"
    using s by (auto simp: ingest_Cons ingest_turn_def demo_input_defs Let_def BATCH_SIZE_def)
  from broken_stream_leaves_session_active [OF s'(1) s(2) s(6)] s s' show ?thesis
    by (auto simp: new_session_def demo_input_defs)
qed

section \<open>A viewer that joins while a chunk is buffered\<close>

text \<open>The viewer subscribes in state \<open>s1\<close>, reads the history there and receives what is fanned out
  afterwards: the chunk that was fanned out before and not yet written is in neither.\<close>

lemma late_viewer_misses_buffered_chunk:
  assumes "ingest_turn demo_codec (Uuid 1) None (demo_chunk 1 [104])
       ((stream_new [] [] [Uuid 7])\<lparr>session_id := Some (Uuid 7)\<rparr>) = Go s1"
  shows "\<exists>s2. ingest demo_codec (Uuid 1) None s1 [demo_chunk 1 [105], demo_input End_Of_Stream]
       (Inr \<lparr>sm_session = Some (Uuid 7), sm_chunks = 2\<rparr>) s2 \<and>
     map (\<lambda>r. te_data r) (events_tbl s2) = [[Cp 104], [Cp 105]] \<and>
     map ch_data (watch_session demo_codec (Uuid 7) True (events_tbl s1)
       (map snd (drop (length (fanned_out s1)) (fanned_out s2)))) = [[105]]"
proof -
  have nf: "\<not> flags_error demo_codec \<lparr>ch_stream = 1, ch_data = [b], ch_offset = 0\<rparr>" if "b \<in> {104, 105}" for b
    using that by (auto simp: flags_error_def looks_like_error_def to_ascii_lowercase_def
        ascii_defs ERROR_SIGNALS_def contains_iff lit_def append_eq_Cons_conv)
  have s1: "s1 = (stream_new [] [] [Uuid 7])\<lparr>session_id := Some (Uuid 7),
       buffer := [row_of demo_codec (Uuid 7) 0 0 \<lparr>ch_stream = 1, ch_data = [104], ch_offset = 0\<rparr>],
       seq := 1, fanned_out := [(Uuid 7, \<lparr>ch_stream = 1, ch_data = [104], ch_offset = 0\<rparr>)]\<rparr>"
    using nf assms by (simp add: ingest_turn_def demo_chunk_def demo_input_def stream_new_def BATCH_SIZE_def)
  show ?thesis
    using nf
    by (simp add: s1 ingest_Cons ingest_turn_def demo_chunk_def demo_input_def stream_new_def
        BATCH_SIZE_def finish_stream_def flush_def persist_error_count_def finalize_def update_session_def
        watch_session_def pages.simps rows_of_session_def row_of_def decode_chunk_def)
qed

end
