(* ===== verification/Exercises.thy ===== *)
theory Exercises
  imports Students
begin

text \<open>
  The exercises a teacher defines: \<^verbatim>\<open>crates/server/src/exercises.rs\<close>. A table row is a record;
  the table is a list with one row per course and slug (the unique constraint the migrations
  declare, \<open>wf_exercises\<close>). The lemmas show what a bulk definition leaves behind.
\<close>

record exercise =
  ex_id :: uuid
  ex_course :: uuid
  ex_slug :: str
  ex_title :: str
  ex_position :: int
  ex_created :: int

definition list_for_course :: "uuid \<Rightarrow> exercise list \<Rightarrow> exercise list" where
  "list_for_course course tbl =
     sort_key (\<lambda>e. (ex_position e, ex_slug e)) (filter (\<lambda>e. ex_course e = course) tbl)"

record exercise_in =
  ei_slug :: str
  ei_title :: "str option"
  ei_position :: "int option"

type_synonym item = "str \<times> str \<times> int"

text \<open>The items of a request: trimmed slugs, blank ones skipped, the index as default position.\<close>

fun define_items :: "int \<Rightarrow> exercise_in list \<Rightarrow> item list" where
  "define_items idx [] = []"
| "define_items idx (ex # exs) =
     (let slug = trim (ei_slug ex) in
      if slug = [] then define_items (idx + 1) exs
      else (slug, unwrap_or (ei_title ex) slug, unwrap_or (ei_position ex) idx) # define_items (idx + 1) exs)"

text \<open>The last item of a slug wins: walked backwards, keeping the first of each.\<close>

fun keep_last :: "item list \<Rightarrow> item list \<Rightarrow> item list" where
  "keep_last [] kept = kept"
| "keep_last (i # items) kept =
     (if list_ex (\<lambda>k. fst k = fst i) kept then keep_last items kept else keep_last items (kept @ [i]))"

definition last_wins :: "item list \<Rightarrow> item list" where
  "last_wins items = rev (keep_last (rev items) [])"

text \<open>\<^verbatim>\<open>INSERT \<dots> ON CONFLICT (course_id, slug) DO UPDATE SET title, position\<close>, one row of it.\<close>

definition put_exercise :: "uuid \<Rightarrow> int \<Rightarrow> uuid \<Rightarrow> item \<Rightarrow> exercise list \<Rightarrow> exercise list" where
  "put_exercise course now new_id i tbl =
     (let (slug, title, pos) = i in
      if list_ex (\<lambda>e. ex_course e = course \<and> ex_slug e = slug) tbl
      then map (\<lambda>e. if ex_course e = course \<and> ex_slug e = slug
                     then e\<lparr>ex_title := title, ex_position := pos\<rparr> else e) tbl
      else tbl @ [\<lparr>ex_id = new_id, ex_course = course, ex_slug = slug, ex_title = title,
        ex_position = pos, ex_created = now\<rparr>])"

fun put_exercises :: "uuid \<Rightarrow> int \<Rightarrow> (nat \<Rightarrow> uuid) \<Rightarrow> nat \<Rightarrow> item list \<Rightarrow> exercise list \<Rightarrow> exercise list" where
  "put_exercises course now ids n [] tbl = tbl"
| "put_exercises course now ids n (i # items) tbl =
     put_exercises course now ids (Suc n) items (put_exercise course now (ids n) i tbl)"

definition upsert_exercises :: "uuid \<Rightarrow> int \<Rightarrow> (nat \<Rightarrow> uuid) \<Rightarrow> item list \<Rightarrow> exercise list \<Rightarrow> exercise list" where
  "upsert_exercises course now ids items tbl = put_exercises course now ids 0 (last_wins items) tbl"

definition delete_missing :: "uuid \<Rightarrow> str list \<Rightarrow> exercise list \<Rightarrow> exercise list" where
  "delete_missing course keep tbl =
     filter (\<lambda>e. \<not> (ex_course e = course \<and> (keep = [] \<or> ex_slug e \<notin> set keep))) tbl"

definition define_exercises ::
    "uuid \<Rightarrow> int \<Rightarrow> (nat \<Rightarrow> uuid) \<Rightarrow> exercise_in list \<Rightarrow> bool \<Rightarrow> exercise list \<Rightarrow> exercise list" where
  "define_exercises course now ids exs replace tbl =
     (let items = define_items 0 exs;
          tbl = upsert_exercises course now ids items tbl
      in if replace then delete_missing course (map fst items) tbl else tbl)"

section \<open>What a bulk definition leaves\<close>

definition wf_exercises :: "exercise list \<Rightarrow> bool" where
  "wf_exercises tbl \<longleftrightarrow> distinct (map (\<lambda>e. (ex_course e, ex_slug e)) tbl)"

definition as_item :: "exercise \<Rightarrow> item" where
  "as_item e = (ex_slug e, ex_title e, ex_position e)"

definition items_of :: "uuid \<Rightarrow> exercise list \<Rightarrow> item set" where
  "items_of course tbl = as_item ` {e \<in> set tbl. ex_course e = course}"

definition others :: "uuid \<Rightarrow> exercise list \<Rightarrow> exercise list" where
  "others course tbl = filter (\<lambda>e. ex_course e \<noteq> course) tbl"

lemma keep_last_spec:
  "distinct (map fst kept) \<Longrightarrow>
     distinct (map fst (keep_last items kept)) \<and>
     (\<forall>i. i \<in> set (keep_last items kept) \<longleftrightarrow> i \<in> set kept \<or>
        (fst i \<notin> fst ` set kept \<and> map_of items (fst i) = Some (snd i)))"
proof (induction items kept rule: keep_last.induct)
  case (2 i items kept)
  obtain s v where i: "i = (s, v)" by (cases i)
  have ex: "list_ex (\<lambda>k. fst k = fst i) kept \<longleftrightarrow> s \<in> fst ` set kept"
    by (auto simp: i list_ex_iff)
  show ?case
  proof (cases "s \<in> fst ` set kept")
    case True
    with 2 ex i show ?thesis by auto
  next
    case False
    then have "distinct (map fst (kept @ [i]))" using 2(3) by (auto simp: i)
    with 2(2) False ex i show ?thesis by auto
  qed
qed simp

lemma last_wins_spec:
  "distinct (map fst (last_wins items))"
  "i \<in> set (last_wins items) \<longleftrightarrow> map_of (rev items) (fst i) = Some (snd i)"
  using keep_last_spec [of "[]" "rev items"]
  by (simp_all add: last_wins_def rev_map [symmetric] del: split_paired_All)

lemma put_exercise_spec:
  assumes "wf_exercises tbl"
  shows "wf_exercises (put_exercise course now n i tbl)"
    "items_of course (put_exercise course now n i tbl) =
       insert i {j \<in> items_of course tbl. fst j \<noteq> fst i}"
    "others course (put_exercise course now n i tbl) = others course tbl"
proof -
  obtain slug title pos where i: "i = (slug, title, pos)" by (cases i)
  define hit :: "exercise \<Rightarrow> bool" where "hit = (\<lambda>e. ex_course e = course \<and> ex_slug e = slug)"
  define upd :: "exercise \<Rightarrow> exercise" where "upd = (\<lambda>e. if hit e then e\<lparr>ex_title := title, ex_position := pos\<rparr> else e)"
  have put: "put_exercise course now n i tbl =
      (if list_ex hit tbl then map upd tbl
       else tbl @ [\<lparr>ex_id = n, ex_course = course, ex_slug = slug, ex_title = title, ex_position = pos,
         ex_created = now\<rparr>])"
    by (simp add: put_exercise_def i hit_def upd_def)
  have key: "(\<lambda>e. (ex_course e, ex_slug e)) \<circ> upd = (\<lambda>e. (ex_course e, ex_slug e))"
    by (auto simp: upd_def)
  show "wf_exercises (put_exercise course now n i tbl)"
    using assms by (auto simp: put wf_exercises_def key list_ex_iff hit_def)
  show "items_of course (put_exercise course now n i tbl) =
       insert i {j \<in> items_of course tbl. fst j \<noteq> fst i}"
  proof (cases "list_ex hit tbl")
    case True
    then obtain e where e: "e \<in> set tbl" "hit e" by (auto simp: list_ex_iff)
    have it: "as_item (upd x) = (if hit x then i else as_item x)" "ex_course (upd x) = ex_course x" for x
      by (auto simp: upd_def as_item_def i hit_def)
    have "items_of course (map upd tbl) = (\<lambda>x. if hit x then i else as_item x) ` {x \<in> set tbl. ex_course x = course}"
    proof -
      have "{x \<in> set (map upd tbl). ex_course x = course} = upd ` {x \<in> set tbl. ex_course x = course}"
        using it(2) by auto
      then show ?thesis unfolding items_of_def by (simp only: image_image it(1))
    qed
    also have "\<dots> = insert i (as_item ` {x \<in> set tbl. ex_course x = course \<and> \<not> hit x})"
    proof -
      have "e \<in> {x \<in> set tbl. ex_course x = course} \<and> hit e" using e by (simp add: hit_def)
      then show ?thesis by (auto simp: image_iff intro: bexI [of _ e])
    qed
    also have "as_item ` {x \<in> set tbl. ex_course x = course \<and> \<not> hit x} = {j \<in> items_of course tbl. fst j \<noteq> fst i}"
    proof -
      have "\<not> hit x \<longleftrightarrow> fst (as_item x) \<noteq> fst i" if "ex_course x = course" for x
        using that by (simp add: hit_def as_item_def i)
      then show ?thesis unfolding items_of_def by blast
    qed
    finally show ?thesis using True by (simp add: put)
  next
    case False
    then have old: "{j \<in> items_of course tbl. fst j \<noteq> fst i} = items_of course tbl"
      by (auto simp: items_of_def as_item_def i hit_def list_ex_iff)
    have snoc: "items_of course (tbl @ [e]) = insert (as_item e) (items_of course tbl)"
      if "ex_course e = course" for e
    proof -
      have "{x \<in> set (tbl @ [e]). ex_course x = course} = insert e {x \<in> set tbl. ex_course x = course}"
        using that by auto
      then show ?thesis by (simp only: items_of_def image_insert)
    qed
    from snoc [of "\<lparr>ex_id = n, ex_course = course, ex_slug = slug, ex_title = title,
        ex_position = pos, ex_created = now\<rparr>"]
    have "items_of course (tbl @ [\<lparr>ex_id = n, ex_course = course, ex_slug = slug, ex_title = title,
        ex_position = pos, ex_created = now\<rparr>]) = insert i (items_of course tbl)"
      by (simp add: as_item_def i)
    then show ?thesis using False old by (simp add: put)
  qed
  have "filter (\<lambda>e. ex_course e \<noteq> course) (map upd xs) = filter (\<lambda>e. ex_course e \<noteq> course) xs" for xs
    by (induction xs) (auto simp: upd_def hit_def)
  then show "others course (put_exercise course now n i tbl) = others course tbl"
    by (simp add: put others_def)
qed

lemma put_exercises_spec:
  "wf_exercises tbl \<Longrightarrow> distinct (map fst items) \<Longrightarrow>
     wf_exercises (put_exercises course now ids n items tbl) \<and>
     items_of course (put_exercises course now ids n items tbl) =
       set items \<union> {j \<in> items_of course tbl. fst j \<notin> fst ` set items} \<and>
     others course (put_exercises course now ids n items tbl) = others course tbl"
proof (induction items arbitrary: n tbl)
  case (Cons i items)
  note P = put_exercise_spec [OF Cons.prems(1), of course now "ids n" i]
  have "distinct (map fst items)" "fst i \<notin> fst ` set items" using Cons.prems(2) by auto
  with Cons.IH [OF P(1), of "Suc n"] P(2,3) show ?case by auto
qed simp

lemma delete_missing_spec:
  "wf_exercises tbl \<Longrightarrow> wf_exercises (delete_missing course keep tbl)"
  "items_of course (delete_missing course keep tbl) = {j \<in> items_of course tbl. fst j \<in> set keep}"
  "others course (delete_missing course keep tbl) = others course tbl"
  by (auto simp: wf_exercises_def delete_missing_def items_of_def as_item_def others_def distinct_map_filter
      intro!: filter_cong)

lemma list_for_course_spec:
  "set (map as_item (list_for_course course tbl)) = items_of course tbl"
  "sorted (map (\<lambda>e. (ex_position e, ex_slug e)) (list_for_course course tbl))"
  "wf_exercises tbl \<Longrightarrow> distinct (map ex_slug (list_for_course course tbl))"
proof -
  show "set (map as_item (list_for_course course tbl)) = items_of course tbl"
    by (auto simp: list_for_course_def items_of_def)
  show "sorted (map (\<lambda>e. (ex_position e, ex_slug e)) (list_for_course course tbl))"
    by (simp add: list_for_course_def)
  assume "wf_exercises tbl"
  then have "distinct (map ex_slug (filter (\<lambda>e. ex_course e = course) tbl))"
    by (auto simp: wf_exercises_def distinct_map inj_on_def distinct_filter)
  then show "distinct (map ex_slug (list_for_course course tbl))"
    by (simp add: list_for_course_def distinct_map)
qed

text \<open>Defining exercises in bulk sets exactly what was asked: the list of the course, sorted by
  position and then slug and without a slug twice, holds the last entry of each slug of the
  request and, unless it replaces, the earlier exercises the request does not name; the rows of
  the other courses are untouched.\<close>

theorem define_sets_the_list:
  assumes "wf_exercises tbl"
  shows "let items = define_items 0 exs; tbl' = define_exercises course now ids exs replace tbl;
      shown = list_for_course course tbl' in
    wf_exercises tbl' \<and> others course tbl' = others course tbl \<and>
    sorted (map (\<lambda>e. (ex_position e, ex_slug e)) shown) \<and> distinct (map ex_slug shown) \<and>
    set (map as_item shown) =
      {i. map_of (rev items) (fst i) = Some (snd i)} \<union>
      (if replace then {} else {j \<in> items_of course tbl. fst j \<notin> fst ` set items})"
proof -
  define items where "items = define_items 0 exs"
  define tbl1 where "tbl1 = upsert_exercises course now ids items tbl"
  have names: "fst ` set (last_wins items) = fst ` set items"
  proof (rule set_eqI)
    fix s
    have "s \<in> fst ` set (last_wins items) \<longleftrightarrow> (\<exists>i \<in> set (last_wins items). fst i = s)" by auto
    also have "\<dots> \<longleftrightarrow> (\<exists>v. (s, v) \<in> set (last_wins items))" by force
    also have "\<dots> \<longleftrightarrow> map_of (rev items) s \<noteq> None" by (simp add: last_wins_spec(2))
    finally have "s \<in> fst ` set (last_wins items) \<longleftrightarrow> map_of (rev items) s \<noteq> None" .
    then show "s \<in> fst ` set (last_wins items) \<longleftrightarrow> s \<in> fst ` set items"
      by (simp add: map_of_eq_None_iff)
  qed
  have lw: "set (last_wins items) = {i. map_of (rev items) (fst i) = Some (snd i)}"
    using last_wins_spec(2) by auto
  have U: "wf_exercises tbl1" "others course tbl1 = others course tbl"
    "items_of course tbl1 = {i. map_of (rev items) (fst i) = Some (snd i)} \<union>
       {j \<in> items_of course tbl. fst j \<notin> fst ` set items}"
    using put_exercises_spec [OF assms last_wins_spec(1), where items1 = items]
    unfolding tbl1_def upsert_exercises_def lw [symmetric] names [symmetric] by auto
  have hit: "fst i \<in> fst ` set items" if "map_of (rev items) (fst i) = Some (snd i)" for i
    using map_of_SomeD [OF that] by force
  have D: "define_exercises course now ids exs replace tbl =
      (if replace then delete_missing course (map fst items) tbl1 else tbl1)"
    by (simp add: define_exercises_def items_def tbl1_def Let_def)
  show ?thesis
    unfolding Let_def items_def [symmetric] D
    using U hit delete_missing_spec(1) [OF U(1)] delete_missing_spec(2,3)
    by (auto simp: list_for_course_spec list_for_course_spec(1) [simplified])
qed

theorem define_sets_the_list_witness:
  "let tbl = [\<lparr>ex_id = Uuid 1, ex_course = Uuid 9, ex_slug = lit ''old'', ex_title = lit ''Old'',
        ex_position = 0, ex_created = 0\<rparr>];
      exs = [\<lparr>ei_slug = lit ''a'', ei_title = None, ei_position = None\<rparr>] in
   set (map as_item (list_for_course (Uuid 9) (define_exercises (Uuid 9) 5 Uuid exs True tbl))) =
     {(lit ''a'', lit ''a'', 0)}"
proof -
  have t: "trim (lit ''a'') = lit ''a''"
    by (simp add: lit_def trim_def trim_matches_def trim_end_def trim_start_def is_whitespace_def)
  show ?thesis
    using define_sets_the_list [of "[\<lparr>ex_id = Uuid 1, ex_course = Uuid 9, ex_slug = lit ''old'', ex_title = lit ''Old'',
        ex_position = 0, ex_created = 0\<rparr>]" "[\<lparr>ei_slug = lit ''a'', ei_title = None, ei_position = None\<rparr>]"
        "Uuid 9" 5 Uuid True]
    by (auto simp: wf_exercises_def Let_def t split: if_splits)
qed

end
