(* ===== verification/Tenancy.thy ===== *)
theory Tenancy
  imports Exercises Text_Rules
begin

text \<open>
  Admins, courses and memberships: \<^verbatim>\<open>crates/server/src/tenancy.rs\<close> over the tables of its
  database. A table is the list of its rows; the unique and foreign keys the migrations declare
  are \<open>wf_db\<close>, and an insert or update that would break one fails as the database makes it fail.
  Argon2 is the parameter record \<open>hasher\<close>; random ids and tokens are arguments. The lemmas show
  that the operations keep the keys and never leave a course that had a member without one.
\<close>

record admin =
  ad_id :: uuid
  ad_username :: str
  ad_hash :: str

record course =
  co_id :: uuid
  co_slug :: str
  co_name :: str
  co_token :: str
  co_repo :: "str option"
  co_archived :: "int option"
  co_ref :: "str option"
  co_dir :: "str option"
  co_description :: "str option"
  co_term :: "str option"
  co_institution :: "str option"
  co_level :: "str option"
  co_created :: int

record db =
  admins :: "admin list"
  courses :: "course list"
  members :: "(uuid \<times> uuid) list"
  exercises :: "exercise list"

definition DEFAULT_COURSE_ID :: uuid where "DEFAULT_COURSE_ID = Uuid 1"

section \<open>Admins\<close>

record hasher =
  hash_password :: "str \<Rightarrow> str option"
  verify_password :: "str \<Rightarrow> str \<Rightarrow> bool"

datatype create_admin_error = Hash_Failed | Db db_err

definition create_admin ::
    "hasher \<Rightarrow> uuid \<Rightarrow> str \<Rightarrow> str \<Rightarrow> db \<Rightarrow> (create_admin_error + admin) \<times> db" where
  "create_admin h new_id username password db =
     (case hash_password h password of
        None \<Rightarrow> (Inl Hash_Failed, db)
      | Some hash \<Rightarrow>
          if list_ex (\<lambda>a. ad_username a = username \<or> ad_id a = new_id) (admins db)
          then (Inl (Db (Unique_Violation [])), db)
          else (let a = \<lparr>ad_id = new_id, ad_username = username, ad_hash = hash\<rparr>
                in (Inr a, db\<lparr>admins := admins db @ [a]\<rparr>)))"

definition find_admin :: "str \<Rightarrow> db \<Rightarrow> admin option" where
  "find_admin username db = List.find (\<lambda>a. ad_username a = username) (admins db)"

definition verify_login :: "hasher \<Rightarrow> str \<Rightarrow> str \<Rightarrow> db \<Rightarrow> uuid option" where
  "verify_login h username password db =
     (case find_admin username db of
        None \<Rightarrow> None
      | Some a \<Rightarrow> if verify_password h password (ad_hash a) then Some (ad_id a) else None)"

definition count_admins :: "db \<Rightarrow> nat" where
  "count_admins db = length (admins db)"

definition admin_by_username :: "str \<Rightarrow> db \<Rightarrow> uuid option" where
  "admin_by_username username db = map_option ad_id (find_admin username db)"

section \<open>Courses\<close>

definition archived_filter :: "bool \<Rightarrow> course \<Rightarrow> bool" where
  "archived_filter archived c = (if archived then co_archived c \<noteq> None else co_archived c = None)"

record course_profile =
  pf_description :: "str option"
  pf_term :: "str option"
  pf_institution :: "str option"
  pf_level :: "str option"

definition normalized :: "course_profile \<Rightarrow> course_profile" where
  "normalized p =
     \<lparr>pf_description = non_blank (pf_description p), pf_term = non_blank (pf_term p),
      pf_institution = non_blank (pf_institution p), pf_level = non_blank (pf_level p)\<rparr>"

definition create_course_with_profile ::
    "uuid \<Rightarrow> str \<Rightarrow> int \<Rightarrow> str \<Rightarrow> str \<Rightarrow> str option \<Rightarrow> course_profile \<Rightarrow> db \<Rightarrow> (db_err + course) \<times> db" where
  "create_course_with_profile new_id new_token now slug name repo p db =
     (let c = \<lparr>co_id = new_id, co_slug = slug, co_name = name, co_token = new_token, co_repo = repo,
         co_archived = None, co_ref = None, co_dir = None, co_description = pf_description p,
         co_term = pf_term p, co_institution = pf_institution p, co_level = pf_level p, co_created = now\<rparr>
      in if list_ex (\<lambda>d. co_slug d = slug \<or> co_token d = new_token \<or> co_id d = new_id) (courses db)
         then (Inl (Unique_Violation []), db)
         else (Inr c, db\<lparr>courses := courses db @ [c]\<rparr>))"

text \<open>A field is applied only when it is \<open>Some\<close>; an inner \<open>None\<close> clears the column.\<close>

record course_patch =
  pa_name :: "str option"
  pa_repo :: "str option option"
  pa_ref :: "str option option"
  pa_dir :: "str option option"
  pa_description :: "str option option"
  pa_term :: "str option option"
  pa_institution :: "str option option"
  pa_level :: "str option option"

definition patch_is_empty :: "course_patch \<Rightarrow> bool" where
  "patch_is_empty p \<longleftrightarrow> pa_name p = None \<and> pa_repo p = None \<and> pa_ref p = None \<and> pa_dir p = None \<and>
     pa_description p = None \<and> pa_term p = None \<and> pa_institution p = None \<and> pa_level p = None"

definition apply_patch :: "course_patch \<Rightarrow> course \<Rightarrow> course" where
  "apply_patch p c = c\<lparr>
     co_name := unwrap_or (pa_name p) (co_name c),
     co_repo := unwrap_or (pa_repo p) (co_repo c),
     co_ref := unwrap_or (pa_ref p) (co_ref c),
     co_dir := unwrap_or (pa_dir p) (co_dir c),
     co_description := unwrap_or (pa_description p) (co_description c),
     co_term := unwrap_or (pa_term p) (co_term c),
     co_institution := unwrap_or (pa_institution p) (co_institution c),
     co_level := unwrap_or (pa_level p) (co_level c)\<rparr>"

text \<open>An update of the row with an id; an error when there is none.\<close>

definition update_row :: "uuid \<Rightarrow> (course \<Rightarrow> course) \<Rightarrow> db \<Rightarrow> (db_err + course) \<times> db" where
  "update_row i f db =
     (case List.find (\<lambda>c. co_id c = i) (courses db) of
        None \<Rightarrow> (Inl (Other_Db_Error []), db)
      | Some c \<Rightarrow> (Inr (f c), db\<lparr>courses := map (\<lambda>d. if co_id d = i then f d else d) (courses db)\<rparr>))"

definition update_course :: "uuid \<Rightarrow> course_patch \<Rightarrow> db \<Rightarrow> (db_err + course) \<times> db" where
  "update_course i p db = update_row i (apply_patch p) db"

definition set_course_archived :: "uuid \<Rightarrow> int \<Rightarrow> bool \<Rightarrow> db \<Rightarrow> (db_err + course) \<times> db" where
  "set_course_archived i now archived db =
     update_row i (\<lambda>c. c\<lparr>co_archived := (if archived then Some now else None)\<rparr>) db"

definition rotate_enrollment_token :: "uuid \<Rightarrow> str \<Rightarrow> db \<Rightarrow> (db_err + str) \<times> db" where
  "rotate_enrollment_token i new_token db =
     (if list_ex (\<lambda>d. co_token d = new_token \<and> co_id d \<noteq> i) (courses db)
      then (Inl (Unique_Violation []), db)
      else (case update_row i (\<lambda>c. c\<lparr>co_token := new_token\<rparr>) db of
          (Inl e, db) \<Rightarrow> (Inl e, db)
        | (Inr _, db) \<Rightarrow> (Inr new_token, db)))"

definition course_by_slug :: "str \<Rightarrow> db \<Rightarrow> course option" where
  "course_by_slug slug db = List.find (\<lambda>c. co_slug c = slug) (courses db)"

definition course_by_token :: "str \<Rightarrow> db \<Rightarrow> course option" where
  "course_by_token token db = List.find (\<lambda>c. co_token c = token) (courses db)"

section \<open>Membership\<close>

definition is_member :: "uuid \<Rightarrow> uuid \<Rightarrow> db \<Rightarrow> bool" where
  "is_member a c db \<longleftrightarrow> (a, c) \<in> set (members db)"

definition grant_membership :: "uuid \<Rightarrow> uuid \<Rightarrow> db \<Rightarrow> (db_err + unit) \<times> db" where
  "grant_membership a c db =
     (if is_member a c db then (Inr (), db)
      else if a \<in> ad_id ` set (admins db) \<and> c \<in> co_id ` set (courses db)
      then (Inr (), db\<lparr>members := members db @ [(a, c)]\<rparr>)
      else (Inl (Other_Db_Error []), db))"

definition admins_for_course :: "uuid \<Rightarrow> db \<Rightarrow> admin list" where
  "admins_for_course c db =
     (let ids = map fst (filter (\<lambda>m. snd m = c) (members db)) in
      if ids = [] then [] else sort_key ad_username (filter (\<lambda>a. ad_id a \<in> set ids) (admins db)))"

datatype revoke_outcome = Removed | Not_A_Member | Last_Member

definition revoke_membership_checked :: "uuid \<Rightarrow> uuid \<Rightarrow> db \<Rightarrow> revoke_outcome \<times> db" where
  "revoke_membership_checked a c db =
     (let ms = filter (\<lambda>m. snd m = c) (members db) in
      if \<not> list_ex (\<lambda>m. fst m = a) ms then (Not_A_Member, db)
      else if length ms \<le> 1 then (Last_Member, db)
      else (Removed, db\<lparr>members := filter (\<lambda>m. m \<noteq> (a, c)) (members db)\<rparr>))"

definition courses_for_admin :: "uuid \<Rightarrow> bool \<Rightarrow> db \<Rightarrow> course list" where
  "courses_for_admin a archived db =
     (let ids = map snd (filter (\<lambda>m. fst m = a) (members db)) in
      if ids = [] then []
      else filter (archived_filter archived) (filter (\<lambda>c. co_id c \<in> set ids) (courses db)))"

definition all_courses :: "bool \<Rightarrow> db \<Rightarrow> course list" where
  "all_courses archived db = filter (archived_filter archived) (courses db)"

section \<open>Keys\<close>

definition wf_db :: "db \<Rightarrow> bool" where
  "wf_db db \<longleftrightarrow>
     distinct (map ad_id (admins db)) \<and> distinct (map ad_username (admins db)) \<and>
     distinct (map co_id (courses db)) \<and> distinct (map co_slug (courses db)) \<and>
     distinct (map co_token (courses db)) \<and> distinct (members db) \<and>
     fst ` set (members db) \<subseteq> ad_id ` set (admins db) \<and>
     snd ` set (members db) \<subseteq> co_id ` set (courses db) \<and> wf_exercises (exercises db)"

definition teachers :: "uuid \<Rightarrow> db \<Rightarrow> uuid set" where
  "teachers c db = {a. (a, c) \<in> set (members db)}"

text \<open>What every operation keeps: the keys, the admins and courses there are with the id, slug and
  creation of a course, and a teacher wherever there was one.\<close>

definition course_key :: "course \<Rightarrow> uuid \<times> str \<times> int" where
  "course_key c = (co_id c, co_slug c, co_created c)"

definition keeps :: "db \<Rightarrow> db \<Rightarrow> bool" where
  "keeps db db' \<longleftrightarrow> set (admins db) \<subseteq> set (admins db') \<and>
     course_key ` set (courses db) \<subseteq> course_key ` set (courses db') \<and>
     (wf_db db \<longrightarrow> wf_db db' \<and> (\<forall>c. teachers c db \<noteq> {} \<longrightarrow> teachers c db' \<noteq> {}))"

lemma keeps_refl [simp, intro]: "keeps db db"
  by (simp add: keeps_def)

lemma keeps_trans: "keeps a b \<Longrightarrow> keeps b c \<Longrightarrow> keeps a c"
  unfolding keeps_def by (meson order_trans)

lemma keeps_create_admin: "keeps db (snd (create_admin h i u p db))"
  by (auto simp: create_admin_def keeps_def wf_db_def teachers_def list_ex_iff Let_def split: option.splits)

lemma keeps_create_course: "keeps db (snd (create_course_with_profile i t now slug name repo p db))"
  by (auto simp: create_course_with_profile_def keeps_def wf_db_def teachers_def list_ex_iff Let_def)

lemma update_row_map:
  assumes "\<And>c. co_id (f c) = co_id c"
  shows "courses (snd (update_row i f db)) = map (\<lambda>d. if co_id d = i then f d else d) (courses db)"
    "admins (snd (update_row i f db)) = admins db" "members (snd (update_row i f db)) = members db"
    "exercises (snd (update_row i f db)) = exercises db"
proof -
  show "courses (snd (update_row i f db)) = map (\<lambda>d. if co_id d = i then f d else d) (courses db)"
    by (auto simp: update_row_def find_None_iff split: option.splits intro!: map_idI [symmetric])
qed (auto simp: update_row_def split: option.splits)

lemma keeps_update_row:
  assumes "\<And>c. course_key (f c) = course_key c"
    "\<And>c. co_token (f c) = co_token c"
  shows "keeps db (snd (update_row i f db))"
proof -
  have f: "co_id (f c) = co_id c" "co_slug (f c) = co_slug c" for c
    using assms(1) [of c] by (simp_all add: course_key_def)
  have m: "map g (courses (snd (update_row i f db))) = map g (courses db)" if "\<And>c. g (f c) = g c" for g :: "course \<Rightarrow> 'a"
    using that by (simp add: update_row_map(1) [OF f(1)] comp_def if_distrib cong: if_cong)
  have "set (map course_key (courses (snd (update_row i f db)))) = set (map course_key (courses db))"
    using m [of course_key] assms(1) by simp
  moreover have "set (map co_id (courses (snd (update_row i f db)))) = set (map co_id (courses db))"
    using m [of co_id] f by simp
  ultimately show ?thesis
    using m [of co_id] m [of co_slug] m [of co_token] f assms(2)
    by (auto simp: keeps_def wf_db_def teachers_def update_row_map(2-4) [OF f(1)] simp del: set_map
        simp flip: set_map)
qed

lemma keeps_rotate: "keeps db (snd (rotate_enrollment_token i t db))"
proof (cases "list_ex (\<lambda>d. co_token d = t \<and> co_id d \<noteq> i) (courses db)")
  case True
  then show ?thesis by (simp add: rotate_enrollment_token_def)
next
  case False
  define f :: "course \<Rightarrow> course" where "f = (\<lambda>c. c\<lparr>co_token := t\<rparr>)"
  define db' where "db' = snd (update_row i f db)"
  have r: "snd (rotate_enrollment_token i t db) = db'"
    using False by (simp add: rotate_enrollment_token_def db'_def f_def split: prod.splits sum.splits)
  have fi: "\<And>c. co_id (f c) = co_id c" by (simp add: f_def)
  have cs: "courses db' = map (\<lambda>d. if co_id d = i then f d else d) (courses db)"
    unfolding db'_def by (rule update_row_map(1) [OF fi])
  have m: "map g (courses db') = map g (courses db)" if "\<And>c. g (f c) = g c" for g :: "course \<Rightarrow> 'a"
    using that by (simp add: cs comp_def if_distrib cong: if_cong)
  have keys: "map co_id (courses db') = map co_id (courses db)" "map co_slug (courses db') = map co_slug (courses db)"
    "map course_key (courses db') = map course_key (courses db)"
    by (rule m; simp add: f_def course_key_def)+
  have "distinct (map co_token (courses db'))" if "distinct (map co_token (courses db))" "distinct (map co_id (courses db))"
  proof -
    have inj: "x = y" if "co_token x = co_token y \<or> co_id x = co_id y" "x \<in> set (courses db)" "y \<in> set (courses db)" for x y
      using that \<open>distinct (map co_token (courses db))\<close> \<open>distinct (map co_id (courses db))\<close>
      by (auto simp: distinct_map dest: inj_onD)
    have free: "co_token x \<noteq> t" if "x \<in> set (courses db)" "co_id x \<noteq> i" for x
      using False that by (auto simp: list_ex_iff)
    have "inj_on (\<lambda>d. co_token (if co_id d = i then f d else d)) (set (courses db))"
    proof (rule inj_onI)
      fix x y
      assume xy: "x \<in> set (courses db)" "y \<in> set (courses db)"
        "co_token (if co_id x = i then f x else x) = co_token (if co_id y = i then f y else y)"
      show "x = y"
        by (rule inj) (use xy free [of x] free [of y] in \<open>auto simp: f_def split: if_splits\<close>)
    qed
    moreover have "distinct (courses db)" using that(2) by (simp add: distinct_map)
    moreover have "map co_token (courses db') = map (\<lambda>d. co_token (if co_id d = i then f d else d)) (courses db)"
      by (simp add: cs comp_def)
    ultimately show ?thesis by (simp only: distinct_map)
  qed
  moreover have same: "admins db' = admins db" "members db' = members db" "exercises db' = exercises db"
    by (simp_all add: db'_def update_row_map(2-4) [OF fi])
  moreover have "co_id ` set (courses db') = co_id ` set (courses db)"
    using arg_cong [OF keys(1), of set] by simp
  ultimately have "wf_db db \<Longrightarrow> wf_db db'"
    using keys(1,2) by (simp add: wf_db_def)
  moreover have "course_key ` set (courses db') = course_key ` set (courses db)"
    using arg_cong [OF keys(3), of set] by simp
  ultimately show ?thesis
    using same unfolding r by (simp add: keeps_def teachers_def)
qed

lemma keeps_grant: "keeps db (snd (grant_membership a c db))"
  by (auto simp: grant_membership_def keeps_def wf_db_def teachers_def is_member_def)

lemma keeps_revoke: "keeps db (snd (revoke_membership_checked a c db))"
proof (cases "fst (revoke_membership_checked a c db) = Removed")
  case False
  then show ?thesis by (auto simp: revoke_membership_checked_def Let_def split: if_splits)
next
  case True
  define ms where "ms = filter (\<lambda>m. snd m = c) (members db)"
  have R: "\<not> length ms \<le> 1" "snd (revoke_membership_checked a c db) = db\<lparr>members := filter (\<lambda>m. m \<noteq> (a, c)) (members db)\<rparr>"
    using True by (auto simp: revoke_membership_checked_def ms_def Let_def split: if_splits)
  have left: "teachers c (db\<lparr>members := filter (\<lambda>m. m \<noteq> (a, c)) (members db)\<rparr>) \<noteq> {}" if "distinct (members db)"
  proof -
    have "distinct ms" using that by (simp add: ms_def)
    moreover obtain m n ms' where ms: "ms = m # n # ms'" using R(1) by (cases ms; cases "tl ms") auto
    ultimately have "m \<noteq> n" by auto
    have "m \<in> set ms" "n \<in> set ms" using ms by simp_all
    then have "snd m = c" "snd n = c" "m \<in> set (members db)" "n \<in> set (members db)" by (simp_all add: ms_def)
    then show ?thesis using \<open>m \<noteq> n\<close> by (cases m; cases n) (auto simp: teachers_def)
  qed
  define db' where "db' = db\<lparr>members := filter (\<lambda>m. m \<noteq> (a, c)) (members db)\<rparr>"
  have "wf_db db \<Longrightarrow> wf_db db'"
    by (auto simp: wf_db_def db'_def)
  moreover have "teachers d db' = teachers d db" if "d \<noteq> c" for d
    using that by (auto simp: teachers_def db'_def)
  moreover have "wf_db db \<Longrightarrow> teachers c db' \<noteq> {}"
    using left unfolding db'_def wf_db_def by blast
  ultimately have "wf_db db \<Longrightarrow> wf_db db' \<and> (\<forall>d. teachers d db \<noteq> {} \<longrightarrow> teachers d db' \<noteq> {})"
    by metis
  then show ?thesis unfolding R(2) db'_def [symmetric] by (simp add: keeps_def) (simp add: db'_def)
qed

end
