(* ===== verification/Courses.thy ===== *)
theory Courses
  imports Tenancy Sources GitHub Utf8 "HOL-Library.Word"
begin

text \<open>
  The HTTP side of the tenants: teacher sessions (\<^verbatim>\<open>crates/server/src/auth.rs\<close>), who is calling and
  for which course (\<^verbatim>\<open>http/auth.rs\<close>, \<^verbatim>\<open>http/scope.rs\<close>), the course handlers (\<^verbatim>\<open>http/courses.rs\<close>),
  provisioning (\<^verbatim>\<open>http/admin.rs\<close>), the exercise endpoint and the start of the server
  (\<^verbatim>\<open>main.rs\<close>). \<open>serve\<close> answers one request, behind the gate the router puts before it. Random
  ids and tokens, the clock, the hasher and what GitHub answers are the environment of a call.
\<close>

section \<open>Teacher sessions\<close>

definition SESSION_TTL_SECS :: int where "SESSION_TTL_SECS = 12 * 60 * 60"

datatype auth_ctx = Admin uuid | OpenDev

type_synonym sessions = "(str, uuid \<times> int) hashmap"

definition create_session :: "int \<Rightarrow> str \<Rightarrow> uuid \<Rightarrow> sessions \<Rightarrow> sessions" where
  "create_session now tok who s = AList.update tok (who, now + SESSION_TTL_SECS) s"

text \<open>The answer, and the map with an expired entry evicted.\<close>

definition admin_for :: "int \<Rightarrow> str option \<Rightarrow> sessions \<Rightarrow> uuid option \<times> sessions" where
  "admin_for now tok s =
     (case tok of
        None \<Rightarrow> (None, s)
      | Some t \<Rightarrow>
          (case map_of s t of
             None \<Rightarrow> (None, s)
           | Some (who, expiry) \<Rightarrow>
               if expiry > now then (Some who, s) else (None, AList.delete t s)))"

definition end_session :: "str \<Rightarrow> sessions \<Rightarrow> sessions" where
  "end_session tok s = AList.delete tok s"

fun ct_loop :: "8 word \<Rightarrow> (8 word \<times> 8 word) list \<Rightarrow> 8 word" where
  "ct_loop diff [] = diff"
| "ct_loop diff ((x, y) # ps) = ct_loop (or diff (xor x y)) ps"

definition constant_time_eq :: "8 word list \<Rightarrow> 8 word list \<Rightarrow> bool" where
  "constant_time_eq a b = (if length a \<noteq> length b then False else ct_loop 0 (zip a b) = 0)"

lemma word_xor_0: "xor a b = 0 \<longleftrightarrow> a = (b :: 8 word)"
  by (metis bit.xor_left_self xor.right_neutral)

lemma ct_loop_0: "ct_loop d ps = 0 \<longleftrightarrow> d = 0 \<and> (\<forall>(x, y) \<in> set ps. x = y)"
  by (induction d ps rule: ct_loop.induct) (auto simp: or_eq_0_iff word_xor_0)

lemma constant_time_eq_iff: "constant_time_eq a b \<longleftrightarrow> a = b"
proof (cases "length a = length b")
  case True
  then have "(\<forall>(x, y) \<in> set (zip a b). x = y) \<longleftrightarrow> a = b"
    by (induction a b rule: list_induct2) auto
  with True show ?thesis by (simp add: constant_time_eq_def ct_loop_0)
qed (auto simp: constant_time_eq_def)

text \<open>The sessions are one of the server's expiring maps: a session is fresh until its expiry.\<close>

definition session_fresh :: "nat \<Rightarrow> uuid \<times> int \<Rightarrow> bool" where
  "session_fresh now e \<longleftrightarrow> snd e > int now"

interpretation teacher_sessions: swept_map wf_map map_of "\<lambda>_ k e s. AList.update k e s" session_fresh
  "\<lambda>now s. snd (admin_for (int now) tok s)" for tok
proof unfold_locales
  fix now later :: nat and e :: "uuid \<times> int" and s :: sessions and k k' :: str
  show "now \<le> later \<Longrightarrow> session_fresh later e \<Longrightarrow> session_fresh now e" by (simp add: session_fresh_def)
  assume "wf_map s"
  then show "wf_map (AList.update k e s)" "map_of (AList.update k e s) k = Some e" by simp_all
  show "map_of (AList.update k e s) k' = map_of s k' \<or>
      map_of (AList.update k e s) k' = None \<and> opt_filter (session_fresh now) (map_of s k') = None" if "k' \<noteq> k"
    using that by simp
  show "wf_map (snd (admin_for (int now) tok s))"
    using \<open>wf_map s\<close> by (auto simp: admin_for_def split: option.splits)
  show "map_of (snd (admin_for (int now) tok s)) k = map_of s k \<or>
      map_of (snd (admin_for (int now) tok s)) k = None \<and> opt_filter (session_fresh now) (map_of s k) = None"
    by (auto simp: admin_for_def session_fresh_def split: option.splits)
qed

section \<open>Who is calling\<close>

record headers =
  hd_cookie :: "str option"
  hd_authorization :: "str option"

definition split_once :: "rchar \<Rightarrow> str \<Rightarrow> (str \<times> str) option" where
  "split_once c s = (case dropWhile (\<lambda>x. x \<noteq> c) s of [] \<Rightarrow> None | _ # r \<Rightarrow> Some (takeWhile (\<lambda>x. x \<noteq> c) s, r))"

definition SESSION_COOKIE :: str where "SESSION_COOKIE = lit ''hermione_session''"

fun find_cookie :: "str list \<Rightarrow> str option" where
  "find_cookie [] = None"
| "find_cookie (c # cs) =
     (case split_once c_eq (trim c) of
        Some (k, v) \<Rightarrow> if k = SESSION_COOKIE then Some v else find_cookie cs
      | None \<Rightarrow> find_cookie cs)"

definition session_cookie :: "headers \<Rightarrow> str option" where
  "session_cookie h = Option.bind (hd_cookie h) (\<lambda>cookies. find_cookie (split_on ((=) c_semi) cookies))"

definition bearer_token :: "headers \<Rightarrow> str option" where
  "bearer_token h = Option.bind (hd_authorization h) (strip_prefix (lit ''Bearer ''))"

record server =
  sv_db :: db
  sv_sessions :: sessions
  sv_open :: bool
  sv_admin_token :: "str option"
  sv_tokens :: token_cache

definition teacher_ctx :: "int \<Rightarrow> headers \<Rightarrow> server \<Rightarrow> auth_ctx option \<times> server" where
  "teacher_ctx now h sv =
     (let (found, s) = admin_for now (session_cookie h) (sv_sessions sv);
          sv = sv\<lparr>sv_sessions := s\<rparr>
      in (case found of
            Some a \<Rightarrow> Some (Admin a)
          | None \<Rightarrow> if sv_open sv then Some OpenDev else None, sv))"

definition token_bytes :: "str \<Rightarrow> 8 word list" where
  "token_bytes s = map of_nat (Utf8.encode s)"

definition require_super_admin :: "headers \<Rightarrow> server \<Rightarrow> api_error + unit" where
  "require_super_admin h sv =
     (case sv_admin_token sv of
        None \<Rightarrow> Inl (forbidden (lit ''provisioning API disabled''))
      | Some expected \<Rightarrow>
          (case bearer_token h of
             Some t \<Rightarrow>
               if constant_time_eq (token_bytes t) (token_bytes expected) then Inr ()
               else Inl (unauthorized (lit ''invalid or missing admin token''))
           | None \<Rightarrow> Inl (unauthorized (lit ''invalid or missing admin token''))))"

text \<open>The course an editor writes into, and whether it may.\<close>

definition require_ingest :: "headers \<Rightarrow> server \<Rightarrow> api_error + uuid" where
  "require_ingest h sv =
     (case bearer_token h of
        Some t \<Rightarrow>
          (case course_by_token t (sv_db sv) of
             Some c \<Rightarrow> Inr (co_id c)
           | None \<Rightarrow> Inl (unauthorized (lit ''invalid enrollment token'')))
      | None \<Rightarrow> if sv_open sv then Inr DEFAULT_COURSE_ID
                else Inl (unauthorized (lit ''enrollment token required'')))"

definition ensure_member :: "auth_ctx \<Rightarrow> uuid \<Rightarrow> db \<Rightarrow> api_error + unit" where
  "ensure_member ctx c db =
     (case ctx of
        OpenDev \<Rightarrow> Inr ()
      | Admin a \<Rightarrow> if is_member a c db then Inr () else Inl (forbidden (lit ''not a member of this course'')))"

definition authorized_course :: "auth_ctx \<Rightarrow> str \<Rightarrow> db \<Rightarrow> api_error + course" where
  "authorized_course ctx slug db =
     (case course_by_slug slug db of
        None \<Rightarrow> Inl (not_found (lit ''no such course''))
      | Some c \<Rightarrow> bind_result (ensure_member ctx (co_id c) db) (\<lambda>_. Inr c))"

definition resolve_course :: "auth_ctx \<Rightarrow> str option \<Rightarrow> db \<Rightarrow> api_error + uuid" where
  "resolve_course ctx slug db =
     bind_result (authorized_course ctx (unwrap_or slug (lit ''default'')) db) (\<lambda>c. Inr (co_id c))"

text \<open>The course column of a session row, if there is such a row.\<close>

definition authorized_session :: "auth_ctx \<Rightarrow> uuid option option \<Rightarrow> db \<Rightarrow> api_error + unit" where
  "authorized_session ctx session_course db =
     (case session_course of
        None \<Rightarrow> Inl (not_found (lit ''no such session''))
      | Some c \<Rightarrow> ensure_member ctx (unwrap_or c DEFAULT_COURSE_ID) db)"

end
