(* ===== verification/Course_Api.thy ===== *)
theory Course_Api
  imports Courses
begin

text \<open>
  The course handlers of \<^verbatim>\<open>crates/server/src/http/courses.rs\<close>, provisioning (\<^verbatim>\<open>http/admin.rs\<close>), the
  exercise endpoints and the sign-in routes (\<^verbatim>\<open>http/auth.rs\<close>). A handler takes the state it works
  on and returns it with its answer; \<open>serve\<close> answers one request behind the gate the router
  (\<^verbatim>\<open>http/mod.rs\<close>) puts before its route. What a call draws from outside is the record \<open>env\<close>: the
  clock, random ids and tokens, Argon2, and what GitHub answers for a repository and a token.
\<close>

record env =
  en_now :: nat
  en_id :: uuid
  en_token :: str
  en_ids :: "nat \<Rightarrow> uuid"
  en_hasher :: hasher
  en_access :: github_access
  en_mint :: "str + minted"
  en_config :: "str \<Rightarrow> str \<Rightarrow> str option \<Rightarrow> json option"
  en_listing :: "str \<Rightarrow> str \<Rightarrow> str option \<Rightarrow> repo_error + content_entry list"
  en_tree :: "str \<Rightarrow> str \<Rightarrow> str option \<Rightarrow> repo_error + tree_entry list"

definition at_now :: "env \<Rightarrow> int" where "at_now e = int (en_now e)"

definition quoted :: "str \<Rightarrow> str" where "quoted s = [Cp 39] @ s @ [Cp 39]"

section \<open>What is answered\<close>

record course_dto =
  cd_slug :: str
  cd_name :: str
  cd_repo :: "str option"
  cd_archived :: bool
  cd_description :: "str option"
  cd_has_solutions :: bool

definition course_dto_of :: "course \<Rightarrow> course_dto" where
  "course_dto_of c =
     \<lparr>cd_slug = co_slug c, cd_name = co_name c, cd_repo = co_repo c, cd_archived = (co_archived c \<noteq> None),
      cd_description = co_description c,
      cd_has_solutions = (from_settings (co_ref c) (co_dir c) \<noteq> None)\<rparr>"

record course_detail =
  dt_slug :: str
  dt_name :: str
  dt_repo :: "str option"
  dt_token :: str
  dt_archived :: bool
  dt_ref :: "str option"
  dt_dir :: "str option"
  dt_members :: "str list"
  dt_description :: "str option"
  dt_term :: "str option"
  dt_institution :: "str option"
  dt_level :: "str option"

datatype answer =
    No_Content
  | Asset
  | Redirect str
  | Set_Cookie str
  | Courses_Json "course_dto list"
  | Detail_Json course_detail
  | Token_Json str
  | Created_Json str str "str option" str nat "str option"
  | Dirs_Json "str list" "str option"
  | Exercises_Json "(str \<times> str \<times> int) list"
  | Admin_Json uuid str
  | Course_Json str str "str option" str
  | Error_Json api_error

definition answered :: "api_error + answer \<Rightarrow> answer" where
  "answered r = (case r of Inl e \<Rightarrow> Error_Json e | Inr a \<Rightarrow> a)"

section \<open>Creating a course\<close>

definition list_courses :: "auth_ctx \<Rightarrow> str option \<Rightarrow> db \<Rightarrow> answer" where
  "list_courses ctx archived_q db =
     (let archived = (archived_q \<in> set (map (Some \<circ> lit) [''1'', ''true'', ''yes'']));
          rows = (case ctx of OpenDev \<Rightarrow> all_courses archived db
                  | Admin a \<Rightarrow> courses_for_admin a archived db)
      in Courses_Json (map course_dto_of rows))"

record new_course =
  nc_slug :: "str option"
  nc_name :: "str option"
  nc_repo :: "str option"
  nc_seed :: "bool option"
  nc_profile :: course_profile

definition resolve_new_course :: "new_course \<Rightarrow> api_error + (str \<times> str \<times> str option)" where
  "resolve_new_course body =
     (let repo = non_blank (nc_repo body) in
      bind_result
        (case non_blank (nc_slug body) of
           Some explicit \<Rightarrow> ok_or (normalize_slug explicit) (bad_request (lit ''slug must contain a letter or digit''))
         | None \<Rightarrow> ok_or
             (or_else (Option.bind (Option.bind repo repo_short_name) normalize_slug)
               (Option.bind (nc_name body) normalize_slug))
             (bad_request (lit ''a name, slug, or repo URL is required'')))
        (\<lambda>slug. Inr (slug, unwrap_or (non_blank (nc_name body)) (title_from_slug slug), repo)))"

text \<open>How many exercises were saved, the note, the rows and the token cache after it.\<close>

definition seed_exercises ::
    "env \<Rightarrow> course \<Rightarrow> token_cache \<Rightarrow> db \<Rightarrow> (nat \<times> str option) \<times> token_cache \<times> db" where
  "seed_exercises e c cache db =
     (case co_repo c of
        None \<Rightarrow> ((0, None), cache, db)
      | Some repo \<Rightarrow>
          (case parse_github repo of
             None \<Rightarrow> ((0, Some (lit ''exercise seeding supports GitHub repos only'')), cache, db)
           | Some (o1, name) \<Rightarrow>
               (let (cred, cache) = credential_for (en_now e) (en_access e) (en_mint e) o1 name cache in
                case discover_exercises (en_config e o1 name (cred_token cred)) (en_listing e o1 name (cred_token cred)) of
                  Inl err \<Rightarrow> ((0, Some (for_teacher o1 cred err)), cache, db)
                | Inr found \<Rightarrow>
                    if found = [] then ((0, None), cache, db)
                    else (let items = map (\<lambda>(i, d). (disc_slug d, disc_title d, int i)) (enumerate 0 found)
                          in ((length items, None), cache,
                              db\<lparr>exercises := upsert_exercises (co_id c) (at_now e) (en_ids e) items (exercises db)\<rparr>)))))"

definition create_course_for_teacher ::
    "env \<Rightarrow> auth_ctx \<Rightarrow> new_course \<Rightarrow> token_cache \<Rightarrow> db \<Rightarrow> answer \<times> token_cache \<times> db" where
  "create_course_for_teacher e ctx body cache db =
     (case resolve_new_course body of
        Inl err \<Rightarrow> (Error_Json err, cache, db)
      | Inr (slug, name, repo) \<Rightarrow>
          if course_by_slug slug db \<noteq> None
          then (Error_Json (conflict (lit ''a course with slug '' @ quoted slug @ lit '' already exists'')), cache, db)
          else (case create_course_with_profile (en_id e) (en_token e) (at_now e) slug name repo
                       (normalized (nc_profile body)) db of
              (Inl err, db) \<Rightarrow>
                (Error_Json (already_exists_or_internal err (lit ''a course with that slug already exists'')), cache, db)
            | (Inr c, db) \<Rightarrow>
                (case (case ctx of Admin a \<Rightarrow> grant_membership a (co_id c) db | OpenDev \<Rightarrow> (Inr (), db)) of
                   (Inl err, db) \<Rightarrow> (Error_Json (from_db_err err), cache, db)
                 | (Inr _, db) \<Rightarrow>
                     (let ((n, note), cache, db) =
                            (if unwrap_or (nc_seed body) True then seed_exercises e c cache db
                             else ((0, None), cache, db))
                      in (Created_Json (co_slug c) (co_name c) (co_repo c) (co_token c) n note, cache, db)))))"

section \<open>One course\<close>

definition get_course :: "auth_ctx \<Rightarrow> str \<Rightarrow> db \<Rightarrow> answer" where
  "get_course ctx slug db = answered (bind_result (authorized_course ctx slug db) (\<lambda>c.
     Inr (Detail_Json \<lparr>dt_slug = co_slug c, dt_name = co_name c, dt_repo = co_repo c, dt_token = co_token c,
       dt_archived = (co_archived c \<noteq> None), dt_ref = co_ref c, dt_dir = co_dir c,
       dt_members = map ad_username (admins_for_course (co_id c) db), dt_description = co_description c,
       dt_term = co_term c, dt_institution = co_institution c, dt_level = co_level c\<rparr>)))"

definition course_tree :: "env \<Rightarrow> auth_ctx \<Rightarrow> str \<Rightarrow> token_cache \<Rightarrow> db \<Rightarrow> answer \<times> token_cache" where
  "course_tree e ctx slug cache db =
     (case authorized_course ctx slug db of
        Inl err \<Rightarrow> (Error_Json err, cache)
      | Inr c \<Rightarrow>
          (let note = (\<lambda>m. Dirs_Json [] (Some m)) in
           case co_repo c of
             None \<Rightarrow> (note (lit ''no repository linked to this course''), cache)
           | Some url \<Rightarrow>
               (case parse_github url of
                  None \<Rightarrow> (note (lit ''the linked repository is not on GitHub''), cache)
                | Some (o1, name) \<Rightarrow>
                    (let (cred, cache) = credential_for (en_now e) (en_access e) (en_mint e) o1 name cache in
                     case fetch_dirs (en_tree e o1 name (cred_token cred)) of
                       Inr dirs \<Rightarrow> (Dirs_Json dirs None, cache)
                     | Inl err \<Rightarrow> (note (for_teacher o1 cred err), cache)))))"

text \<open>An absent field is \<open>None\<close>, an explicit \<^verbatim>\<open>null\<close> is \<open>Some None\<close> (\<^verbatim>\<open>double_option\<close>).\<close>

record update_course_body =
  ub_name :: "str option"
  ub_repo :: "str option option"
  ub_archived :: "bool option"
  ub_ref :: "str option option"
  ub_dir :: "str option option"
  ub_description :: "str option option"
  ub_term :: "str option option"
  ub_institution :: "str option option"
  ub_level :: "str option option"

definition patch_field :: "str option option \<Rightarrow> str option option" where
  "patch_field v = map_option non_blank v"

definition validated :: "str option option \<Rightarrow> (str \<Rightarrow> invalid + str) \<Rightarrow> api_error + str option option" where
  "validated v parse =
     (case patch_field v of
        Some (Some raw) \<Rightarrow>
          map_err (\<lambda>i. bad_request (invalid_text i)) (bind_result (parse raw) (\<lambda>canonical. Inr (Some (Some canonical))))
      | other \<Rightarrow> Inr other)"

definition patch_course :: "env \<Rightarrow> auth_ctx \<Rightarrow> str \<Rightarrow> update_course_body \<Rightarrow> db \<Rightarrow> answer \<times> db" where
  "patch_course e ctx slug body db =
     (case authorized_course ctx slug db of
        Inl err \<Rightarrow> (Error_Json err, db)
      | Inr c \<Rightarrow>
          (case bind_result (validated (ub_ref body) (\<lambda>s. bind_result (git_ref_parse s) (\<lambda>r. Inr (ref_str r))))
             (\<lambda>r. bind_result (validated (ub_dir body) (\<lambda>s. bind_result (repo_path_parse s) (\<lambda>p. Inr (path_str p))))
               (\<lambda>d. Inr \<lparr>pa_name = non_blank (ub_name body), pa_repo = patch_field (ub_repo body), pa_ref = r,
                  pa_dir = d, pa_description = patch_field (ub_description body), pa_term = patch_field (ub_term body),
                  pa_institution = patch_field (ub_institution body), pa_level = patch_field (ub_level body)\<rparr>)) of
             Inl err \<Rightarrow> (Error_Json err, db)
           | Inr p \<Rightarrow>
               (case (if patch_is_empty p then (Inr c, db) else update_course (co_id c) p db) of
                  (Inl err, db) \<Rightarrow> (Error_Json (from_db_err err), db)
                | (Inr _, db) \<Rightarrow>
                    (case ub_archived body of
                       None \<Rightarrow> (No_Content, db)
                     | Some a \<Rightarrow>
                         (case set_course_archived (co_id c) (at_now e) a db of
                            (Inl err, db) \<Rightarrow> (Error_Json (from_db_err err), db)
                          | (Inr _, db) \<Rightarrow> (No_Content, db))))))"

definition rotate_token :: "env \<Rightarrow> auth_ctx \<Rightarrow> str \<Rightarrow> db \<Rightarrow> answer \<times> db" where
  "rotate_token e ctx slug db =
     (case authorized_course ctx slug db of
        Inl err \<Rightarrow> (Error_Json err, db)
      | Inr c \<Rightarrow>
          (case rotate_enrollment_token (co_id c) (en_token e) db of
             (Inl err, db) \<Rightarrow> (Error_Json (from_db_err err), db)
           | (Inr t, db) \<Rightarrow> (Token_Json t, db)))"

definition add_member :: "auth_ctx \<Rightarrow> str \<Rightarrow> str \<Rightarrow> db \<Rightarrow> answer \<times> db" where
  "add_member ctx slug username db =
     (case authorized_course ctx slug db of
        Inl err \<Rightarrow> (Error_Json err, db)
      | Inr c \<Rightarrow>
          (let username = trim username in
           case admin_by_username username db of
             None \<Rightarrow> (Error_Json (not_found (lit ''no admin account named '' @ quoted username)), db)
           | Some a \<Rightarrow>
               (case grant_membership a (co_id c) db of
                  (Inl err, db) \<Rightarrow> (Error_Json (from_db_err err), db)
                | (Inr _, db) \<Rightarrow> (No_Content, db))))"

definition remove_member :: "auth_ctx \<Rightarrow> str \<Rightarrow> str \<Rightarrow> db \<Rightarrow> answer \<times> db" where
  "remove_member ctx slug username db =
     (case authorized_course ctx slug db of
        Inl err \<Rightarrow> (Error_Json err, db)
      | Inr c \<Rightarrow>
          (case admin_by_username (trim username) db of
             None \<Rightarrow> (Error_Json (not_found (lit ''no such admin'')), db)
           | Some a \<Rightarrow>
               (case revoke_membership_checked a (co_id c) db of
                  (Removed, db) \<Rightarrow> (No_Content, db)
                | (Not_A_Member, db) \<Rightarrow> (Error_Json (not_found (lit ''not a member of this course'')), db)
                | (Last_Member, db) \<Rightarrow>
                    (Error_Json (conflict (lit ''cannot remove the last member of a course'')), db))))"

section \<open>Exercises\<close>

definition list_exercises :: "auth_ctx \<Rightarrow> str option \<Rightarrow> db \<Rightarrow> answer" where
  "list_exercises ctx q db = answered (bind_result (resolve_course ctx q db) (\<lambda>c.
     Inr (Exercises_Json (map (\<lambda>x. (ex_slug x, ex_title x, ex_position x)) (list_for_course c (exercises db))))))"

definition define_endpoint :: "env \<Rightarrow> auth_ctx \<Rightarrow> str option \<Rightarrow> exercise_in list \<Rightarrow> bool \<Rightarrow> db \<Rightarrow> answer \<times> db" where
  "define_endpoint e ctx q exs replace db =
     (case resolve_course ctx q db of
        Inl err \<Rightarrow> (Error_Json err, db)
      | Inr c \<Rightarrow> (No_Content, db\<lparr>exercises := define_exercises c (at_now e) (en_ids e) exs replace (exercises db)\<rparr>))"

section \<open>Signing in\<close>

definition login :: "env \<Rightarrow> str \<Rightarrow> str \<Rightarrow> server \<Rightarrow> answer \<times> server" where
  "login e username password sv =
     (case verify_login (en_hasher e) username password (sv_db sv) of
        None \<Rightarrow> (Error_Json (unauthorized (lit ''invalid credentials'')), sv)
      | Some a \<Rightarrow>
          (let tok = en_token e;
               sv = sv\<lparr>sv_sessions := create_session (at_now e) tok a (sv_sessions sv)\<rparr>
           in (Set_Cookie (SESSION_COOKIE @ [c_eq] @ tok @
                 lit ''; HttpOnly; SameSite=Strict; Path=/; Max-Age=43200''), sv)))"

definition logout :: "headers \<Rightarrow> server \<Rightarrow> answer \<times> server" where
  "logout h sv =
     (let sv = (case session_cookie h of
                  Some t \<Rightarrow> sv\<lparr>sv_sessions := end_session t (sv_sessions sv)\<rparr>
                | None \<Rightarrow> sv)
      in (Set_Cookie (SESSION_COOKIE @ lit ''=; HttpOnly; SameSite=Strict; Path=/; Max-Age=0''), sv))"

section \<open>Provisioning\<close>

definition create_admin_handler :: "env \<Rightarrow> str \<Rightarrow> str \<Rightarrow> server \<Rightarrow> answer \<times> server" where
  "create_admin_handler e username password sv =
     (case create_admin (en_hasher e) (en_id e) username password (sv_db sv) of
        (Inl (Db err), db) \<Rightarrow>
          (Error_Json (already_exists_or_internal err (lit ''an admin with that username already exists'')),
           sv\<lparr>sv_db := db\<rparr>)
      | (Inl Hash_Failed, db) \<Rightarrow> (Error_Json (internal (lit ''password hashing failed'')), sv\<lparr>sv_db := db\<rparr>)
      | (Inr a, db) \<Rightarrow> (Admin_Json (ad_id a) (ad_username a), sv\<lparr>sv_db := db, sv_open := False\<rparr>))"

definition create_course_handler ::
    "env \<Rightarrow> str \<Rightarrow> str \<Rightarrow> str option \<Rightarrow> course_profile \<Rightarrow> db \<Rightarrow> answer \<times> db" where
  "create_course_handler e slug name repo p db =
     (case create_course_with_profile (en_id e) (en_token e) (at_now e) slug name (non_blank repo)
             (normalized p) db of
        (Inl err, db) \<Rightarrow>
          (Error_Json (already_exists_or_internal err (lit ''a course with that slug already exists'')), db)
      | (Inr c, db) \<Rightarrow> (Course_Json (co_slug c) (co_name c) (co_repo c) (co_token c), db))"

definition grant_membership_handler :: "str \<Rightarrow> str \<Rightarrow> db \<Rightarrow> answer \<times> db" where
  "grant_membership_handler username slug db =
     (case admin_by_username username db of
        None \<Rightarrow> (Error_Json (not_found (lit ''no such admin'')), db)
      | Some a \<Rightarrow>
          (case course_by_slug slug db of
             None \<Rightarrow> (Error_Json (not_found (lit ''no such course'')), db)
           | Some c \<Rightarrow>
               (case grant_membership a (co_id c) db of
                  (Inl err, db) \<Rightarrow> (Error_Json (from_db_err err), db)
                | (Inr _, db) \<Rightarrow> (No_Content, db))))"

section \<open>The router\<close>

datatype teacher_call =
    Page
  | List_Courses "str option"
  | Create_Course new_course
  | Get_Course str
  | Patch_Course str update_course_body
  | Rotate_Token str
  | Course_Tree str
  | Add_Member str str
  | Remove_Member str str
  | List_Exercises "str option"
  | Define_Exercises "str option" "exercise_in list" bool

datatype admin_call =
    Create_Admin str str
  | New_Course str str "str option" course_profile
  | Grant_Membership str str

datatype request = Login str str | Logout | Teacher teacher_call | Super_Admin admin_call

definition on_db :: "server \<Rightarrow> answer \<times> db \<Rightarrow> answer \<times> server" where
  "on_db sv r = (case r of (a, db) \<Rightarrow> (a, sv\<lparr>sv_db := db\<rparr>))"

definition on_cache :: "server \<Rightarrow> answer \<times> token_cache \<times> db \<Rightarrow> answer \<times> server" where
  "on_cache sv r = (case r of (a, cache, db) \<Rightarrow> (a, sv\<lparr>sv_tokens := cache, sv_db := db\<rparr>))"

fun serve_teacher :: "env \<Rightarrow> auth_ctx \<Rightarrow> teacher_call \<Rightarrow> server \<Rightarrow> answer \<times> server" where
  "serve_teacher e ctx Page sv = (Asset, sv)"
| "serve_teacher e ctx (List_Courses q) sv = (list_courses ctx q (sv_db sv), sv)"
| "serve_teacher e ctx (Create_Course body) sv =
     on_cache sv (create_course_for_teacher e ctx body (sv_tokens sv) (sv_db sv))"
| "serve_teacher e ctx (Get_Course slug) sv = (get_course ctx slug (sv_db sv), sv)"
| "serve_teacher e ctx (Patch_Course slug body) sv = on_db sv (patch_course e ctx slug body (sv_db sv))"
| "serve_teacher e ctx (Rotate_Token slug) sv = on_db sv (rotate_token e ctx slug (sv_db sv))"
| "serve_teacher e ctx (Course_Tree slug) sv =
     (case course_tree e ctx slug (sv_tokens sv) (sv_db sv) of (a, cache) \<Rightarrow> (a, sv\<lparr>sv_tokens := cache\<rparr>))"
| "serve_teacher e ctx (Add_Member slug u) sv = on_db sv (add_member ctx slug u (sv_db sv))"
| "serve_teacher e ctx (Remove_Member slug u) sv = on_db sv (remove_member ctx slug u (sv_db sv))"
| "serve_teacher e ctx (List_Exercises q) sv = (list_exercises ctx q (sv_db sv), sv)"
| "serve_teacher e ctx (Define_Exercises q exs replace) sv = on_db sv (define_endpoint e ctx q exs replace (sv_db sv))"

text \<open>\<^verbatim>\<open>require_teacher\<close>, and the handler behind it.\<close>

definition require_teacher :: "env \<Rightarrow> headers \<Rightarrow> teacher_call \<Rightarrow> server \<Rightarrow> answer \<times> server" where
  "require_teacher e h call sv =
     (let (ctx, sv) = teacher_ctx (at_now e) h sv in
      case ctx of
        Some c \<Rightarrow> serve_teacher e c call sv
      | None \<Rightarrow>
          if call = Page then (Redirect (lit ''/login''), sv)
          else (Error_Json (unauthorized (lit ''login required'')), sv))"

fun serve_admin :: "env \<Rightarrow> admin_call \<Rightarrow> server \<Rightarrow> answer \<times> server" where
  "serve_admin e (Create_Admin u p) sv = create_admin_handler e u p sv"
| "serve_admin e (New_Course slug name repo p) sv = on_db sv (create_course_handler e slug name repo p (sv_db sv))"
| "serve_admin e (Grant_Membership u slug) sv = on_db sv (grant_membership_handler u slug (sv_db sv))"

fun serve :: "env \<Rightarrow> headers \<Rightarrow> request \<Rightarrow> server \<Rightarrow> answer \<times> server" where
  "serve e h (Login u p) sv = login e u p sv"
| "serve e h Logout sv = logout h sv"
| "serve e h (Teacher call) sv = require_teacher e h call sv"
| "serve e h (Super_Admin call) sv =
     (case require_super_admin h sv of
        Inl err \<Rightarrow> (Error_Json err, sv)
      | Inr _ \<Rightarrow> serve_admin e call sv)"

section \<open>Starting\<close>

text \<open>\<^verbatim>\<open>main.rs\<close>: the first admin, when a password is configured and there is none yet, with
  every active course; the dashboard is open when there is still none.\<close>

fun grant_all :: "uuid \<Rightarrow> course list \<Rightarrow> db \<Rightarrow> db" where
  "grant_all a [] db = db"
| "grant_all a (c # cs) db = grant_all a cs (snd (grant_membership a (co_id c) db))"

definition boot :: "env \<Rightarrow> str option \<Rightarrow> str \<Rightarrow> str option \<Rightarrow> db \<Rightarrow> server" where
  "boot e admin_tok username password db =
     (let has_admins = count_admins db > 0;
          (has_admins, db) =
            (if has_admins then (has_admins, db)
             else (case password of
                None \<Rightarrow> (has_admins, db)
              | Some p \<Rightarrow>
                  (case create_admin (en_hasher e) (en_id e) username p db of
                     (Inr a, db) \<Rightarrow> (True, grant_all (ad_id a) (all_courses False db) db)
                   | (Inl _, db) \<Rightarrow> (has_admins, db))))
      in \<lparr>sv_db = db, sv_sessions = [], sv_open = (\<not> has_admins), sv_admin_token = admin_tok, sv_tokens = []\<rparr>)"

text \<open>The gRPC viewer's interceptor: who may watch there.\<close>

definition viewer_guard :: "str option \<Rightarrow> headers \<Rightarrow> bool" where
  "viewer_guard admin_tok h =
     (case admin_tok of
        None \<Rightarrow> True
      | Some expected \<Rightarrow>
          (case bearer_token h of
             Some t \<Rightarrow> constant_time_eq (token_bytes t) (token_bytes expected)
           | None \<Rightarrow> False))"

end
