(* ===== verification/Course_Access.thy ===== *)
theory Course_Access
  imports Course_Api
begin

text \<open>
  What the course API promises, over \<open>serve\<close>: every request keeps the tables consistent and never
  leaves a course without its last teacher (\<open>server_keeps\<close>, an invariant of the runs \<open>served\<close>);
  a course is changed only by who may, and its enrollment token told only to its teachers. What
  single calls do is in \<open>Course_Rules\<close>.
\<close>

section \<open>Every operation keeps what it must\<close>

named_theorems keeps_intros

lemmas [keeps_intros] = keeps_refl keeps_create_admin keeps_create_course keeps_rotate keeps_grant keeps_revoke

lemma wf_put_exercise: "wf_exercises tbl \<Longrightarrow> wf_exercises (put_exercise c now i item tbl)"
  using put_exercise_spec by blast

lemma wf_put_exercises: "wf_exercises tbl \<Longrightarrow> wf_exercises (put_exercises c now ids n items tbl)"
  by (induction items arbitrary: n tbl) (simp_all add: wf_put_exercise)

lemma wf_upsert_exercises: "wf_exercises tbl \<Longrightarrow> wf_exercises (upsert_exercises c now ids items tbl)"
  by (simp add: upsert_exercises_def wf_put_exercises)

lemma wf_delete_missing: "wf_exercises tbl \<Longrightarrow> wf_exercises (delete_missing c keep tbl)"
  by (simp add: wf_exercises_def delete_missing_def distinct_map_filter)

lemma wf_define_exercises: "wf_exercises tbl \<Longrightarrow> wf_exercises (define_exercises c now ids exs r tbl)"
  by (simp add: define_exercises_def Let_def wf_upsert_exercises wf_delete_missing)

lemma keeps_exercises:
  "(wf_exercises (exercises db) \<Longrightarrow> wf_exercises tbl) \<Longrightarrow> keeps db (db\<lparr>exercises := tbl\<rparr>)"
  by (auto simp: keeps_def wf_db_def teachers_def)

lemma keeps_update_course [keeps_intros]: "keeps db (snd (update_course i p db))"
  unfolding update_course_def by (rule keeps_update_row) (simp_all add: apply_patch_def course_key_def)

lemma keeps_archive [keeps_intros]: "keeps db (snd (set_course_archived i now a db))"
  unfolding set_course_archived_def by (rule keeps_update_row) (simp_all add: course_key_def)

text \<open>From a result with its state to what was kept.\<close>

lemma keeps_pair: "keeps db (snd r) \<Longrightarrow> r = (x, db') \<Longrightarrow> keeps db db'"
  by simp

lemmas keeps_dest =
  keeps_pair [OF keeps_create_admin] keeps_pair [OF keeps_create_course] keeps_pair [OF keeps_rotate]
  keeps_pair [OF keeps_grant] keeps_pair [OF keeps_revoke] keeps_pair [OF keeps_update_course]
  keeps_pair [OF keeps_archive]

lemma keeps_seed: "keeps db (snd (snd (seed_exercises e c cache db)))"
  by (auto simp: seed_exercises_def Let_def wf_upsert_exercises
      intro!: keeps_exercises split: option.splits sum.splits prod.splits)

lemma keeps_seed_pair: "seed_exercises e c cache db = (x, cache', db') \<Longrightarrow> keeps db db'"
  using keeps_seed [of db e c cache] by simp

lemma keeps_create_for_teacher: "keeps db (snd (snd (create_course_for_teacher e ctx body cache db)))"
  unfolding create_course_for_teacher_def
  by (auto simp: Let_def split: sum.splits prod.splits auth_ctx.splits if_splits
      dest!: keeps_dest keeps_seed_pair intro: keeps_trans)

lemma keeps_patch: "keeps db (snd (patch_course e ctx slug body db))"
  unfolding patch_course_def
  by (auto simp: Let_def split: sum.splits prod.splits option.splits if_splits
      dest!: keeps_dest intro: keeps_trans)

lemma keeps_member_handlers:
  "keeps db (snd (rotate_token e ctx slug db))" "keeps db (snd (add_member ctx slug u db))"
  "keeps db (snd (remove_member ctx slug u db))" "keeps db (snd (define_endpoint e ctx q exs r db))"
  "keeps db (snd (create_course_handler e slug name repo p db))" "keeps db (snd (grant_membership_handler u slug db))"
  unfolding rotate_token_def add_member_def remove_member_def define_endpoint_def create_course_handler_def
    grant_membership_handler_def
  by (auto simp: Let_def wf_define_exercises split: sum.splits prod.splits option.splits revoke_outcome.splits
      dest!: keeps_dest intro!: keeps_exercises)

section \<open>The server's invariant\<close>

definition wf_server :: "server \<Rightarrow> bool" where
  "wf_server sv \<longleftrightarrow> wf_db (sv_db sv) \<and> wf_map (sv_sessions sv) \<and>
     (\<forall>t a x. map_of (sv_sessions sv) t = Some (a, x) \<longrightarrow> a \<in> ad_id ` set (admins (sv_db sv))) \<and>
     (sv_open sv \<longleftrightarrow> admins (sv_db sv) = [])"

definition server_keeps :: "server \<Rightarrow> server \<Rightarrow> bool" where
  "server_keeps sv sv' \<longleftrightarrow> keeps (sv_db sv) (sv_db sv') \<and> sv_admin_token sv' = sv_admin_token sv \<and>
     (wf_server sv \<longrightarrow> wf_server sv')"

lemma server_keeps_refl [simp, intro]: "server_keeps sv sv"
  by (simp add: server_keeps_def)

lemma server_keeps_trans: "server_keeps a b \<Longrightarrow> server_keeps b c \<Longrightarrow> server_keeps a c"
  by (auto simp: server_keeps_def intro: keeps_trans)

text \<open>A call that leaves the admins alone, the sessions and the lock too.\<close>

lemma server_keeps_db:
  assumes "keeps (sv_db sv) db" "admins db = admins (sv_db sv)"
  shows "server_keeps sv (sv\<lparr>sv_db := db\<rparr>)" "server_keeps sv (sv\<lparr>sv_tokens := cache, sv_db := db\<rparr>)"
    "server_keeps sv (sv\<lparr>sv_tokens := cache\<rparr>)"
  using assms by (auto simp: server_keeps_def wf_server_def keeps_def)

lemma admins_update_row [simp]: "admins (snd (update_row i f db)) = admins db"
  by (auto simp: update_row_def split: option.splits)

lemma admins_update_row_pair: "update_row i f db = (r, db') \<Longrightarrow> admins db' = admins db"
  using admins_update_row [of i f db] by simp

lemma admins_same [simp]:
  "admins (snd (create_course_with_profile i t now slug name repo p db)) = admins db"
  "admins (snd (update_course i pa db)) = admins db" "admins (snd (set_course_archived i now b db)) = admins db"
  "admins (snd (rotate_enrollment_token i t db)) = admins db" "admins (snd (grant_membership a i db)) = admins db"
  "admins (snd (revoke_membership_checked a i db)) = admins db"
  "admins (snd (snd (seed_exercises e c cache db))) = admins db"
  by (auto dest!: admins_update_row_pair simp: create_course_with_profile_def update_course_def set_course_archived_def
      rotate_enrollment_token_def grant_membership_def revoke_membership_checked_def seed_exercises_def Let_def
      split: option.splits sum.splits prod.splits)

lemma admins_pair: "admins (snd r) = x \<Longrightarrow> r = (y, db') \<Longrightarrow> admins db' = x"
  "admins (snd (snd r3)) = x \<Longrightarrow> r3 = (y, z, db') \<Longrightarrow> admins db' = x"
  by simp_all

lemmas admins_dest = admins_same [THEN admins_pair(1)] admins_same(7) [THEN admins_pair(2)]

lemma admins_handlers:
  "admins (snd (snd (create_course_for_teacher e ctx body cache db))) = admins db"
  "admins (snd (patch_course e ctx slug ub db)) = admins db"
  "admins (snd (rotate_token e ctx slug db)) = admins db" "admins (snd (add_member ctx slug u db)) = admins db"
  "admins (snd (remove_member ctx slug u db)) = admins db" "admins (snd (define_endpoint e ctx q exs r db)) = admins db"
  "admins (snd (create_course_handler e slug name repo p db)) = admins db"
  "admins (snd (grant_membership_handler u slug db)) = admins db"
  unfolding create_course_for_teacher_def patch_course_def rotate_token_def add_member_def remove_member_def
    define_endpoint_def create_course_handler_def grant_membership_handler_def
  by (auto simp: Let_def split: sum.splits prod.splits option.splits auth_ctx.splits if_splits revoke_outcome.splits
      dest!: admins_dest)

lemma server_keeps_on_db:
  "keeps (sv_db sv) (snd r) \<Longrightarrow> admins (snd r) = admins (sv_db sv) \<Longrightarrow> server_keeps sv (snd (on_db sv r))"
  "keeps (sv_db sv) (snd (snd r3)) \<Longrightarrow> admins (snd (snd r3)) = admins (sv_db sv) \<Longrightarrow>
     server_keeps sv (snd (on_cache sv r3))"
  using server_keeps_db by (auto simp: on_db_def on_cache_def split: prod.splits)

lemma server_keeps_teacher: "server_keeps sv (snd (serve_teacher e ctx call sv))"
  by (cases call)
    (auto simp: keeps_create_for_teacher keeps_patch keeps_member_handlers admins_handlers
      intro!: server_keeps_on_db server_keeps_db(3) [OF keeps_refl] split: prod.splits)

lemma server_keeps_ctx: "server_keeps sv (snd (teacher_ctx now h sv))"
  by (auto simp: teacher_ctx_def admin_for_def server_keeps_def wf_server_def Let_def
      split: option.splits prod.splits if_splits)

lemma verify_login_admin: "verify_login h u p db = Some a \<Longrightarrow> a \<in> ad_id ` set (admins db)"
  by (auto simp: verify_login_def find_admin_def find_Some_iff split: option.splits if_splits)

lemma server_keeps_login: "server_keeps sv (snd (login e u p sv))"
  by (auto simp: login_def Let_def server_keeps_def wf_server_def create_session_def
      dest: verify_login_admin split: option.splits)

lemma server_keeps_logout: "server_keeps sv (snd (logout h sv))"
  by (auto simp: logout_def Let_def server_keeps_def wf_server_def end_session_def split: option.splits if_splits)

lemma create_admin_admins:
  "create_admin h i u p db = (r, db') \<Longrightarrow> set (admins db) \<subseteq> set (admins db') \<and>
     (case r of Inl _ \<Rightarrow> db' = db | Inr _ \<Rightarrow> admins db' \<noteq> [])"
  by (auto simp: create_admin_def Let_def split: option.splits if_splits)

lemma server_keeps_create_admin: "server_keeps sv (snd (create_admin_handler e u p sv))"
proof -
  obtain r db' where r: "create_admin (en_hasher e) (en_id e) u p (sv_db sv) = (r, db')" by fastforce
  note 1 = create_admin_admins [OF r] keeps_pair [OF keeps_create_admin r]
  show ?thesis
  proof (cases r)
    case (Inl err)
    then show ?thesis using 1 by (cases err) (auto simp: create_admin_handler_def r)
  next
    case (Inr a)
    then have sub: "ad_id ` set (admins (sv_db sv)) \<subseteq> ad_id ` set (admins db')" using 1 by (simp add: image_mono)
    have "wf_server (sv\<lparr>sv_db := db', sv_open := False\<rparr>)" if wf: "wf_server sv"
    proof -
      have "a \<in> ad_id ` set (admins db')" if "map_of (sv_sessions sv) t = Some (a, x)" for t a x
      proof (rule subsetD [OF sub])
        show "a \<in> ad_id ` set (admins (sv_db sv))" using wf that unfolding wf_server_def by blast
      qed
      moreover have "wf_db db'" "admins db' \<noteq> []" "wf_map (sv_sessions sv)"
        using 1 Inr wf by (auto simp: wf_server_def keeps_def)
      ultimately show ?thesis by (simp add: wf_server_def)
    qed
    with 1 show ?thesis by (simp add: create_admin_handler_def r Inr server_keeps_def)
  qed
qed

lemma server_keeps_serve: "server_keeps sv (snd (serve e h r sv))"
proof (cases r)
  case (Teacher call)
  then show ?thesis
    using server_keeps_ctx [of sv "at_now e" h] server_keeps_teacher server_keeps_trans
    by (auto simp: require_teacher_def split: prod.splits option.splits)
next
  case (Super_Admin call)
  then show ?thesis
    by (cases call) (auto simp: server_keeps_create_admin keeps_member_handlers admins_handlers
      intro!: server_keeps_on_db split: sum.splits)
qed (simp_all add: server_keeps_login server_keeps_logout)

inductive served :: "server \<Rightarrow> server \<Rightarrow> bool" where
  "served sv (snd (serve e h r sv))"

lemma served_keeps: "served\<^sup>*\<^sup>* sv sv' \<Longrightarrow> server_keeps sv sv'"
  by (induction rule: rtranclp_induct)
    (auto elim!: served.cases intro: server_keeps_trans server_keeps_serve)

lemma keeps_grant_all: "keeps db (grant_all a cs db) \<and> admins (grant_all a cs db) = admins db"
proof (induction a cs db rule: grant_all.induct)
  case (2 a c cs db)
  then show ?case using keeps_grant [of db a "co_id c"] keeps_trans by auto
qed simp

lemma boot_keeps: "keeps db (sv_db (boot e tok u p db)) \<and> (wf_db db \<longrightarrow> wf_server (boot e tok u p db))"
proof (cases "admins db = [] \<and> p \<noteq> None")
  case False
  then show ?thesis
    by (cases p) (auto simp: boot_def Let_def wf_server_def count_admins_def)
next
  case True
  then obtain pw where pw: "p = Some pw" "count_admins db = 0" by (auto simp: count_admins_def)
  obtain r db' where r: "create_admin (en_hasher e) (en_id e) u pw db = (r, db')" by fastforce
  note 1 = create_admin_admins [OF r] keeps_pair [OF keeps_create_admin r]
  show ?thesis
  proof (cases r)
    case (Inl err)
    then show ?thesis using 1 pw True by (auto simp: boot_def Let_def wf_server_def r)
  next
    case (Inr a)
    define g where "g = grant_all (ad_id a) (all_courses False db') db'"
    have g: "keeps db g" "admins g \<noteq> []"
      using keeps_grant_all [of db' "ad_id a" "all_courses False db'"] 1 Inr keeps_trans by (auto simp: g_def)
    have "boot e tok u p db = \<lparr>sv_db = g, sv_sessions = [], sv_open = False, sv_admin_token = tok, sv_tokens = []\<rparr>"
      using pw by (simp add: boot_def r Inr g_def)
    moreover have "wf_db db \<longrightarrow> wf_db g" using g(1) by (simp add: keeps_def)
    ultimately show ?thesis using g by (simp add: wf_server_def)
  qed
qed

text \<open>C1: From the start of the server and under any requests, the tables keep their keys, every
  session belongs to an admin, and the dashboard is open exactly while there is no admin;
  no admin or course disappears, a course keeps its id and slug, and one that has a teacher always has one.\<close>

theorem every_course_keeps_a_teacher:
  assumes "wf_db db" "served\<^sup>*\<^sup>* (boot e tok username password db) sv" "served\<^sup>*\<^sup>* sv sv'"
  shows "wf_server sv' \<and> set (admins (sv_db sv)) \<subseteq> set (admins (sv_db sv')) \<and>
    course_key ` set (courses (sv_db sv)) \<subseteq> course_key ` set (courses (sv_db sv')) \<and>
    (\<forall>c. teachers c (sv_db sv) \<noteq> {} \<longrightarrow> teachers c (sv_db sv') \<noteq> {})"
proof -
  have "wf_server sv"
    using boot_keeps [of db e tok username password] served_keeps [OF assms(2)] assms(1)
    by (simp add: server_keeps_def)
  with served_keeps [OF assms(3)] show ?thesis
    by (simp add: server_keeps_def keeps_def wf_server_def)
qed

section \<open>What belongs to a course\<close>

definition course_view :: "uuid \<Rightarrow> db \<Rightarrow> course list \<times> (uuid \<times> uuid) list \<times> exercise list" where
  "course_view c db = (filter (\<lambda>d. co_id d = c) (courses db), filter (\<lambda>m. snd m = c) (members db),
     filter (\<lambda>x. ex_course x = c) (exercises db))"

definition known_course :: "uuid \<Rightarrow> db \<Rightarrow> bool" where
  "known_course c db \<longleftrightarrow> c \<in> co_id ` set (courses db)"

definition spares :: "uuid \<Rightarrow> db \<Rightarrow> db \<Rightarrow> bool" where
  "spares c db db' \<longleftrightarrow> (known_course c db \<longrightarrow> known_course c db' \<and> course_view c db' = course_view c db)"

lemma spares_refl [simp, intro]: "spares c db db"
  by (simp add: spares_def)

lemma spares_trans: "spares c a b \<Longrightarrow> spares c b d \<Longrightarrow> spares c a d"
  by (auto simp: spares_def)

lemma spares_create_course: "spares c db (snd (create_course_with_profile i t now slug name repo p db))"
  by (auto simp: create_course_with_profile_def spares_def known_course_def course_view_def list_ex_iff Let_def)

lemma spares_update_row:
  assumes "i \<noteq> c" "\<And>d. co_id (f d) = co_id d"
  shows "spares c db (snd (update_row i f db))"
proof -
  have "filter (\<lambda>d. co_id d = c) (map (\<lambda>d. if co_id d = i then f d else d) cs) = filter (\<lambda>d. co_id d = c) cs" for cs
    using assms by (induction cs) auto
  moreover have "co_id ` (\<lambda>d. if co_id d = i then f d else d) ` A = co_id ` A" for A
    unfolding image_image using assms(2) by (intro image_cong) auto
  ultimately show ?thesis
    by (simp add: spares_def known_course_def course_view_def update_row_map [OF assms(2)])
qed

lemma spares_update: "i \<noteq> c \<Longrightarrow> spares c db (snd (update_course i p db))"
  unfolding update_course_def by (rule spares_update_row) (simp_all add: apply_patch_def)

lemma spares_archive: "i \<noteq> c \<Longrightarrow> spares c db (snd (set_course_archived i now a db))"
  unfolding set_course_archived_def by (rule spares_update_row) simp_all

lemma spares_rotate: "i \<noteq> c \<Longrightarrow> spares c db (snd (rotate_enrollment_token i t db))"
  using spares_update_row [of i c "\<lambda>c. c\<lparr>co_token := t\<rparr>" db]
  by (auto simp: rotate_enrollment_token_def split: prod.splits sum.splits)

lemma spares_grant: "i \<noteq> c \<Longrightarrow> spares c db (snd (grant_membership a i db))"
  by (auto simp: grant_membership_def spares_def known_course_def course_view_def)

lemma spares_revoke: "i \<noteq> c \<Longrightarrow> spares c db (snd (revoke_membership_checked a i db))"
  by (auto simp: revoke_membership_checked_def spares_def known_course_def course_view_def Let_def
      intro!: filter_cong)

definition exercises_of :: "uuid \<Rightarrow> exercise list \<Rightarrow> exercise list" where
  "exercises_of c tbl = filter (\<lambda>x. ex_course x = c) tbl"

lemma exercises_of_put: "i \<noteq> c \<Longrightarrow> exercises_of c (put_exercise i now n item tbl) = exercises_of c tbl"
proof -
  assume "i \<noteq> c"
  then have "filter (\<lambda>x. ex_course x = c) (map (\<lambda>x. if ex_course x = i \<and> ex_slug x = s
      then x\<lparr>ex_title := t, ex_position := p\<rparr> else x) tbl) = filter (\<lambda>x. ex_course x = c) tbl" for s t p
    by (induction tbl) auto
  with \<open>i \<noteq> c\<close> show ?thesis
    by (auto simp: put_exercise_def exercises_of_def Let_def split: prod.splits)
qed

lemma exercises_of_upsert: "i \<noteq> c \<Longrightarrow> exercises_of c (upsert_exercises i now ids items tbl) = exercises_of c tbl"
proof -
  assume i: "i \<noteq> c"
  have "exercises_of c (put_exercises i now ids n items tbl) = exercises_of c tbl" for n items tbl
    by (induction items arbitrary: n tbl) (simp_all add: exercises_of_put [OF i])
  then show ?thesis by (simp add: upsert_exercises_def)
qed

lemma exercises_of_delete: "i \<noteq> c \<Longrightarrow> exercises_of c (delete_missing i keep tbl) = exercises_of c tbl"
  by (induction tbl) (auto simp: delete_missing_def exercises_of_def)

lemma exercises_of_define:
  "i \<noteq> c \<Longrightarrow> exercises_of c (define_exercises i now ids exs r tbl) = exercises_of c tbl"
  using exercises_of_upsert [of i c now ids "define_items 0 exs" tbl] exercises_of_delete [of i c]
  by (auto simp: define_exercises_def Let_def)

lemma spares_exercises:
  "exercises_of c tbl = exercises_of c (exercises db) \<Longrightarrow> spares c db (db\<lparr>exercises := tbl\<rparr>)"
  by (simp add: spares_def known_course_def course_view_def exercises_of_def)

lemma spares_seed: "co_id d \<noteq> c \<Longrightarrow> spares c db (snd (snd (seed_exercises e d cache db)))"
  by (auto simp: seed_exercises_def Let_def exercises_of_upsert
      intro!: spares_exercises split: option.splits sum.splits prod.splits)

section \<open>Who may touch a course\<close>

definition may :: "auth_ctx \<Rightarrow> uuid \<Rightarrow> db \<Rightarrow> bool" where
  "may ctx c db \<longleftrightarrow> ctx = OpenDev \<or> (\<exists>a. ctx = Admin a \<and> (a, c) \<in> set (members db))"

lemma ensure_member_may: "ensure_member ctx c db = Inr () \<longleftrightarrow> may ctx c db"
  by (cases ctx) (auto simp: ensure_member_def may_def is_member_def)

lemma authorized_course_Inr:
  "authorized_course ctx slug db = Inr d \<longleftrightarrow> course_by_slug slug db = Some d \<and> may ctx (co_id d) db"
  by (auto simp: authorized_course_def ensure_member_may split: option.splits)

lemma resolve_course_Inr:
  "resolve_course ctx q db = Inr i \<Longrightarrow> may ctx i db"
  by (auto simp: resolve_course_def authorized_course_Inr)

lemma course_by_slug_in: "course_by_slug slug db = Some d \<Longrightarrow> d \<in> set (courses db) \<and> co_slug d = slug"
  by (auto simp: course_by_slug_def find_Some_iff)

lemma spares_pair: "spares c db (snd r) \<Longrightarrow> r = (x, db') \<Longrightarrow> spares c db db'"
  "spares c db (snd (snd r3)) \<Longrightarrow> r3 = (x, y, db') \<Longrightarrow> spares c db db'"
  by simp_all

lemmas spares_dest = spares_pair(1) [OF spares_create_course]
  spares_update [THEN spares_pair(1), rotated] spares_archive [THEN spares_pair(1), rotated]
  spares_rotate [THEN spares_pair(1), rotated] spares_grant [THEN spares_pair(1), rotated]
  spares_revoke [THEN spares_pair(1), rotated] spares_seed [THEN spares_pair(2), rotated]

lemma create_course_Inr:
  "create_course_with_profile i t now slug name repo p db = (Inr d, db') \<Longrightarrow>
     co_id d = i \<and> co_token d = t \<and> \<not> known_course i db \<and> courses db' = courses db @ [d]"
  by (auto simp: create_course_with_profile_def known_course_def list_ex_iff Let_def split: if_splits)

lemma spares_created:
  "create_course_with_profile i t now slug name repo p db = (Inr d, db') \<Longrightarrow> known_course c db \<Longrightarrow>
     co_id d \<noteq> c \<and> spares c db db'"
  by (auto dest: create_course_Inr spares_dest(1))

lemma spares_granted:
  "create_course_with_profile i t now slug name repo p db = (Inr d, db1) \<Longrightarrow>
     grant_membership a (co_id d) db1 = (x, db') \<Longrightarrow> known_course c db \<Longrightarrow>
     co_id d \<noteq> c \<and> spares c db db'"
  using spares_created spares_dest(5) spares_trans by metis

lemma spares_create_for_teacher:
  assumes "known_course c db"
  shows "spares c db (snd (snd (create_course_for_teacher e ctx body cache db)))"
  unfolding create_course_for_teacher_def
  using assms
  by (auto simp: Let_def split: sum.splits prod.splits auth_ctx.splits if_splits
      dest: spares_created [OF _ assms] spares_granted [OF _ _ assms] spares_dest(1) intro: spares_trans spares_dest(2-))

lemma spares_handlers:
  assumes "\<not> may ctx c db"
  shows "spares c db (snd (patch_course e ctx slug ub db))" "spares c db (snd (rotate_token e ctx slug db))"
    "spares c db (snd (add_member ctx slug u db))" "spares c db (snd (remove_member ctx slug u db))"
    "spares c db (snd (define_endpoint e ctx q exs r db))"
proof -
  have i: "co_id d \<noteq> c" if "authorized_course ctx slug db = Inr d" for d
    using that assms by (auto simp: authorized_course_Inr)
  have j: "i \<noteq> c" if "resolve_course ctx q db = Inr i" for i
    using that assms resolve_course_Inr by blast
  show "spares c db (snd (patch_course e ctx slug ub db))"
    unfolding patch_course_def
    by (auto simp: Let_def split: sum.splits prod.splits option.splits if_splits
        dest!: i intro: spares_trans spares_dest(2-))
  show "spares c db (snd (rotate_token e ctx slug db))" "spares c db (snd (add_member ctx slug u db))"
    "spares c db (snd (remove_member ctx slug u db))" "spares c db (snd (define_endpoint e ctx q exs r db))"
    unfolding rotate_token_def add_member_def remove_member_def define_endpoint_def
    by (auto simp: Let_def exercises_of_define split: sum.splits prod.splits option.splits revoke_outcome.splits
        dest!: i j intro: spares_dest(2-) intro!: spares_exercises)
qed

text \<open>A caller of the teacher routes who may see a course: in open dev mode, or one of its teachers
  with a session that is still valid.\<close>

definition caller_may :: "env \<Rightarrow> headers \<Rightarrow> uuid \<Rightarrow> server \<Rightarrow> bool" where
  "caller_may e h c sv \<longleftrightarrow> sv_open sv \<or>
     (\<exists>t a expiry. session_cookie h = Some t \<and> map_of (sv_sessions sv) t = Some (a, expiry) \<and>
        at_now e < expiry \<and> (a, c) \<in> set (members (sv_db sv)))"

definition presents_admin_token :: "headers \<Rightarrow> server \<Rightarrow> bool" where
  "presents_admin_token h sv \<longleftrightarrow> (\<exists>t expected. bearer_token h = Some t \<and> sv_admin_token sv = Some expected \<and>
     token_bytes t = token_bytes expected)"

lemma require_super_admin_Inr: "require_super_admin h sv = Inr u \<longleftrightarrow> presents_admin_token h sv"
  by (auto simp: require_super_admin_def presents_admin_token_def constant_time_eq_iff split: option.splits if_splits)

lemma teacher_ctx_db: "sv_db (snd (teacher_ctx now h sv)) = sv_db sv"
  by (simp add: teacher_ctx_def Let_def split: prod.splits)

lemma teacher_ctx_may:
  "teacher_ctx (at_now e) h sv = (Some ctx, sv1) \<Longrightarrow> may ctx c (sv_db sv) \<Longrightarrow> caller_may e h c sv"
  by (auto simp: teacher_ctx_def admin_for_def may_def caller_may_def Let_def
      split: option.splits prod.splits if_splits)

lemma on_db_db [simp]: "sv_db (snd (on_db sv r)) = snd r" "sv_db (snd (on_cache sv r3)) = snd (snd r3)"
  by (simp_all add: on_db_def on_cache_def split: prod.splits)

lemma spares_teacher:
  assumes "\<not> may ctx c (sv_db sv)" "known_course c (sv_db sv)"
  shows "spares c (sv_db sv) (sv_db (snd (serve_teacher e ctx call sv)))"
  using spares_handlers [OF assms(1)] spares_create_for_teacher [OF assms(2)]
  by (cases call) (auto split: prod.splits)

lemma spares_create_admin: "spares c (sv_db sv) (sv_db (snd (create_admin_handler e u p sv)))"
  by (auto simp: create_admin_handler_def create_admin_def spares_def known_course_def course_view_def Let_def
      split: option.splits prod.splits if_splits sum.splits create_admin_error.splits)

lemma spares_new_course: "spares c db (snd (create_course_handler e slug name repo p db))"
  by (auto simp: create_course_handler_def split: sum.splits prod.splits dest: spares_dest(1))

text \<open>C2: A course - its row, its teachers, its exercises - is only changed by a request of one of
  its teachers with a valid session, of anyone while no admin exists, or of the holder of the
  super-admin token, who can do no more than grant a membership.\<close>

theorem only_teachers_change_a_course:
  assumes "known_course c (sv_db sv)"
    "course_view c (sv_db (snd (serve e h r sv))) \<noteq> course_view c (sv_db sv)"
  shows "caller_may e h c sv \<or>
    presents_admin_token h sv \<and> (\<exists>username slug. r = Super_Admin (Grant_Membership username slug))"
proof -
  have sp: "\<not> spares c (sv_db sv) (sv_db (snd (serve e h r sv)))"
    using assms by (auto simp: spares_def)
  show ?thesis
  proof (cases r)
    case (Teacher call)
    obtain ctx sv1 where ctx: "teacher_ctx (at_now e) h sv = (ctx, sv1)" by fastforce
    then have db: "sv_db sv1 = sv_db sv" using teacher_ctx_db [of "at_now e" h sv] by simp
    show ?thesis
    proof (cases ctx)
      case None
      then show ?thesis using sp Teacher ctx db by (auto simp: require_teacher_def split: if_splits)
    next
      case (Some cx)
      then have "may cx c (sv_db sv)"
        using sp Teacher ctx db assms(1) spares_teacher [of cx c sv1 e call] by (auto simp: require_teacher_def)
      with ctx Some teacher_ctx_may show ?thesis by blast
    qed
  next
    case (Super_Admin call)
    then have "presents_admin_token h sv" and "\<not> spares c (sv_db sv) (sv_db (snd (serve_admin e call sv)))"
      using sp require_super_admin_Inr [of h sv] by (auto split: sum.splits)
    with Super_Admin show ?thesis
      by (cases call) (auto simp: spares_create_admin spares_new_course)
  qed (use sp in \<open>auto simp: login_def logout_def Let_def split: option.splits\<close>)
qed

section \<open>Who is told an enrollment token\<close>

definition tells_token :: "answer \<Rightarrow> str \<Rightarrow> bool" where
  "tells_token a t \<longleftrightarrow>
     (case a of Detail_Json d \<Rightarrow> dt_token d = t | Token_Json t' \<Rightarrow> t' = t
      | Created_Json _ _ _ t' _ _ \<Rightarrow> t' = t | Course_Json _ _ _ t' \<Rightarrow> t' = t | _ \<Rightarrow> False)"

lemma tells_token_simps [simp]:
  "\<not> tells_token (Error_Json x1) t" "\<not> tells_token No_Content t" "\<not> tells_token Asset t"
  "\<not> tells_token (Redirect x2) t" "\<not> tells_token (Set_Cookie x2) t" "\<not> tells_token (Courses_Json x3) t"
  "\<not> tells_token (Dirs_Json x4 x5) t" "\<not> tells_token (Exercises_Json x6) t" "\<not> tells_token (Admin_Json x7 x8) t"
  "tells_token (Detail_Json dt) t \<longleftrightarrow> dt_token dt = t" "tells_token (Token_Json t') t \<longleftrightarrow> t' = t"
  "tells_token (Created_Json y1 y2 y3 t' y4 y5) t \<longleftrightarrow> t' = t" "tells_token (Course_Json y1 y2 y3 t') t \<longleftrightarrow> t' = t"
  by (simp_all add: tells_token_def)

text \<open>The course a token told belongs to: one the caller may see, or one that is new.\<close>

definition told_course :: "auth_ctx \<Rightarrow> str \<Rightarrow> db \<Rightarrow> db \<Rightarrow> bool" where
  "told_course ctx t db db' \<longleftrightarrow>
     (\<exists>c \<in> set (courses db'). co_token c = t \<and> (may ctx (co_id c) db \<or> \<not> known_course (co_id c) db))"

lemma find_in: "List.find P xs = Some x \<Longrightarrow> x \<in> set xs \<and> P x"
  by (auto simp: find_Some_iff)

lemma rotated_row:
  assumes "rotate_enrollment_token i t db = (Inr t', db')"
  shows "t' = t \<and> (\<exists>c \<in> set (courses db'). co_id c = i \<and> co_token c = t)"
proof -
  have "t' = t" "\<exists>c. List.find (\<lambda>c. co_id c = i) (courses db) = Some c \<and>
      courses db' = map (\<lambda>d. if co_id d = i then d\<lparr>co_token := t\<rparr> else d) (courses db)"
    using assms by (auto simp: rotate_enrollment_token_def update_row_def split: if_splits option.splits)
  then obtain c where c: "c \<in> set (courses db)" "co_id c = i"
    "courses db' = map (\<lambda>d. if co_id d = i then d\<lparr>co_token := t\<rparr> else d) (courses db)"
    by (auto dest!: find_in)
  then have "c\<lparr>co_token := t\<rparr> \<in> set (courses db')" by force
  with c(2) \<open>t' = t\<close> show ?thesis by (intro conjI bexI [of _ "c\<lparr>co_token := t\<rparr>"]) simp_all
qed

lemma courses_grant: "grant_membership a i db = (x, db') \<Longrightarrow> courses db' = courses db"
  by (auto simp: grant_membership_def split: if_splits)

lemma courses_seed: "seed_exercises e c cache db = (x, y, db') \<Longrightarrow> courses db' = courses db"
  by (auto simp: seed_exercises_def Let_def split: option.splits sum.splits prod.splits if_splits)

lemma created_told:
  "create_course_for_teacher e ctx body cache db = (a, cache', db') \<Longrightarrow> tells_token a t \<Longrightarrow> told_course ctx t db db'"
  by (auto simp: create_course_for_teacher_def Let_def told_course_def
      split: sum.splits prod.splits auth_ctx.splits if_splits
      dest!: create_course_Inr courses_grant courses_seed)

lemma new_course_told:
  "create_course_handler e slug name repo p db = (a, db') \<Longrightarrow> tells_token a t \<Longrightarrow>
     (\<exists>c \<in> set (courses db'). co_token c = t \<and> \<not> known_course (co_id c) db)"
  by (auto simp: create_course_handler_def split: sum.splits prod.splits dest!: create_course_Inr)

lemma rotate_told:
  "rotate_token e ctx slug db = (a, db') \<Longrightarrow> tells_token a t \<Longrightarrow> told_course ctx t db db'"
  by (auto simp: rotate_token_def told_course_def authorized_course_Inr split: sum.splits prod.splits
      dest!: rotated_row)

lemma detail_told: "tells_token (get_course ctx slug db) t \<Longrightarrow> told_course ctx t db db"
  by (auto simp: get_course_def answered_def told_course_def authorized_course_Inr bind_result_Inl
      split: sum.splits dest: course_by_slug_in)

lemma teacher_told:
  "serve_teacher e ctx call sv = (a, sv') \<Longrightarrow> tells_token a t \<Longrightarrow> told_course ctx t (sv_db sv) (sv_db sv')"
  by (cases call)
    (auto simp: on_db_def on_cache_def list_courses_def patch_course_def add_member_def remove_member_def
      course_tree_def list_exercises_def define_endpoint_def answered_def Let_def
      split: prod.splits sum.splits option.splits if_splits revoke_outcome.splits
      dest: created_told rotate_told detail_told)

lemma told_same:
  assumes "wf_db db" "c \<in> set (courses db)" "d \<in> set (courses db)" "co_token c = co_token d"
  shows "c = d"
  using assms by (auto simp: wf_db_def distinct_map dest: inj_onD)

text \<open>A course's current enrollment token, with which its students' editors write into it, is
  only told to a teacher of that course with a valid session, or to anyone while there is no
  admin at all.\<close>

theorem tokens_are_told_to_teachers:
  assumes "wf_server sv" "serve e h r sv = (a, sv')"
    "d \<in> set (courses (sv_db sv'))" "known_course (co_id d) (sv_db sv)" "tells_token a (co_token d)"
  shows "caller_may e h (co_id d) sv"
proof -
  have "wf_server sv'"
    using server_keeps_serve [of sv e h r] assms(1,2) by (simp add: server_keeps_def)
  then have same: "c = d" if "c \<in> set (courses (sv_db sv'))" "co_token c = co_token d" for c
    using told_same [OF _ that(1) assms(3) that(2)] by (simp add: wf_server_def)
  show ?thesis
  proof (cases r)
    case (Teacher call)
    obtain ctx sv1 where ctx: "teacher_ctx (at_now e) h sv = (ctx, sv1)" by fastforce
    then have db: "sv_db sv1 = sv_db sv" using teacher_ctx_db [of "at_now e" h sv] by simp
    from assms(2,5) Teacher ctx obtain cx where cx: "ctx = Some cx" "serve_teacher e cx call sv1 = (a, sv')"
      by (auto simp: require_teacher_def split: option.splits if_splits)
    obtain c where "c \<in> set (courses (sv_db sv'))" "co_token c = co_token d"
      and may: "may cx (co_id c) (sv_db sv) \<or> \<not> known_course (co_id c) (sv_db sv)"
      using teacher_told [OF cx(2) assms(5)] by (auto simp: told_course_def db)
    then have "c = d" by (intro same)
    with may assms(4) have "may cx (co_id d) (sv_db sv)" by simp
    with ctx cx(1) teacher_ctx_may show ?thesis by blast
  next
    case (Super_Admin call)
    show ?thesis
    proof (cases call)
      case (New_Course slug name repo p)
      with Super_Admin assms(2,5) obtain r' where
        "create_course_handler e slug name repo p (sv_db sv) = (a, sv_db sv')"
        by (auto simp: on_db_def split: sum.splits prod.splits)
      then show ?thesis using new_course_told [OF _ assms(5)] same assms(4) by blast
    qed (use Super_Admin assms(2,5) in \<open>auto simp: on_db_def grant_membership_handler_def create_admin_handler_def
        split: sum.splits prod.splits option.splits create_admin_error.splits\<close>)
  qed (use assms(2,5) in \<open>auto simp: login_def logout_def Let_def split: option.splits\<close>)
qed

section \<open>A server to try\<close>

text \<open>One teacher, her course, and her session until second 1000.\<close>

definition ada_course :: course where
  "ada_course = \<lparr>co_id = Uuid 2, co_slug = lit ''intro'', co_name = lit ''Intro'', co_token = lit ''t1'',
     co_repo = None, co_archived = None, co_ref = None, co_dir = None, co_description = Some (lit ''Old''),
     co_term = Some (lit ''Fall''), co_institution = None, co_level = None, co_created = 5\<rparr>"

definition ada_db :: db where
  "ada_db = \<lparr>admins = [\<lparr>ad_id = Uuid 7, ad_username = lit ''ada'', ad_hash = lit ''h''\<rparr>],
     courses = [ada_course], members = [(Uuid 7, Uuid 2)], exercises = []\<rparr>"

definition ada_server :: server where
  "ada_server = \<lparr>sv_db = ada_db, sv_sessions = [(lit ''s'', (Uuid 7, 1000))], sv_open = False,
     sv_admin_token = None, sv_tokens = []\<rparr>"

definition ada_env :: "nat \<Rightarrow> str \<Rightarrow> env" where
  "ada_env now tok = \<lparr>en_now = now, en_id = Uuid 9, en_token = tok, en_ids = Uuid,
     en_hasher = \<lparr>hash_password = Some, verify_password = (=)\<rparr>,
     en_access = \<lparr>shared_token = None, allowed_owners = [], has_app = False\<rparr>, en_mint = Inl [],
     en_config = (\<lambda>_ _ _. None), en_listing = (\<lambda>_ _ _. Inr []), en_tree = (\<lambda>_ _ _. Inr [])\<rparr>"

definition ada_headers :: headers where
  "ada_headers = \<lparr>hd_cookie = Some (lit ''theme=dark; hermione_session=s''), hd_authorization = None\<rparr>"

lemmas cookie_eval = session_cookie_def ada_headers_def lit_def split_once_def SESSION_COOKIE_def trim_def
  trim_matches_def trim_start_def trim_end_def is_whitespace_def

lemma ada_cookie: "session_cookie ada_headers = Some (lit ''s'')"
  by (simp add: cookie_eval)

lemma wf_ada: "wf_server ada_server"
  by (simp add: wf_server_def wf_db_def wf_map_def wf_exercises_def ada_server_def ada_db_def ada_course_def)

lemma ada_ctx: "now < 1000 \<Longrightarrow> teacher_ctx (at_now (ada_env now tok)) ada_headers ada_server = (Some (Admin (Uuid 7)), ada_server)"
  by (simp add: teacher_ctx_def ada_cookie admin_for_def ada_server_def at_now_def ada_env_def Let_def)

lemma ada_env_simps [simp]:
  "at_now (ada_env now tok) = int now" "en_token (ada_env now tok) = tok" "en_ids (ada_env now tok) = Uuid"
  by (simp_all add: ada_env_def at_now_def)

lemma ada_simps [simp]:
  "sv_db ada_server = ada_db" "courses ada_db = [ada_course]" "members ada_db = [(Uuid 7, Uuid 2)]"
  "co_id ada_course = Uuid 2" "co_token ada_course = lit ''t1''" "co_slug ada_course = lit ''intro''"
  by (simp_all add: ada_server_def ada_db_def ada_course_def)

lemma ada_authorized: "authorized_course (Admin (Uuid 7)) (lit ''intro'') ada_db = Inr ada_course"
  by (simp add: authorized_course_def course_by_slug_def ensure_member_def is_member_def)

lemma ada_rotates:
  "serve (ada_env 10 (lit ''t2'')) ada_headers (Teacher (Rotate_Token (lit ''intro''))) ada_server =
    (Token_Json (lit ''t2''), ada_server\<lparr>sv_db := ada_db\<lparr>courses := [ada_course\<lparr>co_token := lit ''t2''\<rparr>]\<rparr>\<rparr>)"
  using ada_ctx [of 10 "lit ''t2''"]
  by (simp add: require_teacher_def rotate_token_def ada_authorized on_db_def
      rotate_enrollment_token_def update_row_def)

theorem every_course_keeps_a_teacher_witness:
  "wf_server (snd (serve (ada_env 20 (lit ''x'')) ada_headers Logout (boot (ada_env 10 []) None (lit ''root'') None ada_db))) \<and>
   teachers (Uuid 2) (sv_db (snd (serve (ada_env 20 (lit ''x'')) ada_headers Logout
     (boot (ada_env 10 []) None (lit ''root'') None ada_db)))) \<noteq> {}"
proof -
  have "wf_db ada_db" using wf_ada by (simp add: wf_server_def)
  moreover have "sv_db (boot (ada_env 10 []) None (lit ''root'') None ada_db) = ada_db"
    by (simp add: boot_def count_admins_def Let_def)
  moreover have "served\<^sup>*\<^sup>* sv (snd (serve e h r sv))" for e h r sv
    by (rule r_into_rtranclp) (rule served.intros)
  ultimately show ?thesis
    using every_course_keeps_a_teacher [OF _ rtranclp.rtrancl_refl,
        of ada_db "ada_env 10 []" None "lit ''root''" None
           "snd (serve (ada_env 20 (lit ''x'')) ada_headers Logout (boot (ada_env 10 []) None (lit ''root'') None ada_db))"]
    by (simp only: simp_thms) (auto simp: teachers_def)
qed

theorem only_teachers_change_a_course_witness:
  "caller_may (ada_env 10 (lit ''t2'')) ada_headers (Uuid 2) ada_server"
proof -
  have changed: "course_view (Uuid 2) (sv_db (snd (serve (ada_env 10 (lit ''t2'')) ada_headers
      (Teacher (Rotate_Token (lit ''intro''))) ada_server))) \<noteq> course_view (Uuid 2) (sv_db ada_server)"
    unfolding ada_rotates by (simp add: course_view_def) (simp add: ada_course_def)
  have "known_course (Uuid 2) (sv_db ada_server)" by (simp add: known_course_def)
  from only_teachers_change_a_course [OF this changed] show ?thesis by simp
qed

theorem tokens_are_told_to_teachers_witness:
  "caller_may (ada_env 10 (lit ''t2'')) ada_headers (Uuid 2) ada_server"
  using tokens_are_told_to_teachers [OF wf_ada ada_rotates, of "ada_course\<lparr>co_token := lit ''t2''\<rparr>"]
  by (simp add: known_course_def)

end
