(* ===== verification/Course_Rules.thy ===== *)
theory Course_Rules
  imports Course_Access
begin

text \<open>
  What single calls of the course API do: a settings patch (\<open>patch_course\<close>), a rotated enrollment
  token seen from the ingest gate (\<open>require_ingest\<close>), and a teacher's session from its login to
  the end of its cookie, over any run of requests.
\<close>

section \<open>A settings patch\<close>

text \<open>A field absent from the body keeps its column; \<^verbatim>\<open>null\<close> or a blank value clears it.\<close>

definition field_after :: "str option option \<Rightarrow> str option \<Rightarrow> str option" where
  "field_after v old = (case v of None \<Rightarrow> old | Some x \<Rightarrow> non_blank x)"

definition dir_after :: "str option option \<Rightarrow> str option \<Rightarrow> str option" where
  "dir_after v old =
     (case v of None \<Rightarrow> old | Some x \<Rightarrow> map_option (trim_end (\<lambda>c. c = c_slash)) (non_blank x))"

definition valid_settings :: "update_course_body \<Rightarrow> bool" where
  "valid_settings body \<longleftrightarrow>
     (\<forall>x s. ub_ref body = Some x \<longrightarrow> non_blank x = Some s \<longrightarrow> (\<exists>r. git_ref_parse s = Inr r)) \<and>
     (\<forall>x s. ub_dir body = Some x \<longrightarrow> non_blank x = Some s \<longrightarrow> (\<exists>p. repo_path_parse s = Inr p))"

definition patched :: "int \<Rightarrow> update_course_body \<Rightarrow> course \<Rightarrow> course" where
  "patched now body c = c\<lparr>
     co_name := unwrap_or (non_blank (ub_name body)) (co_name c),
     co_repo := field_after (ub_repo body) (co_repo c),
     co_archived := (case ub_archived body of None \<Rightarrow> co_archived c | Some a \<Rightarrow> if a then Some now else None),
     co_ref := field_after (ub_ref body) (co_ref c),
     co_dir := dir_after (ub_dir body) (co_dir c),
     co_description := field_after (ub_description body) (co_description c),
     co_term := field_after (ub_term body) (co_term c),
     co_institution := field_after (ub_institution body) (co_institution c),
     co_level := field_after (ub_level body) (co_level c)\<rparr>"

lemma validated_ref:
  "validated v (\<lambda>s. bind_result (git_ref_parse s) (\<lambda>r. Inr (ref_str r))) =
     (case v of
        None \<Rightarrow> Inr None
      | Some x \<Rightarrow>
          (case non_blank x of
             None \<Rightarrow> Inr (Some None)
           | Some s \<Rightarrow> (case git_ref_parse s of Inl i \<Rightarrow> Inl (bad_request (invalid_text i)) | Inr r \<Rightarrow> Inr (Some (Some s)))))"
proof -
  have "ref_str r = s" if "git_ref_parse s = Inr r" "non_blank x = Some s" for s r x
    using that by (auto simp: git_ref_parse_Inr non_blank_Some)
  then show ?thesis
    by (auto simp: validated_def patch_field_def split: option.splits sum.splits)
qed

lemma validated_dir:
  "validated v (\<lambda>s. bind_result (repo_path_parse s) (\<lambda>p. Inr (path_str p))) =
     (case v of
        None \<Rightarrow> Inr None
      | Some x \<Rightarrow>
          (case non_blank x of
             None \<Rightarrow> Inr (Some None)
           | Some s \<Rightarrow> (case repo_path_parse s of
               Inl i \<Rightarrow> Inl (bad_request (invalid_text i))
             | Inr p \<Rightarrow> Inr (Some (Some (trim_end (\<lambda>c. c = c_slash) s))))))"
proof -
  have "path_str p = trim_end (\<lambda>c. c = c_slash) s" if "repo_path_parse s = Inr p" "non_blank x = Some s" for s p x
    using that repo_path_parse_Inr(2) [OF that(1)] by (auto simp: non_blank_Some)
  then show ?thesis
    by (auto simp: validated_def patch_field_def split: option.splits sum.splits)
qed

lemma find_unique:
  assumes "distinct (map f xs)" "x \<in> set xs"
  shows "List.find (\<lambda>y. f y = f x) xs = Some x"
  using assms by (induction xs) (auto simp: rev_image_eqI)

lemma find_course: "wf_db db \<Longrightarrow> c \<in> set (courses db) \<Longrightarrow> List.find (\<lambda>d. co_id d = co_id c) (courses db) = Some c"
  by (rule find_unique) (simp_all add: wf_db_def)

definition on_course :: "course \<Rightarrow> (course \<Rightarrow> course) \<Rightarrow> db \<Rightarrow> db" where
  "on_course c f db = db\<lparr>courses := map (\<lambda>d. if co_id d = co_id c then f d else d) (courses db)\<rparr>"

lemma update_row_known:
  "wf_db db \<Longrightarrow> c \<in> set (courses db) \<Longrightarrow> update_row (co_id c) f db = (Inr (f c), on_course c f db)"
  by (simp add: update_row_def find_course on_course_def)

lemma on_course_twice:
  "(\<And>d. co_id (f d) = co_id d) \<Longrightarrow> on_course c g (on_course c f db) = on_course c (\<lambda>d. g (f d)) db"
  by (simp add: on_course_def comp_def)

lemma on_course_id:
  assumes "\<And>d. f d = d"
  shows "on_course c f db = db"
  by (cases db) (simp add: on_course_def assms map_idI)

lemma apply_patch_empty: "patch_is_empty p \<Longrightarrow> apply_patch p c = c"
  by (simp add: patch_is_empty_def apply_patch_def)

lemma patch_once:
  assumes "wf_db db" "c \<in> set (courses db)"
  shows "(if patch_is_empty p then (Inr c, db) else update_course (co_id c) p db) =
    (Inr (apply_patch p c), on_course c (apply_patch p) db)"
  using assms by (simp add: update_course_def update_row_known apply_patch_empty on_course_id)

lemma find_on_course:
  assumes "wf_db db" "c \<in> set (courses db)" "\<And>d. co_id (f d) = co_id d"
  shows "update_row (co_id c) g (on_course c f db) = (Inr (g (f c)), on_course c (\<lambda>d. g (f d)) db)"
proof -
  have "List.find (\<lambda>d. co_id d = co_id c) (map (\<lambda>d. if co_id d = co_id c then f d else d) cs) =
      map_option f (List.find (\<lambda>d. co_id d = co_id c) cs)" for cs
    by (induction cs) (simp_all add: assms(3))
  then show ?thesis
    by (simp add: update_row_def on_course_def find_course [OF assms(1,2)] assms(3) comp_def)
qed

text \<open>A settings patch that names a malformed branch or folder is refused and changes nothing;
  any other sets exactly the fields it names, clearing those given as \<^verbatim>\<open>null\<close> or blank, on that one
  course: its id, slug, enrollment token and creation, its members and every other row are as before.\<close>

theorem patch_sets_what_it_names:
  assumes "wf_db db" "authorized_course ctx slug db = Inr c"
  shows "if valid_settings body
    then patch_course e ctx slug body db = (No_Content, on_course c (patched (at_now e) body) db)
    else \<exists>m. patch_course e ctx slug body db = (Error_Json (bad_request m), db)"
proof -
  have c: "c \<in> set (courses db)"
    using assms(2) by (auto simp: authorized_course_Inr dest: course_by_slug_in)
  show ?thesis
  proof (cases "valid_settings body")
    case True
    define p where "p = \<lparr>pa_name = non_blank (ub_name body), pa_repo = patch_field (ub_repo body),
      pa_ref = map_option non_blank (ub_ref body), pa_dir = map_option (\<lambda>x. dir_after (Some x) None) (ub_dir body),
      pa_description = patch_field (ub_description body), pa_term = patch_field (ub_term body),
      pa_institution = patch_field (ub_institution body), pa_level = patch_field (ub_level body)\<rparr>"
    have "validated (ub_ref body) (\<lambda>s. bind_result (git_ref_parse s) (\<lambda>r. Inr (ref_str r))) = Inr (pa_ref p)"
      "validated (ub_dir body) (\<lambda>s. bind_result (repo_path_parse s) (\<lambda>p. Inr (path_str p))) = Inr (pa_dir p)"
      using True unfolding validated_ref validated_dir valid_settings_def
      by (auto simp: p_def dir_after_def split: option.splits sum.splits)
    moreover have "\<lparr>pa_name = non_blank (ub_name body), pa_repo = patch_field (ub_repo body),
      pa_ref = pa_ref p, pa_dir = pa_dir p,
      pa_description = patch_field (ub_description body), pa_term = patch_field (ub_term body),
      pa_institution = patch_field (ub_institution body), pa_level = patch_field (ub_level body)\<rparr> = p"
      by (simp add: p_def)
    ultimately have "patch_course e ctx slug body db =
      (case ub_archived body of
         None \<Rightarrow> (No_Content, on_course c (apply_patch p) db)
       | Some a \<Rightarrow>
           (case set_course_archived (co_id c) (at_now e) a (on_course c (apply_patch p) db) of
              (Inl err, db) \<Rightarrow> (Error_Json (from_db_err err), db)
            | (Inr _, db) \<Rightarrow> (No_Content, db)))"
      using patch_once [OF assms(1) c, of p] unfolding patch_course_def assms(2)
      by simp
    also have "\<dots> = (No_Content, on_course c (patched (at_now e) body) db)"
    proof -
      have id: "co_id (apply_patch p d) = co_id d" for d by (simp add: apply_patch_def)
      have "patched (at_now e) body =
          (\<lambda>d. case ub_archived body of None \<Rightarrow> apply_patch p d
           | Some a \<Rightarrow> (apply_patch p d)\<lparr>co_archived := (if a then Some (at_now e) else None)\<rparr>)"
        by (rule ext) (auto simp: patched_def apply_patch_def p_def patch_field_def field_after_def dir_after_def
            split: option.splits)
      then show ?thesis
        by (auto simp: set_course_archived_def find_on_course [OF assms(1) c id] split: option.splits
            cong: map_cong)
    qed
    finally show ?thesis using True by simp
  next
    case False
    then have "(\<exists>i. validated (ub_ref body) (\<lambda>s. bind_result (git_ref_parse s) (\<lambda>r. Inr (ref_str r))) = Inl (bad_request i)) \<or>
      (\<exists>r i. validated (ub_ref body) (\<lambda>s. bind_result (git_ref_parse s) (\<lambda>r. Inr (ref_str r))) = Inr r \<and>
       validated (ub_dir body) (\<lambda>s. bind_result (repo_path_parse s) (\<lambda>p. Inr (path_str p))) = Inl (bad_request i))"
      unfolding validated_ref validated_dir valid_settings_def
      by (auto split: option.splits sum.splits)
    with False show ?thesis unfolding patch_course_def assms(2) by auto
  qed
qed

theorem patch_sets_what_it_names_witness:
  "patch_course (ada_env 10 []) (Admin (Uuid 7)) (lit ''intro'')
     \<lparr>ub_name = None, ub_repo = None, ub_archived = Some True, ub_ref = None, ub_dir = None,
      ub_description = Some None, ub_term = Some (Some (lit ''Spring'')), ub_institution = None, ub_level = None\<rparr> ada_db =
   (No_Content, ada_db\<lparr>courses := [ada_course\<lparr>co_archived := Some 10, co_description := None,
      co_term := Some (lit ''Spring'')\<rparr>]\<rparr>)" (is "patch_course ?e ?ctx ?slug ?body _ = _")
proof -
  have "trim (lit ''Spring'') = lit ''Spring''"
    by (simp add: lit_def trim_def trim_matches_def trim_start_def trim_end_def is_whitespace_def)
  then have spring: "non_blank (Some (lit ''Spring'')) = Some (lit ''Spring'')"
    by (simp add: non_blank_def)
  have "valid_settings ?body" by (simp add: valid_settings_def)
  with patch_sets_what_it_names [OF _ ada_authorized, where body = ?body and e = ?e] wf_ada
  have "patch_course ?e ?ctx ?slug ?body ada_db = (No_Content, on_course ada_course (patched 10 ?body) ada_db)"
    by (simp add: wf_server_def)
  then show ?thesis
    by (simp add: on_course_def patched_def field_after_def dir_after_def spring)
      (simp add: non_blank_def ada_course_def)
qed

section \<open>A rotated token\<close>

definition with_token :: "str \<Rightarrow> headers" where
  "with_token t = \<lparr>hd_cookie = None, hd_authorization = Some (lit ''Bearer '' @ t)\<rparr>"

lemma bearer_with_token [simp]: "bearer_token (with_token t) = Some t"
  by (simp add: bearer_token_def with_token_def strip_prefix_def starts_with_def)

lemma require_ingest_with:
  "require_ingest (with_token t) sv =
     (case course_by_token t (sv_db sv) of Some c \<Rightarrow> Inr (co_id c)
      | None \<Rightarrow> Inl (unauthorized (lit ''invalid enrollment token'')))"
  by (simp add: require_ingest_def)

lemma not_image: "k \<notin> f ` S \<Longrightarrow> y \<in> S \<Longrightarrow> f y \<noteq> k"
  using imageI [of y S f] by auto

text \<open>Looking a unique column up after one row has changed in it.\<close>

lemma find_after_change:
  assumes "distinct (map key xs)" "x \<in> set xs" "key x \<noteq> new" "new \<notin> key ` set xs"
    "\<And>y. y \<in> set xs \<Longrightarrow> p y \<longleftrightarrow> y = x" "key (f x) = new"
  shows "List.find (\<lambda>y. key y = k) (map (\<lambda>y. if p y then f y else y) xs) =
    (if k = new then Some (f x) else if k = key x then None else List.find (\<lambda>y. key y = k) xs)"
  using assms
proof (induction xs)
  case (Cons y xs)
  show ?case
  proof (cases "y = x")
    case True
    then have "x \<notin> set xs" "key x \<notin> key ` set xs" using Cons.prems(1) by auto
    then have "map (\<lambda>y. if p y then f y else y) xs = xs"
      using Cons.prems(5) by (intro map_idI) auto
    moreover have "List.find (\<lambda>y. key y = key x) xs = None"
      using not_image [OF \<open>key x \<notin> key ` set xs\<close>] by (auto simp: find_None_iff)
    ultimately show ?thesis using Cons.prems True by auto
  next
    case False
    with Cons show ?thesis by auto
  qed
qed simp

text \<open>C16: When a course's enrollment token is rotated, the old one opens nothing any more, the new one
  opens that course, and every other token opens what it opened before.\<close>

theorem rotated_token_admits_nobody:
  assumes "wf_db (sv_db sv)" "authorized_course ctx slug (sv_db sv) = Inr c"
    "en_token e \<notin> co_token ` set (courses (sv_db sv))"
  shows "\<exists>db'. rotate_token e ctx slug (sv_db sv) = (Token_Json (en_token e), db') \<and>
    (\<forall>t. require_ingest (with_token t) (sv\<lparr>sv_db := db'\<rparr>) =
       (if t = en_token e then Inr (co_id c)
        else if t = co_token c then Inl (unauthorized (lit ''invalid enrollment token''))
        else require_ingest (with_token t) sv))"
proof -
  let ?f = "\<lambda>c :: course. c\<lparr>co_token := en_token e\<rparr>"
  have c: "c \<in> set (courses (sv_db sv))"
    using assms(2) by (auto simp: authorized_course_Inr dest: course_by_slug_in)
  have new: "co_token c \<noteq> en_token e" using imageI [OF c, of co_token] assms(3) by auto
  have same: "co_id d = co_id c \<longleftrightarrow> d = c" if "d \<in> set (courses (sv_db sv))" for d
    using that c assms(1) by (auto simp: wf_db_def distinct_map dest: inj_onD)
  have "rotate_token e ctx slug (sv_db sv) = (Token_Json (en_token e), on_course c ?f (sv_db sv))"
    using not_image [OF assms(3)] by (auto simp: rotate_token_def assms(2) rotate_enrollment_token_def list_ex_iff
        update_row_known [OF assms(1) c])
  moreover have "course_by_token t (on_course c ?f (sv_db sv)) =
      (if t = en_token e then Some (?f c) else if t = co_token c then None else course_by_token t (sv_db sv))" for t
    unfolding course_by_token_def on_course_def
    using find_after_change [of co_token "courses (sv_db sv)" c "en_token e" "\<lambda>d. co_id d = co_id c" ?f t]
      assms(1,3) c new same by (simp add: wf_db_def)
  ultimately show ?thesis by (auto simp: require_ingest_with)
qed

theorem rotated_token_admits_nobody_witness:
  "require_ingest (with_token (lit ''t1'')) (ada_server\<lparr>sv_db := snd (rotate_token (ada_env 10 (lit ''t2''))
     (Admin (Uuid 7)) (lit ''intro'') ada_db)\<rparr>) = Inl (unauthorized (lit ''invalid enrollment token''))"
  using rotated_token_admits_nobody [of ada_server "Admin (Uuid 7)" "lit ''intro''" ada_course "ada_env 10 (lit ''t2'')"]
    wf_ada ada_authorized
  by (auto simp: wf_server_def)

section \<open>How long a session lasts\<close>

text \<open>A run of requests, each with what it draws from outside and its headers.\<close>

type_synonym call = "env \<times> headers \<times> request"

fun run_calls :: "call list \<Rightarrow> server \<Rightarrow> server" where
  "run_calls [] sv = sv"
| "run_calls ((e, h, r) # calls) sv = run_calls calls (snd (serve e h r sv))"

fun in_order :: "nat \<Rightarrow> call list \<Rightarrow> bool" where
  "in_order now [] \<longleftrightarrow> True"
| "in_order now ((e, h, r) # calls) \<longleftrightarrow> now \<le> en_now e \<and> in_order (en_now e) calls"

fun last_time :: "nat \<Rightarrow> call list \<Rightarrow> nat" where
  "last_time now [] = now"
| "last_time now ((e, h, r) # calls) = last_time (en_now e) calls"

text \<open>No call signs this session out, and none draws its token again.\<close>

definition leaves_alone :: "str \<Rightarrow> call \<Rightarrow> bool" where
  "leaves_alone t c \<longleftrightarrow> (case c of (e, h, r) \<Rightarrow> en_token e \<noteq> t \<and> (r = Logout \<longrightarrow> session_cookie h \<noteq> Some t))"

definition holds_session :: "nat \<Rightarrow> str \<Rightarrow> uuid \<times> int \<Rightarrow> server \<Rightarrow> bool" where
  "holds_session now t entry sv \<longleftrightarrow> wf_server sv \<and> \<not> sv_open sv \<and>
     (\<forall>later \<ge> now. teacher_sessions.reads (sv_sessions sv) later t = opt_filter (session_fresh later) (Some entry))"

lemma sessions_teacher: "sv_sessions (snd (serve_teacher e ctx call sv)) = sv_sessions sv"
  by (cases call) (auto simp: on_db_def on_cache_def split: prod.splits)

lemma sessions_admin: "sv_sessions (snd (serve_admin e call sv)) = sv_sessions sv"
  by (cases call) (auto simp: on_db_def create_admin_handler_def
    split: prod.splits sum.splits create_admin_error.splits)

lemma open_kept: "\<not> sv_open sv \<Longrightarrow> wf_server sv \<Longrightarrow> \<not> sv_open (snd (serve e h r sv))"
  using server_keeps_serve [of sv e h r] by (auto simp: server_keeps_def wf_server_def keeps_def)

lemma sessions_serve:
  "sv_sessions (snd (serve e h r sv)) =
     (case r of
        Login u p \<Rightarrow> (case verify_login (en_hasher e) u p (sv_db sv) of
            None \<Rightarrow> sv_sessions sv
          | Some a \<Rightarrow> create_session (at_now e) (en_token e) a (sv_sessions sv))
      | Logout \<Rightarrow> (case session_cookie h of None \<Rightarrow> sv_sessions sv | Some t \<Rightarrow> end_session t (sv_sessions sv))
      | Teacher _ \<Rightarrow> snd (admin_for (at_now e) (session_cookie h) (sv_sessions sv))
      | Super_Admin _ \<Rightarrow> sv_sessions sv)"
proof (cases r)
  case (Teacher call)
  then show ?thesis
    by (auto simp: require_teacher_def teacher_ctx_def sessions_teacher Let_def split: prod.splits option.splits)
next
  case (Super_Admin call)
  then show ?thesis by (simp add: sessions_admin split: sum.splits)
qed (simp_all add: login_def logout_def Let_def split: option.splits)

lemma holds_session_serve:
  assumes "holds_session now t entry sv" "now \<le> en_now e" "leaves_alone t (e, h, r)"
  shows "holds_session (en_now e) t entry (snd (serve e h r sv))"
proof -
  have wf: "wf_server sv" and shut: "\<not> sv_open sv"
    using assms(1) by (simp_all add: holds_session_def)
  then have wfm: "wf_map (sv_sessions sv)" by (simp add: wf_server_def)
  have "teacher_sessions.reads (sv_sessions (snd (serve e h r sv))) later t = teacher_sessions.reads (sv_sessions sv) later t"
    if "en_now e \<le> later" for later
    unfolding sessions_serve
    using assms(3) teacher_sessions.reads_sweep [OF wfm that] teacher_sessions.reads_put [OF wfm that]
    by (auto simp: leaves_alone_def create_session_def end_session_def at_now_def teacher_sessions.reads_def
        split: request.splits option.splits)
  moreover have "wf_server (snd (serve e h r sv))"
    using server_keeps_serve [of sv e h r] wf by (simp add: server_keeps_def)
  ultimately show ?thesis
    using assms(1,2) open_kept [OF shut wf] by (simp add: holds_session_def)
qed

lemma holds_session_run:
  "holds_session now t entry sv \<Longrightarrow> in_order now calls \<Longrightarrow> list_all (leaves_alone t) calls \<Longrightarrow>
     holds_session (last_time now calls) t entry (run_calls calls sv)"
  by (induction now calls arbitrary: sv rule: in_order.induct) (simp_all add: holds_session_serve)

lemma holds_session_ctx:
  assumes "holds_session now t (a, x) sv" "now \<le> later" "session_cookie h = Some t"
  shows "fst (teacher_ctx (int later) h sv) = (if int later < x then Some (Admin a) else None)"
  using assms unfolding holds_session_def
  by (auto simp: teacher_ctx_def admin_for_def teacher_sessions.reads_def session_fresh_def opt_filter_None
      Let_def split: option.splits if_splits prod.splits)

text \<open>C17: A login sets a cookie good for 43200 seconds and opens a session that is good for exactly as
  long: under any run of requests that does not sign it out, it is that admin's until then, and after
  it nobody's, whatever expired entries the map has swept in between.\<close>

theorem session_lasts_as_its_cookie:
  assumes "wf_server sv" "verify_login (en_hasher e) username password (sv_db sv) = Some a"
    "in_order (en_now e) calls" "list_all (leaves_alone (en_token e)) calls"
    "last_time (en_now e) calls \<le> later" "session_cookie h = Some (en_token e)"
  shows "fst (serve e h' (Login username password) sv) =
      Set_Cookie (lit ''hermione_session='' @ en_token e @ lit ''; HttpOnly; SameSite=Strict; Path=/; Max-Age=43200'') \<and>
    fst (teacher_ctx (int later) h (run_calls calls (snd (serve e h' (Login username password) sv)))) =
      (if later < en_now e + 43200 then Some (Admin a) else None)"
proof -
  let ?sv = "snd (serve e h' (Login username password) sv)"
  have "admins (sv_db sv) \<noteq> []" using verify_login_admin [OF assms(2)] by auto
  then have shut: "\<not> sv_open sv" using assms(1) by (simp add: wf_server_def)
  have wf: "wf_server ?sv"
    using server_keeps_serve [of sv e h' "Login username password"] assms(1) by (simp add: server_keeps_def)
  have "teacher_sessions.reads (sv_sessions ?sv) t (en_token e) =
      opt_filter (session_fresh t) (Some (a, int (en_now e) + SESSION_TTL_SECS))" for t
    using assms(2) by (simp add: login_def create_session_def teacher_sessions.reads_def at_now_def Let_def)
  moreover have "\<not> sv_open ?sv" by (rule open_kept [OF shut assms(1)])
  ultimately have "holds_session (en_now e) (en_token e) (a, int (en_now e) + SESSION_TTL_SECS) ?sv"
    using wf by (simp add: holds_session_def)
  from holds_session_ctx [OF holds_session_run [OF this assms(3,4)] assms(5,6)]
  have "fst (teacher_ctx (int later) h (run_calls calls ?sv)) =
      (if later < en_now e + 43200 then Some (Admin a) else None)"
    by (simp add: SESSION_TTL_SECS_def)
  moreover have "fst (serve e h' (Login username password) sv) =
      Set_Cookie (lit ''hermione_session='' @ en_token e @ lit ''; HttpOnly; SameSite=Strict; Path=/; Max-Age=43200'')"
    using assms(2) by (simp add: login_def Let_def SESSION_COOKIE_def) (simp add: lit_def)
  ultimately show ?thesis by blast
qed

theorem session_lasts_as_its_cookie_witness:
  "fst (teacher_ctx 43209 ada_headers (run_calls [(ada_env 20 (lit ''z''), ada_headers, Teacher Page)]
     (snd (serve (ada_env 10 (lit ''s'')) ada_headers (Login (lit ''ada'') (lit ''h'')) ada_server)))) = Some (Admin (Uuid 7)) \<and>
   fst (teacher_ctx 43210 ada_headers (run_calls [(ada_env 20 (lit ''z''), ada_headers, Teacher Page)]
     (snd (serve (ada_env 10 (lit ''s'')) ada_headers (Login (lit ''ada'') (lit ''h'')) ada_server)))) = None"
proof -
  let ?e = "ada_env 10 (lit ''s'')" and ?calls = "[(ada_env 20 (lit ''z''), ada_headers, Teacher Page)]"
  have now: "en_now (ada_env n t) = n" for n t by (simp add: ada_env_def)
  have "verify_login (en_hasher ?e) (lit ''ada'') (lit ''h'') (sv_db ada_server) = Some (Uuid 7)"
    by (simp add: verify_login_def find_admin_def ada_db_def ada_env_def)
  note session_lasts_as_its_cookie [OF wf_ada this, of ?calls _ ada_headers ada_headers]
  from this [of 43209] this [of 43210] show ?thesis
    by (simp add: now ada_cookie leaves_alone_def del: serve.simps)
qed

end
