(* ===== verification/Hub.thy ===== *)
theory Hub
  imports Expiring
begin

text \<open>
  The live fan-out of \<^verbatim>\<open>crates/server/src/state.rs\<close>: \<^verbatim>\<open>Hub\<close>, a map from keys to tokio's broadcast
  channels. A channel is the list of its receivers, each with the messages it has not taken yet;
  a receiver that falls more than \<open>cap\<close> messages behind loses the oldest. The lemmas say what a
  listener finds in its queue, and that a hub only holds channels somebody has used.
\<close>

type_synonym 'm receivers = "(nat, 'm list) hashmap"
type_synonym ('k, 'm) hub = "('k, 'm receivers) hashmap"

text \<open>\<^verbatim>\<open>broadcast::channel(cap)\<close>: what a slow receiver still has.\<close>

definition lagged :: "nat \<Rightarrow> 'm list \<Rightarrow> 'm list" where
  "lagged cap q = drop (length q - cap) q"

definition channel :: "'k \<Rightarrow> ('k, 'm) hub \<Rightarrow> 'm receivers \<times> ('k, 'm) hub" where
  "channel k h = (case map_of h k of Some rs \<Rightarrow> (rs, h) | None \<Rightarrow> ([], AList.update k [] h))"

definition subscribe :: "'k \<Rightarrow> nat \<Rightarrow> ('k, 'm) hub \<Rightarrow> ('k, 'm) hub" where
  "subscribe k who h = (let (rs, h) = channel k h in AList.update k (AList.update who [] rs) h)"

text \<open>\<^verbatim>\<open>send\<close> fails exactly when nobody is listening; the channel is then forgotten.\<close>

definition publish :: "nat \<Rightarrow> 'k \<Rightarrow> 'm \<Rightarrow> ('k, 'm) hub \<Rightarrow> ('k, 'm) hub" where
  "publish cap k msg h =
     (case map_of h k of
        None \<Rightarrow> h
      | Some rs \<Rightarrow>
          if rs = [] then AList.delete k h
          else AList.update k (map (\<lambda>(who, q). (who, lagged cap (q @ [msg]))) rs) h)"

definition is_listening :: "'k \<Rightarrow> ('k, 'm) hub \<Rightarrow> bool" where
  "is_listening k h = (case map_of h k of Some rs \<Rightarrow> length rs > 0 | None \<Rightarrow> False)"

definition remove_channel :: "'k \<Rightarrow> ('k, 'm) hub \<Rightarrow> ('k, 'm) hub" where
  "remove_channel k h = AList.delete k h"

text \<open>A receiver that is dropped leaves its channel, which stays in the map.\<close>

definition hang_up :: "'k \<Rightarrow> nat \<Rightarrow> ('k, 'm) hub \<Rightarrow> ('k, 'm) hub" where
  "hang_up k who h = (case map_of h k of None \<Rightarrow> h | Some rs \<Rightarrow> AList.update k (AList.delete who rs) h)"

definition queue :: "'k \<Rightarrow> nat \<Rightarrow> ('k, 'm) hub \<Rightarrow> 'm list option" where
  "queue k who h = Option.bind (map_of h k) (\<lambda>rs. map_of rs who)"

lemma map_of_map_values: "map_of (map (\<lambda>(k, v). (k, f v)) m) k = map_option f (map_of m k)"
  by (induction m) auto

lemma queue_subscribe:
  "queue k' who' (subscribe k who h) = (if k' = k \<and> who' = who then Some [] else queue k' who' h)"
  by (auto simp: queue_def subscribe_def channel_def Let_def split: option.splits)

lemma queue_publish:
  "queue k' who (publish cap k msg h) =
     (if k' = k then map_option (\<lambda>q. lagged cap (q @ [msg])) (queue k' who h) else queue k' who h)"
  by (auto simp: queue_def publish_def map_of_map_values split: option.splits)

lemma is_listening_iff: "is_listening k h \<longleftrightarrow> (\<exists>who q. queue k who h = Some q)"
proof -
  have "rs \<noteq> [] \<longleftrightarrow> (\<exists>who q. map_of rs who = Some q)" for rs :: "'m receivers"
    by (cases rs) auto
  then show ?thesis by (auto simp: is_listening_def queue_def split: option.splits)
qed

lemma lagged_all: "length q \<le> cap \<Longrightarrow> lagged cap q = q"
  by (simp add: lagged_def)

lemma lagged_append: "lagged cap (lagged cap xs @ ys) = lagged cap (xs @ ys)"
proof -
  define n where "n = length xs - cap"
  have "drop n xs @ ys = drop n (xs @ ys)" by (simp add: n_def)
  moreover have "length (drop n (xs @ ys)) - cap + n = length (xs @ ys) - cap"
    by (simp add: n_def)
  ultimately show ?thesis by (simp add: lagged_def n_def [symmetric] del: length_drop)
qed


lemma queue_hang_up:
  "queue k' who' (hang_up k who h) = (if k' = k \<and> who' = who then None else queue k' who' h)"
  by (auto simp: queue_def hang_up_def split: option.splits)

section \<open>The interface\<close>

text \<open>What the messages to a course and the control frames to an editor rely on: a send reaches
  exactly the listeners of its key, in order, the oldest lost beyond the capacity.\<close>

locale fan_out =
  fixes heard :: "'h \<Rightarrow> 'k \<Rightarrow> nat \<Rightarrow> 'm list option"
    and send :: "'k \<Rightarrow> 'm \<Rightarrow> 'h \<Rightarrow> 'h"
    and enter :: "'k \<Rightarrow> nat \<Rightarrow> 'h \<Rightarrow> 'h"
    and quit :: "'k \<Rightarrow> nat \<Rightarrow> 'h \<Rightarrow> 'h"
    and cap :: nat
  assumes heard_send: "heard (send k m h) k' who =
      (if k' = k then map_option (\<lambda>q. lagged cap (q @ [m])) (heard h k' who) else heard h k' who)"
    and heard_enter: "heard (enter k who h) k' who' =
      (if k' = k \<and> who' = who then Some [] else heard h k' who')"
    and heard_quit: "heard (quit k who h) k' who' =
      (if k' = k \<and> who' = who then None else heard h k' who')"
begin

lemma heard_sends:
  "heard (fold (send k) ms h) k' who =
     (if k' = k then map_option (\<lambda>q. if ms = [] then q else lagged cap (q @ ms)) (heard h k' who)
      else heard h k' who)"
proof (induction ms arbitrary: h)
  case (Cons m ms)
  show ?case
  proof (cases ms)
    case (Cons m' ms')
    then show ?thesis
      using Cons.IH [of "send k m h"] lagged_append [of cap _ ms]
      by (simp add: heard_send option.map_comp comp_def)
  qed (simp add: heard_send option.map_comp comp_def)
qed (simp add: option.map_ident)

text \<open>The same message over and over leaves as many of it as fit.\<close>

lemma heard_again:
  assumes "heard h k who = Some (replicate (min n cap) m)"
  shows "heard (send k m h) k who = Some (replicate (min (Suc n) cap) m)"
proof -
  have "lagged cap (replicate (min n cap) m @ [m]) = replicate (min (Suc n) cap) m"
    by (simp add: lagged_def drop_replicate replicate_append_same min_def flip: replicate_Suc)
  then show ?thesis using assms by (simp add: heard_send)
qed

end

interpretation hubs: fan_out "\<lambda>h k who. queue k who h" "publish cap" subscribe hang_up cap for cap
  by unfold_locales (simp_all add: queue_publish queue_subscribe queue_hang_up)

end
