(* ===== verification/Message_Delivery.thy ===== *)
theory Message_Delivery
  imports Messages
begin

text \<open>
  What a listener gets of what teachers send: the same messages from the stored table and from the
  live channel (\<open>addressed_reaches\<close>), each broadcast once to exactly its audience, and, by polling
  on from the last id seen, all of them in order.
\<close>

section \<open>One filter, stored and live\<close>

definition wf_listener :: "student option \<Rightarrow> bool" where
  "wf_listener l \<longleftrightarrow> (\<forall>s. l = Some s \<longrightarrow> wf_student s)"

lemma message_out_Inr:
  "message_out_try_from m = Inr out \<longleftrightarrow>
     mg_student m = audience_column (mo_audience out) \<and> (\<forall>s. mo_audience out = Only s \<longrightarrow> wf_student s) \<and>
     mo_id out = mg_id m \<and> mo_body out = mg_body m \<and> mo_created_ms out = mg_created_us m div 1000"
  by (cases out) (auto simp: message_out_try_from_def audience_column_def student_try_from_Inr
    split: option.splits audience.splits)

lemma addressed_reaches:
  "message_out_try_from m = Inr out \<Longrightarrow> addressed_to l m \<longleftrightarrow> reaches (mo_audience out) l"
  by (auto simp: message_out_Inr addressed_to_def reaches_def audience_column_def Let_def
      split: option.splits audience.splits intro: student.expand)

lemma addressed_is_sendable:
  "addressed_to l m \<Longrightarrow> wf_listener l \<Longrightarrow> \<exists>out. message_out_try_from m = Inr out"
  by (auto simp: addressed_to_def message_out_try_from_def student_try_from_def wf_listener_def wf_student_def Let_def
      split: option.splits)

definition out_of :: "message \<Rightarrow> message_out" where
  "out_of m = \<lparr>mo_id = mg_id m, mo_body = mg_body m, mo_created_ms = mg_created_us m div 1000,
     mo_audience = (case mg_student m of None \<Rightarrow> Everyone | Some name \<Rightarrow> Only (Student name))\<rparr>"

lemma message_out_addressed:
  "addressed_to l m \<Longrightarrow> wf_listener l \<Longrightarrow> message_out_try_from m = Inr (out_of m)"
  using addressed_is_sendable [of l m]
  by (auto simp: message_out_try_from_def out_of_def student_try_from_def split: option.splits if_splits)

definition shown :: "uuid \<Rightarrow> int \<Rightarrow> student option \<Rightarrow> message \<Rightarrow> bool" where
  "shown c since l m \<longleftrightarrow> mg_course m = c \<and> mg_id m > since \<and> addressed_to l m"

lemma map_filter_all: "(\<And>x. x \<in> set xs \<Longrightarrow> f x = Some (g x)) \<Longrightarrow> List.map_filter f xs = map g xs"
  by (induction xs) (simp_all add: map_filter_simps)

text \<open>The committed rows, in the order of their ids, below the next id of the sequence.\<close>

definition wf_mailbox :: "mailbox \<Rightarrow> bool" where
  "wf_mailbox mb \<longleftrightarrow> sorted_wrt (<) (map mg_id (mb_rows mb)) \<and> (\<forall>m \<in> set (mb_rows mb). mg_id m < mb_next mb)"

lemma read_messages_eq:
  assumes "sorted_wrt (<) (map mg_id rows)" "wf_listener l"
  shows "read_messages n c since l rows = map out_of (take n (filter (shown c since l) rows))"
proof -
  have "sorted (map mg_id (filter (shown c since l) rows))"
    using assms(1) by (intro strict_sorted_imp_sorted) (simp add: sorted_wrt_map sorted_wrt_filter)
  then have "sort_key mg_id (filter (shown c since l) rows) = filter (shown c since l) rows"
    by (rule sort_key_id_if_sorted)
  then show ?thesis
    using message_out_addressed [OF _ assms(2)]
    by (auto simp: read_messages_def shown_def [abs_def] intro!: map_filter_all dest: in_set_takeD)
qed

section \<open>A broadcast\<close>

lemma message_rows_in:
  "m \<in> set (message_rows c body now n as) \<Longrightarrow>
     mg_course m = c \<and> mg_body m = body \<and> n \<le> mg_id m \<and> mg_id m < n + int (length as)"
  by (induction as arbitrary: n) force+

lemma length_message_rows [simp]: "length (message_rows c body now n as) = length as"
  by (induction as arbitrary: n) simp_all

lemma message_rows_sorted: "sorted_wrt (<) (map mg_id (message_rows c body now n as))"
  by (induction as arbitrary: n) (auto dest!: message_rows_in)

lemma sent_of_rows: "sent_of (message_rows c body now n as) as = map out_of (message_rows c body now n as)"
  by (induction as arbitrary: n) (auto simp: out_of_def audience_column_def split: audience.splits)

lemma addressed_rows:
  "map mg_body (filter (addressed_to l) (message_rows c body now n as)) =
     map (\<lambda>_. body) (filter (\<lambda>a. reaches a l) as)"
  by (induction as arbitrary: n)
    (auto simp: addressed_to_def reaches_def audience_column_def Let_def split: option.splits audience.splits
      intro: student.expand)

lemma out_of_reaches: "reaches (mo_audience (out_of m)) l \<longleftrightarrow> addressed_to l m"
  by (auto simp: out_of_def reaches_def addressed_to_def Let_def split: option.splits intro: student.expand)

lemma mo_body_out_of [simp]: "mo_body (out_of m) = mg_body m" "mo_id (out_of m) = mg_id m"
  by (simp_all add: out_of_def)

lemma first_of_each_spec:
  "distinct unique \<Longrightarrow> distinct (first_of_each ss unique) \<and> set (first_of_each ss unique) = set unique \<union> set ss"
  by (induction ss unique rule: first_of_each.induct) auto

lemma audiences_spec:
  assumes "audiences_of students = Inr as"
  shows "filter (\<lambda>a. reaches a l) as =
      (case students of None \<Rightarrow> [Everyone]
       | Some ss \<Rightarrow> (case l of Some s \<Rightarrow> if s \<in> set ss then [Only s] else [] | None \<Rightarrow> []))"
    "as \<noteq> []" "length as \<le> MAX_RECIPIENTS"
proof -
  have one: "filter (\<lambda>a. reaches a l) (map Only unique) =
      (case l of Some s \<Rightarrow> if s \<in> set unique then [Only s] else [] | None \<Rightarrow> [])" if "distinct unique" for unique
    using that by (induction unique) (auto simp: reaches_def split: option.splits)
  show "filter (\<lambda>a. reaches a l) as =
      (case students of None \<Rightarrow> [Everyone]
       | Some ss \<Rightarrow> (case l of Some s \<Rightarrow> if s \<in> set ss then [Only s] else [] | None \<Rightarrow> []))"
    using assms one first_of_each_spec [of "[]"]
    by (auto simp: audiences_of_def Let_def reaches_def split: option.splits if_splits)
  show "as \<noteq> []" "length as \<le> MAX_RECIPIENTS"
    using assms by (auto simp: audiences_of_def MAX_RECIPIENTS_def Let_def split: option.splits if_splits)
qed

lemma publish_all_fold: "publish_all c ms h = fold (publish 256 c) ms h"
  by (induction ms arbitrary: h) simp_all

lemma queue_publish_all:
  "queue k who (publish_all c ms h) =
     (if k = c then map_option (\<lambda>q. if ms = [] then q else lagged 256 (q @ ms)) (queue k who h) else queue k who h)"
  unfolding publish_all_fold by (rule hubs.heard_sends)

lemma broadcast_Inr:
  assumes "broadcast ctx body now db mb = (Inr r, mb')"
  obtains c as where "resolve_course ctx (br_course body) db = Inr c" "audiences_of (br_students body) = Inr as"
    "mb_rows mb' = mb_rows mb @ message_rows c (trim (br_text body)) now (mb_next mb) as"
    "mb_next mb' = mb_next mb + int (length as)"
    "mb_hub mb' = publish_all c (map out_of (message_rows c (trim (br_text body)) now (mb_next mb) as)) (mb_hub mb)"
    "r = (mb_next mb, length as)"
proof -
  obtain c as where ca: "resolve_course ctx (br_course body) db = Inr c" "audiences_of (br_students body) = Inr as"
    "broadcast_checked ctx body db = Inr (trim (br_text body), as, c)"
    using assms by (auto simp: broadcast_def broadcast_checked_def Let_def split: sum.splits if_splits)
  then obtain a as' where as: "as = a # as'" using audiences_spec(2) by (cases as) auto
  have "mb' = \<lparr>mb_rows = mb_rows mb @ message_rows c (trim (br_text body)) now (mb_next mb) as,
      mb_next = mb_next mb + int (length as),
      mb_hub = publish_all c (map out_of (message_rows c (trim (br_text body)) now (mb_next mb) as)) (mb_hub mb)\<rparr>"
    "r = (mb_next mb, length as)"
    using assms unfolding broadcast_def ca(3) by (auto simp: Let_def sent_of_rows) (auto simp: as)
  with ca that show thesis by simp
qed

lemma wf_mailbox_broadcast: "wf_mailbox mb \<Longrightarrow> wf_mailbox (snd (broadcast ctx body now db mb))"
proof (cases "fst (broadcast ctx body now db mb)")
  case (Inl e)
  then show "wf_mailbox mb \<Longrightarrow> ?thesis" by (auto simp: broadcast_def Let_def split: sum.splits)
next
  case (Inr r)
  then have "broadcast ctx body now db mb = (Inr r, snd (broadcast ctx body now db mb))" by (metis prod.collapse)
  then obtain c as where "mb_rows (snd (broadcast ctx body now db mb)) =
      mb_rows mb @ message_rows c (trim (br_text body)) now (mb_next mb) as"
    "mb_next (snd (broadcast ctx body now db mb)) = mb_next mb + int (length as)"
    by (rule broadcast_Inr)
  then show "wf_mailbox mb \<Longrightarrow> ?thesis"
    using message_rows_sorted [of c "trim (br_text body)" now "mb_next mb" as]
    by (auto simp: wf_mailbox_def sorted_wrt_append dest!: message_rows_in)
qed

text \<open>Whether a broadcast is for a listener.\<close>

definition meant_for :: "broadcast_request \<Rightarrow> student option \<Rightarrow> bool" where
  "meant_for body l \<longleftrightarrow> (case br_students body of None \<Rightarrow> True | Some ss \<Rightarrow> \<exists>s \<in> set ss. l = Some s)"

lemma meant_rows:
  assumes "audiences_of (br_students body) = Inr as"
  shows "map mg_body (filter (addressed_to l) (message_rows c t now n as)) = (if meant_for body l then [t] else [])"
  using audiences_spec(1) [OF assms, of l] by (auto simp: addressed_rows meant_for_def split: option.splits)

text \<open>What a read finds of the rows a broadcast adds, and of the others.\<close>

lemma broadcast_reads:
  assumes "wf_mailbox mb" "wf_mailbox mb'" "wf_listener l" "mb_rows mb' = mb_rows mb @ rows"
    "rows = message_rows c t now (mb_next mb) as" "length (filter (addressed_to l) rows) \<le> 1"
  shows "read_messages POLL_LIMIT c (mb_next mb - 1) l (mb_rows mb') = map out_of (filter (addressed_to l) rows)"
    "k \<noteq> c \<Longrightarrow> read_messages POLL_LIMIT k since l (mb_rows mb') = read_messages POLL_LIMIT k since l (mb_rows mb)"
proof -
  have rows: "mg_course m = c" "mg_id m > mb_next mb - 1" if "m \<in> set rows" for m
    using message_rows_in [OF that [unfolded assms(5)]] by auto
  have sorted: "sorted_wrt (<) (map mg_id (mb_rows mb))" "sorted_wrt (<) (map mg_id (mb_rows mb'))"
    using assms(1,2) by (simp_all add: wf_mailbox_def)
  have old: "filter (shown c (mb_next mb - 1) l) (mb_rows mb) = []"
    using assms(1) by (auto simp: filter_empty_conv shown_def wf_mailbox_def)
  have new: "filter (shown c (mb_next mb - 1) l) rows = filter (addressed_to l) rows"
    by (intro filter_cong) (simp_all add: shown_def rows)
  show "read_messages POLL_LIMIT c (mb_next mb - 1) l (mb_rows mb') = map out_of (filter (addressed_to l) rows)"
    unfolding read_messages_eq [OF sorted(2) assms(3)] using assms(4,6) old new by (simp add: POLL_LIMIT_def)
  show "read_messages POLL_LIMIT k since l (mb_rows mb') = read_messages POLL_LIMIT k since l (mb_rows mb)" if "k \<noteq> c"
  proof -
    have "filter (shown k since l) rows = []" using that by (auto simp: filter_empty_conv shown_def rows)
    then show ?thesis
      unfolding read_messages_eq [OF sorted(2) assms(3)] read_messages_eq [OF sorted(1) assms(3)]
      using assms(4) by simp
  qed
qed


section \<open>Polling\<close>

text \<open>A client of the inbox: it asks from the last id it has seen, while teachers go on posting.\<close>

datatype mail_step = Poll | Post auth_ctx broadcast_request int db

record client =
  cl_since :: int
  cl_got :: "message_out list"

definition take_answer :: "message_out list \<Rightarrow> client \<Rightarrow> client" where
  "take_answer ms cl =
     (if ms = [] then cl else \<lparr>cl_since = mo_id (last ms), cl_got = cl_got cl @ ms\<rparr>)"

fun mail_run :: "uuid \<Rightarrow> str option \<Rightarrow> student option \<Rightarrow> mail_step list \<Rightarrow> mailbox \<times> client \<Rightarrow> mailbox \<times> client" where
  "mail_run c verified claimed [] st = st"
| "mail_run c verified claimed (Poll # steps) (mb, cl) =
     mail_run c verified claimed steps (mb,
       (case inbox c verified (Some (cl_since cl)) claimed (mb_rows mb) of
          Inr ms \<Rightarrow> take_answer ms cl | Inl _ \<Rightarrow> cl))"
| "mail_run c verified claimed (Post ctx body now db # steps) (mb, cl) =
     mail_run c verified claimed steps (snd (broadcast ctx body now db mb), cl)"

text \<open>All a listener should ever get after an id.\<close>

definition due :: "uuid \<Rightarrow> int \<Rightarrow> student option \<Rightarrow> mailbox \<Rightarrow> message_out list" where
  "due c since l mb = map out_of (filter (shown c since l) (mb_rows mb))"

definition in_step :: "uuid \<Rightarrow> int \<Rightarrow> student option \<Rightarrow> mailbox \<times> client \<Rightarrow> bool" where
  "in_step c start l st \<longleftrightarrow> (case st of (mb, cl) \<Rightarrow> wf_mailbox mb \<and> start \<le> cl_since cl \<and> cl_since cl < mb_next mb \<and>
     due c start l mb = cl_got cl @ due c (cl_since cl) l mb)"

lemma sorted_filter_split:
  fixes f :: "'a \<Rightarrow> int"
  assumes "sorted_wrt (<) (map f xs)" "take n (filter p xs) = ys" "ys \<noteq> []"
  shows "filter (\<lambda>x. p x \<and> f x > f (last ys)) xs = drop n (filter p xs)"
proof -
  define zs where "zs = filter p xs"
  have zs: "sorted_wrt (<) (map f zs)" using assms(1) by (simp add: zs_def sorted_wrt_map sorted_wrt_filter)
  have "filter (\<lambda>x. p x \<and> f x > f (last ys)) xs = filter (\<lambda>x. f x > f (last ys)) zs"
    by (simp add: zs_def conj_commute)
  also have eq: "zs = ys @ drop n zs" unfolding assms(2) [symmetric] zs_def by simp
  then have "filter (\<lambda>x. f x > f (last ys)) zs = filter (\<lambda>x. f x > f (last ys)) ys @ filter (\<lambda>x. f x > f (last ys)) (drop n zs)"
    by (metis filter_append)
  also have "filter (\<lambda>x. f x > f (last ys)) (drop n zs) = drop n zs"
  proof -
    have "\<forall>x \<in> set ys. \<forall>y \<in> set (drop n zs). f x < f y"
      using zs by (subst (asm) eq) (simp add: sorted_wrt_append)
    then show ?thesis using last_in_set [OF assms(3)] by (simp add: filter_True)
  qed
  also have "filter (\<lambda>x. f x > f (last ys)) ys = []"
  proof -
    have "sorted_wrt (<) (map f ys)"
      using zs by (subst (asm) eq) (simp add: sorted_wrt_append)
    then have "f y \<le> f (last ys)" if "y \<in> set ys" for y
      using that assms(3) by (induction ys rule: rev_induct) (auto simp: sorted_wrt_append less_imp_le)
    then show ?thesis by (auto simp: filter_empty_conv not_less)
  qed
  finally show ?thesis by (simp add: zs_def)
qed

lemma inbox_answer:
  assumes "wf_mailbox mb" "wf_listener l" "routing_student verified claimed = Inr l"
  shows "inbox c verified (Some i) claimed (mb_rows mb) = Inr (take POLL_LIMIT (due c i l mb))"
  using assms by (simp add: inbox_def wf_mailbox_def read_messages_eq due_def take_map)

lemma due_after:
  assumes "wf_mailbox mb" "take n (due c i l mb) = ms" "ms \<noteq> []"
  shows "due c (mo_id (last ms)) l mb = drop n (due c i l mb)" "i < mo_id (last ms)" "mo_id (last ms) < mb_next mb"
proof -
  define ys where "ys = take n (filter (shown c i l) (mb_rows mb))"
  have ys: "ms = map out_of ys" "ys \<noteq> []" using assms(2,3) by (auto simp: ys_def due_def take_map)
  then have last: "mo_id (last ms) = mg_id (last ys)" by (simp add: last_map)
  have "last ys \<in> set (filter (shown c i l) (mb_rows mb))"
    using last_in_set [OF ys(2)] by (simp only: ys_def) (rule in_set_takeD)
  then show "i < mo_id (last ms)" "mo_id (last ms) < mb_next mb"
    using last assms(1) by (simp_all add: shown_def wf_mailbox_def)
  then have "shown c (mg_id (last ys)) l = (\<lambda>x. shown c i l x \<and> mg_id x > mg_id (last ys))"
    unfolding last by (auto simp: shown_def fun_eq_iff)
  moreover have "filter (\<lambda>x. shown c i l x \<and> mg_id x > mg_id (last ys)) (mb_rows mb) = drop n (filter (shown c i l) (mb_rows mb))"
    using sorted_filter_split [of mg_id "mb_rows mb" n "shown c i l" ys] assms(1) ys(2)
    by (simp add: wf_mailbox_def ys_def)
  ultimately show "due c (mo_id (last ms)) l mb = drop n (due c i l mb)"
    unfolding due_def last by (simp add: drop_map)
qed

lemma in_step_poll:
  assumes "in_step c start l (mb, cl)" "ms = take POLL_LIMIT (due c (cl_since cl) l mb)"
  shows "in_step c start l (mb, take_answer ms cl)"
    "due c (cl_since (take_answer ms cl)) l mb = drop POLL_LIMIT (due c (cl_since cl) l mb)"
proof -
  have wf: "wf_mailbox mb" using assms(1) by (simp add: in_step_def)
  have "in_step c start l (mb, take_answer ms cl) \<and>
    due c (cl_since (take_answer ms cl)) l mb = drop POLL_LIMIT (due c (cl_since cl) l mb)"
  proof (cases "ms = []")
    case True
    then have "due c (cl_since cl) l mb = []" using assms(2) by (simp add: POLL_LIMIT_def)
    with True assms(1) show ?thesis by (simp add: take_answer_def)
  next
    case False
    note after = due_after [OF wf assms(2) [symmetric] False]
    have "due c (cl_since cl) l mb = ms @ drop POLL_LIMIT (due c (cl_since cl) l mb)"
      using assms(2) by simp
    with assms(1) False after show ?thesis by (simp add: in_step_def take_answer_def)
  qed
  then show "in_step c start l (mb, take_answer ms cl)"
    "due c (cl_since (take_answer ms cl)) l mb = drop POLL_LIMIT (due c (cl_since cl) l mb)" by simp_all
qed

lemma in_step_post:
  assumes "in_step c start l (mb, cl)"
  shows "in_step c start l (snd (broadcast ctx body now db mb), cl)"
proof (cases "fst (broadcast ctx body now db mb)")
  case (Inl e)
  then show ?thesis using assms by (auto simp: broadcast_def Let_def split: sum.splits)
next
  case (Inr r)
  define mb' where "mb' = snd (broadcast ctx body now db mb)"
  from Inr have "broadcast ctx body now db mb = (Inr r, mb')" by (metis mb'_def prod.collapse)
  then obtain c' as where new: "mb_rows mb' = mb_rows mb @ message_rows c' (trim (br_text body)) now (mb_next mb) as"
    "mb_next mb' = mb_next mb + int (length as)"
    by (rule broadcast_Inr)
  define rows where "rows = message_rows c' (trim (br_text body)) now (mb_next mb) as"
  have same: "filter (shown c i l) rows = filter (shown c j l) rows" if "i < mb_next mb" "j < mb_next mb" for i j
    using that by (intro filter_cong) (auto simp: shown_def rows_def dest!: message_rows_in)
  have due: "due c i l mb' = due c i l mb @ map out_of (filter (shown c i l) rows)" for i
    by (simp add: due_def new(1) rows_def)
  have wf: "wf_mailbox mb'"
    using assms wf_mailbox_broadcast [of mb ctx body now db] by (simp add: in_step_def mb'_def)
  have since: "start \<le> cl_since cl" "cl_since cl < mb_next mb" and
    got: "due c start l mb = cl_got cl @ due c (cl_since cl) l mb"
    using assms by (simp_all add: in_step_def)
  have "due c start l mb' = cl_got cl @ due c (cl_since cl) l mb'"
    unfolding due got using same [of start "cl_since cl"] since by simp
  with wf since new(2) show ?thesis by (simp add: in_step_def mb'_def [symmetric])
qed

lemma in_step_run:
  assumes "wf_listener l" "routing_student verified claimed = Inr l" "in_step c start l st"
  shows "in_step c start l (mail_run c verified claimed steps st)"
  using assms(3)
proof (induction steps arbitrary: st)
  case (Cons step steps)
  obtain mb cl where st: "st = (mb, cl)" by (cases st)
  show ?case
  proof (cases step)
    case Poll
    have "wf_mailbox mb" using Cons.prems by (simp add: st in_step_def)
    note answer = inbox_answer [OF this assms(1,2), of c "cl_since cl"]
    show ?thesis
      using Cons.IH [OF in_step_poll(1) [OF Cons.prems [unfolded st] refl]] by (simp add: st Poll answer)
  next
    case (Post ctx body now db)
    then show ?thesis using Cons.IH [OF in_step_post [OF Cons.prems [unfolded st]]] by (simp add: st)
  qed
qed simp

lemma polls_drain:
  assumes "wf_listener l" "routing_student verified claimed = Inr l" "in_step c start l (mb, cl)"
  shows "\<exists>cl'. mail_run c verified claimed (replicate k Poll) (mb, cl) = (mb, cl') \<and>
    due c (cl_since cl') l mb = drop (k * POLL_LIMIT) (due c (cl_since cl) l mb)"
  using assms(3)
proof (induction k arbitrary: cl)
  case (Suc k)
  have "wf_mailbox mb" using Suc.prems by (simp add: in_step_def)
  note answer = inbox_answer [OF this assms(1,2), of c "cl_since cl"]
  from Suc.IH [OF in_step_poll(1) [OF Suc.prems refl]] in_step_poll(2) [OF Suc.prems refl]
  show ?case by (auto simp: answer add.commute)
qed simp

lemma mail_run_append: "mail_run c v s (xs @ ys) st = mail_run c v s ys (mail_run c v s xs st)"
proof (induction xs arbitrary: st)
  case (Cons x xs)
  then show ?case by (cases st; cases x) simp_all
qed simp

text \<open>C12: A listener that polls on from the last id it was told, while teachers go on posting, has at
  every moment exactly the first of the messages for it, in order, none twice and none skipped; and
  once as many more polls as there are messages waiting, fifty to a poll, have been answered, it has
  them all.\<close>

theorem polling_delivers_everything:
  assumes "wf_mailbox mb" "start < mb_next mb" "wf_listener l" "routing_student verified claimed = Inr l"
    "mail_run c verified claimed steps (mb, \<lparr>cl_since = start, cl_got = []\<rparr>) = (mb', cl)"
    "length (due c (cl_since cl) l mb') \<le> k * 50"
  shows "(\<exists>waiting. due c start l mb' = cl_got cl @ waiting) \<and>
    (\<exists>cl'. mail_run c verified claimed (steps @ replicate k Poll) (mb, \<lparr>cl_since = start, cl_got = []\<rparr>) = (mb', cl') \<and>
       cl_got cl' = due c start l mb')"
proof -
  have "in_step c start l (mb, \<lparr>cl_since = start, cl_got = []\<rparr>)"
    using assms(1,2) by (simp add: in_step_def)
  from in_step_run [OF assms(3,4) this, of steps] have now: "in_step c start l (mb', cl)"
    by (simp add: assms(5))
  obtain cl' where cl': "mail_run c verified claimed (replicate k Poll) (mb', cl) = (mb', cl')"
    "due c (cl_since cl') l mb' = drop (k * POLL_LIMIT) (due c (cl_since cl) l mb')"
    using polls_drain [OF assms(3,4) now] by blast
  have "in_step c start l (mb', cl')"
    using in_step_run [OF assms(3,4) now, of "replicate k Poll"] by (simp add: cl'(1))
  moreover have "due c (cl_since cl') l mb' = []" using cl'(2) assms(6) by (simp add: POLL_LIMIT_def)
  ultimately have "cl_got cl' = due c start l mb'" by (simp add: in_step_def)
  with now cl'(1) assms(5) show ?thesis by (auto simp: in_step_def mail_run_append)
qed

section \<open>A class to try\<close>

definition ann :: student where "ann = Student (lit ''ann'')"
definition bob :: student where "bob = Student (lit ''bob'')"

definition class_db :: db where
  "class_db = \<lparr>admins = [],
     courses = [\<lparr>co_id = Uuid 1, co_slug = lit ''default'', co_name = [], co_token = [], co_repo = None,
       co_archived = None, co_ref = None, co_dir = None, co_description = None, co_term = None,
       co_institution = None, co_level = None, co_created = 0\<rparr>],
     members = [], exercises = []\<rparr>"

definition class_mailbox :: mailbox where
  "class_mailbox = \<lparr>mb_rows = [], mb_next = 1, mb_hub = [(Uuid 1, [(0, []), (1, [])])]\<rparr>"

definition to_ann :: broadcast_request where
  "to_ann = \<lparr>br_course = None, br_text = lit ''hi'', br_students = Some [ann, ann]\<rparr>"

lemma class_trim: "trim (lit ''hi'') = lit ''hi''" "trim (lit ''ann'') = lit ''ann''" "trim (lit ''bob'') = lit ''bob''"
  by (simp_all add: lit_def trim_def trim_matches_def trim_start_def trim_end_def is_whitespace_def)

lemma wf_class [simp]: "wf_mailbox class_mailbox" "wf_listener (Some ann)" "wf_listener (Some bob)"
  by (simp_all add: wf_mailbox_def class_mailbox_def wf_listener_def wf_student_def ann_def bob_def class_trim)

lemma class_resolve: "resolve_course OpenDev None class_db = Inr (Uuid 1)"
  by (simp add: resolve_course_def authorized_course_def course_by_slug_def class_db_def ensure_member_def)

definition hi_row :: message where
  "hi_row = \<lparr>mg_id = 1, mg_course = Uuid 1, mg_body = lit ''hi'', mg_student = Some (lit ''ann''), mg_created_us = 5000\<rparr>"

lemma class_broadcast:
  "broadcast OpenDev to_ann 5000 class_db class_mailbox =
     (Inr (1, 1), \<lparr>mb_rows = [hi_row], mb_next = 2,
       mb_hub = publish 256 (Uuid 1) (out_of hi_row) (mb_hub class_mailbox)\<rparr>)"
  by (simp add: broadcast_def broadcast_checked_def to_ann_def class_trim audiences_of_def MAX_RECIPIENTS_def
      class_resolve Let_def)
    (simp add: class_mailbox_def hi_row_def audience_column_def ann_def out_of_def)


theorem polling_delivers_everything_witness:
  "\<exists>cl. mail_run (Uuid 1) (Some (lit ''ann'')) None ([Post OpenDev to_ann 5000 class_db] @ replicate 1 Poll)
      (class_mailbox, \<lparr>cl_since = 0, cl_got = []\<rparr>) =
        (snd (broadcast OpenDev to_ann 5000 class_db class_mailbox), cl) \<and> cl_got cl = [out_of hi_row]"
proof -
  let ?mb' = "snd (broadcast OpenDev to_ann 5000 class_db class_mailbox)"
  have "due (Uuid 1) 0 (Some ann) ?mb' = [out_of hi_row]"
    by (simp add: class_broadcast due_def shown_def addressed_to_def hi_row_def ann_def Let_def)
  moreover have "routing_student (Some (lit ''ann'')) None = Inr (Some ann)"
    by (simp add: routing_student_def student_try_from_def class_trim ann_def)
  moreover have "0 < mb_next class_mailbox" by (simp add: class_mailbox_def)
  ultimately show ?thesis
    using polling_delivers_everything [OF wf_class(1) _ wf_class(2), of 0 "Some (lit ''ann'')" None "Uuid 1"
        "[Post OpenDev to_ann 5000 class_db]" ?mb' "\<lparr>cl_since = 0, cl_got = []\<rparr>" 1]
    by auto
qed

section \<open>What can be missed\<close>

lemma audience_rows: "map (\<lambda>m. mo_audience (out_of m)) (message_rows c body now n as) = as"
  by (induction as arbitrary: n) (auto simp: out_of_def audience_column_def split: audience.splits)

lemma first_of_each_distinct: "distinct (unique @ ss) \<Longrightarrow> first_of_each ss unique = unique @ ss"
  by (induction ss unique rule: first_of_each.induct) auto

lemma socket_keeps: "socket_loop l (map (\<lambda>m. Live m True) ms) = map Message_Frame (filter (\<lambda>m. reaches (mo_audience m) l) ms)"
  by (induction ms) simp_all

text \<open>A message may name 500 students, but the course's live channel holds 256: when it is sent to
  more than that, a socket that has taken nothing in the meantime no longer finds the message for
  any of the students named before the last 256, and sends nothing, although the message is stored.\<close>

theorem big_broadcast_overflows:
  assumes "wf_mailbox mb" "broadcast ctx body now db mb = (Inr (first, n), mb')"
    "resolve_course ctx (br_course body) db = Inr c" "br_students body = Some ss" "distinct ss"
    "i + 256 < length ss" "wf_student (ss ! i)" "queue c who (mb_hub mb) = Some []"
  shows "\<exists>q. queue c who (mb_hub mb') = Some q \<and> length q = 256 \<and>
    socket_loop (Some (ss ! i)) (map (\<lambda>m. Live m True) q) = [] \<and>
    map mo_body (read_messages POLL_LIMIT c (first - 1) (Some (ss ! i)) (mb_rows mb')) = [trim (br_text body)]"
proof -
  from assms(2) obtain c' as where new: "resolve_course ctx (br_course body) db = Inr c'"
    "audiences_of (br_students body) = Inr as"
    "mb_hub mb' = publish_all c' (map out_of (message_rows c' (trim (br_text body)) now (mb_next mb) as)) (mb_hub mb)"
    "mb_rows mb' = mb_rows mb @ message_rows c' (trim (br_text body)) now (mb_next mb) as" "first = mb_next mb"
    by (rule broadcast_Inr) auto
  have c: "c' = c" using new(1) assms(3) by simp
  have as: "as = map Only ss" using new(2) assms(4,5) first_of_each_distinct [of "[]" ss]
    by (auto simp: audiences_of_def Let_def split: if_splits)
  define sent where "sent = map out_of (message_rows c (trim (br_text body)) now (mb_next mb) as)"
  have aud: "map mo_audience sent = map Only ss" using audience_rows by (simp add: sent_def as comp_def)
  then have len: "length sent = length ss" by (rule map_eq_imp_length_eq)
  have q: "queue c who (mb_hub mb') = Some (lagged 256 sent)"
    using assms(6,8) len unfolding new(3) c queue_publish_all sent_def [symmetric] by auto
  have "\<not> reaches (mo_audience m) (Some (ss ! i))" if "m \<in> set (lagged 256 sent)" for m
  proof -
    from that obtain j where "j < 256" "m = sent ! (length ss - 256 + j)" "length ss - 256 + j < length ss"
      using assms(6) len by (auto simp: lagged_def in_set_conv_nth)
    moreover from this have "mo_audience m = Only (ss ! (length ss - 256 + j))"
      using arg_cong [OF aud, of "\<lambda>xs. xs ! (length ss - 256 + j)"] len by simp
    ultimately show ?thesis
      using assms(5,6) by (auto simp: reaches_def nth_eq_iff_index_eq)
  qed
  then have "socket_loop (Some (ss ! i)) (map (\<lambda>m. Live m True) (lagged 256 sent)) = []"
    by (simp add: socket_keeps filter_empty_conv)
  moreover have "length (lagged 256 sent) = 256" using assms(6) len by (simp add: lagged_def)
  moreover have "map mo_body (read_messages POLL_LIMIT c (first - 1) (Some (ss ! i)) (mb_rows mb')) = [trim (br_text body)]"
  proof -
    let ?rows = "message_rows c (trim (br_text body)) now (mb_next mb) as"
    have "meant_for body (Some (ss ! i))" using assms(4,6) by (simp add: meant_for_def)
    then have rows: "map mg_body (filter (addressed_to (Some (ss ! i))) ?rows) = [trim (br_text body)]"
      using meant_rows [OF new(2)] by simp
    have wf: "wf_mailbox mb'"
      using wf_mailbox_broadcast [OF assms(1), of ctx body now db] assms(2) by simp
    have "length (filter (addressed_to (Some (ss ! i))) ?rows) \<le> 1"
      using arg_cong [OF rows, of length] by simp
    moreover have "wf_listener (Some (ss ! i))" using assms(7) by (simp add: wf_listener_def)
    ultimately have "read_messages POLL_LIMIT c (mb_next mb - 1) (Some (ss ! i)) (mb_rows mb') =
        map out_of (filter (addressed_to (Some (ss ! i))) ?rows)"
      by (intro broadcast_reads(1) [OF assms(1) wf _ new(4) [unfolded c] refl])
    then show ?thesis using rows by (simp only: new(5) map_map comp_def mo_body_out_of)
  qed
  ultimately show ?thesis by (intro exI [of _ "lagged 256 sent"] conjI q)
qed

theorem big_broadcast_overflows_witness:
  "\<exists>q. queue (Uuid 1) 0 (mb_hub (snd (broadcast OpenDev
       \<lparr>br_course = None, br_text = lit ''hi'', br_students = Some (map (\<lambda>i. Student (replicate (Suc i) c_dot)) [0..<300])\<rparr>
       5000 class_db class_mailbox))) = Some q \<and>
     socket_loop (Some (Student [c_dot])) (map (\<lambda>m. Live m True) q) = []"
proof -
  let ?ss = "map (\<lambda>i. Student (replicate (Suc i) c_dot)) [0..<300]"
  let ?b = "\<lparr>br_course = None, br_text = lit ''hi'', br_students = Some ?ss\<rparr>"
  let ?mb' = "snd (broadcast OpenDev ?b 5000 class_db class_mailbox)"
  have dist: "distinct ?ss"
    by (auto simp: distinct_map inj_on_def dest: arg_cong [of "replicate _ _" "replicate _ _" length])
  have len: "length ?ss = 300" "?ss ! 0 = Student [c_dot]" by (simp_all del: upt_rec_numeral)
  have "audiences_of (Some ?ss) = Inr (map Only ?ss)"
    using first_of_each_distinct [of "[]" ?ss] dist len(1) 
    by (simp add: audiences_of_def MAX_RECIPIENTS_def Let_def del: upt_rec_numeral list.map)
  then have "broadcast_checked OpenDev ?b class_db = Inr (lit ''hi'', map Only ?ss, Uuid 1)"
    by (simp add: broadcast_checked_def class_trim class_resolve Let_def del: upt_rec_numeral)
  then obtain r where "broadcast OpenDev ?b 5000 class_db class_mailbox = (Inr r, ?mb')"
    by (simp add: broadcast_def Let_def del: upt_rec_numeral)
  then have b: "broadcast OpenDev ?b 5000 class_db class_mailbox = (Inr (fst r, snd r), ?mb')" by simp
  have q: "queue (Uuid 1) 0 (mb_hub class_mailbox) = Some []" by (simp add: queue_def class_mailbox_def)
  have "trim [c_dot] = [c_dot]" by (simp add: trim_def trim_matches_def trim_start_def trim_end_def is_whitespace_def)
  then have w: "wf_student (?ss ! 0)" unfolding len(2) by (simp add: wf_student_def)
  from big_broadcast_overflows [OF wf_class(1) b, of "Uuid 1" ?ss 0 0] q w dist len class_resolve
  show ?thesis by (auto simp del: upt_rec_numeral)
qed

end
