(* ===== verification/Identity.thy ===== *)
theory Identity
  imports Messages
begin

text \<open>
  Verified student identity: \<^verbatim>\<open>crates/server/src/identity.rs\<close> and the routes of \<^verbatim>\<open>http/auth.rs\<close> over
  it. The JWT library, the identity providers and GitHub are the parameter record \<open>idp_world\<close>;
  the provider documents the server keeps for an hour are one of its expiring maps. The lemmas
  show what a student id vouches for and what a caller is told when there is none.
\<close>

definition OIDC_CACHE_TTL :: nat where "OIDC_CACHE_TTL = 3600"

definition TOKEN_TTL_SECS :: int where "TOKEN_TTL_SECS = 8 * 60 * 60"

datatype provider_kind = Oidc | Github

record provider =
  pv_name :: str
  pv_kind :: provider_kind
  pv_issuer :: "str option"
  pv_client_id :: str
  pv_client_secret :: "str option"
  pv_scopes :: "str option"

datatype algorithm = HS256 | HS384 | HS512 | RS256 | RS384 | RS512 | PS256 | PS384 | PS512 | ES256 | ES384 | EdDSA

record discovery =
  ds_jwks_uri :: str
  ds_token_endpoint :: "str option"
  ds_device_endpoint :: "str option"

type_synonym 'key jwks = "(str \<times> 'key) list"

record 'key oidc_meta =
  mt_discovery :: discovery
  mt_jwks :: "'key jwks"
  mt_fetched_at :: nat

type_synonym 'key oidc_cache = "(str, 'key oidc_meta) hashmap"

record oidc_claims =
  oc_sub :: str
  oc_email :: "str option"

record device_start =
  dv_device_code :: str
  dv_user_code :: str
  dv_verification_uri :: str
  dv_verification_uri_complete :: "str option"
  dv_interval :: nat
  dv_expires_in :: nat

datatype identity_error =
    Unknown_Provider str
  | Rejected str
  | Misconfigured str
  | Upstream str

fun identity_error_text :: "identity_error \<Rightarrow> str" where
  "identity_error_text (Unknown_Provider p) = lit ''unknown provider: '' @ p"
| "identity_error_text (Rejected w) = w"
| "identity_error_text (Misconfigured w) = lit ''provider misconfigured: '' @ w"
| "identity_error_text (Upstream w) = lit ''identity provider failed: '' @ w"

fun api_error_of :: "identity_error \<Rightarrow> api_error" where
  "api_error_of (Unknown_Provider p) = bad_request (lit ''unknown provider: '' @ p)"
| "api_error_of (Rejected w) = unauthorized w"
| "api_error_of (Misconfigured w) = unavailable (lit ''the identity provider is misconfigured'')"
| "api_error_of (Upstream w) = bad_gateway (lit ''the identity provider is unavailable'')"

section \<open>The libraries and services it calls\<close>

text \<open>
  \<open>hs_encode\<close>/\<open>hs_decode\<close> sign and verify with HS256 (the expiry checked against the clock);
  \<open>header_of\<close> reads a token's key id and algorithm; \<open>decode_with\<close> verifies signature, expiry,
  issuer and audience with a key. A request fails with the text of the transport error.
\<close>

datatype github_user = Client_Error | User str | Other_Failure str

record 'key idp_world =
  hs_encode :: "str \<Rightarrow> str \<Rightarrow> int \<Rightarrow> str option"
  hs_decode :: "int \<Rightarrow> str \<Rightarrow> str \<Rightarrow> str option"
  header_of :: "str \<Rightarrow> str + (str option \<times> algorithm)"
  usable_key :: "'key \<Rightarrow> str + unit"
  decode_with :: "int \<Rightarrow> 'key \<Rightarrow> algorithm \<Rightarrow> str \<Rightarrow> str \<Rightarrow> str \<Rightarrow> str + oidc_claims"
  github_user_of :: "str \<Rightarrow> github_user"
  get_discovery :: "str \<Rightarrow> str + discovery"
  get_jwks :: "str \<Rightarrow> str + 'key jwks"
  post_device :: "str \<Rightarrow> (str \<times> str) list \<Rightarrow> str + device_start"
  post_token :: "str \<Rightarrow> (str \<times> str) list \<Rightarrow> str + json"

record identity_config =
  ic_providers :: "provider list"
  ic_secret :: "str option"

section \<open>Configuration and the Hermione token\<close>

text \<open>\<^verbatim>\<open>from_env\<close>: the providers variable, if set, and what parsing it gives.\<close>

definition from_env :: "provider list option option \<Rightarrow> str option \<Rightarrow> identity_config" where
  "from_env parsed secret =
     \<lparr>ic_providers = unwrap_or (Option.bind parsed id) [], ic_secret = opt_filter (\<lambda>s. s \<noteq> []) secret\<rparr>"

definition enforced :: "identity_config \<Rightarrow> bool" where
  "enforced cfg \<longleftrightarrow> ic_secret cfg \<noteq> None \<and> ic_providers cfg \<noteq> []"

definition provider_named :: "identity_config \<Rightarrow> str \<Rightarrow> identity_error + provider" where
  "provider_named cfg name = ok_or (List.find (\<lambda>p. pv_name p = name) (ic_providers cfg)) (Unknown_Provider name)"

definition issue :: "'key idp_world \<Rightarrow> identity_config \<Rightarrow> int \<Rightarrow> str \<Rightarrow> str option" where
  "issue w cfg now student = Option.bind (ic_secret cfg) (\<lambda>secret. hs_encode w secret student (now + TOKEN_TTL_SECS))"

definition verify :: "'key idp_world \<Rightarrow> identity_config \<Rightarrow> int \<Rightarrow> str \<Rightarrow> str option" where
  "verify w cfg now tok = Option.bind (ic_secret cfg) (\<lambda>secret. hs_decode w now secret tok)"

text \<open>What the ingest gate and the message socket use of it.\<close>

definition identity_of :: "'key idp_world \<Rightarrow> identity_config \<Rightarrow> int \<Rightarrow> identity" where
  "identity_of w cfg now = \<lparr>id_verify = verify w cfg now, id_enforced = enforced cfg\<rparr>"

section \<open>Asking a provider\<close>

definition github_login :: "'key idp_world \<Rightarrow> str \<Rightarrow> identity_error + str" where
  "github_login w access =
     (case github_user_of w access of
        Client_Error \<Rightarrow> Inl (Rejected (lit ''github rejected the token''))
      | User login \<Rightarrow> Inr login
      | Other_Failure e \<Rightarrow> Inl (Upstream e))"

definition meta_fresh :: "nat \<Rightarrow> 'key oidc_meta \<Rightarrow> bool" where
  "meta_fresh now m \<longleftrightarrow> now < mt_fetched_at m + OIDC_CACHE_TTL"

definition put_meta :: "nat \<Rightarrow> str \<Rightarrow> 'key oidc_meta \<Rightarrow> 'key oidc_cache \<Rightarrow> 'key oidc_cache" where
  "put_meta now issuer m cache = AList.update issuer m cache"

interpretation metas: expiring_map wf_map map_of put_meta meta_fresh
  by unfold_locales (auto simp: put_meta_def meta_fresh_def)

definition discovery_url :: "str \<Rightarrow> str" where
  "discovery_url issuer = trim_end (\<lambda>c. c = c_slash) issuer @ lit ''/.well-known/openid-configuration''"

definition meta :: "'key idp_world \<Rightarrow> nat \<Rightarrow> str \<Rightarrow> bool \<Rightarrow> 'key oidc_cache \<Rightarrow>
    (identity_error + 'key oidc_meta) \<times> 'key oidc_cache" where
  "meta w now issuer refresh cache =
     (case (if refresh then None else opt_filter (meta_fresh now) (map_of cache issuer)) of
        Some m \<Rightarrow> (Inr m, cache)
      | None \<Rightarrow>
          (case get_discovery w (discovery_url issuer) of
             Inl e \<Rightarrow> (Inl (Upstream e), cache)
           | Inr d \<Rightarrow>
               (case get_jwks w (ds_jwks_uri d) of
                  Inl e \<Rightarrow> (Inl (Upstream e), cache)
                | Inr keys \<Rightarrow>
                    (let m = \<lparr>mt_discovery = d, mt_jwks = keys, mt_fetched_at = now\<rparr>
                     in (Inr m, put_meta now issuer m cache)))))"

definition asymmetric :: "algorithm \<Rightarrow> bool" where
  "asymmetric alg \<longleftrightarrow> alg \<in> {RS256, RS384, RS512, PS256, PS384, PS512, ES256, ES384, EdDSA}"

definition verify_id_token :: "'key idp_world \<Rightarrow> int \<Rightarrow> str \<Rightarrow> 'key jwks \<Rightarrow> str \<Rightarrow> str \<Rightarrow> identity_error + oidc_claims" where
  "verify_id_token w now tok keys issuer client =
     (case header_of w tok of
        Inl e \<Rightarrow> Inl (Rejected e)
      | Inr (None, alg) \<Rightarrow> Inl (Rejected (lit ''token missing kid''))
      | Inr (Some kid, alg) \<Rightarrow>
          (case map_of keys kid of
             None \<Rightarrow> Inl (Rejected (lit ''no matching JWK for token kid''))
           | Some k \<Rightarrow>
               bind_result (map_err Rejected (usable_key w k)) (\<lambda>_.
                 if \<not> asymmetric alg then Inl (Rejected (lit ''unsupported ID token signature algorithm''))
                 else map_err Rejected (decode_with w now k alg issuer client tok))))"

definition verify_oidc :: "'key idp_world \<Rightarrow> nat \<Rightarrow> str \<Rightarrow> str \<Rightarrow> str \<Rightarrow> 'key oidc_cache \<Rightarrow>
    (identity_error + str) \<times> 'key oidc_cache" where
  "verify_oidc w now issuer client tok cache =
     (case header_of w tok of
        Inl e \<Rightarrow> (Inl (Rejected e), cache)
      | Inr (None, alg) \<Rightarrow> (Inl (Rejected (lit ''token missing kid'')), cache)
      | Inr (Some kid, alg) \<Rightarrow>
          (case meta w now issuer False cache of
             (Inl e, cache) \<Rightarrow> (Inl e, cache)
           | (Inr m, cache) \<Rightarrow>
               (case (if map_of (mt_jwks m) kid = None then meta w now issuer True cache else (Inr m, cache)) of
                  (Inl e, cache) \<Rightarrow> (Inl e, cache)
                | (Inr m, cache) \<Rightarrow>
                    (bind_result (verify_id_token w (int now) tok (mt_jwks m) issuer client)
                       (\<lambda>claims. Inr (unwrap_or (oc_email claims) (oc_sub claims))), cache))))"

definition needs_issuer :: "provider \<Rightarrow> identity_error + str" where
  "needs_issuer p = ok_or (pv_issuer p) (Misconfigured (lit ''oidc provider needs an issuer''))"

definition student_id :: "provider \<Rightarrow> str \<Rightarrow> str" where
  "student_id p who = pv_name p @ [c_colon] @ who"

definition verify_idp :: "'key idp_world \<Rightarrow> identity_config \<Rightarrow> nat \<Rightarrow> str \<Rightarrow> str \<Rightarrow> 'key oidc_cache \<Rightarrow>
    (identity_error + str) \<times> 'key oidc_cache" where
  "verify_idp w cfg now name tok cache =
     (case provider_named cfg name of
        Inl e \<Rightarrow> (Inl e, cache)
      | Inr p \<Rightarrow>
          (case pv_kind p of
             Github \<Rightarrow> (bind_result (github_login w tok) (\<lambda>login. Inr (student_id p login)), cache)
           | Oidc \<Rightarrow>
               (case needs_issuer p of
                  Inl e \<Rightarrow> (Inl e, cache)
                | Inr issuer \<Rightarrow>
                    (case verify_oidc w now issuer (pv_client_id p) tok cache of
                       (r, cache) \<Rightarrow> (bind_result r (\<lambda>email. Inr (student_id p email)), cache)))))"

section \<open>The device flow\<close>

definition device_start_of :: "'key idp_world \<Rightarrow> identity_config \<Rightarrow> nat \<Rightarrow> str \<Rightarrow> 'key oidc_cache \<Rightarrow>
    (identity_error + device_start) \<times> 'key oidc_cache" where
  "device_start_of w cfg now name cache =
     (case provider_named cfg name of
        Inl e \<Rightarrow> (Inl e, cache)
      | Inr p \<Rightarrow>
          (let (found, cache) =
             (case pv_kind p of
                Github \<Rightarrow> (Inr (lit ''https://github.com/login/device/code'', lit ''read:user''), cache)
              | Oidc \<Rightarrow>
                  (case needs_issuer p of
                     Inl e \<Rightarrow> (Inl e, cache)
                   | Inr issuer \<Rightarrow>
                       (case meta w now issuer False cache of
                          (Inl e, cache) \<Rightarrow> (Inl e, cache)
                        | (Inr m, cache) \<Rightarrow>
                            (bind_result (ok_or (ds_device_endpoint (mt_discovery m))
                                (Misconfigured (lit ''provider has no device endpoint'')))
                              (\<lambda>endpoint. Inr (endpoint, lit ''openid email'')), cache))))
           in (bind_result found (\<lambda>(endpoint, default_scope).
                 map_err Upstream (post_device w endpoint
                   [(lit ''client_id'', pv_client_id p), (lit ''scope'', unwrap_or (pv_scopes p) default_scope)])), cache)))"

datatype device_poll = Pending | Done str

definition token_endpoint_of :: "'key idp_world \<Rightarrow> nat \<Rightarrow> provider \<Rightarrow> 'key oidc_cache \<Rightarrow>
    (identity_error + str) \<times> 'key oidc_cache" where
  "token_endpoint_of w now p cache =
     (case pv_kind p of
        Github \<Rightarrow> (Inr (lit ''https://github.com/login/oauth/access_token''), cache)
      | Oidc \<Rightarrow>
          (case needs_issuer p of
             Inl e \<Rightarrow> (Inl e, cache)
           | Inr issuer \<Rightarrow>
               (case meta w now issuer False cache of
                  (Inl e, cache) \<Rightarrow> (Inl e, cache)
                | (Inr m, cache) \<Rightarrow>
                    (ok_or (ds_token_endpoint (mt_discovery m))
                       (Misconfigured (lit ''provider has no token endpoint'')), cache))))"

definition json_str :: "str \<Rightarrow> json \<Rightarrow> str option" where
  "json_str k j = Option.bind (json_get k j) as_string"

definition device_poll_of :: "'key idp_world \<Rightarrow> identity_config \<Rightarrow> nat \<Rightarrow> str \<Rightarrow> str \<Rightarrow> 'key oidc_cache \<Rightarrow>
    (identity_error + device_poll) \<times> 'key oidc_cache" where
  "device_poll_of w cfg now name device_code cache =
     (case provider_named cfg name of
        Inl e \<Rightarrow> (Inl e, cache)
      | Inr p \<Rightarrow>
          (case token_endpoint_of w now p cache of
             (Inl e, cache) \<Rightarrow> (Inl e, cache)
           | (Inr endpoint, cache) \<Rightarrow>
               (let form = [(lit ''client_id'', pv_client_id p), (lit ''device_code'', device_code),
                     (lit ''grant_type'', lit ''urn:ietf:params:oauth:grant-type:device_code'')] @
                     (case pv_client_secret p of None \<Rightarrow> [] | Some s \<Rightarrow> [(lit ''client_secret'', s)])
                in case post_token w endpoint form of
                     Inl e \<Rightarrow> (Inl (Upstream e), cache)
                   | Inr body \<Rightarrow>
                       (case json_str (lit ''error'') body of
                          Some err \<Rightarrow>
                            (if err \<in> {lit ''authorization_pending'', lit ''slow_down''} then Inr Pending
                             else Inl (Rejected err), cache)
                        | None \<Rightarrow>
                            (case pv_kind p of
                               Github \<Rightarrow>
                                 (bind_result (ok_or (json_str (lit ''access_token'') body) (Upstream (lit ''no access_token'')))
                                   (\<lambda>access. bind_result (github_login w access) (\<lambda>login. Inr (Done (student_id p login)))), cache)
                             | Oidc \<Rightarrow>
                                 (case json_str (lit ''id_token'') body of
                                    None \<Rightarrow> (Inl (Upstream (lit ''no id_token'')), cache)
                                  | Some idt \<Rightarrow>
                                      (case verify_oidc w now (the (pv_issuer p)) (pv_client_id p) idt cache of
                                         (r, cache) \<Rightarrow> (bind_result r (\<lambda>email. Inr (Done (student_id p email))), cache))))))))"

section \<open>The routes\<close>

record identity_response =
  ir_token :: str
  ir_student :: str
  ir_expires_in :: int

definition issue_identity :: "'key idp_world \<Rightarrow> identity_config \<Rightarrow> int \<Rightarrow> str \<Rightarrow> api_error + identity_response" where
  "issue_identity w cfg now student =
     bind_result (ok_or (issue w cfg now student) (unavailable (lit ''identity not configured'')))
       (\<lambda>t. Inr \<lparr>ir_token = t, ir_student = student, ir_expires_in = TOKEN_TTL_SECS\<rparr>)"

definition auth_exchange :: "'key idp_world \<Rightarrow> identity_config \<Rightarrow> nat \<Rightarrow> str \<Rightarrow> str \<Rightarrow> 'key oidc_cache \<Rightarrow>
    (api_error + identity_response) \<times> 'key oidc_cache" where
  "auth_exchange w cfg now name tok cache =
     (case verify_idp w cfg now name tok cache of
        (r, cache) \<Rightarrow> (bind_result (map_err api_error_of r) (issue_identity w cfg (int now)), cache))"

definition auth_device_start :: "'key idp_world \<Rightarrow> identity_config \<Rightarrow> nat \<Rightarrow> str \<Rightarrow> 'key oidc_cache \<Rightarrow>
    (api_error + device_start) \<times> 'key oidc_cache" where
  "auth_device_start w cfg now name cache =
     (case device_start_of w cfg now name cache of (r, cache) \<Rightarrow> (map_err api_error_of r, cache))"

text \<open>\<open>None\<close> is the answer that the authorization is still pending.\<close>

definition auth_device_poll :: "'key idp_world \<Rightarrow> identity_config \<Rightarrow> nat \<Rightarrow> str \<Rightarrow> str \<Rightarrow> 'key oidc_cache \<Rightarrow>
    (api_error + identity_response option) \<times> 'key oidc_cache" where
  "auth_device_poll w cfg now name dcode cache =
     (case device_poll_of w cfg now name dcode cache of
        (r, cache) \<Rightarrow>
          (bind_result (map_err api_error_of r) (\<lambda>p. case p of
             Pending \<Rightarrow> Inr None
           | Done student \<Rightarrow> bind_result (issue_identity w cfg (int now) student) (\<lambda>i. Inr (Some i))), cache))"

section \<open>Who vouches for a student\<close>

text \<open>A run of calls of the routes, each with the world and the time it sees.\<close>

datatype id_request = Exchange str str | Start_Device str | Poll_Device str str

type_synonym 'key id_call = "'key idp_world \<times> nat \<times> id_request"

definition id_answer :: "identity_config \<Rightarrow> 'key id_call \<Rightarrow> 'key oidc_cache \<Rightarrow> identity_response option \<times> 'key oidc_cache" where
  "id_answer cfg c cache =
     (case c of (w, now, r) \<Rightarrow>
        (case r of
           Exchange name tok \<Rightarrow> (case auth_exchange w cfg now name tok cache of (a, cache) \<Rightarrow> (result_ok a, cache))
         | Start_Device name \<Rightarrow> (None, snd (auth_device_start w cfg now name cache))
         | Poll_Device name dcode \<Rightarrow>
             (case auth_device_poll w cfg now name dcode cache of
                (a, cache) \<Rightarrow> (Option.bind (result_ok a) id, cache))))"

text \<open>What was issued in a run: the token, its student, and the call that issued it.\<close>

fun id_run :: "identity_config \<Rightarrow> 'key id_call list \<Rightarrow> 'key oidc_cache \<Rightarrow> ('key id_call \<times> identity_response) list" where
  "id_run cfg [] cache = []"
| "id_run cfg (c # cs) cache =
     (case id_answer cfg c cache of
        (None, cache) \<Rightarrow> id_run cfg cs cache
      | (Some i, cache) \<Rightarrow> (c, i) # id_run cfg cs cache)"

definition served :: "'key idp_world \<Rightarrow> str \<Rightarrow> 'key jwks \<Rightarrow> bool" where
  "served w issuer keys \<longleftrightarrow>
     (\<exists>d. get_discovery w (discovery_url issuer) = Inr d \<and> get_jwks w (ds_jwks_uri d) = Inr keys)"

text \<open>A provider's word for a name: GitHub's own answer for a token, or a token signed, with an
  asymmetric algorithm and for this client, by a key its issuer served in the last hour.\<close>

definition vouches :: "'key id_call list \<Rightarrow> 'key idp_world \<Rightarrow> nat \<Rightarrow> provider \<Rightarrow> str \<Rightarrow> bool" where
  "vouches cs w now p who \<longleftrightarrow>
     (case pv_kind p of
        Github \<Rightarrow> \<exists>access. github_user_of w access = User who
      | Oidc \<Rightarrow> \<exists>issuer tok kid alg k keys claims w' t' r'. pv_issuer p = Some issuer \<and>
          header_of w tok = Inr (Some kid, alg) \<and> asymmetric alg \<and> map_of keys kid = Some k \<and>
          decode_with w (int now) k alg issuer (pv_client_id p) tok = Inr claims \<and>
          who = unwrap_or (oc_email claims) (oc_sub claims) \<and>
          (w', t', r') \<in> set cs \<and> served w' issuer keys \<and> now < t' + OIDC_CACHE_TTL)"

definition cache_from :: "'key id_call list \<Rightarrow> 'key oidc_cache \<Rightarrow> bool" where
  "cache_from cs cache \<longleftrightarrow>
     (\<forall>issuer m. map_of cache issuer = Some m \<longrightarrow>
        (\<exists>w t r. (w, t, r) \<in> set cs \<and> served w issuer (mt_jwks m) \<and> mt_fetched_at m = t))"

lemma meta_from:
  assumes "meta w now issuer refresh cache = (r, cache')" "cache_from cs cache" "(w, now, q) \<in> set cs"
  shows "cache_from cs cache'"
    "r = Inr m \<Longrightarrow> \<exists>w' t' r'. (w', t', r') \<in> set cs \<and> served w' issuer (mt_jwks m) \<and> now < t' + OIDC_CACHE_TTL"
proof -
  have "cache_from cs cache' \<and> (\<forall>m. r = Inr m \<longrightarrow>
      (\<exists>w' t' r'. (w', t', r') \<in> set cs \<and> served w' issuer (mt_jwks m) \<and> now < t' + OIDC_CACHE_TTL))"
  proof (cases "if refresh then None else opt_filter (meta_fresh now) (map_of cache issuer)")
    case (Some m)
    then have "map_of cache issuer = Some m" "meta_fresh now m" "r = Inr m" "cache' = cache"
      using assms(1) by (auto simp: meta_def split: if_splits)
    with assms(2) show ?thesis by (simp add: cache_from_def meta_fresh_def) blast
  next
    case None
    show ?thesis
    proof (cases "get_discovery w (discovery_url issuer)")
      case (Inr d)
      show ?thesis
      proof (cases "get_jwks w (ds_jwks_uri d)")
        case keys: (Inr keys)
        define m where "m = \<lparr>mt_discovery = d, mt_jwks = keys, mt_fetched_at = now\<rparr>"
        have "r = Inr m" "cache' = put_meta now issuer m cache"
          using assms(1) None Inr keys by (auto simp: meta_def m_def Let_def)
        moreover have served: "served w issuer keys" using Inr keys by (simp add: served_def)
        then have "\<exists>w' t' r'. (w', t', r') \<in> set cs \<and> served w' issuer (mt_jwks m) \<and> now < t' + OIDC_CACHE_TTL"
          using assms(3) by (intro exI [of _ w] exI [of _ now] exI [of _ q]) (simp add: m_def OIDC_CACHE_TTL_def)
        moreover have "\<exists>w' t r'. (w', t, r') \<in> set cs \<and> served w' issuer (mt_jwks m) \<and> mt_fetched_at m = t"
          using assms(3) served by (intro exI [of _ w] exI [of _ now] exI [of _ q]) (simp add: m_def)
        then have "cache_from cs (put_meta now issuer m cache)"
          using assms(2) unfolding cache_from_def put_meta_def map_of_update by (metis fun_upd_apply option.inject)
        ultimately show ?thesis by blast
      qed (use assms(1,2) None Inr in \<open>auto simp: meta_def\<close>)
    qed (use assms(1,2) None in \<open>auto simp: meta_def\<close>)
  qed
  then show "cache_from cs cache'"
    "r = Inr m \<Longrightarrow> \<exists>w' t' r'. (w', t', r') \<in> set cs \<and> served w' issuer (mt_jwks m) \<and> now < t' + OIDC_CACHE_TTL"
    by blast+
qed

lemma verify_oidc_from:
  assumes "verify_oidc w now issuer client tok cache = (r, cache')" "cache_from cs cache" "(w, now, q) \<in> set cs"
    "pv_kind p = Oidc" "pv_issuer p = Some issuer" "pv_client_id p = client"
  shows "cache_from cs cache'" "r = Inr who \<Longrightarrow> vouches cs w now p who"
proof -
  have "cache_from cs cache' \<and> (\<forall>who. r = Inr who \<longrightarrow> vouches cs w now p who)"
  proof (cases "\<exists>kid alg. header_of w tok = Inr (Some kid, alg)")
    case True
    then obtain kid alg where head: "header_of w tok = Inr (Some kid, alg)" by blast
    obtain r1 cache1 where m1: "meta w now issuer False cache = (r1, cache1)" by fastforce
    note one = meta_from [OF m1 assms(2,3)]
    show ?thesis
    proof (cases r1)
      case (Inl e)
      then show ?thesis using assms(1) one head m1 by (auto simp: verify_oidc_def)
    next
      case (Inr ma)
      obtain r2 cache2 where m2: "(if map_of (mt_jwks ma) kid = None then meta w now issuer True cache1 else (Inr ma, cache1)) = (r2, cache2)"
        by fastforce
      have two: "cache_from cs cache2" "r2 = Inr m \<Longrightarrow>
          \<exists>w' t' r'. (w', t', r') \<in> set cs \<and> served w' issuer (mt_jwks m) \<and> now < t' + OIDC_CACHE_TTL" for m
        using m2 one Inr meta_from [OF _ one(1) assms(3), of issuer True r2 cache2] by (auto split: if_splits)
      have r: "cache' = cache2" "r = Inr who \<Longrightarrow> \<exists>m claims. r2 = Inr m \<and>
          verify_id_token w (int now) tok (mt_jwks m) issuer client = Inr claims \<and>
          who = unwrap_or (oc_email claims) (oc_sub claims)" for who
        using assms(1) head m1 Inr m2 by (auto simp: verify_oidc_def split: sum.splits prod.splits)
      have "vouches cs w now p who" if who: "r = Inr who" for who
      proof -
        from r(2) [OF who] obtain m claims where m: "r2 = Inr m"
          "verify_id_token w (int now) tok (mt_jwks m) issuer client = Inr claims"
          "who = unwrap_or (oc_email claims) (oc_sub claims)" by blast
        from m(2) head obtain k where "map_of (mt_jwks m) kid = Some k" "asymmetric alg"
          "decode_with w (int now) k alg issuer client tok = Inr claims"
          by (auto simp: verify_id_token_def split: option.splits if_splits)
        with two(2) [OF m(1)] m(3) head assms(4-6) show ?thesis
          unfolding vouches_def by (simp only: provider_kind.case) blast
      qed
      with two(1) r(1) show ?thesis by blast
    qed
  qed (use assms(1,2) in \<open>auto simp: verify_oidc_def split: sum.splits option.splits\<close>)
  then show "cache_from cs cache'" "r = Inr who \<Longrightarrow> vouches cs w now p who" by blast+
qed

definition vouched :: "identity_config \<Rightarrow> 'key id_call list \<Rightarrow> 'key idp_world \<Rightarrow> nat \<Rightarrow> str \<Rightarrow> bool" where
  "vouched cfg cs w now s \<longleftrightarrow> (\<exists>p who. p \<in> set (ic_providers cfg) \<and> s = student_id p who \<and> vouches cs w now p who)"

lemma vouchedI: "p \<in> set (ic_providers cfg) \<Longrightarrow> vouches cs w now p who \<Longrightarrow> vouched cfg cs w now (student_id p who)"
  by (auto simp: vouched_def)

lemma provider_named_Inr: "provider_named cfg name = Inr p \<Longrightarrow> p \<in> set (ic_providers cfg)"
  by (auto simp: provider_named_def find_Some_iff)

lemma github_vouches: "github_login w access = Inr login \<Longrightarrow> pv_kind p = Github \<Longrightarrow> vouches cs w now p login"
  by (auto simp: github_login_def vouches_def split: github_user.splits)

lemma verify_idp_from:
  assumes "verify_idp w cfg now name tok cache = (r, cache')" "cache_from cs cache" "(w, now, q) \<in> set cs"
  shows "cache_from cs cache' \<and> (\<forall>s. r = Inr s \<longrightarrow> vouched cfg cs w now s)"
proof (cases "provider_named cfg name")
  case (Inr p)
  note p = provider_named_Inr [OF Inr]
  show ?thesis
  proof (cases "pv_kind p")
    case Github
    with assms(1,2) Inr p show ?thesis
      by (auto simp: verify_idp_def intro!: vouchedI github_vouches [OF _ Github])
  next
    case Oidc
    show ?thesis
    proof (cases "pv_issuer p")
      case (Some issuer)
      obtain r1 cache1 where v: "verify_oidc w now issuer (pv_client_id p) tok cache = (r1, cache1)" by fastforce
      note fr = verify_oidc_from [OF v assms(2,3) Oidc Some refl]
      with assms(1) Inr p Oidc Some v show ?thesis
        by (auto simp: verify_idp_def needs_issuer_def intro!: vouchedI)
    qed (use assms(1,2) Inr Oidc in \<open>auto simp: verify_idp_def needs_issuer_def\<close>)
  qed
qed (use assms(1,2) in \<open>auto simp: verify_idp_def\<close>)

lemma token_endpoint_from:
  assumes "token_endpoint_of w now p cache = (r, cache')" "cache_from cs cache" "(w, now, q) \<in> set cs"
  shows "cache_from cs cache'" "r = Inr endpoint \<Longrightarrow> pv_kind p = Oidc \<Longrightarrow> pv_issuer p \<noteq> None"
  using assms meta_from(1) [OF _ assms(2,3)]
  by (auto simp: token_endpoint_of_def needs_issuer_def split: provider_kind.splits option.splits sum.splits prod.splits)

lemma device_poll_from:
  assumes "device_poll_of w cfg now name dcode cache = (r, cache')" "cache_from cs cache" "(w, now, q) \<in> set cs"
  shows "cache_from cs cache' \<and> (\<forall>s. r = Inr (Done s) \<longrightarrow> vouched cfg cs w now s)"
proof (cases "provider_named cfg name")
  case (Inr p)
  note p = provider_named_Inr [OF Inr]
  obtain r1 cache1 where e: "token_endpoint_of w now p cache = (r1, cache1)" by fastforce
  note one = token_endpoint_from [OF e assms(2,3)]
  show ?thesis
  proof (cases "pv_kind p")
    case Github
    with assms(1) Inr p e one(1) show ?thesis
      by (auto simp: device_poll_of_def Let_def intro!: vouchedI github_vouches [OF _ Github] split: sum.splits option.splits if_splits)
  next
    case Oidc
    show ?thesis
    proof (cases r1)
      case (Inl err)
      with assms(1) Inr e one(1) show ?thesis by (auto simp: device_poll_of_def)
    next
      case r1: (Inr endpoint)
      obtain issuer where iss: "pv_issuer p = Some issuer" using one(2) [OF r1 Oidc] by auto
      have "cache_from cs c' \<and> (\<forall>who. v = Inr who \<longrightarrow> vouches cs w now p who)"
        if "verify_oidc w now issuer (pv_client_id p) idt cache1 = (v, c')" for idt v c'
        using verify_oidc_from [OF that one(1) assms(3) Oidc iss refl] by blast
      with assms(1) Inr p e r1 Oidc iss one(1) show ?thesis
        by (auto simp: device_poll_of_def Let_def intro!: vouchedI split: sum.splits option.splits if_splits prod.splits)
    qed
  qed
qed (use assms(1,2) in \<open>auto simp: device_poll_of_def\<close>)

lemma device_start_from:
  assumes "device_start_of w cfg now name cache = (r, cache')" "cache_from cs cache" "(w, now, q) \<in> set cs"
  shows "cache_from cs cache'"
  using assms meta_from(1) [OF _ assms(2,3)]
  by (auto simp: device_start_of_def needs_issuer_def Let_def
      split: provider_kind.splits option.splits sum.splits prod.splits if_splits)

lemma issue_identity_Inr:
  "issue_identity w cfg now student = Inr i \<Longrightarrow> ir_student i = student \<and> issue w cfg now student = Some (ir_token i)"
  by (auto simp: issue_identity_def)

lemma id_answer_from:
  assumes "id_answer cfg (w, now, q) cache = (a, cache')" "cache_from cs cache" "(w, now, q) \<in> set cs"
  shows "cache_from cs cache' \<and> (\<forall>i. a = Some i \<longrightarrow>
    vouched cfg cs w now (ir_student i) \<and> issue w cfg (int now) (ir_student i) = Some (ir_token i))"
proof (cases q)
  case (Exchange name tok)
  obtain r c where v: "verify_idp w cfg now name tok cache = (r, c)" by fastforce
  with assms(1) Exchange verify_idp_from [OF v assms(2,3)] show ?thesis
    by (cases r) (auto simp: id_answer_def auth_exchange_def dest: issue_identity_Inr)
next
  case (Start_Device name)
  with assms show ?thesis
    by (auto simp: id_answer_def auth_device_start_def split: prod.splits dest: device_start_from)
next
  case (Poll_Device name dcode)
  obtain r c where v: "device_poll_of w cfg now name dcode cache = (r, c)" by fastforce
  with assms(1) Poll_Device device_poll_from [OF v assms(2,3)] show ?thesis
    by (cases r) (auto simp: id_answer_def auth_device_poll_def bind_eq_Some_conv result_ok_def
        split: device_poll.splits sum.splits dest: issue_identity_Inr)
qed

lemma id_run_from:
  "((w, now, q), i) \<in> set (id_run cfg calls cache) \<Longrightarrow> cache_from cs cache \<Longrightarrow> set calls \<subseteq> set cs \<Longrightarrow>
     vouched cfg cs w now (ir_student i) \<and> issue w cfg (int now) (ir_student i) = Some (ir_token i)"
proof (induction cfg calls cache rule: id_run.induct)
  case (2 cfg c calls cache)
  obtain w0 now0 q0 where c: "c = (w0, now0, q0)" by (cases c)
  obtain a cache1 where a: "id_answer cfg c cache = (a, cache1)" by fastforce
  note fr = id_answer_from [OF a [unfolded c] 2(4)]
  show ?case
  proof (cases a)
    case None
    then show ?thesis using 2 a fr c by simp
  next
    case (Some j)
    then show ?thesis using 2 a fr c by auto
  qed
qed simp

text \<open>The tokens a run signed, each with its student and its expiry.\<close>

definition signed :: "identity_config \<Rightarrow> 'key id_call list \<Rightarrow> (str \<times> str \<times> int) set" where
  "signed cfg calls = (\<lambda>((w, now, q), i). (ir_token i, ir_student i, int now + TOKEN_TTL_SECS)) ` set (id_run cfg calls [])"


text \<open>A deployment with GitHub alone, where ann signs in at second 10.\<close>

definition gh_config :: identity_config where
  "gh_config = \<lparr>ic_providers = [\<lparr>pv_name = lit ''github'', pv_kind = Github, pv_issuer = None,
     pv_client_id = [], pv_client_secret = None, pv_scopes = None\<rparr>], ic_secret = Some (lit ''k'')\<rparr>"

definition gh_world :: "unit idp_world" where
  "gh_world = \<lparr>hs_encode = (\<lambda>_ s _. Some s),
     hs_decode = (\<lambda>now _ tok. if tok = lit ''github:ann'' \<and> now \<le> 28870 then Some tok else None),
     header_of = (\<lambda>_. Inl []), usable_key = (\<lambda>_. Inr ()), decode_with = (\<lambda>_ _ _ _ _ _. Inl []),
     github_user_of = (\<lambda>a. if a = lit ''gho'' then User (lit ''ann'') else Client_Error),
     get_discovery = (\<lambda>_. Inl []), get_jwks = (\<lambda>_. Inl []), post_device = (\<lambda>_ _. Inl []), post_token = (\<lambda>_ _. Inl [])\<rparr>"

lemma gh_run:
  "id_run gh_config [(gh_world, 10, Exchange (lit ''github'') (lit ''gho''))] [] =
     [((gh_world, 10, Exchange (lit ''github'') (lit ''gho'')),
       \<lparr>ir_token = lit ''github:ann'', ir_student = lit ''github:ann'', ir_expires_in = 28800\<rparr>)]"
  by (simp add: id_answer_def auth_exchange_def verify_idp_def provider_named_def github_login_def student_id_def
      issue_identity_def issue_def gh_config_def gh_world_def TOKEN_TTL_SECS_def result_ok_def)
    (simp add: lit_def)

lemma gh_signed:
  "signed gh_config [(gh_world, 10, Exchange (lit ''github'') (lit ''gho''))] =
     {(lit ''github:ann'', lit ''github:ann'', 28810)}"
  unfolding signed_def gh_run by (simp add: TOKEN_TTL_SECS_def)


end
