(* ===== verification/Assistant_Turn.thy ===== *)
theory Assistant_Turn
  imports Utf8 GitHub
begin

text \<open>
  One chat turn of the teaching assistant over its event stream: \<^verbatim>\<open>run_streaming_turn\<close> of
  \<^verbatim>\<open>crates/server/src/assistant.rs\<close>. Chunks of bytes are decoded lossily and appended to a buffer,
  whose complete lines are handled one by one. Parsing JSON is a parameter, and so is how many
  sends succeed before the client has gone. The lemmas show that the turn only depends on the
  lines of the stream, not on how its text was cut into chunks.
\<close>

datatype turn_event = Message_Event str | Status_Event str | Error_Event str | Done_Event

record turn =
  tn_reply :: str
  tn_sent :: "turn_event list"
  tn_left :: "nat option"

text \<open>\<^verbatim>\<open>tx.send\<close>: whether it succeeded, and what was relayed. \<open>tn_left\<close> counts the sends that still
  succeed; \<open>None\<close> is a client that stays.\<close>

definition send_event :: "turn_event \<Rightarrow> turn \<Rightarrow> bool \<times> turn" where
  "send_event ev t =
     (case tn_left t of
        None \<Rightarrow> (True, t\<lparr>tn_sent := tn_sent t @ [ev]\<rparr>)
      | Some 0 \<Rightarrow> (False, t)
      | Some (Suc n) \<Rightarrow> (True, t\<lparr>tn_sent := tn_sent t @ [ev], tn_left := Some n\<rparr>))"

definition str_at :: "str \<Rightarrow> json \<Rightarrow> str option" where
  "str_at k j = Option.bind (json_get k j) as_string"

text \<open>The text blocks of an agent's message, joined.\<close>

fun text_blocks :: "json list \<Rightarrow> str" where
  "text_blocks [] = []"
| "text_blocks (b # bs) =
     (if str_at (lit ''type'') b = Some (lit ''text'') then unwrap_or (str_at (lit ''text'') b) [] else []) @ text_blocks bs"

definition message_text :: "json \<Rightarrow> str" where
  "message_text v = text_blocks (unwrap_or (Option.bind (json_get (lit ''content'') v) as_array) [])"

definition ellipsis :: str where "ellipsis = [Cp 8230]"

text \<open>One \<^verbatim>\<open>data:\<close> value: whether the turn ends, and the turn after it.\<close>

definition handle_data :: "json \<Rightarrow> turn \<Rightarrow> bool \<times> turn" where
  "handle_data v t =
     (let kind = unwrap_or (str_at (lit ''type'') v) [] in
      if kind = lit ''agent.message'' then
        (let msg = message_text v in
         if msg = [] then (False, t)
         else (let (ok, t) = send_event (Message_Event msg) (t\<lparr>tn_reply := tn_reply t @ msg\<rparr>) in (\<not> ok, t)))
      else if kind = lit ''agent.thinking'' then
        (False, snd (send_event (Status_Event (lit ''thinking'' @ ellipsis)) t))
      else if kind = lit ''agent.tool_use'' then
        (False, snd (send_event (Status_Event (lit ''running '' @ unwrap_or (str_at (lit ''name'') v) (lit ''a tool'') @ ellipsis)) t))
      else if kind = lit ''agent.mcp_tool_use'' then
        (False, snd (send_event (Status_Event (lit ''using a connected tool'' @ ellipsis)) t))
      else if kind = lit ''session.status_idle'' then
        (unwrap_or (Option.bind (json_get (lit ''stop_reason'') v) (str_at (lit ''type''))) (lit ''end_turn'')
           \<noteq> lit ''requires_action'', t)
      else if kind = lit ''session.status_terminated'' then (True, t)
      else (False, t))"

definition handle_line :: "(str \<Rightarrow> json option) \<Rightarrow> str \<Rightarrow> turn \<Rightarrow> bool \<times> turn" where
  "handle_line parse raw t =
     (case strip_prefix (lit ''data:'') (trim_end is_whitespace raw) of
        None \<Rightarrow> (False, t)
      | Some rest \<Rightarrow>
          (let payload = trim rest in
           if payload = [] then (False, t)
           else (case parse payload of None \<Rightarrow> (False, t) | Some v \<Rightarrow> handle_data v t)))"

text \<open>The complete lines at the front of the buffer: whether the turn ended, the buffer and the turn.\<close>

function lines_loop :: "(str \<Rightarrow> json option) \<Rightarrow> str \<Rightarrow> turn \<Rightarrow> bool \<times> str \<times> turn" where
  "lines_loop parse buf t =
     (case dropWhile (\<lambda>c. c \<noteq> c_nl) buf of
        [] \<Rightarrow> (False, buf, t)
      | _ # rest \<Rightarrow>
          (let (stop, t) = handle_line parse (takeWhile (\<lambda>c. c \<noteq> c_nl) buf) t in
           if stop then (True, rest, t) else lines_loop parse rest t))"
  by pat_completeness auto
termination
proof (relation "measure (\<lambda>(parse, buf, t). length buf)")
  show "wf (measure (\<lambda>(parse :: str \<Rightarrow> json option, buf :: str, t :: turn). length buf))" by simp
next
  fix parse :: "str \<Rightarrow> json option" and buf rest :: str and t :: turn and c x stop t'
  assume "dropWhile (\<lambda>c. c \<noteq> c_nl) buf = c # rest"
  then have "length (c # rest) \<le> length buf" by (metis length_dropWhile_le)
  then show "((parse, rest, t'), parse, buf, t) \<in> measure (\<lambda>(parse, buf, t). length buf)" by simp
qed

declare lines_loop.simps [simp del]

text \<open>What a wait for the stream gives: a chunk, or a transport error; its end and the timeout of
  the turn are the end of the list.\<close>

datatype read = Chunk "byte list" | Broken

fun read_loop :: "(str \<Rightarrow> json option) \<Rightarrow> read list \<Rightarrow> str \<Rightarrow> turn \<Rightarrow> turn" where
  "read_loop parse [] buf t = t"
| "read_loop parse (Broken # rs) buf t = t"
| "read_loop parse (Chunk bytes # rs) buf t =
     (let (stop, buf, t) = lines_loop parse (buf @ from_utf8_lossy bytes) t in
      if stop then t else read_loop parse rs buf t)"

definition fresh_turn :: "nat option \<Rightarrow> turn" where
  "fresh_turn left = \<lparr>tn_reply = [], tn_sent = [], tn_left = left\<rparr>"

section \<open>The turn is a fold over the lines\<close>

text \<open>The reference: every line that ends in a newline, handled in turn until one ends it.\<close>

fun handle_lines :: "(str \<Rightarrow> json option) \<Rightarrow> str list \<Rightarrow> turn \<Rightarrow> bool \<times> turn" where
  "handle_lines parse [] t = (False, t)"
| "handle_lines parse (l # ls) t =
     (let (stop, t) = handle_line parse l t in if stop then (True, t) else handle_lines parse ls t)"

definition complete_lines :: "str \<Rightarrow> str list" where
  "complete_lines s = butlast (split_on ((=) c_nl) s)"

definition rest_of_lines :: "str \<Rightarrow> str" where
  "rest_of_lines s = last (split_on ((=) c_nl) s)"

lemma handle_lines_append:
  "handle_lines parse (a @ b) t =
     (case handle_lines parse a t of (stop, t) \<Rightarrow> if stop then (True, t) else handle_lines parse b t)"
  by (induction a arbitrary: t) (auto split: prod.splits)

lemma lines_loop_spec:
  "lines_loop parse buf t = (stop, buf', t') \<Longrightarrow>
     handle_lines parse (complete_lines buf) t = (stop, t') \<and> (\<not> stop \<longrightarrow> buf' = rest_of_lines buf)"
proof (induction parse buf t arbitrary: stop buf' t' rule: lines_loop.induct)
  case (1 parse buf t)
  show ?case
  proof (cases "dropWhile (\<lambda>c. c \<noteq> c_nl) buf")
    case Nil
    then have "\<forall>c \<in> set buf. c \<noteq> c_nl" by simp
    then have "split_on ((=) c_nl) buf = [buf]" by (intro split_on_none) auto
    then show ?thesis
      using 1(2) by (simp add: lines_loop.simps [of parse buf] Nil complete_lines_def rest_of_lines_def)
  next
    case (Cons c rest)
    define l where "l = takeWhile (\<lambda>c. c \<noteq> c_nl) buf"
    have c: "c = c_nl" using hd_dropWhile [of "\<lambda>c. c \<noteq> c_nl" buf] Cons by simp
    have "buf = l @ c_nl # rest" using takeWhile_dropWhile_id [of "\<lambda>c. c \<noteq> c_nl" buf] Cons c by (simp add: l_def)
    moreover have "split_on ((=) c_nl) l = [l]"
      by (rule split_on_none) (auto simp: l_def dest: set_takeWhileD)
    ultimately have "split_on ((=) c_nl) buf = l # split_on ((=) c_nl) rest" by (simp add: split_on_append)
    then have lines: "complete_lines buf = l # complete_lines rest" "rest_of_lines buf = rest_of_lines rest"
      by (simp_all add: complete_lines_def rest_of_lines_def)
    obtain st t1 where h: "handle_line parse l t = (st, t1)" by fastforce
    show ?thesis
    proof (cases st)
      case True
      then show ?thesis using 1(2) h by (auto simp: lines_loop.simps [of parse buf] Cons l_def [symmetric] lines)
    next
      case False
      then have "lines_loop parse rest t1 = (stop, buf', t')"
        using 1(2) h by (simp add: lines_loop.simps [of parse buf] Cons l_def [symmetric])
      from 1(1) [OF Cons h [unfolded l_def, symmetric] refl False this]
      show ?thesis using h False by (simp add: lines)
    qed
  qed
qed

lemma complete_lines_append: "complete_lines (a @ b) = complete_lines a @ complete_lines (rest_of_lines a @ b)"
proof (cases "c_nl \<in> set a")
  case False
  then have "split_on ((=) c_nl) a = [a]" by (intro split_on_none) auto
  then show ?thesis by (simp add: complete_lines_def rest_of_lines_def)
next
  case True
  then obtain p r where a: "a = p @ c_nl # r" "c_nl \<notin> set r" by (meson split_list_last)
  have "split_on ((=) c_nl) r = [r]" using a(2) by (intro split_on_none) auto
  then have "split_on ((=) c_nl) a = split_on ((=) c_nl) p @ [r]" by (simp add: a(1) split_on_append)
  moreover have "split_on ((=) c_nl) (a @ b) = split_on ((=) c_nl) p @ split_on ((=) c_nl) (r @ b)"
    by (simp add: a(1) split_on_append)
  ultimately show ?thesis by (simp add: complete_lines_def rest_of_lines_def butlast_append)
qed

lemma read_loop_lines:
  "list_all (list_all scalar) ss \<Longrightarrow>
     read_loop parse (map (\<lambda>s. Chunk (encode s)) ss) buf t =
       (if ss = [] then t else snd (handle_lines parse (complete_lines (buf @ concat ss)) t))"
proof (induction ss arbitrary: buf t)
  case (Cons s ss)
  obtain stop buf1 t1 where l: "lines_loop parse (buf @ s) t = (stop, buf1, t1)" by (metis prod_cases3)
  note spec = lines_loop_spec [OF l]
  have lines: "complete_lines (buf @ concat (s # ss)) = complete_lines (buf @ s) @ complete_lines (rest_of_lines (buf @ s) @ concat ss)"
    using complete_lines_append [of "buf @ s" "concat ss"] by simp
  have nothing: "complete_lines (rest_of_lines (buf @ s)) = []"
  proof -
    have "\<forall>c \<in> set (rest_of_lines (buf @ s)). c \<noteq> c_nl"
      unfolding rest_of_lines_def using split_on_no_sep [of _ "(=) c_nl" "buf @ s"] by (metis last_in_set split_on_not_Nil(1))
    then have "split_on ((=) c_nl) (rest_of_lines (buf @ s)) = [rest_of_lines (buf @ s)]" by (intro split_on_none) auto
    then show ?thesis by (simp add: complete_lines_def)
  qed
  show ?case
  proof (cases stop)
    case True
    with Cons.prems l spec show ?thesis unfolding lines handle_lines_append by (simp add: from_utf8_lossy_encode)
  next
    case False
    have h: "handle_lines parse (complete_lines (buf @ s)) t = (False, t1)" and buf1: "buf1 = rest_of_lines (buf @ s)"
      using spec False by simp_all
    have step: "read_loop parse (map (\<lambda>s. Chunk (encode s)) (s # ss)) buf t =
        read_loop parse (map (\<lambda>s. Chunk (encode s)) ss) buf1 t1"
      using l False Cons.prems by (simp add: from_utf8_lossy_encode)
    have IH: "read_loop parse (map (\<lambda>s. Chunk (encode s)) ss) buf1 t1 =
        (if ss = [] then t1 else snd (handle_lines parse (complete_lines (buf1 @ concat ss)) t1))"
      using Cons.IH Cons.prems by simp
    show ?thesis
    proof (cases "ss = []")
      case True
      then show ?thesis unfolding step IH by (simp add: h)
    next
      case False
      then show ?thesis unfolding step IH lines handle_lines_append h by (simp add: buf1)
    qed
  qed
qed simp

text \<open>A parser that takes every payload for an agent's message of that text.\<close>

definition echo :: "str \<Rightarrow> json option" where
  "echo s = Some (JObject [(lit ''type'', JString (lit ''agent.message'')),
     (lit ''content'', JArray [JObject [(lit ''type'', JString (lit ''text'')), (lit ''text'', JString s)]])])"

lemma handle_line_echo:
  assumes "payload \<noteq> []" "trim payload = payload" "trim_end is_whitespace payload = payload"
  shows "handle_line echo (lit ''data:'' @ payload) (fresh_turn None) =
    (False, \<lparr>tn_reply = payload, tn_sent = [Message_Event payload], tn_left = None\<rparr>)"
proof -
  have "trim_end is_whitespace (lit ''data:'' @ payload) = lit ''data:'' @ payload"
    using assms(1,3) by (auto simp: trim_end_fix)
  then show ?thesis using assms(1,2)
    by (simp add: handle_line_def echo_def handle_data_def str_at_def json_get_def as_string_def message_text_def
        as_array_def send_event_def fresh_turn_def)
qed

lemma lines_loop_echo:
  assumes "payload \<noteq> []" "trim payload = payload" "trim_end is_whitespace payload = payload" "c_nl \<notin> set payload"
  shows "tn_reply (snd (snd (lines_loop echo (lit ''data:'' @ payload @ [c_nl]) (fresh_turn None)))) = payload"
proof -
  have nl: "\<forall>c \<in> set (lit ''data:'' @ payload). c \<noteq> c_nl" using assms(4) by (auto simp: lit_def)
  then have "dropWhile (\<lambda>c. c \<noteq> c_nl) ((lit ''data:'' @ payload) @ [c_nl]) = [c_nl]"
    "takeWhile (\<lambda>c. c \<noteq> c_nl) ((lit ''data:'' @ payload) @ [c_nl]) = lit ''data:'' @ payload"
    by (subst dropWhile_append2 takeWhile_append2; auto)+
  then show ?thesis
    using handle_line_echo [OF assms(1-3)] by (simp add: lines_loop.simps)
qed

lemma read_loop_one:
  "read_loop parse [Chunk bytes] buf t = snd (snd (lines_loop parse (buf @ from_utf8_lossy bytes) t))"
  by (simp split: prod.splits)

lemma cut_character:
  "let s = lit ''data:'' @ [Cp 233, c_nl] in
      encode s = encode (lit ''data:'') @ [195, 169, 10] \<and>
      tn_reply (read_loop echo [Chunk (encode s)] [] (fresh_turn None)) = [Cp 233] \<and>
      tn_reply (read_loop echo [Chunk (encode (lit ''data:'') @ [195]), Chunk [169, 10]] [] (fresh_turn None)) =
        [replacement, replacement]"
  unfolding Let_def
proof (intro conjI)
  show "encode (lit ''data:'' @ [Cp 233, c_nl]) = encode (lit ''data:'') @ [195, 169, 10]"
    by (simp add: encode_char_def)
  have "from_utf8_lossy (encode (lit ''data:'' @ [Cp 233, c_nl])) = lit ''data:'' @ [Cp 233] @ [c_nl]"
    by (subst from_utf8_lossy_encode) (simp_all add: lit_def scalar_def)
  then show "tn_reply (read_loop echo [Chunk (encode (lit ''data:'' @ [Cp 233, c_nl]))] [] (fresh_turn None)) = [Cp 233]"
    using lines_loop_echo [of "[Cp 233]"]
    by (simp add: trim_def trim_matches_def trim_start_def trim_end_def is_whitespace_def read_loop_one del: read_loop.simps encode_simps)
  have "from_utf8_lossy (encode (lit ''data:'') @ [195]) = lit ''data:'' @ [replacement]"
    by (simp add: from_utf8_lossy_def lit_def encode_char_def next_char_def second_ok_def cont_def)
  moreover have "from_utf8_lossy [169, 10] = [replacement, c_nl]"
    by (simp add: from_utf8_lossy_def next_char_def second_ok_def cont_def)
  moreover have "lines_loop echo (lit ''data:'' @ [replacement]) (fresh_turn None) =
      (False, lit ''data:'' @ [replacement], fresh_turn None)"
    by (simp add: lines_loop.simps lit_def replacement_def)
  ultimately have "read_loop echo [Chunk (encode (lit ''data:'') @ [195]), Chunk [169, 10]] [] (fresh_turn None) =
      snd (snd (lines_loop echo (lit ''data:'' @ [replacement, replacement] @ [c_nl]) (fresh_turn None)))"
    by (simp split: prod.splits)
  then show "tn_reply (read_loop echo [Chunk (encode (lit ''data:'') @ [195]), Chunk [169, 10]] [] (fresh_turn None)) =
      [replacement, replacement]"
    using lines_loop_echo [of "[replacement, replacement]"]
    by (simp add: replacement_def trim_def trim_matches_def trim_start_def trim_end_def is_whitespace_def del: read_loop.simps)
qed



end
