(* ===== verification/Assistant_Api.thy ===== *)
theory Assistant_Api
  imports Assistant_Turn
begin

text \<open>
  The Managed Agents client of \<^verbatim>\<open>crates/server/src/assistant.rs\<close>: its errors and what is told of
  them, the calls it makes, the shared environment, an agent's synchronization, and one chat turn
  on a session. The service is a parameter (\<open>service\<close>) that answers from the calls made so far; JSON
  is read by a parameter too. The calls are kept in order, so that lemmas can say what was sent.
  The write lock makes the environment's resolution one step.
\<close>

section \<open>Skills and servers\<close>

record skill_ref =
  sk_kind :: str
  sk_id :: str
  sk_version :: "str option"

record mcp_server =
  mc_name :: str
  mc_url :: str

section \<open>The service\<close>

datatype http_method = Get | Post

record api_call =
  ac_method :: http_method
  ac_path :: str
  ac_key :: str
  ac_body :: "json option"

text \<open>A request that fails, or the status of the answer and its body where that could be read.\<close>

datatype raw_answer = Failed str | Answered status "str option"

text \<open>What the service answers to the last of the calls so far, what a stream then carries, how JSON is
  read and written, and how a status is displayed.\<close>

record service =
  sv_answer :: "api_call list \<Rightarrow> raw_answer"
  sv_stream :: "api_call list \<Rightarrow> read list"
  sv_parse :: "str \<Rightarrow> str + json"
  sv_print :: "json \<Rightarrow> str"
  sv_status_text :: "status \<Rightarrow> str"

section \<open>Errors\<close>

datatype assistant_error =
    Not_Configured
  | Transport str
  | Upstream status str
  | Malformed str

definition is_success :: "status \<Rightarrow> bool" where
  "is_success st \<longleftrightarrow> 200 \<le> st \<and> st < 300"

definition is_client_error :: "status \<Rightarrow> bool" where
  "is_client_error st \<longleftrightarrow> 400 \<le> st \<and> st < 500"

fun assistant_error_text :: "service \<Rightarrow> assistant_error \<Rightarrow> str" where
  "assistant_error_text w Not_Configured = lit ''assistant not configured (HERMIONE_ANTHROPIC_API_KEY unset)''"
| "assistant_error_text w (Transport e) = lit ''request to anthropic failed: '' @ e"
| "assistant_error_text w (Upstream st body) = lit ''anthropic answered '' @ sv_status_text w st @ lit '': '' @ body"
| "assistant_error_text w (Malformed e) = lit ''unexpected answer from anthropic: '' @ e"

definition service_unavailable :: str where
  "service_unavailable = lit ''the assistant service is unavailable''"

fun assistant_for_teacher :: "service \<Rightarrow> assistant_error \<Rightarrow> str" where
  "assistant_for_teacher w Not_Configured = assistant_error_text w Not_Configured"
| "assistant_for_teacher w (Upstream st body) =
     (if is_client_error st
      then unwrap_or
        (Option.bind (Option.bind (result_ok (sv_parse w body)) (json_get (lit ''error''))) (str_at (lit ''message'')))
        (lit ''anthropic rejected the request ('' @ sv_status_text w st @ lit '')'')
      else service_unavailable)"
| "assistant_for_teacher w _ = service_unavailable"

fun api_error_of_assistant :: "assistant_error \<Rightarrow> api_error" where
  "api_error_of_assistant Not_Configured = unavailable (lit ''the assistant is not configured on this server'')"
| "api_error_of_assistant _ = bad_gateway (lit ''the assistant is unavailable right now'')"

section \<open>Calls\<close>

record assistant =
  as_key :: "str option"
  as_env :: "str option"
  as_calls :: "api_call list"

definition new_assistant :: "str option \<Rightarrow> str option \<Rightarrow> assistant" where
  "new_assistant api_key environment_id = \<lparr>as_key = api_key, as_env = environment_id, as_calls = []\<rparr>"

definition assistant_enabled :: "assistant \<Rightarrow> bool" where
  "assistant_enabled a \<longleftrightarrow> as_key a \<noteq> None"

definition assistant_key :: "assistant \<Rightarrow> assistant_error + str" where
  "assistant_key a = ok_or (as_key a) Not_Configured"

definition perform :: "service \<Rightarrow> api_call \<Rightarrow> assistant \<Rightarrow> raw_answer \<times> assistant" where
  "perform w call a = (let a = a\<lparr>as_calls := as_calls a @ [call]\<rparr> in (sv_answer w (as_calls a), a))"

definition api :: "service \<Rightarrow> http_method \<Rightarrow> str \<Rightarrow> json option \<Rightarrow> assistant \<Rightarrow> (assistant_error + json) \<times> assistant" where
  "api w m path body a =
     (case assistant_key a of
        Inl e \<Rightarrow> (Inl e, a)
      | Inr key \<Rightarrow>
          (case perform w \<lparr>ac_method = m, ac_path = path, ac_key = key, ac_body = body\<rparr> a of
             (Failed e, a) \<Rightarrow> (Inl (Transport e), a)
           | (Answered st content, a) \<Rightarrow>
               (let content = unwrap_or content [] in
                if \<not> is_success st then (Inl (Upstream st content), a)
                else if content = [] then (Inr JNull, a)
                else (map_err Malformed (sv_parse w content), a))))"

definition api_get :: "service \<Rightarrow> str \<Rightarrow> assistant \<Rightarrow> (assistant_error + json) \<times> assistant" where
  "api_get w path a = api w Get path None a"

definition api_post :: "service \<Rightarrow> str \<Rightarrow> json \<Rightarrow> assistant \<Rightarrow> (assistant_error + json) \<times> assistant" where
  "api_post w path body a = api w Post path (Some body) a"

abbreviation id_of :: "json \<Rightarrow> str option" where
  "id_of \<equiv> str_at (lit ''id'')"

section \<open>The shared environment\<close>

definition ENVIRONMENT_NAME :: str where "ENVIRONMENT_NAME = lit ''hermione-assistant''"

definition find_environment_by_name :: "service \<Rightarrow> assistant \<Rightarrow> (assistant_error + str option) \<times> assistant" where
  "find_environment_by_name w a =
     (case api_get w (lit ''/v1/environments'') a of
        (Inl e, a) \<Rightarrow> (Inl e, a)
      | (Inr list, a) \<Rightarrow>
          (Inr (Option.bind
             (List.find (\<lambda>e. str_at (lit ''name'') e = Some ENVIRONMENT_NAME)
               (unwrap_or (Option.bind (json_get (lit ''data'') list) as_array) []))
             id_of), a))"

definition environment_body :: json where
  "environment_body = JObject
     [(lit ''name'', JString ENVIRONMENT_NAME),
      (lit ''config'', JObject [(lit ''type'', JString (lit ''cloud'')),
         (lit ''networking'', JObject [(lit ''type'', JString (lit ''unrestricted''))])])]"

definition ensure_environment :: "service \<Rightarrow> assistant \<Rightarrow> (assistant_error + str) \<times> assistant" where
  "ensure_environment w a =
     (case as_env a of
        Some i \<Rightarrow> (Inr i, a)
      | None \<Rightarrow>
          (let (found, a) =
             (case api_post w (lit ''/v1/environments'') environment_body a of
                (Inr v, a) \<Rightarrow> (Inr (id_of v), a)
              | (Inl (Upstream st body), a) \<Rightarrow>
                  if st = 409 then find_environment_by_name w a else (Inl (Upstream st body), a)
              | (Inl e, a) \<Rightarrow> (Inl e, a))
           in (case found of
                 Inl e \<Rightarrow> (Inl e, a)
               | Inr None \<Rightarrow> (Inl (Malformed (lit ''environment create returned no id'')), a)
               | Inr (Some i) \<Rightarrow> (Inr i, a\<lparr>as_env := Some i\<rparr>))))"

section \<open>A course's agent\<close>

definition version_string :: "json \<Rightarrow> str" where
  "version_string resp =
     (case json_get (lit ''version'') resp of
        Some (JString s) \<Rightarrow> s
      | Some (JNumber n) \<Rightarrow> n
      | _ \<Rightarrow> [])"

definition agent_tools :: "mcp_server list \<Rightarrow> json list" where
  "agent_tools mcp_servers =
     JObject [(lit ''type'', JString (lit ''agent_toolset_20260401''))] #
     map (\<lambda>s. JObject [(lit ''type'', JString (lit ''mcp_toolset'')), (lit ''mcp_server_name'', JString (mc_name s))])
       mcp_servers"

definition skill_body :: "skill_ref \<Rightarrow> json" where
  "skill_body s = JObject
     ([(lit ''type'', JString (sk_kind s)), (lit ''skill_id'', JString (sk_id s))] @
      (case sk_version s of Some v \<Rightarrow> [(lit ''version'', JString v)] | None \<Rightarrow> []))"

definition server_body :: "mcp_server \<Rightarrow> json" where
  "server_body s = JObject [(lit ''type'', JString (lit ''url'')), (lit ''name'', JString (mc_name s)), (lit ''url'', JString (mc_url s))]"

definition agent_body :: "str \<Rightarrow> str \<Rightarrow> str \<Rightarrow> skill_ref list \<Rightarrow> mcp_server list \<Rightarrow> json" where
  "agent_body course_name model prompt skills mcp_servers = JObject
     ([(lit ''name'', JString (lit ''Hermione TA '' @ [Cp 8212, c_space] @ course_name)),
       (lit ''model'', JString model),
       (lit ''tools'', JArray (agent_tools mcp_servers))] @
      (if trim prompt \<noteq> [] then [(lit ''system'', JString prompt)] else []) @
      (if skills \<noteq> [] then [(lit ''skills'', JArray (map skill_body skills))] else []) @
      (if mcp_servers \<noteq> [] then [(lit ''mcp_servers'', JArray (map server_body mcp_servers))] else []))"

definition sync_agent ::
    "service \<Rightarrow> str option \<Rightarrow> str \<Rightarrow> str \<Rightarrow> str \<Rightarrow> skill_ref list \<Rightarrow> mcp_server list \<Rightarrow> assistant \<Rightarrow>
     (assistant_error + (str \<times> str)) \<times> assistant" where
  "sync_agent w existing course_name model prompt skills mcp_servers a =
     (let path = (case existing of Some i \<Rightarrow> lit ''/v1/agents/'' @ i | None \<Rightarrow> lit ''/v1/agents'') in
      case api_post w path (agent_body course_name model prompt skills mcp_servers) a of
        (Inl e, a) \<Rightarrow> (Inl e, a)
      | (Inr resp, a) \<Rightarrow>
          (bind_result (ok_or (or_else existing (id_of resp)) (Malformed (lit ''agent sync returned no id''))) (\<lambda>i.
             Inr (i, version_string resp)), a))"

section \<open>Sessions and turns\<close>

definition open_session :: "service \<Rightarrow> str \<Rightarrow> assistant \<Rightarrow> (assistant_error + str) \<times> assistant" where
  "open_session w agent a =
     (case ensure_environment w a of
        (Inl e, a) \<Rightarrow> (Inl e, a)
      | (Inr env, a) \<Rightarrow>
          (case api_post w (lit ''/v1/sessions'')
                  (JObject [(lit ''agent'', JString agent), (lit ''environment_id'', JString env)]) a of
             (Inl e, a) \<Rightarrow> (Inl e, a)
           | (Inr resp, a) \<Rightarrow> (ok_or (id_of resp) (Malformed (lit ''session create returned no id'')), a)))"

definition session_path :: "str \<Rightarrow> str \<Rightarrow> str" where
  "session_path session rest = lit ''/v1/sessions/'' @ session @ rest"

definition open_event_stream :: "service \<Rightarrow> str \<Rightarrow> assistant \<Rightarrow> (assistant_error + unit) \<times> assistant" where
  "open_event_stream w session a =
     (case assistant_key a of
        Inl e \<Rightarrow> (Inl e, a)
      | Inr key \<Rightarrow>
          (case perform w \<lparr>ac_method = Get, ac_path = session_path session (lit ''/events/stream''), ac_key = key,
                  ac_body = None\<rparr> a of
             (Failed e, a) \<Rightarrow> (Inl (Transport e), a)
           | (Answered st content, a) \<Rightarrow>
               if \<not> is_success st then (Inl (Upstream st (unwrap_or content [])), a) else (Inr (), a)))"

definition user_message :: "str \<Rightarrow> json" where
  "user_message s = JObject [(lit ''events'', JArray [JObject
     [(lit ''type'', JString (lit ''user.message'')),
      (lit ''content'', JArray [JObject [(lit ''type'', JString (lit ''text'')), (lit ''text'', JString s)]])]])]"

definition run_streaming_turn ::
    "service \<Rightarrow> str \<Rightarrow> str \<Rightarrow> turn \<Rightarrow> assistant \<Rightarrow> (assistant_error + str) \<times> turn \<times> assistant" where
  "run_streaming_turn w session prompt t a =
     (case open_event_stream w session a of
        (Inl e, a) \<Rightarrow> (Inl e, t, a)
      | (Inr _, a) \<Rightarrow>
          (case api_post w (session_path session (lit ''/events'')) (user_message prompt) a of
             (Inl e, a) \<Rightarrow> (Inl e, t, a)
           | (Inr _, a) \<Rightarrow>
               (let t = read_loop (\<lambda>s. result_ok (sv_parse w s)) (sv_stream w (as_calls a)) [] (t\<lparr>tn_reply := []\<rparr>)
                in (Inr (tn_reply t), t, a))))"

text \<open>What goes to the browser for an event: its name and its data.\<close>

definition text_data :: "str \<Rightarrow> json" where
  "text_data s = JObject [(lit ''text'', JString s)]"

fun into_event :: "turn_event \<Rightarrow> str \<times> json" where
  "into_event (Message_Event s) = (lit ''message'', text_data s)"
| "into_event (Status_Event s) = (lit ''status'', text_data s)"
| "into_event (Error_Event s) = (lit ''error'', text_data s)"
| "into_event Done_Event = (lit ''done'', JObject [])"

end
