(* ===== verification/Assistant.thy ===== *)
theory Assistant
  imports Assistant_Api Courses
begin

text \<open>
  The course assistant of \<^verbatim>\<open>crates/server/src/assistant.rs\<close>: a course's configuration, the teacher's
  view of the conversations, and the student's chat with its history, over the tables
  \<^verbatim>\<open>course_assistants\<close>, \<^verbatim>\<open>assistant_conversations\<close> and \<^verbatim>\<open>assistant_messages\<close>. A table is the list
  of its rows; an insert that breaks a key fails as the database makes it fail. The service and
  JSON are the parameter of \<open>Assistant_Api\<close>; the instants and the random id of a request are its
  \<open>chat_env\<close>.
\<close>

section \<open>Tables\<close>

record course_assistant =
  ca_course :: uuid
  ca_enabled :: bool
  ca_model :: str
  ca_prompt :: str
  ca_skills :: str
  ca_mcp :: str
  ca_agent :: "str option"
  ca_version :: "str option"
  ca_env :: "str option"
  ca_updated :: int

record conversation =
  cv_id :: uuid
  cv_course :: uuid
  cv_student :: str
  cv_session :: "str option"
  cv_created :: int
  cv_updated :: int

record chat_row =
  cm_id :: int
  cm_conversation :: uuid
  cm_role :: str
  cm_body :: str
  cm_created :: int

record assistant_db =
  adb_configs :: "course_assistant list"
  adb_conversations :: "conversation list"
  adb_rows :: "chat_row list"
  adb_next :: int

record assistant_state =
  ast_db :: assistant_db
  ast_client :: assistant

definition config_of :: "uuid \<Rightarrow> assistant_db \<Rightarrow> course_assistant option" where
  "config_of c db = List.find (\<lambda>r. ca_course r = c) (adb_configs db)"

section \<open>Configuration\<close>

text \<open>The stored form of skills and servers: an array of objects, written and read by serde. What is
  read back is the object form, the only one that is stored.\<close>

definition skill_json :: "skill_ref \<Rightarrow> json" where
  "skill_json s = JObject
     ([(lit ''type'', JString (sk_kind s)), (lit ''skillId'', JString (sk_id s))] @
      (case sk_version s of Some v \<Rightarrow> [(lit ''version'', JString v)] | None \<Rightarrow> []))"

definition skill_of_json :: "json \<Rightarrow> skill_ref option" where
  "skill_of_json j =
     (case (str_at (lit ''type'') j, str_at (lit ''skillId'') j) of
        (Some k, Some i) \<Rightarrow>
          (case json_get (lit ''version'') j of
             None \<Rightarrow> Some \<lparr>sk_kind = k, sk_id = i, sk_version = None\<rparr>
           | Some JNull \<Rightarrow> Some \<lparr>sk_kind = k, sk_id = i, sk_version = None\<rparr>
           | Some (JString v) \<Rightarrow> Some \<lparr>sk_kind = k, sk_id = i, sk_version = Some v\<rparr>
           | Some _ \<Rightarrow> None)
      | _ \<Rightarrow> None)"

definition server_json :: "mcp_server \<Rightarrow> json" where
  "server_json s = JObject [(lit ''name'', JString (mc_name s)), (lit ''url'', JString (mc_url s))]"

definition server_of_json :: "json \<Rightarrow> mcp_server option" where
  "server_of_json j =
     (case (str_at (lit ''name'') j, str_at (lit ''url'') j) of
        (Some n, Some u) \<Rightarrow> Some \<lparr>mc_name = n, mc_url = u\<rparr>
      | _ \<Rightarrow> None)"

definition parse_json_list :: "service \<Rightarrow> (json \<Rightarrow> 'a option) \<Rightarrow> str \<Rightarrow> 'a list" where
  "parse_json_list w item s =
     (case result_ok (sv_parse w s) of
        Some (JArray js) \<Rightarrow> unwrap_or (those (map item js)) []
      | _ \<Rightarrow> [])"

record config_dto =
  cf_enabled :: bool
  cf_model :: str
  cf_prompt :: str
  cf_skills :: "skill_ref list"
  cf_mcp :: "mcp_server list"
  cf_available :: bool
  cf_configured :: bool

record put_config_body =
  pc_course :: "str option"
  pc_enabled :: bool
  pc_model :: "str option"
  pc_prompt :: "str option"
  pc_skills :: "skill_ref list"
  pc_mcp :: "mcp_server list"

definition get_config ::
    "service \<Rightarrow> str \<Rightarrow> auth_ctx \<Rightarrow> str option \<Rightarrow> db \<Rightarrow> assistant_state \<Rightarrow> api_error + config_dto" where
  "get_config w default_model ctx q db st =
     bind_result (resolve_course ctx q db) (\<lambda>c.
       Inr (case config_of c (ast_db st) of
          Some m \<Rightarrow>
            \<lparr>cf_enabled = ca_enabled m, cf_model = ca_model m, cf_prompt = ca_prompt m,
             cf_skills = parse_json_list w skill_of_json (ca_skills m),
             cf_mcp = parse_json_list w server_of_json (ca_mcp m),
             cf_available = assistant_enabled (ast_client st), cf_configured = (ca_agent m \<noteq> None)\<rparr>
        | None \<Rightarrow>
            \<lparr>cf_enabled = False, cf_model = default_model, cf_prompt = [], cf_skills = [], cf_mcp = [],
             cf_available = assistant_enabled (ast_client st), cf_configured = False\<rparr>))"

text \<open>\<^verbatim>\<open>ActiveModelFrom::save\<close>.\<close>

definition save_config :: "bool \<Rightarrow> course_assistant \<Rightarrow> assistant_db \<Rightarrow> (db_err + unit) \<times> assistant_db" where
  "save_config existed r db =
     (if existed
      then (if config_of (ca_course r) db = None then (Inl (Other_Db_Error []), db)
            else (Inr (), db\<lparr>adb_configs := map (\<lambda>m. if ca_course m = ca_course r then r else m) (adb_configs db)\<rparr>))
      else (if config_of (ca_course r) db \<noteq> None then (Inl (Unique_Violation []), db)
            else (Inr (), db\<lparr>adb_configs := adb_configs db @ [r]\<rparr>)))"

definition course_name_of :: "uuid \<Rightarrow> db \<Rightarrow> str" where
  "course_name_of c db =
     (case List.find (\<lambda>r. co_id r = c) (courses db) of Some r \<Rightarrow> co_name r | None \<Rightarrow> lit ''course'')"

text \<open>The agent, its version and the environment that are stored, after a sync where one is due.\<close>

definition synced_agent ::
    "service \<Rightarrow> put_config_body \<Rightarrow> str \<Rightarrow> str \<Rightarrow> str \<Rightarrow> course_assistant option \<Rightarrow> assistant \<Rightarrow>
     (api_error + (str option \<times> str option \<times> str option)) \<times> assistant" where
  "synced_agent w body course_name model prompt existing a =
     (let stored = (case existing of Some m \<Rightarrow> (ca_agent m, ca_version m, ca_env m) | None \<Rightarrow> (None, None, None)) in
      if pc_enabled body
      then (case sync_agent w (fst stored) course_name model prompt (pc_skills body) (pc_mcp body) a of
              (Inr (i, version), a) \<Rightarrow> (Inr (Some i, Some version, as_env a), a)
            | (Inl e, a) \<Rightarrow> (Inl (bad_gateway (lit ''agent sync failed: '' @ assistant_for_teacher w e)), a))
      else (Inr stored, a))"

definition put_config ::
    "service \<Rightarrow> str \<Rightarrow> int \<Rightarrow> auth_ctx \<Rightarrow> put_config_body \<Rightarrow> db \<Rightarrow> assistant_state \<Rightarrow>
     (api_error + config_dto) \<times> assistant_state" where
  "put_config w default_model now ctx body db st =
     (case resolve_course ctx (pc_course body) db of
        Inl e \<Rightarrow> (Inl e, st)
      | Inr c \<Rightarrow>
          if pc_enabled body \<and> \<not> assistant_enabled (ast_client st)
          then (Inl (bad_request
            (lit ''the assistant is not configured on this server (HERMIONE_ANTHROPIC_API_KEY is unset)'')), st)
          else
            (let model = unwrap_or (opt_filter (\<lambda>m. trim m \<noteq> []) (pc_model body)) default_model;
                 prompt = unwrap_or (pc_prompt body) [];
                 existing = config_of c (ast_db st)
             in case synced_agent w body (course_name_of c db) model prompt existing (ast_client st) of
                  (Inl e, a) \<Rightarrow> (Inl e, st\<lparr>ast_client := a\<rparr>)
                | (Inr (agent, version, environment), a) \<Rightarrow>
                    (let row = \<lparr>ca_course = c, ca_enabled = pc_enabled body, ca_model = model, ca_prompt = prompt,
                           ca_skills = sv_print w (JArray (map skill_json (pc_skills body))),
                           ca_mcp = sv_print w (JArray (map server_json (pc_mcp body))),
                           ca_agent = agent, ca_version = version, ca_env = environment, ca_updated = now\<rparr>
                     in case save_config (existing \<noteq> None) row (ast_db st) of
                          (Inl e, adb) \<Rightarrow> (Inl (from_db_err e), \<lparr>ast_db = adb, ast_client = a\<rparr>)
                        | (Inr _, adb) \<Rightarrow>
                            (Inr \<lparr>cf_enabled = pc_enabled body, cf_model = model, cf_prompt = prompt,
                                 cf_skills = pc_skills body, cf_mcp = pc_mcp body,
                                 cf_available = assistant_enabled a, cf_configured = (agent \<noteq> None)\<rparr>,
                             \<lparr>ast_db = adb, ast_client = a\<rparr>))))"

section \<open>The teacher's transcripts\<close>

text \<open>The rows of a conversation in the order of their ids.\<close>

definition rows_of :: "uuid \<Rightarrow> assistant_db \<Rightarrow> chat_row list" where
  "rows_of i db = sort_key cm_id (filter (\<lambda>r. cm_conversation r = i) (adb_rows db))"

definition unix_ms :: "int \<Rightarrow> int" where "unix_ms us = us div 1000"

definition split_whitespace :: "str \<Rightarrow> str list" where
  "split_whitespace s = filter (\<lambda>word. word \<noteq> []) (split_on is_whitespace s)"

definition preview :: "str \<Rightarrow> str" where
  "preview body =
     (let flat = join_with [c_space] (split_whitespace body) in
      if length flat > 120 then take 120 flat @ ellipsis else flat)"

record conversation_summary =
  cs_id :: uuid
  cs_student :: str
  cs_count :: nat
  cs_last_ms :: int
  cs_last_role :: "str option"
  cs_preview :: "str option"

definition last_row :: "uuid \<Rightarrow> assistant_db \<Rightarrow> chat_row option" where
  "last_row i db = (case rows_of i db of [] \<Rightarrow> None | rs \<Rightarrow> Some (last rs))"

definition summary_of :: "assistant_db \<Rightarrow> conversation \<Rightarrow> conversation_summary" where
  "summary_of db c =
     (let last_message = last_row (cv_id c) db in
      \<lparr>cs_id = cv_id c, cs_student = cv_student c, cs_count = length (rows_of (cv_id c) db),
       cs_last_ms = unix_ms (case last_message of None \<Rightarrow> cv_updated c | Some m \<Rightarrow> cm_created m),
       cs_last_role = map_option cm_role last_message,
       cs_preview = map_option (\<lambda>m. preview (cm_body m)) last_message\<rparr>)"

definition list_conversations ::
    "auth_ctx \<Rightarrow> str option \<Rightarrow> db \<Rightarrow> assistant_db \<Rightarrow> api_error + conversation_summary list" where
  "list_conversations ctx q db adb =
     bind_result (resolve_course ctx q db) (\<lambda>c.
       Inr (map (summary_of adb)
         (sort_key (\<lambda>v. - cv_updated v) (filter (\<lambda>v. cv_course v = c) (adb_conversations adb)))))"

record history_message =
  hm_role :: str
  hm_body :: str
  hm_created_ms :: int

definition history_message_of :: "chat_row \<Rightarrow> history_message" where
  "history_message_of m = \<lparr>hm_role = cm_role m, hm_body = cm_body m, hm_created_ms = unix_ms (cm_created m)\<rparr>"

record conversation_detail =
  de_id :: uuid
  de_student :: str
  de_messages :: "history_message list"

text \<open>The id as it was parsed, if it was one.\<close>

definition conversation_messages ::
    "auth_ctx \<Rightarrow> str option \<Rightarrow> uuid option \<Rightarrow> db \<Rightarrow> assistant_db \<Rightarrow> api_error + conversation_detail" where
  "conversation_messages ctx q i db adb =
     bind_result (resolve_course ctx q db) (\<lambda>c.
     bind_result (ok_or i (bad_request (lit ''invalid conversation id''))) (\<lambda>i.
     bind_result
       (ok_or (opt_filter (\<lambda>v. cv_course v = c) (List.find (\<lambda>v. cv_id v = i) (adb_conversations adb)))
         (not_found (lit ''no such conversation''))) (\<lambda>v.
       Inr \<lparr>de_id = cv_id v, de_student = cv_student v,
         de_messages = map history_message_of (rows_of (cv_id v) adb)\<rparr>)))"

end
