(* ===== verification/Assistant_Chat.thy ===== *)
theory Assistant_Chat
  imports Assistant
begin

text \<open>
  The student's side of \<^verbatim>\<open>crates/server/src/assistant.rs\<close>: whether the assistant is live, a chat
  turn with its one retry on a fresh session, the history, and the conversation tables. A request's
  random id and instants, the rival that may create the same conversation between the look-up and
  the insert, and how many sends reach the client are its \<open>chat_env\<close>.
\<close>

section \<open>Conversations\<close>

text \<open>The primary key and the unique (course, student); a message needs its conversation.\<close>

definition find_conversation :: "uuid \<Rightarrow> str \<Rightarrow> assistant_db \<Rightarrow> conversation option" where
  "find_conversation c student db =
     List.find (\<lambda>v. cv_course v = c \<and> cv_student v = student) (adb_conversations db)"

definition new_conversation :: "uuid \<Rightarrow> int \<Rightarrow> uuid \<Rightarrow> str \<Rightarrow> conversation" where
  "new_conversation i now c student =
     \<lparr>cv_id = i, cv_course = c, cv_student = student, cv_session = None, cv_created = now, cv_updated = now\<rparr>"

definition insert_conversation :: "conversation \<Rightarrow> assistant_db \<Rightarrow> (db_err + conversation) \<times> assistant_db" where
  "insert_conversation v db =
     (if list_ex (\<lambda>u. cv_id u = cv_id v \<or> cv_course u = cv_course v \<and> cv_student u = cv_student v)
           (adb_conversations db)
      then (Inl (Unique_Violation []), db)
      else (Inr v, db\<lparr>adb_conversations := adb_conversations db @ [v]\<rparr>))"

text \<open>\<open>rival\<close>: the id and instant of a request for the same student that inserts first.\<close>

definition find_or_create_conversation ::
    "uuid \<Rightarrow> int \<Rightarrow> (uuid \<times> int) option \<Rightarrow> uuid \<Rightarrow> str \<Rightarrow> assistant_db \<Rightarrow> (db_err + conversation) \<times> assistant_db" where
  "find_or_create_conversation i now rival c student db =
     (case find_conversation c student db of
        Some v \<Rightarrow> (Inr v, db)
      | None \<Rightarrow>
          (let db = (case rival of
               None \<Rightarrow> db
             | Some (j, before) \<Rightarrow> snd (insert_conversation (new_conversation j before c student) db))
           in case insert_conversation (new_conversation i now c student) db of
                (Inr created, db) \<Rightarrow> (Inr created, db)
              | (Inl e, db) \<Rightarrow> (ok_or (find_conversation c student db) e, db)))"

definition set_session :: "uuid \<Rightarrow> str \<Rightarrow> int \<Rightarrow> assistant_db \<Rightarrow> (db_err + unit) \<times> assistant_db" where
  "set_session i session now db =
     (if list_ex (\<lambda>v. cv_id v = i) (adb_conversations db)
      then (Inr (), db\<lparr>adb_conversations :=
        map (\<lambda>v. if cv_id v = i then v\<lparr>cv_session := Some session, cv_updated := now\<rparr> else v) (adb_conversations db)\<rparr>)
      else (Inl (Other_Db_Error []), db))"

definition insert_message :: "uuid \<Rightarrow> str \<Rightarrow> str \<Rightarrow> int \<Rightarrow> assistant_db \<Rightarrow> (db_err + unit) \<times> assistant_db" where
  "insert_message i role body now db =
     (if list_ex (\<lambda>v. cv_id v = i) (adb_conversations db)
      then (Inr (), db\<lparr>adb_rows := adb_rows db @
          [\<lparr>cm_id = adb_next db, cm_conversation = i, cm_role = role, cm_body = body, cm_created = now\<rparr>],
        adb_next := adb_next db + 1\<rparr>)
      else (Inl (Other_Db_Error []), db))"

section \<open>A chat turn\<close>

definition assistant_live :: "uuid \<Rightarrow> assistant_db \<Rightarrow> bool" where
  "assistant_live c db =
     (case config_of c db of Some m \<Rightarrow> ca_enabled m \<and> ca_agent m \<noteq> None | None \<Rightarrow> False)"

definition assistant_status :: "uuid \<Rightarrow> assistant_state \<Rightarrow> bool" where
  "assistant_status c st \<longleftrightarrow> assistant_enabled (ast_client st) \<and> assistant_live c (ast_db st)"

record chat_request =
  cr_message :: str
  cr_student :: "str option"
  cr_file :: "str option"
  cr_language :: "str option"

record prepared_turn =
  pt_conversation :: conversation
  pt_agent :: str
  pt_prompt :: str

record chat_env =
  ce_id :: uuid
  ce_rival :: "(uuid \<times> int) option"
  ce_asked :: int
  ce_opened :: int
  ce_reopened :: int
  ce_answered :: int
  ce_left :: "nat option"

definition asserted_student :: "str option \<Rightarrow> str option \<Rightarrow> str option" where
  "asserted_student verified claimed = non_blank (or_else verified claimed)"

definition ROLE_STUDENT :: str where "ROLE_STUDENT = lit ''student''"

definition ROLE_ASSISTANT :: str where "ROLE_ASSISTANT = lit ''assistant''"

definition grounded :: "str option \<Rightarrow> str option \<Rightarrow> str \<Rightarrow> str" where
  "grounded file language message =
     (let editing = (\<lambda>f. lit ''[Student is editing '' @ [Cp 96] @ f @ [Cp 96]) in
      case (file, language) of
        (Some f, Some l) \<Rightarrow>
          if f \<noteq> [] then editing f @ lit '' ('' @ l @ lit '')]'' @ [c_nl, c_nl] @ message else message
      | (Some f, None) \<Rightarrow> if f \<noteq> [] then editing f @ lit '']'' @ [c_nl, c_nl] @ message else message
      | (None, _) \<Rightarrow> message)"

definition prepare_turn ::
    "chat_env \<Rightarrow> uuid \<Rightarrow> str option \<Rightarrow> chat_request \<Rightarrow> assistant_state \<Rightarrow> (api_error + prepared_turn) \<times> assistant_state" where
  "prepare_turn e c verified body st =
     (let message = trim (cr_message body);
          not_enabled = not_found (lit ''assistant not enabled for this course'')
      in if message = [] then (Inl (bad_request (lit ''empty message'')), st)
         else (case asserted_student verified (cr_student body) of
           None \<Rightarrow> (Inl (bad_request (lit ''missing student'')), st)
         | Some student \<Rightarrow>
             (case config_of c (ast_db st) of
                None \<Rightarrow> (Inl not_enabled, st)
              | Some row \<Rightarrow>
                  (case opt_filter (\<lambda>_. ca_enabled row \<and> assistant_enabled (ast_client st)) (ca_agent row) of
                     None \<Rightarrow> (Inl not_enabled, st)
                   | Some agent \<Rightarrow>
                       (case find_or_create_conversation (ce_id e) (ce_asked e) (ce_rival e) c student (ast_db st) of
                          (Inl err, adb) \<Rightarrow> (Inl (from_db_err err), st\<lparr>ast_db := adb\<rparr>)
                        | (Inr v, adb) \<Rightarrow>
                            (case insert_message (cv_id v) ROLE_STUDENT message (ce_asked e) adb of
                               (Inl err, adb) \<Rightarrow> (Inl (from_db_err err), st\<lparr>ast_db := adb\<rparr>)
                             | (Inr _, adb) \<Rightarrow>
                                 (Inr \<lparr>pt_conversation = v, pt_agent = agent,
                                       pt_prompt = grounded (cr_file body) (cr_language body) message\<rparr>,
                                  st\<lparr>ast_db := adb\<rparr>)))))))"

definition open_and_remember ::
    "service \<Rightarrow> int \<Rightarrow> uuid \<Rightarrow> str \<Rightarrow> assistant_state \<Rightarrow> (assistant_error + str) \<times> assistant_state" where
  "open_and_remember w now i agent st =
     (case open_session w agent (ast_client st) of
        (Inl e, a) \<Rightarrow> (Inl e, st\<lparr>ast_client := a\<rparr>)
      | (Inr s, a) \<Rightarrow> (Inr s, \<lparr>ast_db = snd (set_session i s now (ast_db st)), ast_client = a\<rparr>))"

definition session_for ::
    "service \<Rightarrow> int \<Rightarrow> conversation \<Rightarrow> str \<Rightarrow> assistant_state \<Rightarrow> (assistant_error + str) \<times> assistant_state" where
  "session_for w now v agent st =
     (case cv_session v of Some s \<Rightarrow> (Inr s, st) | None \<Rightarrow> open_and_remember w now (cv_id v) agent st)"

definition turn_with_retry ::
    "service \<Rightarrow> int \<Rightarrow> prepared_turn \<Rightarrow> str \<Rightarrow> turn \<Rightarrow> assistant_state \<Rightarrow> str \<times> turn \<times> assistant_state" where
  "turn_with_retry w now p session t st =
     (case run_streaming_turn w session (pt_prompt p) t (ast_client st) of
        (Inr r, t, a) \<Rightarrow> (r, t, st\<lparr>ast_client := a\<rparr>)
      | (Inl _, t, a) \<Rightarrow>
          (case open_and_remember w now (cv_id (pt_conversation p)) (pt_agent p) (st\<lparr>ast_client := a\<rparr>) of
             (Inr fresh, st) \<Rightarrow>
               (case run_streaming_turn w fresh (pt_prompt p) t (ast_client st) of
                  (r, t, a) \<Rightarrow> (unwrap_or (result_ok r) [], t, st\<lparr>ast_client := a\<rparr>))
           | (Inl _, st) \<Rightarrow> ([], snd (send_event (Error_Event (lit ''assistant unavailable'')) t), st)))"

definition no_response :: str where
  "no_response = lit ''The assistant didn'' @ [Cp 39] @ lit ''t return a response.''"

definition chat_task :: "service \<Rightarrow> chat_env \<Rightarrow> prepared_turn \<Rightarrow> assistant_state \<Rightarrow> turn \<times> assistant_state" where
  "chat_task w e p st =
     (let t = fresh_turn (ce_left e); i = cv_id (pt_conversation p) in
      case session_for w (ce_opened e) (pt_conversation p) (pt_agent p) st of
        (Inl _, st) \<Rightarrow>
          (let t = snd (send_event (Error_Event (lit ''could not start a session'')) t)
           in (snd (send_event Done_Event t), st))
      | (Inr session, st) \<Rightarrow>
          (case turn_with_retry w (ce_reopened e) p session t st of
             (reply, t, st) \<Rightarrow>
               (let reply = trim reply;
                    (t, st) = (if reply = [] then (snd (send_event (Error_Event no_response) t), st)
                      else (t, st\<lparr>ast_db := snd (insert_message i ROLE_ASSISTANT reply (ce_answered e) (ast_db st))\<rparr>))
                in (snd (send_event Done_Event t), st))))"

definition chat_stream ::
    "service \<Rightarrow> chat_env \<Rightarrow> uuid \<Rightarrow> str option \<Rightarrow> chat_request \<Rightarrow> assistant_state \<Rightarrow>
     (api_error + (str \<times> json) list) \<times> assistant_state" where
  "chat_stream w e c verified body st =
     (case prepare_turn e c verified body st of
        (Inl err, st) \<Rightarrow> (Inl err, st)
      | (Inr p, st) \<Rightarrow> (case chat_task w e p st of (t, st) \<Rightarrow> (Inr (map into_event (tn_sent t)), st)))"

section \<open>History\<close>

definition HISTORY_LIMIT :: nat where "HISTORY_LIMIT = 100"

definition history :: "uuid \<Rightarrow> str option \<Rightarrow> str option \<Rightarrow> assistant_db \<Rightarrow> history_message list" where
  "history c verified claimed db =
     (case asserted_student verified claimed of
        None \<Rightarrow> []
      | Some student \<Rightarrow>
          (case find_conversation c student db of
             None \<Rightarrow> []
           | Some v \<Rightarrow> map history_message_of (take HISTORY_LIMIT (rows_of (cv_id v) db))))"

end
