(* ===== verification/Assistant_Rules.thy ===== *)
theory Assistant_Rules
  imports Assistant_Chat
begin

text \<open>
  What the assistant's parts keep and give: the calls a turn makes, how every turn ends, that the
  tables stay well-formed, that a transcript is what its student asked and was answered, and that
  a saved configuration reads back. Lemmas on the client come first, then the tables, then runs
  of requests.
\<close>

section \<open>Calls\<close>

text \<open>At most \<open>n\<close> more calls, all with the key, of which at most \<open>q\<close> put the question.\<close>

definition asks :: "str \<Rightarrow> api_call \<Rightarrow> bool" where
  "asks prompt call \<longleftrightarrow> ac_body call = Some (user_message prompt)"

definition calls_more :: "str \<Rightarrow> nat \<Rightarrow> nat \<Rightarrow> assistant \<Rightarrow> assistant \<Rightarrow> bool" where
  "calls_more prompt n q a b \<longleftrightarrow>
     as_key b = as_key a \<and>
     (\<exists>cs. as_calls b = as_calls a @ cs \<and> length cs \<le> n \<and> length (filter (asks prompt) cs) \<le> q \<and>
        (\<forall>call \<in> set cs. as_key a = Some (ac_key call)))"

lemma calls_more_refl [simp, intro]: "calls_more prompt n q a a"
  by (simp add: calls_more_def)

lemma calls_more_trans:
  assumes "calls_more prompt m p a b" "calls_more prompt n q b c" "m + n \<le> k" "p + q \<le> r"
  shows "calls_more prompt k r a c"
proof -
  obtain cs ds where
    cs: "as_calls b = as_calls a @ cs" "length cs \<le> m" "length (filter (asks prompt) cs) \<le> p"
      "\<forall>call \<in> set cs. as_key a = Some (ac_key call)" "as_key b = as_key a" and
    ds: "as_calls c = as_calls b @ ds" "length ds \<le> n" "length (filter (asks prompt) ds) \<le> q"
      "\<forall>call \<in> set ds. as_key b = Some (ac_key call)" "as_key c = as_key b"
    using assms(1,2) unfolding calls_more_def by blast
  show ?thesis unfolding calls_more_def
    using cs ds assms(3,4) by (intro conjI exI [of _ "cs @ ds"]) auto
qed

lemma calls_more_mono: "calls_more prompt m p a b \<Longrightarrow> m \<le> n \<Longrightarrow> p \<le> q \<Longrightarrow> calls_more prompt n q a b"
  unfolding calls_more_def by (meson le_trans)

lemma calls_more_api:
  assumes "body \<noteq> Some (user_message prompt) \<or> 1 \<le> q"
  shows "calls_more prompt 1 q a (snd (api w m path body a))"
proof (cases "as_key a")
  case None
  then show ?thesis by (simp add: api_def assistant_key_def)
next
  case (Some key)
  have "as_key (snd (api w m path body a)) = Some key \<and> as_calls (snd (api w m path body a)) =
      as_calls a @ [\<lparr>ac_method = m, ac_path = path, ac_key = key, ac_body = body\<rparr>]"
    using Some by (simp add: api_def assistant_key_def perform_def Let_def split: raw_answer.splits)
  then show ?thesis using assms Some by (auto simp: calls_more_def asks_def)
qed

lemma other_bodies [simp]:
  "environment_body \<noteq> user_message prompt"
  "JObject [(lit ''agent'', JString agent), (lit ''environment_id'', JString env)] \<noteq> user_message prompt"
  by (simp_all add: environment_body_def user_message_def)

lemma calls_more_find: "calls_more prompt 1 0 a (snd (find_environment_by_name w a))"
  using calls_more_api [of None prompt 0 a w Get "lit ''/v1/environments''"]
  by (auto simp: find_environment_by_name_def api_get_def split: prod.splits sum.splits)

lemma calls_more_environment: "calls_more prompt 2 0 a (snd (ensure_environment w a))"
proof (cases "as_env a")
  case None
  obtain res b where post: "api_post w (lit ''/v1/environments'') environment_body a = (res, b)" by fastforce
  then have one: "calls_more prompt 1 0 a b"
    using calls_more_api [of "Some environment_body" prompt 0 a w Post "lit ''/v1/environments''"]
    by (simp add: api_post_def)
  then have two: "calls_more prompt 2 0 a (snd (find_environment_by_name w b))"
    by (rule calls_more_trans [OF _ calls_more_find]) simp_all
  have "calls_more prompt 2 0 a b" using one by (rule calls_more_mono) simp_all
  moreover have "calls_more prompt 2 0 a (b\<lparr>as_env := v\<rparr>) \<longleftrightarrow> calls_more prompt 2 0 a b" for b v
    by (simp add: calls_more_def)
  ultimately show ?thesis using None post two
    by (auto simp: ensure_environment_def Let_def split: sum.splits prod.splits option.splits assistant_error.splits)
qed (simp add: ensure_environment_def)

lemma calls_more_open_session: "calls_more prompt 3 0 a (snd (open_session w agent a))"
proof -
  obtain res b where env: "ensure_environment w a = (res, b)" by fastforce
  then have two: "calls_more prompt 2 0 a b" using calls_more_environment [of prompt a w] by simp
  show ?thesis
  proof (cases res)
    case (Inl e)
    then show ?thesis using env two by (auto simp: open_session_def intro: calls_more_mono)
  next
    case (Inr i)
    define body where "body = JObject [(lit ''agent'', JString agent), (lit ''environment_id'', JString i)]"
    have "calls_more prompt 1 0 b (snd (api_post w (lit ''/v1/sessions'') body b))"
      unfolding api_post_def by (rule calls_more_api) (simp add: body_def)
    with two have "calls_more prompt 3 0 a (snd (api_post w (lit ''/v1/sessions'') body b))"
      by (rule calls_more_trans) simp_all
    then show ?thesis using env Inr
      by (auto simp: open_session_def body_def split: prod.splits sum.splits)
  qed
qed

lemma calls_more_stream: "calls_more prompt 1 0 a (snd (open_event_stream w session a))"
proof (cases "as_key a")
  case (Some key)
  then show ?thesis
    by (auto simp: open_event_stream_def assistant_key_def perform_def calls_more_def asks_def Let_def
        split: raw_answer.splits)
qed (simp add: open_event_stream_def assistant_key_def)

lemma calls_more_turn: "calls_more prompt 2 1 a (snd (snd (run_streaming_turn w session prompt t a)))"
proof -
  obtain res b where stream: "open_event_stream w session a = (res, b)" by fastforce
  then have one: "calls_more prompt 1 0 a b" using calls_more_stream [of prompt a w session] by simp
  have "calls_more prompt 1 1 b (snd (api_post w (session_path session (lit ''/events'')) (user_message prompt) b))"
    unfolding api_post_def by (rule calls_more_api) simp
  with one have "calls_more prompt 2 1 a
      (snd (api_post w (session_path session (lit ''/events'')) (user_message prompt) b))"
    by (rule calls_more_trans) simp_all
  moreover have "calls_more prompt 2 1 a b" using one by (rule calls_more_mono) simp_all
  ultimately show ?thesis using stream
    by (auto simp: run_streaming_turn_def Let_def split: prod.splits sum.splits)
qed

section \<open>Events\<close>

text \<open>The text of the messages among some events.\<close>

definition shown :: "turn_event list \<Rightarrow> str" where
  "shown evs = concat (map (\<lambda>ev. case ev of Message_Event s \<Rightarrow> s | _ \<Rightarrow> []) evs)"

lemma shown_simps [simp]: "shown [] = []" "shown (a @ b) = shown a @ shown b" "shown [Message_Event s] = s"
  "shown [Status_Event s] = []" "shown [Error_Event s] = []"
  by (simp_all add: shown_def)

fun progress :: "turn_event \<Rightarrow> bool" where
  "progress (Message_Event s) = True"
| "progress (Status_Event s) = True"
| "progress _ = False"

text \<open>A turn goes on to another with messages and progress only; for a client that stays, its reply
  grows by what is shown.\<close>

definition relays :: "turn \<Rightarrow> turn \<Rightarrow> bool" where
  "relays t u \<longleftrightarrow> (\<exists>evs. tn_sent u = tn_sent t @ evs \<and> list_all progress evs \<and>
     (tn_left t = None \<longrightarrow> tn_left u = None \<and> tn_reply u = tn_reply t @ shown evs))"

lemma relays_refl [simp, intro]: "relays t t"
  by (simp add: relays_def)

lemma relays_trans: "relays t u \<Longrightarrow> relays u v \<Longrightarrow> relays t v"
  unfolding relays_def by (elim exE conjE, rule_tac x = "evs @ evsa" in exI) auto

lemma send_event_stays [simp]:
  "tn_left t = None \<Longrightarrow> send_event ev t = (True, t\<lparr>tn_sent := tn_sent t @ [ev]\<rparr>)"
  by (simp add: send_event_def)

lemma relays_message: "relays t (snd (send_event (Message_Event s) (t\<lparr>tn_reply := tn_reply t @ s\<rparr>)))"
  by (cases "tn_left t") (auto simp: relays_def send_event_def split: option.splits nat.splits)

lemma relays_status: "relays t (snd (send_event (Status_Event s) t))"
  by (cases "tn_left t") (auto simp: relays_def send_event_def split: option.splits nat.splits)

lemma relays_data: "relays t (snd (handle_data v t))"
  unfolding handle_data_def Let_def
  using relays_message [of t "message_text v"] by (auto simp: relays_status split: prod.splits)

lemma relays_line: "relays t (snd (handle_line parse raw t))"
  by (simp add: handle_line_def Let_def relays_data split: option.splits)

lemma relays_lines: "relays t (snd (snd (lines_loop parse buf t)))"
proof (induction parse buf t rule: lines_loop.induct)
  case (1 parse buf t)
  show ?case
  proof (cases "dropWhile (\<lambda>c. c \<noteq> c_nl) buf")
    case Nil
    show ?thesis by (simp add: lines_loop.simps [of parse buf] Nil)
  next
    case (Cons c rest)
    obtain stop t1 where h: "handle_line parse (takeWhile (\<lambda>c. c \<noteq> c_nl) buf) t = (stop, t1)" by fastforce
    then have r: "relays t t1" using relays_line [of t parse "takeWhile (\<lambda>c. c \<noteq> c_nl) buf"] by simp
    show ?thesis
    proof (cases stop)
      case False
      then have "relays t1 (snd (snd (lines_loop parse rest t1)))" using 1 [OF Cons h [symmetric] refl] by simp
      with r have "relays t (snd (snd (lines_loop parse rest t1)))" by (rule relays_trans)
      then show ?thesis using h False by (simp add: lines_loop.simps [of parse buf] Cons)
    qed (use h r in \<open>simp add: lines_loop.simps [of parse buf] Cons\<close>)
  qed
qed

lemma relays_read: "relays t (read_loop parse rs buf t)"
proof (induction parse rs buf t rule: read_loop.induct)
  case (3 parse bytes rs buf t)
  obtain stop buf1 t1 where l: "lines_loop parse (buf @ from_utf8_lossy bytes) t = (stop, buf1, t1)" by (metis prod_cases3)
  then have "relays t t1" using relays_lines [of t parse "buf @ from_utf8_lossy bytes"] by simp
  then show ?case using 3 [OF l [symmetric] refl] l by (auto intro: relays_trans)
qed simp_all

text \<open>A turn that could not begin has sent nothing; one that did returns what it relayed.\<close>

lemma run_streaming_turn_relays:
  assumes "run_streaming_turn w session prompt t a = (r, u, b)"
  shows "(case r of Inl _ \<Rightarrow> u = t
     | Inr reply \<Rightarrow> reply = tn_reply u \<and> relays (t\<lparr>tn_reply := []\<rparr>) u)"
  using assms unfolding run_streaming_turn_def Let_def
  by (auto simp: relays_read split: prod.splits sum.splits)

section \<open>Tables\<close>

text \<open>Who has a conversation: its id, course and student.\<close>

definition people :: "assistant_db \<Rightarrow> (uuid \<times> uuid \<times> str) list" where
  "people db = map (\<lambda>v. (cv_id v, cv_course v, cv_student v)) (adb_conversations db)"

definition same_tables :: "assistant_db \<Rightarrow> assistant_db \<Rightarrow> bool" where
  "same_tables db db' \<longleftrightarrow> people db' = people db \<and> adb_rows db' = adb_rows db \<and> adb_next db' = adb_next db \<and>
     adb_configs db' = adb_configs db"

lemma same_tables_refl [simp, intro]: "same_tables db db"
  by (simp add: same_tables_def)

lemma same_tables_trans: "same_tables a b \<Longrightarrow> same_tables b c \<Longrightarrow> same_tables a c"
  by (simp add: same_tables_def)

lemma same_tables_set_session: "same_tables db (snd (set_session i session now db))"
  by (auto simp: same_tables_def set_session_def people_def)

lemma known_iff: "list_ex (\<lambda>v. cv_id v = i) (adb_conversations db) \<longleftrightarrow> i \<in> fst ` set (people db)"
  by (force simp: list_ex_iff people_def)

lemma insert_message_known:
  "i \<in> fst ` set (people db) \<Longrightarrow> insert_message i role body now db =
     (Inr (), db\<lparr>adb_rows := adb_rows db @
          [\<lparr>cm_id = adb_next db, cm_conversation = i, cm_role = role, cm_body = body, cm_created = now\<rparr>],
        adb_next := adb_next db + 1\<rparr>)"
  unfolding insert_message_def known_iff by simp

section \<open>How a turn ends\<close>

lemma open_and_remember_effect:
  assumes "open_and_remember w now i agent st = (res, st')"
  shows "same_tables (ast_db st) (ast_db st') \<and> calls_more prompt 3 0 (ast_client st) (ast_client st')"
  using assms calls_more_open_session [of prompt "ast_client st" w agent]
  by (auto simp: open_and_remember_def same_tables_set_session split: prod.splits sum.splits)

lemma session_for_effect:
  assumes "session_for w now v agent st = (res, st')"
  shows "same_tables (ast_db st) (ast_db st') \<and> calls_more prompt 3 0 (ast_client st) (ast_client st')"
proof (cases "cv_session v")
  case None
  then show ?thesis using assms open_and_remember_effect [of w now "cv_id v" agent st res st'] by (simp add: session_for_def)
qed (use assms in \<open>simp add: session_for_def\<close>)

text \<open>What a turn sends: its messages, all of the reply, or one error and no reply.\<close>

definition turn_sends :: "turn_event list \<Rightarrow> str \<Rightarrow> bool" where
  "turn_sends evs reply \<longleftrightarrow> list_all progress evs \<and> reply = shown evs \<or> (\<exists>m. evs = [Error_Event m]) \<and> reply = []"

definition turn_effect ::
    "str \<Rightarrow> nat \<Rightarrow> nat \<Rightarrow> assistant_state \<Rightarrow> turn \<Rightarrow> str \<Rightarrow> turn \<Rightarrow> assistant_state \<Rightarrow> bool" where
  "turn_effect prompt n q st t reply u st' \<longleftrightarrow>
     same_tables (ast_db st) (ast_db st') \<and> calls_more prompt n q (ast_client st) (ast_client st') \<and>
     (tn_left t = None \<longrightarrow> tn_left u = None \<and> (\<exists>evs. tn_sent u = tn_sent t @ evs \<and> turn_sends evs reply))"

lemma turn_effect_after:
  assumes "same_tables (ast_db st) (ast_db st1)" "calls_more prompt m p (ast_client st) (ast_client st1)"
    "turn_effect prompt n q st1 t reply u st'" "m + n \<le> k" "p + q \<le> l"
  shows "turn_effect prompt k l st t reply u st'"
  using assms same_tables_trans calls_more_trans [OF assms(2) _ assms(4,5)] unfolding turn_effect_def by blast

lemma turn_effect_stream:
  assumes "run_streaming_turn w session prompt t (ast_client st) = (r, u, a)"
  shows "turn_effect prompt 2 1 st t (unwrap_or (result_ok r) []) u (st\<lparr>ast_client := a\<rparr>)"
  using calls_more_turn [of prompt "ast_client st" w session t] run_streaming_turn_relays [OF assms]
  by (auto simp: turn_effect_def assms relays_def turn_sends_def result_ok_def split: sum.splits)

lemma turn_with_retry_effect:
  assumes turn: "turn_with_retry w now p session t st = (reply, u, st')"
  shows "turn_effect (pt_prompt p) 7 2 st t reply u st'"
proof -
  obtain r1 t1 a1 where one: "run_streaming_turn w session (pt_prompt p) t (ast_client st) = (r1, t1, a1)" by (metis prod_cases3)
  note effect1 = turn_effect_stream [OF one]
  show ?thesis
  proof (cases r1)
    case (Inr r)
    then show ?thesis using turn one turn_effect_after [where k = 7 and l = 2 and m = 0 and p = 0, OF same_tables_refl calls_more_refl effect1]
      by (simp add: turn_with_retry_def result_ok_def)
  next
    case (Inl e)
    then have "t1 = t" using run_streaming_turn_relays [OF one] by simp
    obtain r2 st2 where two: "open_and_remember w now (cv_id (pt_conversation p)) (pt_agent p) (st\<lparr>ast_client := a1\<rparr>) = (r2, st2)"
      by fastforce
    have same2: "same_tables (ast_db st) (ast_db st2)" and "calls_more (pt_prompt p) 3 0 a1 (ast_client st2)"
      using open_and_remember_effect [OF two, of "pt_prompt p"] by simp_all
    with effect1 have calls2: "calls_more (pt_prompt p) 5 1 (ast_client st) (ast_client st2)"
      using calls_more_trans [of "pt_prompt p" 2 1 "ast_client st" a1 3 0 "ast_client st2" 5 1] by (simp add: turn_effect_def)
    show ?thesis
    proof (cases r2)
      case (Inl e2)
      then have "reply = []" "u = snd (send_event (Error_Event (lit ''assistant unavailable'')) t)" "st' = st2"
        using turn one \<open>r1 = Inl e\<close> two \<open>t1 = t\<close> by (simp_all add: turn_with_retry_def)
      then show ?thesis using same2 calls_more_mono [OF calls2, of 7 2] by (simp add: turn_effect_def turn_sends_def)
    next
      case (Inr fresh)
      obtain r3 t3 a3 where three: "run_streaming_turn w fresh (pt_prompt p) t (ast_client st2) = (r3, t3, a3)" by (metis prod_cases3)
      then show ?thesis
        using turn_effect_after [OF same2 calls2 turn_effect_stream [OF three], of 7 2]
          turn one \<open>r1 = Inl e\<close> two \<open>t1 = t\<close> Inr by (simp add: turn_with_retry_def)
    qed
  qed
qed

text \<open>All that a task sends, and the row it adds.\<close>

definition answer_row :: "int \<Rightarrow> uuid \<Rightarrow> str \<Rightarrow> int \<Rightarrow> chat_row" where
  "answer_row n i reply now =
     \<lparr>cm_id = n, cm_conversation = i, cm_role = ROLE_ASSISTANT, cm_body = reply, cm_created = now\<rparr>"

definition task_sends :: "turn_event list \<Rightarrow> str \<Rightarrow> bool" where
  "task_sends evs reply \<longleftrightarrow> Done_Event \<notin> set evs \<and> reply = trim (shown evs) \<and>
     (reply = [] \<longleftrightarrow> (\<exists>m. Error_Event m \<in> set evs))"

lemma progress_only:
  assumes "list_all progress evs"
  shows "Done_Event \<notin> set evs" "Error_Event m \<notin> set evs"
  using assms by (auto simp: list_all_iff)

lemma trim_Nil [simp]: "trim [] = []"
  by (simp add: trim_eq_Nil)

lemma turn_sends_task:
  "turn_sends evs reply \<Longrightarrow> trim reply \<noteq> [] \<Longrightarrow> task_sends evs (trim reply)"
  "turn_sends evs reply \<Longrightarrow> trim reply = [] \<Longrightarrow> task_sends (evs @ [Error_Event m]) []"
  by (auto simp: turn_sends_def task_sends_def progress_only)

lemma chat_task_effect:
  assumes task: "chat_task w e p st = (u, st')"
    and known: "cv_id (pt_conversation p) \<in> fst ` set (people (ast_db st))"
  shows "calls_more (pt_prompt p) 10 2 (ast_client st) (ast_client st') \<and>
    (\<exists>reply. people (ast_db st') = people (ast_db st) \<and> adb_configs (ast_db st') = adb_configs (ast_db st) \<and>
      (reply = [] \<longrightarrow> adb_rows (ast_db st') = adb_rows (ast_db st) \<and> adb_next (ast_db st') = adb_next (ast_db st)) \<and>
      (reply \<noteq> [] \<longrightarrow> trim reply = reply \<and> adb_rows (ast_db st') = adb_rows (ast_db st) @
         [answer_row (adb_next (ast_db st)) (cv_id (pt_conversation p)) reply (ce_answered e)] \<and>
         adb_next (ast_db st') = adb_next (ast_db st) + 1) \<and>
      (ce_left e = None \<longrightarrow> (\<exists>evs. tn_sent u = evs @ [Done_Event] \<and> task_sends evs reply)))"
proof -
  define v where "v = pt_conversation p"
  obtain r1 st1 where one: "session_for w (ce_opened e) v (pt_agent p) st = (r1, st1)" by fastforce
  have same1: "same_tables (ast_db st) (ast_db st1)" and calls1: "calls_more (pt_prompt p) 3 0 (ast_client st) (ast_client st1)"
    using session_for_effect [OF one, of "pt_prompt p"] by simp_all
  show ?thesis
  proof (cases r1)
    case (Inl err)
    then have "u = snd (send_event Done_Event (snd (send_event (Error_Event (lit ''could not start a session'')) (fresh_turn (ce_left e)))))"
      "st' = st1" using task one by (simp_all add: chat_task_def v_def Let_def)
    moreover have "task_sends [Error_Event m] []" for m by (auto simp: task_sends_def)
    ultimately show ?thesis using same1 calls_more_mono [OF calls1, of 10 2]
      by (intro conjI exI [of _ "[]"]) (auto simp: same_tables_def fresh_turn_def)
  next
    case (Inr session)
    obtain reply t2 st2 where two: "turn_with_retry w (ce_reopened e) p session (fresh_turn (ce_left e)) st1 = (reply, t2, st2)"
      by (metis prod_cases3)
    have eff: "turn_effect (pt_prompt p) 10 2 st (fresh_turn (ce_left e)) reply t2 st2"
      by (rule turn_effect_after [OF same1 calls1 turn_with_retry_effect [OF two]]) simp_all
    then have same: "same_tables (ast_db st) (ast_db st2)" and calls: "calls_more (pt_prompt p) 10 2 (ast_client st) (ast_client st2)"
      by (simp_all add: turn_effect_def)
    have "cv_id v \<in> fst ` set (people (ast_db st2))" using known same by (simp add: v_def same_tables_def)
    from insert_message_known [OF this] have st': "st' = (if trim reply = [] then st2 else
        st2\<lparr>ast_db := (ast_db st2)\<lparr>adb_rows := adb_rows (ast_db st2) @ [answer_row (adb_next (ast_db st2)) (cv_id v) (trim reply) (ce_answered e)],
          adb_next := adb_next (ast_db st2) + 1\<rparr>\<rparr>)"
      and u: "u = snd (send_event Done_Event (if trim reply = [] then snd (send_event (Error_Event no_response) t2) else t2))"
      using task one Inr two by (auto simp: chat_task_def v_def [symmetric] Let_def answer_row_def split: if_splits)
    have sends: "\<exists>evs. tn_sent u = evs @ [Done_Event] \<and> task_sends evs (trim reply)" if "ce_left e = None"
      using eff that turn_sends_task [of _ reply] u by (auto simp: turn_effect_def fresh_turn_def)
    then show ?thesis using same calls st'
      by (intro conjI exI [of _ "trim reply"]) (auto simp: same_tables_def v_def people_def)
  qed
qed

section \<open>Finding a conversation\<close>

definition keys_ok :: "assistant_db \<Rightarrow> bool" where
  "keys_ok db \<longleftrightarrow> distinct (map fst (people db)) \<and> distinct (map snd (people db))"

text \<open>At most new conversations for the student, and no other change.\<close>

definition joins :: "uuid \<Rightarrow> str \<Rightarrow> assistant_db \<Rightarrow> assistant_db \<Rightarrow> bool" where
  "joins c student db db' \<longleftrightarrow> adb_rows db' = adb_rows db \<and> adb_next db' = adb_next db \<and> adb_configs db' = adb_configs db \<and>
     (keys_ok db \<longrightarrow> keys_ok db') \<and> (\<exists>extra. people db' = people db @ extra \<and> (\<forall>x \<in> set extra. snd x = (c, student)))"

lemma joins_refl [simp, intro]: "joins c student db db"
  by (simp add: joins_def)

lemma joins_trans: "joins c student a b \<Longrightarrow> joins c student b d \<Longrightarrow> joins c student a d"
  unfolding joins_def by auto

lemma joins_insert: "joins c student db (snd (insert_conversation (new_conversation i now c student) db))"
  by (fastforce simp: insert_conversation_def joins_def keys_ok_def people_def new_conversation_def list_ex_iff)

lemma find_conversation_known:
  "find_conversation c student db = Some v \<Longrightarrow> (cv_id v, c, student) \<in> set (people db)"
  by (auto simp: find_conversation_def people_def find_Some_iff)

lemma find_or_create_effect:
  assumes "find_or_create_conversation i now rival c student db = (r, db')"
  shows "joins c student db db'" and "r = Inr v \<Longrightarrow> (cv_id v, c, student) \<in> set (people db')"
proof -
  define db1 where "db1 = (case rival of None \<Rightarrow> db
    | Some (j, before) \<Rightarrow> snd (insert_conversation (new_conversation j before c student) db))"
  have 1: "joins c student db db1" by (simp add: db1_def joins_insert split: option.splits)
  obtain r2 db2 where ins: "insert_conversation (new_conversation i now c student) db1 = (r2, db2)" by fastforce
  have 2: "joins c student db1 db2" using joins_insert [of c student db1 i now] ins by simp
  have "joins c student db db' \<and> (r = Inr v \<longrightarrow> (cv_id v, c, student) \<in> set (people db'))"
  proof (cases "find_conversation c student db")
    case (Some u)
    then show ?thesis using assms find_conversation_known by (auto simp: find_or_create_conversation_def)
  next
    case None
    then have "db' = db2 \<and> r = (case r2 of Inr created \<Rightarrow> Inr created | Inl e \<Rightarrow> ok_or (find_conversation c student db2) e)"
      using assms ins by (auto simp: find_or_create_conversation_def db1_def Let_def split: sum.splits)
    moreover have "(cv_id u, c, student) \<in> set (people db2)" if "r2 = Inr u" for u
      using ins that by (auto simp: insert_conversation_def people_def new_conversation_def split: if_splits)
    ultimately show ?thesis using joins_trans [OF 1 2] find_conversation_known
      by (auto split: sum.splits)
  qed
  then show "joins c student db db'" "r = Inr v \<Longrightarrow> (cv_id v, c, student) \<in> set (people db')" by simp_all
qed

definition question_row :: "int \<Rightarrow> uuid \<Rightarrow> str \<Rightarrow> int \<Rightarrow> chat_row" where
  "question_row n i message now =
     \<lparr>cm_id = n, cm_conversation = i, cm_role = ROLE_STUDENT, cm_body = message, cm_created = now\<rparr>"

text \<open>The conversation of a checked request, and the turn it prepares: the question is stored there.\<close>

lemma prepare_turn_cases:
  assumes "prepare_turn e c verified body st = (r, st')"
  obtains (Refused) err where "r = Inl err" "st' = st"
  | (Failed_Join) err student adb where "asserted_student verified (cr_student body) = Some student" "r = Inl err" "st' = st\<lparr>ast_db := adb\<rparr>" "joins c student (ast_db st) adb"
  | (Stored) student adb v agent where "asserted_student verified (cr_student body) = Some student" "trim (cr_message body) \<noteq> []"
      "joins c student (ast_db st) adb" "(cv_id v, c, student) \<in> set (people adb)"
      "r = Inr \<lparr>pt_conversation = v, pt_agent = agent,
          pt_prompt = grounded (cr_file body) (cr_language body) (trim (cr_message body))\<rparr>"
      "st' = st\<lparr>ast_db := adb\<lparr>adb_rows := adb_rows adb @
          [question_row (adb_next adb) (cv_id v) (trim (cr_message body)) (ce_asked e)], adb_next := adb_next adb + 1\<rparr>\<rparr>"
proof -
  define message where "message = trim (cr_message body)"
  show thesis
  proof (cases "message = [] \<or> asserted_student verified (cr_student body) = None \<or> config_of c (ast_db st) = None \<or>
      (\<exists>row. config_of c (ast_db st) = Some row \<and>
         opt_filter (\<lambda>_. ca_enabled row \<and> assistant_enabled (ast_client st)) (ca_agent row) = None)")
    case True
    then have "\<exists>err. r = Inl err \<and> st' = st"
      using assms unfolding prepare_turn_def message_def [symmetric] Let_def by (auto split: if_splits option.splits)
    then show thesis using Refused by blast
  next
    case False
    then obtain student row agent where some: "asserted_student verified (cr_student body) = Some student"
      "config_of c (ast_db st) = Some row"
      "opt_filter (\<lambda>_. ca_enabled row \<and> assistant_enabled (ast_client st)) (ca_agent row) = Some agent" "message \<noteq> []" by auto
    obtain r1 adb where foc: "find_or_create_conversation (ce_id e) (ce_asked e) (ce_rival e) c student (ast_db st) = (r1, adb)"
      by fastforce
    note joined = find_or_create_effect [OF foc]
    show thesis
    proof (cases r1)
      case (Inl err)
      then have "r = Inl (from_db_err err)" "st' = st\<lparr>ast_db := adb\<rparr>"
        using assms some foc unfolding prepare_turn_def message_def [symmetric] Let_def by simp_all
      then show thesis using joined(1) by (rule Failed_Join [OF some(1)])
    next
      case (Inr v)
      have known: "(cv_id v, c, student) \<in> set (people adb)" using joined(2) Inr by simp
      then have "cv_id v \<in> fst ` set (people adb)" by force
      from insert_message_known [OF this, of ROLE_STUDENT message "ce_asked e"]
      have eqs: "r = Inr \<lparr>pt_conversation = v, pt_agent = agent,
          pt_prompt = grounded (cr_file body) (cr_language body) message\<rparr>"
        "st' = st\<lparr>ast_db := adb\<lparr>adb_rows := adb_rows adb @
          [question_row (adb_next adb) (cv_id v) message (ce_asked e)], adb_next := adb_next adb + 1\<rparr>\<rparr>"
        using assms some foc Inr unfolding prepare_turn_def message_def [symmetric] Let_def by (simp_all add: question_row_def)
      show thesis
        by (rule Stored [OF some(1) _ joined(1) known eqs [unfolded message_def]]) (use some(4) in \<open>simp add: message_def\<close>)
    qed
  qed
qed


lemma into_event_inj: "inj into_event"
proof (rule injI)
  fix a b show "into_event a = into_event b \<Longrightarrow> a = b" by (cases a; cases b) (simp_all add: text_data_def)
qed

text \<open>A service that accepts every call and streams one message.\<close>

definition demo_service :: service where
  "demo_service =
     \<lparr>sv_answer = \<lambda>calls. Answered 200 None,
      sv_stream = \<lambda>calls. [Chunk (encode (lit ''data:'' @ lit ''hi'' @ [c_nl]))],
      sv_parse = \<lambda>s. ok_or (echo s) [], sv_print = \<lambda>j. [], sv_status_text = \<lambda>st. []\<rparr>"

definition demo_course :: uuid where "demo_course = Uuid 7"

definition demo_state :: assistant_state where
  "demo_state =
     \<lparr>ast_db = \<lparr>adb_configs = [\<lparr>ca_course = demo_course, ca_enabled = True, ca_model = [], ca_prompt = [], ca_skills = [],
         ca_mcp = [], ca_agent = Some (lit ''a''), ca_version = None, ca_env = None, ca_updated = 0\<rparr>],
       adb_conversations = [\<lparr>cv_id = Uuid 1, cv_course = demo_course, cv_student = lit ''ann'', cv_session = Some (lit ''s''),
         cv_created = 0, cv_updated = 0\<rparr>], adb_rows = [], adb_next = 1\<rparr>,
      ast_client = new_assistant (Some (lit ''k'')) None\<rparr>"

definition demo_env :: chat_env where
  "demo_env = \<lparr>ce_id = Uuid 2, ce_rival = None, ce_asked = 5, ce_opened = 5, ce_reopened = 5, ce_answered = 9, ce_left = None\<rparr>"

definition demo_request :: chat_request where
  "demo_request = \<lparr>cr_message = lit ''why'', cr_student = Some (lit ''ann''), cr_file = None, cr_language = None\<rparr>"

lemma demo_left: "ce_left demo_env = None"
  by (simp add: demo_env_def)

lemma demo_turn:
  "lines_loop echo (lit ''data:'' @ lit ''hi'' @ [c_nl]) (fresh_turn None) =
     (False, [], \<lparr>tn_reply = lit ''hi'', tn_sent = [Message_Event (lit ''hi'')], tn_left = None\<rparr>)"
proof -
  have "takeWhile (\<lambda>c. c \<noteq> c_nl) (lit ''data:'' @ lit ''hi'' @ [c_nl]) = lit ''data:'' @ lit ''hi''"
    "dropWhile (\<lambda>c. c \<noteq> c_nl) (lit ''data:'' @ lit ''hi'' @ [c_nl]) = [c_nl]" by (simp_all add: lit_def)
  moreover have "handle_line echo (lit ''data:'' @ lit ''hi'') (fresh_turn None) =
      (False, \<lparr>tn_reply = lit ''hi'', tn_sent = [Message_Event (lit ''hi'')], tn_left = None\<rparr>)"
    by (rule handle_line_echo)
      (simp_all add: lit_def trim_def trim_matches_def trim_start_def trim_end_def is_whitespace_def)
  ultimately show ?thesis by (simp add: lines_loop.simps)
qed

lemma demo_chat:
  "\<exists>st'. chat_stream demo_service demo_env demo_course None demo_request demo_state =
     (Inr (map into_event [Message_Event (lit ''hi''), Done_Event]), st')"
proof -
  have why: "trim (lit ''why'') = lit ''why''" "trim (lit ''ann'') = lit ''ann''" "trim (lit ''hi'') = lit ''hi''"
    by (simp_all add: lit_def trim_def trim_matches_def trim_start_def trim_end_def is_whitespace_def)
  have "from_utf8_lossy (encode (lit ''data:'' @ lit ''hi'' @ [c_nl])) = lit ''data:'' @ lit ''hi'' @ [c_nl]"
    by (rule from_utf8_lossy_encode) (simp add: lit_def scalar_def)
  moreover have "result_ok (ok_or v ([] :: str)) = v" for v :: "json option" by (cases v) (simp_all add: result_ok_def)
  moreover have "(fresh_turn None)\<lparr>tn_reply := []\<rparr> = fresh_turn None" by (simp add: fresh_turn_def)
  ultimately show ?thesis using demo_turn why
    by (simp add: chat_stream_def prepare_turn_def demo_state_def demo_request_def demo_env_def demo_service_def
        asserted_student_def non_blank_def config_of_def assistant_enabled_def new_assistant_def
        find_or_create_conversation_def find_conversation_def insert_message_def grounded_def chat_task_def session_for_def
        turn_with_retry_def run_streaming_turn_def open_event_stream_def assistant_key_def perform_def is_success_def
        api_post_def api_def Let_def read_loop_one del: read_loop.simps encode_simps)
qed


end
