(* ===== verification/Assistant_History.thy ===== *)
theory Assistant_History
  imports Assistant_Rules
begin

text \<open>
  Runs of requests to the assistant: the keys and types of its tables hold after every run, a
  student's transcript is what that student asked in that course, in order, and the answers, and
  a configuration that was saved reads back as it was sent.
\<close>

section \<open>Transcripts\<close>

definition transcript :: "uuid \<Rightarrow> str \<Rightarrow> assistant_db \<Rightarrow> chat_row list" where
  "transcript c student db =
     (case find_conversation c student db of None \<Rightarrow> [] | Some v \<Rightarrow> rows_of (cv_id v) db)"

lemma find_map_option: "List.find p (map f xs) = map_option f (List.find (\<lambda>x. p (f x)) xs)"
  by (induction xs) auto

lemma find_conversation_id:
  "map_option cv_id (find_conversation c student db) = map_option fst (List.find (\<lambda>x. snd x = (c, student)) (people db))"
  by (simp add: find_conversation_def people_def find_map_option comp_def option.map_comp)

lemma rows_of_cong: "adb_rows db' = adb_rows db \<Longrightarrow> rows_of i db' = rows_of i db"
  by (simp add: rows_of_def)

lemma transcript_people:
  "transcript c student db =
     (case List.find (\<lambda>x. snd x = (c, student)) (people db) of None \<Rightarrow> [] | Some x \<Rightarrow> rows_of (fst x) db)"
  using find_conversation_id [of c student db]
  by (auto simp: transcript_def split: option.splits)

lemma transcript_same: "same_tables db db' \<Longrightarrow> transcript c student db' = transcript c student db"
  using rows_of_cong [of db' db] by (simp add: transcript_people same_tables_def cong: option.case_cong)

lemma find_person:
  assumes "distinct (map snd xs)" "(i, c, student) \<in> set xs"
  shows "List.find (\<lambda>x. snd x = (c, student)) xs = Some (i, c, student)"
  using assms by (induction xs) (auto simp: rev_image_eqI)

lemma transcript_of: "keys_ok db \<Longrightarrow> (i, c, student) \<in> set (people db) \<Longrightarrow> transcript c student db = rows_of i db"
  unfolding keys_ok_def transcript_people by (simp add: find_person [of "people db" i c student])

lemma person_unique:
  assumes "keys_ok db" "(i, x) \<in> set (people db)" "(j, y) \<in> set (people db)"
  shows "i = j \<longleftrightarrow> x = y"
  using assms unfolding keys_ok_def distinct_map inj_on_def by (metis fst_conv snd_conv)

lemma transcript_none: "(c, student) \<notin> snd ` set (people db) \<Longrightarrow> transcript c student db = []"
proof -
  assume "(c, student) \<notin> snd ` set (people db)"
  then have "List.find (\<lambda>x. snd x = (c, student)) (people db) = None" by (force simp: find_None_iff)
  then show ?thesis by (simp add: transcript_people)
qed

section \<open>Well-formed tables\<close>

definition row_ok :: "assistant_db \<Rightarrow> chat_row \<Rightarrow> bool" where
  "row_ok db r \<longleftrightarrow> cm_id r < adb_next db \<and> cm_conversation r \<in> fst ` set (people db) \<and>
     cm_role r \<in> {ROLE_STUDENT, ROLE_ASSISTANT} \<and> cm_body r \<noteq> [] \<and> trim (cm_body r) = cm_body r"

definition wf_adb :: "assistant_db \<Rightarrow> bool" where
  "wf_adb db \<longleftrightarrow> keys_ok db \<and> distinct (map ca_course (adb_configs db)) \<and>
     sorted_wrt (<) (map cm_id (adb_rows db)) \<and> (\<forall>r \<in> set (adb_rows db). row_ok db r) \<and>
     (\<forall>x \<in> set (people db). snd (snd x) \<noteq> [] \<and> trim (snd (snd x)) = snd (snd x))"

lemma rows_of_wf: "wf_adb db \<Longrightarrow> rows_of i db = filter (\<lambda>r. cm_conversation r = i) (adb_rows db)"
proof -
  assume "wf_adb db"
  then have "sorted (map cm_id (adb_rows db))"
    by (auto simp: wf_adb_def sorted_wrt_map intro: sorted_wrt_mono_rel [rotated])
  then have "sorted (map cm_id (filter (\<lambda>r. cm_conversation r = i) (adb_rows db)))"
    by (simp add: sorted_filter)
  then show ?thesis by (simp add: rows_of_def sorted_sort_id sort_key_id_if_sorted)
qed

lemma wf_same: "same_tables db db' \<Longrightarrow> wf_adb db' = wf_adb db"
  by (simp add: same_tables_def wf_adb_def keys_ok_def row_ok_def)

lemma asserted_student_ok: "asserted_student verified claimed = Some student \<Longrightarrow> student \<noteq> [] \<and> trim student = student"
  by (auto simp: asserted_student_def non_blank_Some)

lemma wf_joins:
  assumes "joins c student db db'" "wf_adb db" "student \<noteq> []" "trim student = student"
  shows "wf_adb db'"
proof -
  obtain extra where "people db' = people db @ extra" "\<forall>x \<in> set extra. snd x = (c, student)"
    using assms(1) by (auto simp: joins_def)
  then show ?thesis using assms unfolding joins_def wf_adb_def row_ok_def by (simp add: image_Un ball_Un)
qed

lemma transcript_joins:
  assumes "joins c student db db'" "wf_adb db"
  shows "transcript c' s' db' = transcript c' s' db"
proof -
  obtain extra where people: "people db' = people db @ extra" and rows: "adb_rows db' = adb_rows db"
    and keys: "keys_ok db" "keys_ok db'" using assms by (auto simp: joins_def wf_adb_def)
  show ?thesis
  proof (cases "(c', s') \<in> snd ` set (people db)")
    case True
    then obtain i where "(i, c', s') \<in> set (people db)" by auto
    then show ?thesis
      using transcript_of [OF keys(1), of i] transcript_of [OF keys(2), of i] people rows_of_cong [OF rows] by simp
  next
    case False
    note none = transcript_none [OF False]
    show ?thesis
    proof (cases "(c', s') \<in> snd ` set extra")
      case True
      then obtain i where i: "(i, c', s') \<in> set extra" by auto
      then have "i \<notin> fst ` set (people db)" using keys(2) people by (force simp: keys_ok_def)
      then have "rows_of i db = []" using assms(2) by (auto simp: rows_of_wf wf_adb_def row_ok_def filter_empty_conv)
      then show ?thesis using transcript_of [OF keys(2), of i c' s'] i people rows_of_cong [OF rows] none by simp
    next
      case False
      then show ?thesis using none transcript_none [of c' s' db'] \<open>(c', s') \<notin> snd ` set (people db)\<close> people by auto
    qed
  qed
qed

definition with_row :: "chat_row \<Rightarrow> assistant_db \<Rightarrow> assistant_db" where
  "with_row r db = db\<lparr>adb_rows := adb_rows db @ [r], adb_next := adb_next db + 1\<rparr>"

lemma people_with_row [simp]: "people (with_row r db) = people db"
  by (simp add: with_row_def people_def)

lemma wf_with_row:
  assumes "wf_adb db" "(i, c, student) \<in> set (people db)" "cm_id r = adb_next db" "cm_conversation r = i"
    "cm_role r \<in> {ROLE_STUDENT, ROLE_ASSISTANT}" "cm_body r \<noteq> []" "trim (cm_body r) = cm_body r"
  shows "wf_adb (with_row r db)"
    and "transcript c' s' (with_row r db) = transcript c' s' db @ (if (c', s') = (c, student) then [r] else [])"
proof -
  show wf: "wf_adb (with_row r db)"
  proof -
    have "i \<in> fst ` set (people db)" using assms(2) by force
    moreover have "\<forall>q \<in> set (adb_rows db). cm_id q < adb_next db" using assms(1) by (simp add: wf_adb_def row_ok_def)
    ultimately show ?thesis using assms(1,3-)
      unfolding wf_adb_def row_ok_def keys_ok_def people_with_row
      by (auto simp: with_row_def sorted_wrt_append)
  qed
  have keys: "keys_ok db" using assms(1) by (simp add: wf_adb_def)
  have rows: "rows_of j (with_row r db) = rows_of j db @ (if j = i then [r] else [])" for j
    unfolding rows_of_wf [OF wf] rows_of_wf [OF assms(1)] by (simp add: with_row_def assms(4))
  show "transcript c' s' (with_row r db) = transcript c' s' db @ (if (c', s') = (c, student) then [r] else [])"
  proof (cases "\<exists>j. (j, c', s') \<in> set (people db)")
    case True
    then obtain j where j: "(j, c', s') \<in> set (people db)" by auto
    have "j = i \<longleftrightarrow> (c', s') = (c, student)"
      using person_unique [OF keys j assms(2)] .
    moreover have "transcript c' s' (with_row r db) = rows_of j (with_row r db)"
      using wf j by (intro transcript_of) (simp_all add: wf_adb_def)
    ultimately show ?thesis using transcript_of [OF keys j] by (simp add: rows)
  next
    case False
    then have "(c', s') \<notin> snd ` set (people db)" "(c', s') \<noteq> (c, student)" using assms(2) by (force, blast)
    then show ?thesis by (auto simp: transcript_none)
  qed
qed

section \<open>Runs\<close>

datatype assistant_request =
    Configure int auth_ctx put_config_body db
  | Chat chat_env uuid "str option" chat_request

fun assistant_step :: "service \<Rightarrow> str \<Rightarrow> assistant_request \<Rightarrow> assistant_state \<Rightarrow> assistant_state" where
  "assistant_step w model (Configure now ctx body db) st = snd (put_config w model now ctx body db st)"
| "assistant_step w model (Chat e c verified body) st = snd (chat_stream w e c verified body st)"

fun assistant_run :: "service \<Rightarrow> str \<Rightarrow> assistant_request list \<Rightarrow> assistant_state \<Rightarrow> assistant_state" where
  "assistant_run w model [] st = st"
| "assistant_run w model (r # rs) st = assistant_run w model rs (assistant_step w model r st)"

definition empty_adb :: assistant_db where
  "empty_adb = \<lparr>adb_configs = [], adb_conversations = [], adb_rows = [], adb_next = 1\<rparr>"

definition fresh_assistant :: "str option \<Rightarrow> str option \<Rightarrow> assistant_state" where
  "fresh_assistant key environment = \<lparr>ast_db = empty_adb, ast_client = new_assistant key environment\<rparr>"

text \<open>The question of an accepted chat request of a student in a course.\<close>

definition question_of :: "uuid \<Rightarrow> str \<Rightarrow> assistant_request \<Rightarrow> assistant_state \<Rightarrow> str list" where
  "question_of c student r st =
     (case r of
        Chat e c' verified body \<Rightarrow>
          if c' = c \<and> asserted_student verified (cr_student body) = Some student \<and>
             \<not> isl (fst (prepare_turn e c' verified body st))
          then [trim (cr_message body)] else []
      | _ \<Rightarrow> [])"

fun asked :: "service \<Rightarrow> str \<Rightarrow> uuid \<Rightarrow> str \<Rightarrow> assistant_request list \<Rightarrow> assistant_state \<Rightarrow> str list" where
  "asked w model c student [] st = []"
| "asked w model c student (r # rs) st = question_of c student r st @ asked w model c student rs (assistant_step w model r st)"

definition questions :: "chat_row list \<Rightarrow> str list" where
  "questions rows = map cm_body (filter (\<lambda>r. cm_role r = ROLE_STUDENT) rows)"

lemma roles [simp]: "ROLE_STUDENT \<noteq> ROLE_ASSISTANT" "ROLE_ASSISTANT \<noteq> ROLE_STUDENT"
  by (simp_all add: ROLE_STUDENT_def ROLE_ASSISTANT_def)

text \<open>What a step does to the tables: they stay well-formed, and every transcript goes on with rows whose
  questions are those of the request.\<close>

definition step_ok :: "assistant_db \<Rightarrow> (uuid \<Rightarrow> str \<Rightarrow> str list) \<Rightarrow> assistant_db \<Rightarrow> bool" where
  "step_ok db new db' \<longleftrightarrow> wf_adb db' \<and>
     (\<forall>c student. \<exists>later. transcript c student db' = transcript c student db @ later \<and> questions later = new c student)"

lemma step_ok_trans:
  assumes "step_ok a f b" "step_ok b g d"
  shows "step_ok a (\<lambda>c s. f c s @ g c s) d"
  unfolding step_ok_def
proof (intro conjI allI)
  show "wf_adb d" using assms(2) by (simp add: step_ok_def)
  fix c student
  obtain l1 where l1: "transcript c student b = transcript c student a @ l1" "questions l1 = f c student"
    using assms(1) unfolding step_ok_def by blast
  obtain l2 where l2: "transcript c student d = transcript c student b @ l2" "questions l2 = g c student"
    using assms(2) unfolding step_ok_def by blast
  show "\<exists>later. transcript c student d = transcript c student a @ later \<and> questions later = f c student @ g c student"
    using l1 l2 by (intro exI [of _ "l1 @ l2"]) (simp add: questions_def)
qed

lemma step_ok_joins:
  assumes "wf_adb db" "joins c student db db'" "student \<noteq> []" "trim student = student"
  shows "step_ok db (\<lambda>_ _. []) db'"
  using wf_joins [OF assms(2,1,3,4)] transcript_joins [OF assms(2,1)] by (simp add: step_ok_def questions_def)

lemma step_ok_with_row:
  assumes "wf_adb db" "(i, c, student) \<in> set (people db)" "cm_id r = adb_next db" "cm_conversation r = i"
    "cm_role r \<in> {ROLE_STUDENT, ROLE_ASSISTANT}" "cm_body r \<noteq> []" "trim (cm_body r) = cm_body r"
  shows "step_ok db (\<lambda>c' s'. if (c', s') = (c, student) \<and> cm_role r = ROLE_STUDENT then [cm_body r] else []) (with_row r db)"
  using wf_with_row [OF assms] by (auto simp: step_ok_def questions_def)

lemma step_ok_same: "wf_adb db \<Longrightarrow> same_tables db db' \<Longrightarrow> step_ok db (\<lambda>_ _. []) db'"
  by (simp add: step_ok_def wf_same transcript_same questions_def)

lemma step_ok_task:
  assumes "wf_adb (ast_db st)" "chat_task w e p st = (u, st')" "(cv_id (pt_conversation p), c, student) \<in> set (people (ast_db st))"
  shows "step_ok (ast_db st) (\<lambda>_ _. []) (ast_db st')"
proof -
  define i where "i = cv_id (pt_conversation p)"
  have "i \<in> fst ` set (people (ast_db st))" using assms(3) by (force simp: i_def)
  from chat_task_effect [OF assms(2) this [unfolded i_def]] obtain reply where eff:
    "people (ast_db st') = people (ast_db st)" "adb_configs (ast_db st') = adb_configs (ast_db st)"
    "reply = [] \<longrightarrow> adb_rows (ast_db st') = adb_rows (ast_db st) \<and> adb_next (ast_db st') = adb_next (ast_db st)"
    "reply \<noteq> [] \<longrightarrow> trim reply = reply \<and> adb_rows (ast_db st') = adb_rows (ast_db st) @
       [answer_row (adb_next (ast_db st)) i reply (ce_answered e)] \<and> adb_next (ast_db st') = adb_next (ast_db st) + 1"
    unfolding i_def by blast
  show ?thesis
  proof (cases "reply = []")
    case True
    then show ?thesis using eff assms(1) by (intro step_ok_same) (simp_all add: same_tables_def)
  next
    case False
    define r where "r = answer_row (adb_next (ast_db st)) i reply (ce_answered e)"
    have one: "step_ok (ast_db st) (\<lambda>_ _. []) (with_row r (ast_db st))"
      using step_ok_with_row [OF assms(1) assms(3), of r] eff(4) False by (simp add: r_def answer_row_def i_def)
    moreover have "same_tables (with_row r (ast_db st)) (ast_db st')"
      using eff False by (simp add: same_tables_def) (simp add: with_row_def r_def)
    ultimately have "step_ok (with_row r (ast_db st)) (\<lambda>_ _. []) (ast_db st')"
      by (intro step_ok_same) (simp_all add: step_ok_def)
    from step_ok_trans [OF one this] show ?thesis by simp
  qed
qed

lemma step_ok_configure:
  assumes "wf_adb (ast_db st)" "put_config w model now ctx body db st = (res, st')"
  shows "step_ok (ast_db st) (\<lambda>_ _. []) (ast_db st')"
proof -
  have save: "step_ok adb (\<lambda>_ _. []) (snd (save_config existed row adb))" if "wf_adb adb" for existed row adb
  proof -
    have "distinct (map ca_course (adb_configs (snd (save_config existed row adb))))"
      using that by (auto simp: save_config_def config_of_def find_None_iff wf_adb_def comp_def if_distrib cong: if_cong)
    moreover have "people (snd (save_config existed row adb)) = people adb"
      "adb_rows (snd (save_config existed row adb)) = adb_rows adb" "adb_next (snd (save_config existed row adb)) = adb_next adb"
      by (auto simp: save_config_def people_def)
    ultimately show ?thesis using that rows_of_cong [of "snd (save_config existed row adb)" adb]
      by (simp add: step_ok_def wf_adb_def keys_ok_def row_ok_def transcript_people questions_def cong: option.case_cong)
  qed
  have none: "step_ok (ast_db st) (\<lambda>_ _. []) (ast_db st)" using assms(1) by (simp add: step_ok_same)
  show ?thesis
    using assms(2) none save [OF assms(1)] unfolding put_config_def Let_def
    by (auto split: sum.splits prod.splits if_splits) (metis snd_conv)+
qed

lemma step_ok_chat:
  assumes wf: "wf_adb (ast_db st)" and chat: "chat_stream w e c verified body st = (res, st')"
  shows "step_ok (ast_db st) (\<lambda>c' s'. question_of c' s' (Chat e c verified body) st) (ast_db st')"
proof -
  obtain r st1 where prep: "prepare_turn e c verified body st = (r, st1)" by fastforce
  from prep show ?thesis
  proof (cases rule: prepare_turn_cases)
    case (Refused err)
    then show ?thesis using chat prep wf by (simp add: chat_stream_def question_of_def step_ok_same)
  next
    case (Failed_Join err student adb)
    then have "step_ok (ast_db st) (\<lambda>_ _. []) adb"
      using asserted_student_ok [OF Failed_Join(1)] wf by (intro step_ok_joins) auto
    then show ?thesis using chat prep Failed_Join by (auto simp: chat_stream_def question_of_def)
  next
    case (Stored student adb v agent)
    define row where "row = question_row (adb_next adb) (cv_id v) (trim (cr_message body)) (ce_asked e)"
    have st1: "ast_db st1 = with_row row adb" by (simp add: Stored(6) with_row_def row_def)
    have joined: "step_ok (ast_db st) (\<lambda>_ _. []) adb"
      using asserted_student_ok [OF Stored(1)] wf Stored(3) by (intro step_ok_joins) auto
    then have "wf_adb adb" by (simp add: step_ok_def)
    then have asked: "step_ok adb (\<lambda>c' s'. if (c', s') = (c, student) then [trim (cr_message body)] else []) (ast_db st1)"
      using step_ok_with_row [of adb "cv_id v" c student row] Stored(2,4) by (simp add: st1 row_def question_row_def cong: if_cong)
    obtain p where r: "r = Inr p" "pt_conversation p = v" using Stored(5) by simp
    obtain u where task: "chat_task w e p st1 = (u, st')"
      using chat prep r by (auto simp: chat_stream_def split: prod.splits)
    have "step_ok (ast_db st1) (\<lambda>_ _. []) (ast_db st')"
      using asked Stored(4) r(2) st1 by (intro step_ok_task [OF _ task]) (auto simp: step_ok_def)
    from step_ok_trans [OF step_ok_trans [OF joined asked] this]
    have "step_ok (ast_db st) (\<lambda>c' s'. if (c', s') = (c, student) then [trim (cr_message body)] else []) (ast_db st')"
      by (simp cong: if_cong)
    moreover have "(\<lambda>c' s'. question_of c' s' (Chat e c verified body) st) =
        (\<lambda>c' s'. if (c', s') = (c, student) then [trim (cr_message body)] else [])"
      using Stored(1) prep r by (intro ext) (auto simp: question_of_def)
    ultimately show ?thesis by simp
  qed
qed

lemma step_ok_step:
  assumes "wf_adb (ast_db st)"
  shows "step_ok (ast_db st) (\<lambda>c s. question_of c s r st) (ast_db (assistant_step w model r st))"
proof (cases r)
  case (Configure now ctx body db)
  then show ?thesis using step_ok_configure [where w = w and model = model and now = now and ctx = ctx and body = body and db = db,
      OF assms surjective_pairing] by (simp add: question_of_def)
next
  case (Chat e c verified body)
  then show ?thesis using step_ok_chat [where w = w and e = e and c = c and verified = verified and body = body,
      OF assms surjective_pairing] by simp
qed

lemma step_ok_run: "wf_adb (ast_db st) \<Longrightarrow>
    step_ok (ast_db st) (\<lambda>c s. asked w model c s rs st) (ast_db (assistant_run w model rs st))"
proof (induction rs arbitrary: st)
  case (Cons r rs)
  note one = step_ok_step [OF Cons.prems, of r w model]
  then have "wf_adb (ast_db (assistant_step w model r st))" by (simp add: step_ok_def)
  from step_ok_trans [OF one Cons.IH [OF this]] show ?case by simp
qed (simp add: step_ok_same)

lemma wf_fresh: "wf_adb (ast_db (fresh_assistant key environment))"
  by (simp add: fresh_assistant_def empty_adb_def wf_adb_def keys_ok_def people_def)

lemma assistant_run_append: "assistant_run w model (a @ b) st = assistant_run w model b (assistant_run w model a st)"
  by (induction a arbitrary: st) auto

section \<open>Properties\<close>

text \<open>C37: After every run of requests the assistant's tables are well-typed: ids and the pair of course
  and student are unique, a message belongs to a conversation there is and comes from the student or the
  assistant with a trimmed text that is not blank, messages are stored in the order of their ids, and a
  course has at most one configuration.\<close>

theorem stored_conversations_are_well_typed:
  "wf_adb (ast_db (assistant_run w model rs (fresh_assistant key environment)))"
  using step_ok_run [OF wf_fresh] by (simp add: step_ok_def)

text \<open>A student's transcript in a course holds exactly the questions that were accepted from that
  student there, in their order; it only grows at its end; and the history panel shows its first hundred
  rows, so that a longer transcript's new rows are never shown.\<close>

theorem history_is_what_the_student_asked:
  "let st0 = fresh_assistant key environment; db = (\<lambda>rs. ast_db (assistant_run w model rs st0)) in
     questions (transcript c student (db rs)) = asked w model c student rs st0 \<and>
     (\<exists>later. transcript c student (db (rs @ rs')) = transcript c student (db rs) @ later) \<and>
     history c verified claimed (db rs) =
       (case asserted_student verified claimed of
          None \<Rightarrow> []
        | Some s \<Rightarrow> map history_message_of (take 100 (transcript c s (db rs))))"
proof -
  have "wf_adb (ast_db (assistant_run w model rs (fresh_assistant key environment)))"
    using step_ok_run [OF wf_fresh] by (simp add: step_ok_def)
  from step_ok_run [where w = w and model = model and rs = rs', OF this] have
    "\<exists>later. transcript c student (ast_db (assistant_run w model (rs @ rs') (fresh_assistant key environment))) =
       transcript c student (ast_db (assistant_run w model rs (fresh_assistant key environment))) @ later"
    unfolding step_ok_def assistant_run_append by blast
  moreover have "transcript c student (ast_db (fresh_assistant key environment)) = []"
    by (simp add: transcript_none people_def fresh_assistant_def empty_adb_def)
  then have "questions (transcript c student (ast_db (assistant_run w model rs (fresh_assistant key environment)))) =
      asked w model c student rs (fresh_assistant key environment)"
    using step_ok_run [where w = w and model = model and rs = rs, OF wf_fresh, of key environment] unfolding step_ok_def by (metis append_Nil)
  ultimately show ?thesis
    by (simp add: Let_def history_def transcript_def HISTORY_LIMIT_def split: option.splits)
qed

section \<open>Configurations\<close>

lemma skill_of_json_skill_json [simp]: "skill_of_json (skill_json s) = Some s"
  by (cases s) (simp add: skill_of_json_def skill_json_def str_at_def json_get_def as_string_def split: option.splits)

lemma server_of_json_server_json [simp]: "server_of_json (server_json s) = Some s"
  by (simp add: server_of_json_def server_json_def str_at_def json_get_def as_string_def)

lemma those_map_Some: "(\<And>x. f x = Some (g x)) \<Longrightarrow> those (map f xs) = Some (map g xs)"
  by (induction xs) auto

lemma parse_json_list_printed:
  assumes "sv_parse w (sv_print w (JArray (map to_json xs))) = Inr (JArray (map to_json xs))" "\<And>x. item (to_json x) = Some x"
  shows "parse_json_list w item (sv_print w (JArray (map to_json xs))) = xs"
  using assms those_map_Some [of "\<lambda>x. item (to_json x)" "\<lambda>x. x" xs]
  by (simp add: parse_json_list_def result_ok_def comp_def)

lemma find_mapped:
  "List.find (\<lambda>r. ca_course r = ca_course row) cs \<noteq> None \<Longrightarrow>
     List.find (\<lambda>r. ca_course r = ca_course row) (map (\<lambda>m. if ca_course m = ca_course row then row else m) cs) = Some row"
  by (induction cs) auto

lemma find_snoc: "List.find p xs = None \<Longrightarrow> List.find p (xs @ [x]) = (if p x then Some x else None)"
  by (induction xs) (auto split: if_splits)

lemma save_config_stores: "save_config existed row adb = (Inr u, adb') \<Longrightarrow> config_of (ca_course row) adb' = Some row"
  using find_mapped [of row "adb_configs adb"]
  by (auto simp: save_config_def config_of_def find_snoc split: if_splits)

lemma put_config_stores:
  assumes "put_config w model now ctx body db st = (Inr dto, st')"
  obtains c row where "resolve_course ctx (pc_course body) db = Inr c" "config_of c (ast_db st') = Some row"
    "ca_skills row = sv_print w (JArray (map skill_json (pc_skills body)))"
    "ca_mcp row = sv_print w (JArray (map server_json (pc_mcp body)))"
    "dto = \<lparr>cf_enabled = ca_enabled row, cf_model = ca_model row, cf_prompt = ca_prompt row, cf_skills = pc_skills body,
       cf_mcp = pc_mcp body, cf_available = assistant_enabled (ast_client st'), cf_configured = (ca_agent row \<noteq> None)\<rparr>"
    "ca_enabled row = pc_enabled body" "pc_enabled body \<Longrightarrow> ca_agent row \<noteq> None"
proof -
  obtain c where c: "resolve_course ctx (pc_course body) db = Inr c"
    using assms by (auto simp: put_config_def split: sum.splits)
  define chosen where "chosen = unwrap_or (opt_filter (\<lambda>m. trim m \<noteq> []) (pc_model body)) model"
  define prompt where "prompt = unwrap_or (pc_prompt body) []"
  define existing where "existing = config_of c (ast_db st)"
  obtain agent version environment a where sync:
    "synced_agent w body (course_name_of c db) chosen prompt existing (ast_client st) = (Inr (agent, version, environment), a)"
    using assms c by (auto simp: put_config_def Let_def chosen_def prompt_def existing_def split: sum.splits prod.splits if_splits)
  define row where "row = \<lparr>ca_course = c, ca_enabled = pc_enabled body, ca_model = chosen, ca_prompt = prompt,
      ca_skills = sv_print w (JArray (map skill_json (pc_skills body))),
      ca_mcp = sv_print w (JArray (map server_json (pc_mcp body))),
      ca_agent = agent, ca_version = version, ca_env = environment, ca_updated = now\<rparr>"
  obtain u adb where save: "save_config (existing \<noteq> None) row (ast_db st) = (Inr u, adb)"
    and st': "st' = \<lparr>ast_db = adb, ast_client = a\<rparr>"
    and dto: "dto = \<lparr>cf_enabled = pc_enabled body, cf_model = chosen, cf_prompt = prompt, cf_skills = pc_skills body,
       cf_mcp = pc_mcp body, cf_available = assistant_enabled a, cf_configured = (agent \<noteq> None)\<rparr>"
    using assms c sync
    by (auto simp: put_config_def Let_def chosen_def [symmetric] prompt_def [symmetric] existing_def [symmetric]
        row_def [symmetric] split: sum.splits prod.splits if_splits)
  have "pc_enabled body \<Longrightarrow> agent \<noteq> None"
    using sync by (auto simp: synced_agent_def Let_def split: prod.splits sum.splits)
  then show thesis
    using that [OF c, of row] save_config_stores [OF save] st' dto by (simp add: row_def)
qed

text \<open>C38: A configuration that was saved reads back as the answer to the save, whatever was stored before:
  the switch, the model, the prompt, and the skills and servers through their JSON text. An enabled one
  has an agent. This rests on the JSON library reading back the two lists it wrote.\<close>

theorem saved_configuration_reads_back:
  assumes "put_config w model now ctx body db st = (Inr dto, st')"
    "sv_parse w (sv_print w (JArray (map skill_json (pc_skills body)))) = Inr (JArray (map skill_json (pc_skills body)))"
    "sv_parse w (sv_print w (JArray (map server_json (pc_mcp body)))) = Inr (JArray (map server_json (pc_mcp body)))"
  shows "get_config w model' ctx (pc_course body) db st' = Inr dto \<and> cf_skills dto = pc_skills body \<and>
    cf_mcp dto = pc_mcp body \<and> cf_enabled dto = pc_enabled body \<and> (pc_enabled body \<longrightarrow> cf_configured dto)"
  using assms(1)
proof (rule put_config_stores)
  fix c row
  assume stored: "resolve_course ctx (pc_course body) db = Inr c" "config_of c (ast_db st') = Some row"
    "ca_skills row = sv_print w (JArray (map skill_json (pc_skills body)))"
    "ca_mcp row = sv_print w (JArray (map server_json (pc_mcp body)))"
    "dto = \<lparr>cf_enabled = ca_enabled row, cf_model = ca_model row, cf_prompt = ca_prompt row, cf_skills = pc_skills body,
       cf_mcp = pc_mcp body, cf_available = assistant_enabled (ast_client st'), cf_configured = (ca_agent row \<noteq> None)\<rparr>"
    "ca_enabled row = pc_enabled body" "pc_enabled body \<Longrightarrow> ca_agent row \<noteq> None"
  then show ?thesis
    using parse_json_list_printed [OF assms(2)] parse_json_list_printed [OF assms(3)] by (simp add: get_config_def)
qed

text \<open>A JSON text for the two lists of one request.\<close>

definition demo_skill :: skill_ref where
  "demo_skill = \<lparr>sk_kind = lit ''anthropic'', sk_id = lit ''xlsx'', sk_version = Some (lit ''2'')\<rparr>"

definition demo_body :: put_config_body where
  "demo_body = \<lparr>pc_course = None, pc_enabled = True, pc_model = Some [], pc_prompt = None, pc_skills = [demo_skill],
     pc_mcp = []\<rparr>"

definition json_service :: service where
  "json_service =
     \<lparr>sv_answer = \<lambda>calls. Answered 200 (Some (lit ''made'')), sv_stream = \<lambda>calls. [],
      sv_parse = \<lambda>s. (if s = lit ''made'' then Inr (JObject [(lit ''id'', JString (lit ''agent'')), (lit ''version'', JNumber (lit ''1''))])
        else if s = lit ''skills'' then Inr (JArray [skill_json demo_skill]) else Inr (JArray [])),
      sv_print = \<lambda>j. (if j = JArray [] then lit ''none'' else lit ''skills''), sv_status_text = \<lambda>st. []\<rparr>"

definition demo_db :: db where
  "demo_db = \<lparr>admins = [], courses = [\<lparr>co_id = demo_course, co_slug = lit ''default'', co_name = lit ''Rust'', co_token = [],
     co_repo = None, co_archived = None, co_ref = None, co_dir = None, co_description = None, co_term = None,
     co_institution = None, co_level = None, co_created = 0\<rparr>], members = [], exercises = []\<rparr>"

theorem saved_configuration_reads_back_witness:
  "\<exists>dto st'. put_config json_service (lit ''m'') 3 OpenDev demo_body demo_db demo_state = (Inr dto, st') \<and>
     get_config json_service (lit ''x'') OpenDev None demo_db st' = Inr dto \<and> cf_skills dto = [demo_skill] \<and> cf_configured dto"
proof -
  obtain dto st' where put: "put_config json_service (lit ''m'') 3 OpenDev demo_body demo_db demo_state = (Inr dto, st')"
    by (simp add: put_config_def resolve_course_def authorized_course_def ensure_member_def course_by_slug_def demo_body_def
        demo_db_def demo_state_def assistant_enabled_def new_assistant_def synced_agent_def sync_agent_def api_post_def api_def
        assistant_key_def perform_def is_success_def json_service_def config_of_def save_config_def Let_def)
  have "pc_course demo_body = None" "pc_skills demo_body = [demo_skill]" "pc_enabled demo_body" "pc_mcp demo_body = []"
    by (simp_all add: demo_body_def)
  then show ?thesis using saved_configuration_reads_back [OF put] put by (auto simp: json_service_def)
qed

end
