(* ===== verification/Recorder.thy ===== *)
theory Recorder
  imports Ingest "HOL-Library.Sublist"
begin

text \<open>
  The terminal recorder, \<^verbatim>\<open>crates/recorder/src/main.rs\<close>: who and what is recorded, and the pumps
  that carry the program's output to the terminal and to the backend and the keystrokes to the
  program. The two pump threads, the resize task, the wait for the program and the backend's task
  interleave: \<open>act\<close> is one step of one of them, and a recording is a sequence of steps. A thread
  first writes what it read on, and only then looks at it and offers it to the channel. The channel
  holds 2048 events; \<^verbatim>\<open>try_send\<close> drops what finds it full, \<^verbatim>\<open>send\<close> waits. No step closes the channel
  from this side: the stdin thread and the resize task keep their senders until the process exits.
\<close>

section \<open>Who and what\<close>

definition not_blank :: "str \<Rightarrow> str option" where
  "not_blank s = (if trim s \<noteq> [] then Some s else None)"

text \<open>What \<^verbatim>\<open>git config user.email\<close> printed, if it succeeded.\<close>

definition git_email :: "str option \<Rightarrow> str option" where
  "git_email output = Option.bind output (\<lambda>s. let email = trim s in if email \<noteq> [] then Some email else None)"

definition resolve_student :: "str option \<Rightarrow> str option \<Rightarrow> str option \<Rightarrow> str" where
  "resolve_student explicit github_user git =
     unwrap_or
       (or_else (Option.bind explicit not_blank)
       (or_else (Option.bind github_user not_blank) (git_email git)))
       (lit ''unknown'')"

definition resolve_command :: "str list \<Rightarrow> str option \<Rightarrow> str \<times> str list" where
  "resolve_command command shell =
     (case command of prog # rest \<Rightarrow> (prog, rest) | [] \<Rightarrow> (unwrap_or shell (lit ''/bin/bash''), []))"

definition command_line :: "str \<times> str list \<Rightarrow> str" where
  "command_line pc = join_with [c_space] (fst pc # snd pc)"

definition terminal_size :: "(nat \<times> nat) option \<Rightarrow> nat \<times> nat" where
  "terminal_size found =
     (case found of Some (c, r) \<Rightarrow> if c > 0 \<and> r > 0 then (c, r) else (80, 24) | None \<Rightarrow> (80, 24))"

text \<open>The verified name if there is one, else the resolved one.\<close>

definition session_start_of ::
    "str option \<Rightarrow> str option \<Rightarrow> str option \<Rightarrow> str option \<Rightarrow> str list \<Rightarrow> str option \<Rightarrow> str option \<Rightarrow>
     (nat \<times> nat) option \<Rightarrow> session_start" where
  "session_start_of signed_in explicit github_user git command shell hostname found =
     (let student = unwrap_or signed_in [];
          student = (if student = [] then resolve_student explicit github_user git else student);
          (cols, rows) = terminal_size found
      in \<lparr>ss_student = student, ss_command = command_line (resolve_command command shell),
          ss_hostname = unwrap_or hostname (lit ''unknown''), ss_cols = of_nat cols, ss_rows = of_nat rows\<rparr>)"

definition looks_like_password_prompt :: "byte list \<Rightarrow> bool" where
  "looks_like_password_prompt bytes =
     (let s = to_ascii_lowercase (from_utf8_lossy bytes)
      in contains (lit ''password'') s \<or> contains (lit ''passphrase'') s)"

section \<open>The pumps\<close>

definition CHANNEL_CAP :: nat where "CHANNEL_CAP = 2048"

text \<open>\<open>pm_shown\<close> and \<open>pm_typed\<close> are what a thread has written on and not yet looked at. \<open>pm_open\<close>
  says whether the backend's end of the channel is there; \<open>pm_taken\<close> is what the backend has got.\<close>

record pumps =
  pm_screen :: "byte list"
  pm_child :: "byte list"
  pm_redacting :: bool
  pm_shown :: "byte list option"
  pm_typed :: "byte list option"
  pm_out_done :: bool
  pm_in_done :: bool
  pm_exit :: "32 word option"
  pm_reported :: bool
  pm_open :: bool
  pm_queue :: "ingest_event list"
  pm_taken :: "ingest_event list"

definition try_send :: "ingest_event \<Rightarrow> pumps \<Rightarrow> pumps" where
  "try_send ev s =
     (if pm_open s \<and> length (pm_queue s) < CHANNEL_CAP then s\<lparr>pm_queue := pm_queue s @ [ev]\<rparr> else s)"

text \<open>\<open>None\<close> while it waits for room.\<close>

definition send :: "ingest_event \<Rightarrow> pumps \<Rightarrow> pumps option" where
  "send ev s =
     (if \<not> pm_open s then Some s
      else if length (pm_queue s) < CHANNEL_CAP then Some (s\<lparr>pm_queue := pm_queue s @ [ev]\<rparr>) else None)"

definition chunk_of :: "int \<Rightarrow> byte list \<Rightarrow> int \<Rightarrow> ingest_event" where
  "chunk_of stream bytes ms = Chunk \<lparr>ch_stream = stream, ch_data = bytes, ch_offset = ms\<rparr>"

definition STDOUT :: int where "STDOUT = 1"
definition STDIN :: int where "STDIN = 2"

datatype action =
    Output "byte list"
  | Output_Ends
  | Tee_Output int
  | Typed "byte list"
  | Input_Ends
  | Tee_Input int
  | Window nat nat
  | Child_Exits "32 word"
  | Report_End
  | Taken
  | Backend_Gone

text \<open>One step, where it can be taken. \<open>Output_Ends\<close> and \<open>Input_Ends\<close> are the end of the reading,
  an error of it, or a failed write.\<close>

fun act :: "bool \<Rightarrow> action \<Rightarrow> pumps \<Rightarrow> pumps option" where
  "act capture (Output bytes) s =
     (if pm_out_done s \<or> pm_shown s \<noteq> None \<or> bytes = [] \<or> length bytes > 8192 then None
      else Some (s\<lparr>pm_screen := pm_screen s @ bytes, pm_shown := Some bytes\<rparr>))"
| "act capture Output_Ends s =
     (if pm_out_done s \<or> pm_shown s \<noteq> None then None else Some (s\<lparr>pm_out_done := True\<rparr>))"
| "act capture (Tee_Output ms) s =
     (case pm_shown s of
        None \<Rightarrow> None
      | Some bytes \<Rightarrow>
          (let s = s\<lparr>pm_shown := None\<rparr>;
               s = (if capture \<and> looks_like_password_prompt bytes then s\<lparr>pm_redacting := True\<rparr> else s)
           in Some (try_send (chunk_of STDOUT bytes ms) s)))"
| "act capture (Typed bytes) s =
     (if pm_in_done s \<or> pm_typed s \<noteq> None \<or> bytes = [] \<or> length bytes > 4096 then None
      else Some (s\<lparr>pm_child := pm_child s @ bytes, pm_typed := Some bytes\<rparr>))"
| "act capture Input_Ends s =
     (if pm_in_done s \<or> pm_typed s \<noteq> None then None else Some (s\<lparr>pm_in_done := True\<rparr>))"
| "act capture (Tee_Input ms) s =
     (case pm_typed s of
        None \<Rightarrow> None
      | Some bytes \<Rightarrow>
          (let s = s\<lparr>pm_typed := None\<rparr>;
               s = (if capture \<and> \<not> pm_redacting s then try_send (chunk_of STDIN bytes ms) s else s)
           in Some (if 13 \<in> set bytes \<or> 10 \<in> set bytes then s\<lparr>pm_redacting := False\<rparr> else s)))"
| "act capture (Window c r) s = send (Resize (of_nat c) (of_nat r)) s"
| "act capture (Child_Exits ec) s =
     (if pm_exit s \<noteq> None then None else Some (s\<lparr>pm_exit := Some ec\<rparr>))"
| "act capture Report_End s =
     (case pm_exit s of
        None \<Rightarrow> None
      | Some ec \<Rightarrow>
          if \<not> pm_out_done s \<or> pm_reported s then None
          else map_option (\<lambda>s. s\<lparr>pm_reported := True\<rparr>) (send (End (sint ec)) s))"
| "act capture Taken s =
     (case pm_queue s of
        [] \<Rightarrow> None
      | ev # q \<Rightarrow> Some (s\<lparr>pm_queue := q, pm_taken := pm_taken s @ [ev]\<rparr>))"
| "act capture Backend_Gone s =
     (if pm_open s then Some (s\<lparr>pm_open := False, pm_queue := []\<rparr>) else None)"

fun acts :: "bool \<Rightarrow> action list \<Rightarrow> pumps \<Rightarrow> pumps option" where
  "acts capture [] s = Some s"
| "acts capture (a # as) s = Option.bind (act capture a s) (acts capture as)"

text \<open>At the start the metadata is in the channel, if there is a backend.\<close>

definition pumps_start :: "session_start \<Rightarrow> bool \<Rightarrow> pumps" where
  "pumps_start meta online =
     \<lparr>pm_screen = [], pm_child = [], pm_redacting = False, pm_shown = None, pm_typed = None, pm_out_done = False,
      pm_in_done = False, pm_exit = None, pm_reported = False, pm_open = online,
      pm_queue = (if online then [Start meta] else []), pm_taken = []\<rparr>"

section \<open>What is recorded\<close>

text \<open>All that has entered the channel and was not lost with the backend.\<close>

definition recorded :: "pumps \<Rightarrow> ingest_event list" where
  "recorded s = pm_taken s @ pm_queue s"

definition data_of :: "int \<Rightarrow> ingest_event \<Rightarrow> byte list option" where
  "data_of stream ev = (case ev of Chunk c \<Rightarrow> if ch_stream c = stream then Some (ch_data c) else None | _ \<Rightarrow> None)"

text \<open>The chunks of one side, in their order.\<close>

definition side :: "int \<Rightarrow> ingest_event list \<Rightarrow> byte list list" where
  "side stream evs = List.map_filter (data_of stream) evs"

fun outputs :: "action list \<Rightarrow> byte list list" where
  "outputs [] = []"
| "outputs (Output bytes # as) = bytes # outputs as"
| "outputs (_ # as) = outputs as"

fun inputs :: "action list \<Rightarrow> byte list list" where
  "inputs [] = []"
| "inputs (Typed bytes # as) = bytes # inputs as"
| "inputs (_ # as) = inputs as"

lemma side_append [simp]: "side stream (a @ b) = side stream a @ side stream b" "side stream [] = []"
  by (simp_all add: side_def List.map_filter_def)

lemma side_simps [simp]:
  "side stream (ev # evs) = (case data_of stream ev of Some d \<Rightarrow> d # side stream evs | None \<Rightarrow> side stream evs)"
  by (simp add: side_def map_filter_simps split: option.splits)

lemma data_of_simps [simp]:
  "data_of stream (chunk_of stream' d ms) = (if stream' = stream then Some d else None)"
  "data_of stream (Start meta) = None" "data_of stream (Resize c r) = None" "data_of stream (End n) = None"
  by (simp_all add: data_of_def chunk_of_def)

lemma streams_differ [simp]: "STDIN \<noteq> STDOUT" "STDOUT \<noteq> STDIN"
  by (simp_all add: STDIN_def STDOUT_def)

abbreviation pending :: "byte list option \<Rightarrow> byte list list" where
  "pending v \<equiv> (case v of None \<Rightarrow> [] | Some bytes \<Rightarrow> [bytes])"

text \<open>What every step keeps, for the actions so far: the terminal and the program got all that was
  read; of each side a subsequence is recorded, of the keystrokes none unless they are captured.\<close>

definition pumped :: "bool \<Rightarrow> action list \<Rightarrow> pumps \<Rightarrow> bool" where
  "pumped capture as s \<longleftrightarrow>
     pm_screen s = concat (outputs as) \<and> pm_child s = concat (inputs as) \<and>
     subseq (side STDOUT (recorded s) @ pending (pm_shown s)) (outputs as) \<and>
     subseq (side STDIN (recorded s) @ pending (pm_typed s)) (inputs as) \<and>
     (\<not> capture \<longrightarrow> side STDIN (recorded s) = [])"

lemma outputs_snoc: "outputs (as @ [a]) = outputs as @ (case a of Output bytes \<Rightarrow> [bytes] | _ \<Rightarrow> [])"
  by (induction as rule: outputs.induct) (auto split: action.splits)

lemma inputs_snoc: "inputs (as @ [a]) = inputs as @ (case a of Typed bytes \<Rightarrow> [bytes] | _ \<Rightarrow> [])"
  by (induction as rule: inputs.induct) (auto split: action.splits)

lemma recorded_update [simp]:
  "recorded (s\<lparr>pm_screen := x\<rparr>) = recorded s" "recorded (s\<lparr>pm_child := x\<rparr>) = recorded s"
  "recorded (s\<lparr>pm_shown := v\<rparr>) = recorded s" "recorded (s\<lparr>pm_typed := v\<rparr>) = recorded s"
  "recorded (s\<lparr>pm_redacting := b\<rparr>) = recorded s" "recorded (s\<lparr>pm_out_done := b\<rparr>) = recorded s"
  "recorded (s\<lparr>pm_in_done := b\<rparr>) = recorded s" "recorded (s\<lparr>pm_exit := e\<rparr>) = recorded s"
  "recorded (s\<lparr>pm_reported := b\<rparr>) = recorded s"
  by (simp_all add: recorded_def)

lemma recorded_try_send:
  "recorded (try_send ev s) = recorded s \<or> recorded (try_send ev s) = recorded s @ [ev]"
  by (simp add: try_send_def recorded_def)

lemma try_send_same [simp]:
  "pm_screen (try_send ev s) = pm_screen s" "pm_child (try_send ev s) = pm_child s"
  "pm_shown (try_send ev s) = pm_shown s" "pm_typed (try_send ev s) = pm_typed s"
  by (simp_all add: try_send_def)

lemma send_same:
  "send ev s = Some s' \<Longrightarrow> (recorded s' = recorded s \<or> recorded s' = recorded s @ [ev]) \<and>
     pm_screen s' = pm_screen s \<and> pm_child s' = pm_child s \<and> pm_shown s' = pm_shown s \<and> pm_typed s' = pm_typed s"
  by (auto simp: send_def recorded_def split: if_splits)

lemma subseq_drop_last: "subseq (xs @ [x]) ys \<Longrightarrow> subseq xs ys"
  by (metis list_emb_append2 append_Nil2 list_emb_Nil subseq_order.order_refl subseq_order.trans list_emb_append_mono)

lemma pumped_act:
  assumes p: "pumped capture as s" and a: "act capture a s = Some s'"
  shows "pumped capture (as @ [a]) s'"
proof (cases a)
  case (Output bytes)
  then show ?thesis using assms
    by (auto simp: pumped_def outputs_snoc inputs_snoc subseq_append split: if_splits)
next
  case (Tee_Output ms)
  then obtain bytes s1 where b: "pm_shown s = Some bytes"
    and s1: "s1 = (if capture \<and> looks_like_password_prompt bytes then s\<lparr>pm_shown := None, pm_redacting := True\<rparr> else s\<lparr>pm_shown := None\<rparr>)"
      "s' = try_send (chunk_of STDOUT bytes ms) s1"
    using a by (auto simp: Let_def split: option.splits)
  have "recorded s1 = recorded s" "pm_shown s1 = None" "pm_screen s1 = pm_screen s" "pm_child s1 = pm_child s" "pm_typed s1 = pm_typed s"
    by (simp_all add: s1(1))
  then show ?thesis using p b recorded_try_send [of "chunk_of STDOUT bytes ms" s1] subseq_drop_last Tee_Output
    by (auto simp: pumped_def outputs_snoc inputs_snoc s1(2))
next
  case (Tee_Input ms)
  then obtain bytes s1 where b: "pm_typed s = Some bytes"
    and s1: "s1 = (if capture \<and> \<not> pm_redacting s then try_send (chunk_of STDIN bytes ms) (s\<lparr>pm_typed := None\<rparr>) else s\<lparr>pm_typed := None\<rparr>)"
      "s' = (if 13 \<in> set bytes \<or> 10 \<in> set bytes then s1\<lparr>pm_redacting := False\<rparr> else s1)"
    using a by (auto simp: Let_def split: option.splits)
  have "recorded s1 = recorded s \<or> capture \<and> recorded s1 = recorded s @ [chunk_of STDIN bytes ms]"
    using recorded_try_send [of "chunk_of STDIN bytes ms" "s\<lparr>pm_typed := None\<rparr>"] by (auto simp: s1(1))
  moreover have "pm_shown s1 = pm_shown s" "pm_screen s1 = pm_screen s" "pm_child s1 = pm_child s" "pm_typed s1 = None"
    by (simp_all add: s1(1))
  moreover have "recorded s' = recorded s1" "pm_shown s' = pm_shown s1" "pm_screen s' = pm_screen s1" "pm_child s' = pm_child s1"
    "pm_typed s' = pm_typed s1" by (simp_all add: s1(2))
  ultimately show ?thesis using p b subseq_drop_last Tee_Input
    by (auto simp: pumped_def outputs_snoc inputs_snoc)
next
  case (Window c r)
  then show ?thesis using p send_same [of "Resize (of_nat c) (of_nat r)" s s'] a
    by (auto simp: pumped_def outputs_snoc inputs_snoc)
next
  case Report_End
  then obtain n s1 where "send (End n) s = Some s1" "s' = s1\<lparr>pm_reported := True\<rparr>"
    using a by (auto split: option.splits if_splits)
  then show ?thesis using p send_same [of "End n" s s1] Report_End
    by (auto simp: pumped_def outputs_snoc inputs_snoc)
next
  case (Typed bytes)
  then show ?thesis using assms
    by (auto simp: pumped_def outputs_snoc inputs_snoc subseq_append split: if_splits)
next
  case Taken
  then obtain ev q where "pm_queue s = ev # q" "s' = s\<lparr>pm_queue := q, pm_taken := pm_taken s @ [ev]\<rparr>"
    using a by (auto split: list.splits)
  then have "recorded s' = recorded s" "pm_shown s' = pm_shown s" "pm_typed s' = pm_typed s" "pm_screen s' = pm_screen s"
    "pm_child s' = pm_child s" by (simp_all add: recorded_def)
  then show ?thesis using p Taken by (simp add: pumped_def outputs_snoc inputs_snoc)
next
  case Backend_Gone
  have "subseq (side STDOUT (pm_taken s) @ pending (pm_shown s)) (side STDOUT (recorded s) @ pending (pm_shown s))"
    "subseq (side STDIN (pm_taken s) @ pending (pm_typed s)) (side STDIN (recorded s) @ pending (pm_typed s))"
    by (simp_all add: recorded_def subseq_append' list_emb_append2)
  then show ?thesis using assms Backend_Gone
    by (auto simp: pumped_def outputs_snoc inputs_snoc recorded_def split: if_splits intro: subseq_order.trans)
qed (use assms in \<open>auto simp: pumped_def outputs_snoc inputs_snoc split: if_splits\<close>)

lemma acts_snoc: "acts capture (as @ [a]) s = Option.bind (acts capture as s) (act capture a)"
  by (induction as arbitrary: s) (auto split: bind_split)

lemma pumped_acts: "acts capture as (pumps_start meta online) = Some s \<Longrightarrow> pumped capture as s"
proof (induction as arbitrary: s rule: rev_induct)
  case Nil
  then show ?case by (auto simp: pumped_def pumps_start_def recorded_def)
next
  case (snoc a as)
  then obtain s1 where "acts capture as (pumps_start meta online) = Some s1" "act capture a s1 = Some s"
    by (auto simp: acts_snoc bind_eq_Some_conv)
  then show ?case using snoc.IH pumped_act by blast
qed

text \<open>C26: Whatever the threads' interleaving, the recording is transparent and discreet: the terminal has
  got exactly what the program wrote and the program exactly what was typed, each chunk recorded of a
  side is one that was read there, in order and at most once, and unless capturing is asked for no
  keystroke is recorded at all.\<close>

theorem recording_is_transparent_and_discreet:
  assumes "acts capture as (pumps_start meta online) = Some s"
  shows "pm_screen s = concat (outputs as) \<and> pm_child s = concat (inputs as) \<and>
    subseq (side STDOUT (recorded s)) (outputs as) \<and> subseq (side STDIN (recorded s)) (inputs as) \<and>
    (\<not> capture \<longrightarrow> side STDIN (recorded s) = [])"
proof -
  have "subseq xs ys" if "subseq (xs @ pending v) ys" for xs ys :: "byte list list" and v
    using that subseq_drop_last by (cases v) auto
  then show ?thesis using pumped_acts [OF assms] unfolding pumped_def by blast
qed

definition demo_meta :: session_start where
  "demo_meta = \<lparr>ss_student = lit ''ada'', ss_command = lit ''bash'', ss_hostname = [], ss_cols = 80, ss_rows = 24\<rparr>"

theorem recording_is_transparent_and_discreet_witness:
  "\<exists>s. acts False [Output [36], Typed [108, 115, 13], Tee_Input 1, Tee_Output 2] (pumps_start demo_meta True) = Some s \<and>
     pm_screen s = [36] \<and> pm_child s = [108, 115, 13] \<and> side STDOUT (recorded s) = [[36]] \<and> side STDIN (recorded s) = []"
proof -
  obtain s where run: "acts False [Output [36], Typed [108, 115, 13], Tee_Input 1, Tee_Output 2] (pumps_start demo_meta True) = Some s"
    and rec: "recorded s = [Start demo_meta, chunk_of STDOUT [36] 2]"
    by (simp add: pumps_start_def Let_def try_send_def CHANNEL_CAP_def recorded_def)
  then show ?thesis using recording_is_transparent_and_discreet [OF run] by auto
qed

section \<open>Redaction\<close>

definition newline_free :: "byte list \<Rightarrow> bool" where
  "newline_free bytes \<longleftrightarrow> 13 \<notin> set bytes \<and> 10 \<notin> set bytes"

text \<open>While keystrokes are redacted and no newline is about, they stay so and none is recorded.\<close>

definition quiet :: "pumps \<Rightarrow> pumps \<Rightarrow> bool" where
  "quiet s s' \<longleftrightarrow> pm_redacting s' \<and> subseq (side STDIN (recorded s')) (side STDIN (recorded s))"

lemma quiet_recorded:
  "pm_redacting s' \<Longrightarrow> recorded s' = recorded s \<or> (\<exists>ev. recorded s' = recorded s @ [ev] \<and> data_of STDIN ev = None) \<Longrightarrow> quiet s s'"
  by (auto simp: quiet_def)

lemma quiet_act:
  assumes a: "act True a s = Some s'" and r: "pm_redacting s" and nl: "\<forall>bytes \<in> set (pending (pm_typed s)). newline_free bytes"
  shows "quiet s s'"
proof (cases a)
  case (Tee_Output ms)
  then obtain bytes s1 where s1: "s' = try_send (chunk_of STDOUT bytes ms) s1" "recorded s1 = recorded s" "pm_redacting s1"
    using a r by (auto simp: Let_def split: option.splits if_splits)
  then have "pm_redacting s'" by (simp add: try_send_def)
  then show ?thesis using s1 recorded_try_send [of "chunk_of STDOUT bytes ms" s1] by (intro quiet_recorded) auto
next
  case (Tee_Input ms)
  then show ?thesis using a r nl by (auto simp: Let_def newline_free_def quiet_def split: option.splits)
next
  case (Window c w)
  then show ?thesis using a r by (intro quiet_recorded) (auto simp: send_def recorded_def split: if_splits)
next
  case Report_End
  then obtain n s1 where "send (End n) s = Some s1" "s' = s1\<lparr>pm_reported := True\<rparr>"
    using a by (auto split: option.splits if_splits)
  then show ?thesis using r by (intro quiet_recorded) (auto simp: send_def recorded_def split: if_splits)
next
  case Taken
  then have "recorded s' = recorded s" "pm_redacting s'" using a r by (auto simp: recorded_def split: list.splits)
  then show ?thesis by (simp add: quiet_def)
next
  case Backend_Gone
  then show ?thesis using a r by (auto simp: quiet_def recorded_def split: if_splits)
qed (use a r in \<open>auto simp: quiet_def split: if_splits\<close>)

lemma typed_act:
  "act capture a s = Some s' \<Longrightarrow> set (pending (pm_typed s')) \<subseteq> set (pending (pm_typed s)) \<union> set (inputs [a])"
  by (cases a) (auto simp: Let_def send_def try_send_def split: if_splits option.splits list.splits)

lemma quiet_acts:
  assumes "acts True as s = Some s'" "pm_redacting s" "\<forall>bytes \<in> set (pending (pm_typed s) @ inputs as). newline_free bytes"
  shows "quiet s s'"
  using assms
proof (induction as arbitrary: s)
  case (Cons a as)
  then obtain s1 where s1: "act True a s = Some s1" "acts True as s1 = Some s'" by (auto simp: bind_eq_Some_conv)
  have split_inputs: "set (inputs (a # as)) = set (inputs [a]) \<union> set (inputs as)" by (cases a) auto
  have one: "quiet s s1" using quiet_act [OF s1(1) Cons.prems(2)] Cons.prems(3) by simp
  then have "pm_redacting s1" by (simp add: quiet_def)
  moreover have "\<forall>bytes \<in> set (pending (pm_typed s1) @ inputs as). newline_free bytes"
    using typed_act [OF s1(1)] Cons.prems(3) split_inputs by auto
  ultimately have "quiet s1 s'" using Cons.IH [OF s1(2)] by blast
  with one show ?case by (auto simp: quiet_def intro: subseq_order.trans)
qed (simp add: quiet_def)

definition prompt :: "byte list" where "prompt = encode (lit ''Password:'')"

definition secret :: "byte list" where "secret = encode (lit ''hunter2'')"

lemma prompts [simp]:
  "looks_like_password_prompt prompt" "\<not> looks_like_password_prompt (take 4 prompt)" "\<not> looks_like_password_prompt (drop 4 prompt)"
  "prompt \<noteq> []" "\<not> 8192 < length prompt" "take 4 prompt \<noteq> []" "drop 4 prompt \<noteq> []"
  "secret \<noteq> []" "\<not> 4096 < length secret" "13 \<notin> set secret" "10 \<notin> set secret"
proof -
  have lossy: "from_utf8_lossy prompt = lit ''Password:''" "from_utf8_lossy (take 4 prompt) = lit ''Pass''"
    "from_utf8_lossy (drop 4 prompt) = lit ''word:''"
    by (simp_all add: prompt_def lit_def encode_char_def from_utf8_lossy_def next_char_def)
  show "looks_like_password_prompt prompt" "\<not> looks_like_password_prompt (take 4 prompt)"
    "\<not> looks_like_password_prompt (drop 4 prompt)"
    by (simp_all add: looks_like_password_prompt_def lossy Let_def)
      (simp_all add: lit_def to_ascii_lowercase_def ascii_defs ascii_lower_def starts_with_def strip_prefix_def)
qed (simp_all add: prompt_def secret_def lit_def encode_char_def)

text \<open>With captured input, a password is withheld between its prompt and its newline: once a prompt
  has been looked at, and while neither a chunk waiting to be looked at nor one typed since has a
  newline, no further keystroke is recorded, whatever else runs. It is not withheld otherwise: a
  prompt that arrives cut by two reads is not seen, and the newline of the command that asks is
  looked at after it was passed on, so a prompt that comes in between is forgotten; in both runs
  the password is recorded.\<close>

theorem password_is_withheld_after_its_prompt:
  assumes "acts True as s = Some s'" "pm_redacting s" "\<forall>bytes \<in> set (pending (pm_typed s) @ inputs as). newline_free bytes"
  shows "pm_redacting s' \<and> subseq (side STDIN (recorded s')) (side STDIN (recorded s)) \<and>
    (\<exists>cut. acts True [Output (take 4 prompt), Tee_Output 1, Output (drop 4 prompt), Tee_Output 2, Typed secret, Tee_Input 3]
        (pumps_start meta True) = Some cut \<and> side STDIN (recorded cut) = [secret]) \<and>
    (\<exists>raced. acts True [Typed [13], Output prompt, Tee_Output 1, Tee_Input 2, Typed secret, Tee_Input 3]
        (pumps_start meta True) = Some raced \<and> side STDIN (recorded raced) = [secret])"
proof (intro conjI)
  show "pm_redacting s'" "subseq (side STDIN (recorded s')) (side STDIN (recorded s))"
    using quiet_acts [OF assms] by (simp_all add: quiet_def)
  have le: "\<not> 8192 < length (take 4 prompt)" "\<not> 8192 < length (drop 4 prompt)" using prompts(5) by (simp_all, arith)
  show "\<exists>cut. acts True [Output (take 4 prompt), Tee_Output 1, Output (drop 4 prompt), Tee_Output 2, Typed secret, Tee_Input 3]
        (pumps_start meta True) = Some cut \<and> side STDIN (recorded cut) = [secret]"
    using le prompts unfolding pumps_start_def
    by (simp add: Let_def try_send_def CHANNEL_CAP_def recorded_def del: take_eq_Nil drop_eq_Nil length_take length_drop)
  show "\<exists>raced. acts True [Typed [13], Output prompt, Tee_Output 1, Tee_Input 2, Typed secret, Tee_Input 3]
        (pumps_start meta True) = Some raced \<and> side STDIN (recorded raced) = [secret]"
    using prompts unfolding pumps_start_def by (simp add: Let_def try_send_def CHANNEL_CAP_def recorded_def)
qed

theorem password_is_withheld_after_its_prompt_witness:
  "\<exists>s s'. acts True [Output prompt, Tee_Output 1] (pumps_start demo_meta True) = Some s \<and> pm_redacting s \<and>
     acts True [Typed secret, Tee_Input 2] s = Some s' \<and> pm_redacting s' \<and> side STDIN (recorded s') = []"
proof -
  obtain s where s: "acts True [Output prompt, Tee_Output 1] (pumps_start demo_meta True) = Some s" "pm_redacting s"
    "pm_typed s = None" "\<not> pm_in_done s" "side STDIN (recorded s) = []"
    using prompts unfolding pumps_start_def by (simp add: Let_def try_send_def CHANNEL_CAP_def recorded_def)
  obtain s' where s': "acts True [Typed secret, Tee_Input 2] s = Some s'"
    using s prompts by (simp add: Let_def)
  have "\<forall>bytes \<in> set (pending (pm_typed s) @ inputs [Typed secret, Tee_Input 2]). newline_free bytes"
    using s(3) prompts by (simp add: newline_free_def)
  from password_is_withheld_after_its_prompt [OF s' s(2) this]
  have "pm_redacting s'" "subseq (side STDIN (recorded s')) []" unfolding s(5) by blast+
  then have "side STDIN (recorded s') = []" using list_emb_Nil2 by blast
  then show ?thesis using s(1,2) s' \<open>pm_redacting s'\<close> by (intro exI conjI)
qed

end
