(* ===== verification/Recorder_Transcript.thy ===== *)
theory Recorder_Transcript
  imports Recorder
begin

text \<open>
  The recorder and the server together: what a recording that has room sends is complete, and what
  the server's ingest stores of it gives the terminal's output back. The recorder never closes its
  stream, so the server sees it break after the exit was reported.
\<close>

section \<open>A recording that has room\<close>

text \<open>At every step the backend is there and the channel has room.\<close>

fun roomy :: "bool \<Rightarrow> action list \<Rightarrow> pumps \<Rightarrow> bool" where
  "roomy capture [] s = (pm_open s \<and> length (pm_queue s) < CHANNEL_CAP)"
| "roomy capture (a # as) s =
     (pm_open s \<and> length (pm_queue s) < CHANNEL_CAP \<and>
      (case act capture a s of Some s' \<Rightarrow> roomy capture as s' | None \<Rightarrow> False))"

definition is_start :: "ingest_event \<Rightarrow> bool" where "is_start ev = (case ev of Start _ \<Rightarrow> True | _ \<Rightarrow> False)"
definition is_end :: "ingest_event \<Rightarrow> bool" where "is_end ev = (case ev of End _ \<Rightarrow> True | _ \<Rightarrow> False)"

definition two_sided :: "ingest_event \<Rightarrow> bool" where
  "two_sided ev = (case ev of Chunk c \<Rightarrow> ch_stream c = STDOUT \<or> ch_stream c = STDIN | _ \<Rightarrow> True)"

definition no_end :: "ingest_event list \<Rightarrow> bool" where "no_end = list_all (\<lambda>ev. \<not> is_end ev)"

definition plain_events :: "ingest_event list \<Rightarrow> bool" where
  "plain_events = list_all (\<lambda>ev. \<not> is_start ev \<and> two_sided ev)"

definition ends_well :: "32 word \<Rightarrow> ingest_event list \<Rightarrow> bool" where
  "ends_well ec evs \<longleftrightarrow> (\<exists>p1 p2. evs = p1 @ End (sint ec) # p2 \<and> no_end p1 \<and> no_end p2 \<and> side STDOUT p2 = [])"

lemma ends_well_start: "no_end evs \<Longrightarrow> ends_well ec (evs @ [End (sint ec)])"
  unfolding ends_well_def by (rule exI [of _ evs], rule exI [of _ "[]"]) (simp add: no_end_def)

lemma ends_well_snoc: "ends_well ec evs \<Longrightarrow> \<not> is_end ev \<Longrightarrow> data_of STDOUT ev = None \<Longrightarrow> ends_well ec (evs @ [ev])"
  unfolding ends_well_def by (elim exE conjE, rule_tac x = p1 in exI, rule_tac x = "p2 @ [ev]" in exI) (simp add: no_end_def)

text \<open>The metadata first, then chunks and sizes, and the exit once it was reported, with no output after it.\<close>

definition phase :: "pumps \<Rightarrow> ingest_event list \<Rightarrow> bool" where
  "phase s rest \<longleftrightarrow>
     (pm_out_done s \<longrightarrow> pm_shown s = None) \<and>
     (if pm_reported s then pm_out_done s \<and> (\<exists>ec. pm_exit s = Some ec \<and> ends_well ec rest) else no_end rest)"

definition shape :: "session_start \<Rightarrow> action list \<Rightarrow> pumps \<Rightarrow> bool" where
  "shape meta as s \<longleftrightarrow>
     side STDOUT (recorded s) @ pending (pm_shown s) = outputs as \<and>
     (\<exists>rest. recorded s = Start meta # rest \<and> plain_events rest \<and> phase s rest)"

lemma shape_same:
  assumes "shape meta as s" "recorded s' = recorded s" "\<And>rest. phase s rest \<Longrightarrow> phase s' rest"
    "side STDOUT (recorded s) @ pending (pm_shown s') = outputs as'"
  shows "shape meta as' s'"
  using assms unfolding shape_def by auto

lemma shape_append:
  assumes "shape meta as s" "recorded s' = recorded s @ [ev]" "\<not> is_start ev" "two_sided ev"
    "\<And>rest. phase s rest \<Longrightarrow> phase s' (rest @ [ev])"
    "side STDOUT (recorded s) @ (case data_of STDOUT ev of Some d \<Rightarrow> [d] | None \<Rightarrow> []) @ pending (pm_shown s') = outputs as'"
  shows "shape meta as' s'"
proof -
  obtain rest where "recorded s = Start meta # rest" "plain_events rest" "phase s rest"
    using assms(1) by (auto simp: shape_def)
  then show ?thesis using assms(2-6) unfolding shape_def
    by (intro conjI exI [of _ "rest @ [ev]"]) (auto simp: plain_events_def split: option.splits)
qed

lemma roomy_try_send:
  "pm_open s \<Longrightarrow> length (pm_queue s) < CHANNEL_CAP \<Longrightarrow> try_send ev s = s\<lparr>pm_queue := pm_queue s @ [ev]\<rparr>"
  "pm_open s \<Longrightarrow> length (pm_queue s) < CHANNEL_CAP \<Longrightarrow> send ev s = Some (s\<lparr>pm_queue := pm_queue s @ [ev]\<rparr>)"
  by (simp_all add: try_send_def send_def)

lemma recorded_queue [simp]: "recorded (s\<lparr>pm_queue := pm_queue s @ [ev]\<rparr>) = recorded s @ [ev]"
  by (simp add: recorded_def)

lemma event_kinds [simp]:
  "\<not> is_start (chunk_of n d ms)" "\<not> is_end (chunk_of n d ms)" "two_sided (chunk_of STDOUT d ms)" "two_sided (chunk_of STDIN d ms)"
  "\<not> is_start (Resize c r)" "\<not> is_end (Resize c r)" "two_sided (Resize c r)" "\<not> is_start (End n)" "two_sided (End n)"
  by (simp_all add: is_start_def is_end_def two_sided_def chunk_of_def)

lemma shape_act:
  assumes sh: "shape meta as s" and a: "act capture a s = Some s'" and room: "pm_open s" "length (pm_queue s) < CHANNEL_CAP"
    and "open": "pm_open s'"
  shows "shape meta (as @ [a]) s'"
proof -
  have outs: "side STDOUT (recorded s) @ pending (pm_shown s) = outputs as" using sh by (simp add: shape_def)
  show ?thesis
  proof (cases a)
    case (Output bytes)
    then show ?thesis using a outs by (intro shape_same [OF sh]) (auto simp: outputs_snoc phase_def split: if_splits)
  next
    case Output_Ends
    then show ?thesis using a outs by (intro shape_same [OF sh]) (auto simp: outputs_snoc phase_def split: if_splits)
  next
    case (Tee_Output ms)
    then obtain bytes where b: "pm_shown s = Some bytes" using a by (auto split: option.splits)
    define s1 where "s1 = (let s = s\<lparr>pm_shown := None\<rparr> in
        if capture \<and> looks_like_password_prompt bytes then s\<lparr>pm_redacting := True\<rparr> else s)"
    have s1: "recorded s1 = recorded s" "pm_open s1" "length (pm_queue s1) < CHANNEL_CAP" "pm_shown s1 = None"
      "pm_reported s1 = pm_reported s" using room by (simp_all add: s1_def Let_def)
    have "s' = s1\<lparr>pm_queue := pm_queue s1 @ [chunk_of STDOUT bytes ms]\<rparr>"
      using a b Tee_Output roomy_try_send(1) [OF s1(2,3)] by (simp add: s1_def Let_def)
    then show ?thesis using outs b s1 Tee_Output
      by (intro shape_append [OF sh, of _ "chunk_of STDOUT bytes ms"])
        (auto simp: outputs_snoc phase_def no_end_def)
  next
    case (Typed bytes)
    then show ?thesis using a outs by (intro shape_same [OF sh]) (auto simp: outputs_snoc phase_def split: if_splits)
  next
    case Input_Ends
    then show ?thesis using a outs by (intro shape_same [OF sh]) (auto simp: outputs_snoc phase_def split: if_splits)
  next
    case (Tee_Input ms)
    then obtain bytes where b: "pm_typed s = Some bytes" using a by (auto split: option.splits)
    show ?thesis
    proof (cases "capture \<and> \<not> pm_redacting s")
      case True
      define s2 where "s2 = s\<lparr>pm_typed := None, pm_queue := pm_queue s @ [chunk_of STDIN bytes ms]\<rparr>"
      have "s' = (if 13 \<in> set bytes \<or> 10 \<in> set bytes then s2\<lparr>pm_redacting := False\<rparr> else s2)"
      proof -
        have "pm_redacting (s\<lparr>pm_typed := None\<rparr>) = pm_redacting s" by simp
        moreover have "try_send (chunk_of STDIN bytes ms) (s\<lparr>pm_typed := None\<rparr>) = s2"
          using room by (simp add: s2_def try_send_def)
        ultimately show ?thesis using a b Tee_Input True by (simp add: Let_def cong: if_cong)
      qed
      then have "recorded s' = recorded s @ [chunk_of STDIN bytes ms]" "pm_shown s' = pm_shown s" "pm_reported s' = pm_reported s"
        "pm_out_done s' = pm_out_done s" "pm_exit s' = pm_exit s"
        by (simp_all add: s2_def recorded_def)
      then show ?thesis using outs Tee_Input
        by (intro shape_append [OF sh, of _ "chunk_of STDIN bytes ms"])
          (auto simp: outputs_snoc phase_def no_end_def intro!: ends_well_snoc)
    next
      case False
      then have "recorded s' = recorded s" "pm_shown s' = pm_shown s" "pm_reported s' = pm_reported s"
        "pm_out_done s' = pm_out_done s" "pm_exit s' = pm_exit s"
        using a b Tee_Input by (auto simp: Let_def split: if_splits)
      then show ?thesis using outs Tee_Input by (intro shape_same [OF sh]) (auto simp: outputs_snoc phase_def)
    qed
  next
    case (Window c r)
    then have "s' = s\<lparr>pm_queue := pm_queue s @ [Resize (of_nat c) (of_nat r)]\<rparr>" using a roomy_try_send(2) [OF room] by simp
    then show ?thesis using outs Window
      by (intro shape_append [OF sh, of _ "Resize (of_nat c) (of_nat r)"])
        (auto simp: outputs_snoc phase_def no_end_def intro!: ends_well_snoc)
  next
    case (Child_Exits ec)
    then show ?thesis using a outs by (intro shape_same [OF sh]) (auto simp: outputs_snoc phase_def split: if_splits)
  next
    case Report_End
    then obtain ec where ec: "pm_exit s = Some ec" "pm_out_done s" "\<not> pm_reported s"
      using a by (auto split: option.splits if_splits)
    then have "s' = s\<lparr>pm_queue := pm_queue s @ [End (sint ec)], pm_reported := True\<rparr>"
      using a Report_End roomy_try_send(2) [OF room] by simp
    then show ?thesis using outs Report_End ec
      by (intro shape_append [OF sh, of _ "End (sint ec)"])
        (auto simp: outputs_snoc phase_def recorded_def intro!: ends_well_start)
  next
    case Taken
    then show ?thesis using a outs by (intro shape_same [OF sh]) (auto simp: outputs_snoc phase_def recorded_def split: list.splits)
  next
    case Backend_Gone
    then show ?thesis using a "open" by (auto split: if_splits)
  qed
qed

lemma roomy_open: "acts capture as s = Some s' \<Longrightarrow> roomy capture as s \<Longrightarrow> pm_open s \<and> pm_open s'"
  by (induction as arbitrary: s) (auto simp: bind_eq_Some_conv)

lemma roomy_append: "acts capture as s = Some s1 \<Longrightarrow> roomy capture (as @ bs) s \<longleftrightarrow> roomy capture as s \<and> roomy capture bs s1"
proof (induction as arbitrary: s)
  case Nil
  then show ?case by (cases bs) auto
qed (auto simp: bind_eq_Some_conv)

lemma shape_acts:
  "acts capture as (pumps_start meta True) = Some s \<Longrightarrow> roomy capture as (pumps_start meta True) \<Longrightarrow> shape meta as s"
proof (induction as arbitrary: s rule: rev_induct)
  case Nil
  then show ?case
    by (auto simp: shape_def phase_def plain_events_def no_end_def pumps_start_def recorded_def)
next
  case (snoc a as)
  then obtain s1 where s1: "acts capture as (pumps_start meta True) = Some s1" "act capture a s1 = Some s"
    by (auto simp: acts_snoc bind_eq_Some_conv)
  then have room: "roomy capture as (pumps_start meta True)" "roomy capture [a] s1"
    using snoc.prems(2) roomy_append [OF s1(1), of "[a]"] by simp_all
  then show ?case using snoc.IH [OF s1(1) room(1)] s1(2)
    by (intro shape_act [of meta as s1 capture a s]) (auto split: option.splits)
qed

section \<open>What the server makes of it\<close>

text \<open>The inputs of a call that carry what the recorder sent: its events, and ticks between them.\<close>

definition event_of :: "input \<Rightarrow> ingest_event option" where
  "event_of i = (case in_item i of Got e \<Rightarrow> e | _ \<Rightarrow> None)"

definition carries :: "input list \<Rightarrow> ingest_event list \<Rightarrow> bool" where
  "carries is evs \<longleftrightarrow> List.map_filter event_of is = evs \<and>
     (\<forall>i \<in> set is. inserts_ok i \<and> updates_ok i \<and> in_item i \<noteq> Transport_Error \<and> in_item i \<noteq> End_Of_Stream)"

definition after_turn :: "stream \<Rightarrow> stream \<Rightarrow> bool" where
  "after_turn s s1 \<longleftrightarrow> channels s1 = channels s \<and> (\<exists>x. events_tbl s1 = events_tbl s @ x)"

lemma after_turn_trans: "after_turn a b \<Longrightarrow> after_turn b c \<Longrightarrow> after_turn a c"
  by (auto simp: after_turn_def)

lemma after_flush: "flush ok s = Go s1 \<Longrightarrow> after_turn s s1"
  by (auto simp: flush_def after_turn_def split: if_splits)

lemma after_persist [simp]:
  "after_turn s (persist_error_count ok i s1) = after_turn s s1" "after_turn s (finalize ok i e now s1) = after_turn s s1"
  "after_turn s (s1\<lparr>ended := b\<rparr>) = after_turn s s1"
  by (auto simp: after_turn_def persist_error_count_def finalize_def split: option.splits)

lemma after_ingest_turn:
  assumes "ingest_turn cd course verified i s = Go s1" "\<forall>st. in_item i \<noteq> Got (Some (Start st))"
  shows "after_turn s s1"
proof (cases "in_item i")
  case (Got e)
  then show ?thesis
  proof (cases e)
    case (Some ev)
    have flushed: "flush ok s2 = Go s3 \<Longrightarrow> after_turn s s2 \<Longrightarrow> after_turn s s3" for ok s2 s3
      using after_flush after_turn_trans by blast
    have same: "after_turn s s" by (simp add: after_turn_def)
    then have add: "after_turn s (s\<lparr>error_count := n, buffer := b, seq := q, fanned_out := g\<rparr>)"
      "after_turn s (s\<lparr>buffer := b, seq := q, fanned_out := g\<rparr>)"
      "after_turn s (s\<lparr>sessions_tbl := m\<rparr>)" for n b q g m by (simp_all add: after_turn_def)
    show ?thesis
    proof (cases ev)
      case (Chunk c)
      then show ?thesis using assms(1) Got Some same add(1,2) flushed
        by (auto simp: ingest_turn_def Let_def split: option.splits if_splits)
    next
      case (End ec)
      then show ?thesis using assms(1) Got Some same after_flush
        by (cases "flush (inserts_ok i) s") (auto simp: ingest_turn_def split: option.splits)
    qed (use assms Got Some same add(3) in \<open>auto simp: ingest_turn_def split: option.splits\<close>)
  qed (use assms(1) in \<open>simp add: ingest_turn_def after_turn_def\<close>)
next
  case Tick
  then show ?thesis using assms(1) after_flush
    by (cases "flush (inserts_ok i) s") (auto simp: ingest_turn_def on_tick_def split: option.splits)
qed (use assms(1) in \<open>simp_all add: ingest_turn_def after_turn_def\<close>)

text \<open>A run of ordinary inputs, whatever comes after them.\<close>

lemma follows_run:
  assumes "follows base sid who s t" "\<forall>i \<in> set is. ordinary i \<and> in_item i \<noteq> End_Of_Stream"
  shows "\<exists>s1. follows base sid who s1 (fold (tape_step cd sid) is t) \<and> after_turn s s1 \<and>
    (\<forall>rest r s2. ingest cd course verified s (is @ rest) r s2 \<longleftrightarrow> ingest cd course verified s1 rest r s2)"
  using assms
proof (induction "is" arbitrary: s t)
  case Nil
  then show ?case by (intro exI [of _ s]) (simp add: after_turn_def)
next
  case (Cons i "is")
  then obtain s1 where s1: "ingest_turn cd course verified i s = Go s1" "follows base sid who s1 (tape_step cd sid i t)"
    using follows_turn [of base sid who s t i cd course verified] by auto
  obtain s2 where s2: "follows base sid who s2 (fold (tape_step cd sid) is (tape_step cd sid i t))" "after_turn s1 s2"
    "\<forall>rest r s3. ingest cd course verified s1 (is @ rest) r s3 \<longleftrightarrow> ingest cd course verified s2 rest r s3"
    using Cons.IH [OF s1(2)] Cons.prems(2) by auto
  have "after_turn s s1" using after_ingest_turn [OF s1(1)] Cons.prems(2) by (simp add: ordinary_def)
  then have "after_turn s s2" using s2(2) by (rule after_turn_trans)
  moreover have "ingest cd course verified s ((i # is) @ rest) r s3 \<longleftrightarrow> ingest cd course verified s2 rest r s3" for rest r s3
    using s1(1) s2(3) Cons.prems(2) by (auto simp: ingest_Cons)
  ultimately show ?case using s2(1) by auto
qed

text \<open>The reported exit: nothing is left to be written.\<close>

lemma follows_end:
  assumes "follows base sid who s t" "ordinary i" "in_item i = Got (Some (End ec))"
  shows "\<exists>s1. ingest_turn cd course verified i s = Go s1 \<and> follows base sid who s1 (tape_step cd sid i t) \<and> buffer s1 = []"
proof -
  have "in_item i \<noteq> End_Of_Stream" using assms(3) by simp
  from follows_turn [OF assms(1,2) this]
  obtain s1 where s1: "ingest_turn cd course verified i s = Go s1" "follows base sid who s1 (tape_step cd sid i t)" by blast
  obtain s2 where s2: "flush True s = Go s2" "follows base sid who s2 t" "buffer s2 = []"
    using follows_flush [OF assms(1)] by blast
  have "session_id s = Some sid" "inserts_ok i" using assms by (simp_all add: follows_def ordinary_def)
  then have "buffer s1 = []"
    using s1(1) s2 assms(3)
    by (auto simp: ingest_turn_def finalize_def persist_error_count_def split: option.splits)
  with s1 show ?thesis by blast
qed

section \<open>From the terminal to the teacher\<close>

lemma map_filter_split:
  "List.map_filter f xs = p1 @ y # p2 \<Longrightarrow>
     \<exists>a x b. xs = a @ x # b \<and> List.map_filter f a = p1 \<and> f x = Some y \<and> List.map_filter f b = p2"
proof (induction xs arbitrary: p1)
  case (Cons z zs)
  show ?case
  proof (cases "f z")
    case None
    then have "List.map_filter f zs = p1 @ y # p2" using Cons.prems by (simp add: map_filter_simps)
    from Cons.IH [OF this] obtain a x b where "zs = a @ x # b" "List.map_filter f a = p1" "f x = Some y" "List.map_filter f b = p2"
      by blast
    then show ?thesis using None by (intro exI [of _ "z # a"] exI [of _ x] exI [of _ b]) (simp add: map_filter_simps)
  next
    case (Some w)
    show ?thesis
    proof (cases p1)
      case Nil
      then show ?thesis using Cons.prems Some
        by (intro exI [of _ "[]"] exI [of _ z] exI [of _ zs]) (simp add: map_filter_simps)
    next
      case (Cons v vs)
      then have "List.map_filter f zs = vs @ y # p2" "v = w" using Cons.prems Some by (simp_all add: map_filter_simps)
      from Cons.IH [OF this(1)] obtain a x b where "zs = a @ x # b" "List.map_filter f a = vs" "f x = Some y" "List.map_filter f b = p2"
        by blast
      then show ?thesis using Some \<open>v = w\<close> Cons
        by (intro exI [of _ "z # a"] exI [of _ x] exI [of _ b]) (simp add: map_filter_simps)
    qed
  qed
qed (simp add: map_filter_simps)

text \<open>The bytes of one side as a viewer decodes them from rows.\<close>

definition output_bytes :: "codec \<Rightarrow> terminal_event list \<Rightarrow> byte list" where
  "output_bytes cd rows = concat (map ch_data (filter (\<lambda>c. ch_stream c \<noteq> 2) (map (decode_chunk cd) rows)))"

lemma output_bytes_append [simp]: "output_bytes cd (a @ b) = output_bytes cd a @ output_bytes cd b" "output_bytes cd [] = []"
  by (simp_all add: output_bytes_def)

lemma output_bytes_rows:
  assumes "\<forall>bs. b64_decode cd (b64_encode cd bs) = Some bs" "\<forall>ev \<in> set (List.map_filter event_of is). two_sided ev"
  shows "output_bytes cd (rows_from cd sid n is) = concat (side STDOUT (List.map_filter event_of is))"
  using assms(2)
proof (induction "is" arbitrary: n)
  case (Cons i "is")
  have row: "decode_chunk cd (row_of cd sid n now c) = \<lparr>ch_stream = (if ch_stream c = 2 then 2 else 1), ch_data = ch_data c, ch_offset = ch_offset c\<rparr>"
    for n now c using assms(1) by (simp add: decode_chunk_def row_of_def stream_label_def)
  have rest: "output_bytes cd (rows_from cd sid m is) = concat (side STDOUT (List.map_filter event_of is))" for m
    using Cons by (auto simp: map_filter_simps split: option.splits)
  show ?case
  proof (cases "event_of i")
    case None
    then have "\<forall>c. in_item i \<noteq> Got (Some (Chunk c))" by (auto simp: event_of_def)
    then have "rows_from cd sid n (i # is) = rows_from cd sid n is"
      by (auto split: stream_item.splits option.splits ingest_event.splits)
    then show ?thesis using rest [of n] None by (simp add: map_filter_simps)
  next
    case (Some ev)
    then have i: "in_item i = Got (Some ev)" by (simp add: event_of_def split: stream_item.splits)
    show ?thesis
    proof (cases ev)
      case (Chunk c)
      then have "two_sided (Chunk c)" using Cons.prems Some by (simp add: map_filter_simps)
      then have "output_bytes cd [row_of cd sid n (in_now i) c] = (if ch_stream c = STDOUT then ch_data c else [])"
        by (auto simp: output_bytes_def row two_sided_def STDOUT_def STDIN_def)
      then show ?thesis using rest i Chunk Some output_bytes_append(1) [of cd "[row_of cd sid n (in_now i) c]"]
        by (simp add: map_filter_simps data_of_def)
    qed (use rest i Some in \<open>simp_all add: map_filter_simps data_of_def\<close>)
  qed
qed (simp add: output_bytes_def map_filter_simps)

lemma carries_append: "carries (a @ b) evs \<longleftrightarrow> (\<exists>x y. evs = x @ y \<and> carries a x \<and> carries b y)"
  by (auto simp: carries_def List.map_filter_def)

lemma carries_ordinary:
  assumes "carries is evs" "plain_events evs" "i \<in> set is"
  shows "ordinary i \<and> in_item i \<noteq> End_Of_Stream"
proof -
  have "in_item i \<noteq> Got (Some (Start st))" for st
  proof
    assume i: "in_item i = Got (Some (Start st))"
    then have "event_of i = Some (Start st)" by (simp add: event_of_def)
    then have "Start st \<in> set evs" using assms(1,3) by (force simp: carries_def List.map_filter_def)
    then show False using assms(2) by (auto simp: plain_events_def list_all_iff is_start_def)
  qed
  then show ?thesis using assms by (auto simp: carries_def ordinary_def)
qed

lemma tape_exit:
  "carries is evs \<Longrightarrow> no_end evs \<Longrightarrow>
     tp_exit (fold (tape_step cd sid) is t) = tp_exit t \<and> tp_ended (fold (tape_step cd sid) is t) = tp_ended t"
proof (induction "is" arbitrary: t evs)
  case (Cons i "is")
  have "carries ([i] @ is) evs" using Cons.prems(1) by simp
  then obtain x y where xy: "evs = x @ y" "carries [i] x" "carries is y" unfolding carries_append by blast
  have "tp_exit (tape_step cd sid i t) = tp_exit t \<and> tp_ended (tape_step cd sid i t) = tp_ended t"
    using xy(1,2) Cons.prems(2)
    by (auto simp: tape_step_def carries_def event_of_def no_end_def is_end_def map_filter_simps
        split: stream_item.splits option.splits ingest_event.splits)
  then show ?case using Cons.IH [OF xy(3)] xy(1) Cons.prems(2) by (simp add: no_end_def)
qed simp

text \<open>The session's rows as a viewer gets them, in a table where they follow those of others.\<close>

lemma rows_of_prefix:
  assumes "\<forall>r \<in> set evs. te_session r \<noteq> sid" "rows_from cd sid n is = x @ y"
  shows "watch_session cd sid True (evs @ x) [] = map (decode_chunk cd) x"
proof -
  have all: "\<forall>r \<in> set (x @ y). te_session r = sid" "sorted (map te_seq (x @ y))"
    using rows_from_facts(2,3) [of cd sid n "is"] assms(2) by auto
  then have "filter (\<lambda>r. te_session r = sid) (evs @ x) = x"
    using assms(1) by (simp add: filter_id_conv filter_empty_conv)
  then have "rows_of_session sid (evs @ x) = x"
    using all(2) by (simp add: rows_of_session_def sort_key_id_if_sorted sorted_append)
  then show ?thesis by (simp add: watch_session_def concat_pages HISTORY_PAGE_def)
qed

lemma carries_split:
  assumes "carries post (p1 @ e # p2)"
  obtains a x b where "post = a @ x # b" "carries a p1" "event_of x = Some e" "carries b p2"
proof -
  have "List.map_filter event_of post = p1 @ e # p2" using assms by (simp add: carries_def)
  from map_filter_split [OF this] obtain a x b where "post = a @ x # b" "List.map_filter event_of a = p1" "event_of x = Some e"
    "List.map_filter event_of b = p2" by blast
  then show ?thesis using assms by (intro that [of a x b]) (auto simp: carries_def)
qed

text \<open>What the call leaves in the database once the exit was reported and the stream then breaks.\<close>

definition left_behind :: "codec \<Rightarrow> uuid \<Rightarrow> str \<Rightarrow> int \<Rightarrow> byte list \<Rightarrow> stream \<Rightarrow> bool" where
  "left_behind cd sid who n bs s \<longleftrightarrow>
     (\<exists>row. map_of (sessions_tbl s) sid = Some row \<and> se_student row = who \<and> se_status row = lit ''ended'' \<and> se_exit row = Some n) \<and>
     concat (map ch_data (filter (\<lambda>c. ch_stream c \<noteq> 2) (watch_session cd sid True (events_tbl s) []))) = bs"

lemma ended_call:
  assumes f: "follows evs sid who s1 tape_new" and post: "carries post (p1 @ End n # p2)" and plain: "plain_events (p1 @ End n # p2)"
    and p2: "no_end p2" "side STDOUT p2 = []" and brk: "in_item brk = Transport_Error"
    and evs: "\<forall>r \<in> set evs. te_session r \<noteq> sid" and b64: "\<forall>bs. b64_decode cd (b64_encode cd bs) = Some bs"
  shows "\<exists>s2. ingest cd course verified s1 (post @ [brk]) (Inl Grpc_Internal) s2 \<and> channels s2 = channels s1 \<and>
    left_behind cd sid who n (concat (side STDOUT p1)) s2"
proof -
  obtain a x b where parts: "post = a @ x # b" "carries a p1" "event_of x = Some (End n)" "carries b p2"
    using carries_split [OF post] .
  have x: "in_item x = Got (Some (End n))" using parts(3) by (simp add: event_of_def split: stream_item.splits)
  have ord: "ordinary i \<and> in_item i \<noteq> End_Of_Stream" if "i \<in> set post" for i
    using carries_ordinary [OF post plain that] .
  obtain sa where sa: "follows evs sid who sa (fold (tape_step cd sid) a tape_new)" "after_turn s1 sa"
    "\<forall>rest r s2. ingest cd course verified s1 (a @ rest) r s2 \<longleftrightarrow> ingest cd course verified sa rest r s2"
    using follows_run [OF f] ord parts(1) by (metis Un_iff set_append)
  obtain sx where sx: "ingest_turn cd course verified x sa = Go sx"
    "follows evs sid who sx (tape_step cd sid x (fold (tape_step cd sid) a tape_new))" "buffer sx = []"
    using follows_end [OF sa(1) _ x, of cd course verified] ord parts(1) by auto
  obtain sb where sb: "follows evs sid who sb (fold (tape_step cd sid) post tape_new)" "after_turn sx sb"
    "\<forall>rest r s2. ingest cd course verified sx (b @ rest) r s2 \<longleftrightarrow> ingest cd course verified sb rest r s2"
    using follows_run [OF sx(2), of b cd course verified] ord parts(1) by auto
  have "after_turn sa sx" using after_ingest_turn [OF sx(1)] x by simp
  then have chs: "channels sb = channels s1" using sa(2) sb(2) by (simp add: after_turn_def)
  have run: "ingest cd course verified s1 (post @ [brk]) (Inl Grpc_Internal) sb"
    using sa(3) sb(3) sx(1) x brk parts(1) by (simp add: ingest_Cons ingest_turn_def)
  obtain y where y: "events_tbl sb = events_tbl sx @ y" using sb(2) by (auto simp: after_turn_def)
  have "events_tbl sx = evs @ rows_from cd sid 0 a"
    using sx(2,3) x by (simp add: follows_def tape_step_rows tape_rows tape_new_def)
  moreover have "events_tbl sb @ buffer sb = evs @ rows_from cd sid 0 post"
    using sb(1) by (simp add: follows_def tape_rows tape_new_def)
  ultimately have rows: "events_tbl sb = evs @ rows_from cd sid 0 a @ y" "rows_from cd sid 0 post = (rows_from cd sid 0 a @ y) @ buffer sb"
    using y by simp_all
  have bytes: "output_bytes cd (rows_from cd sid 0 is) = concat (side STDOUT p)" if "carries is p" "plain_events p" for "is" p
    using output_bytes_rows [OF b64, of "is"] that by (auto simp: carries_def plain_events_def list_all_iff)
  have "output_bytes cd (rows_from cd sid 0 a) = concat (side STDOUT p1)"
    using bytes [OF parts(2)] plain by (simp add: plain_events_def)
  moreover have "output_bytes cd (rows_from cd sid 0 post) = concat (side STDOUT p1)"
    using bytes [OF post plain] p2(2) by simp
  ultimately have out: "output_bytes cd (rows_from cd sid 0 a @ y) = concat (side STDOUT p1)"
    unfolding rows(2) by simp
  have exit: "tp_exit (fold (tape_step cd sid) post tape_new) = Some n" "tp_ended (fold (tape_step cd sid) post tape_new)"
    using parts(1) tape_exit [OF parts(4) p2(1), of cd sid] x by (simp_all add: tape_step_def)
  then have "left_behind cd sid who n (concat (side STDOUT p1)) sb"
    using sb(1) out rows_of_prefix [OF evs rows(2)] rows(1) by (auto simp: left_behind_def follows_def output_bytes_def)
  then show ?thesis using run chs by blast
qed

text \<open>C6: The recorder and the server together: when the channel always has room, the backend has got
  all that was recorded, the exit was reported and the server's writes succeed, the session ends up
  in the database under the verified name or else the recorder's, ended with the program's exit
  status, and what a viewer decodes from its rows is byte for byte what the terminal showed. Yet the
  recorder never closes its stream: the call is answered with an error when it breaks, and the
  session's live channel is never removed.\<close>

theorem recording_reaches_the_teacher:
  assumes "acts capture as (pumps_start meta True) = Some s" "roomy capture as (pumps_start meta True)"
    "pm_reported s" "pm_exit s = Some ec" "pm_queue s = []"
    "in_item st = Got (Some (Start meta))" "map_of tbl (in_uuid st) = None" "carries (st # post) (pm_taken s)"
    "in_item brk = Transport_Error" "\<forall>r \<in> set evs. te_session r \<noteq> in_uuid st"
    "\<forall>bs. b64_decode cd (b64_encode cd bs) = Some bs"
  shows "\<exists>s2. ingest cd course verified (stream_new tbl evs chs) (st # post @ [brk]) (Inl Grpc_Internal) s2 \<and>
    in_uuid st \<in> set (channels s2) \<and>
    left_behind cd (in_uuid st) (unwrap_or verified (ss_student meta)) (sint ec) (pm_screen s) s2"
proof -
  have sh: "shape meta as s" using shape_acts [OF assms(1,2)] .
  obtain rest where rest: "pm_taken s = Start meta # rest" "plain_events rest" "phase s rest"
    using sh assms(5) by (auto simp: shape_def recorded_def)
  then obtain p1 p2 where p: "rest = p1 @ End (sint ec) # p2" "no_end p2" "side STDOUT p2 = []" "pm_shown s = None"
    using assms(3,4) by (auto simp: phase_def ends_well_def)
  have shown: "concat (side STDOUT p1) = pm_screen s"
    using sh pumped_acts [OF assms(1)] assms(5) rest(1) p by (simp add: shape_def pumped_def recorded_def)
  have post: "carries post (p1 @ End (sint ec) # p2)" and ok: "inserts_ok st"
    using assms(6,8) rest(1) p(1) by (auto simp: carries_def event_of_def map_filter_simps)
  define s1 where "s1 = (stream_new tbl evs chs)\<lparr>
      sessions_tbl := AList.update (in_uuid st) (new_session course verified (in_now st) meta) tbl,
      channels := List.insert (in_uuid st) chs, session_id := Some (in_uuid st)\<rparr>"
  have turn: "ingest_turn cd course verified st (stream_new tbl evs chs) = Go s1"
    using assms(6,7) ok by (simp add: ingest_turn_def s1_def stream_new_def)
  have f: "follows evs (in_uuid st) (unwrap_or verified (ss_student meta)) s1 tape_new"
    by (simp add: follows_def s1_def stream_new_def tape_new_def new_session_def)
  obtain s2 where "ingest cd course verified s1 (post @ [brk]) (Inl Grpc_Internal) s2" "channels s2 = channels s1"
    "left_behind cd (in_uuid st) (unwrap_or verified (ss_student meta)) (sint ec) (pm_screen s) s2"
    using ended_call [OF f post _ p(2,3) assms(9,10,11)] rest(2) p(1) shown by auto
  then show ?thesis using turn assms(6) by (intro exI [of _ s2]) (auto simp: ingest_Cons s1_def)
qed

theorem recording_reaches_the_teacher_witness:
  "\<exists>s s2. acts False [Output [104, 105], Tee_Output 0, Output_Ends, Child_Exits 3, Report_End, Taken, Taken, Taken]
       (pumps_start demo_meta True) = Some s \<and> pm_screen s = [104, 105] \<and>
     ingest demo_codec (Uuid 1) (Some (lit ''grace'')) (stream_new [] [] [])
       [demo_input (Got (Some (Start demo_meta))), demo_chunk 1 [104, 105], demo_input Tick,
        demo_input (Got (Some (End 3))), demo_input Transport_Error] (Inl Grpc_Internal) s2 \<and>
     Uuid 7 \<in> set (channels s2) \<and> left_behind demo_codec (Uuid 7) (lit ''grace'') 3 [104, 105] s2"
proof -
  let ?as = "[Output [104, 105], Tee_Output 0, Output_Ends, Child_Exits 3, Report_End, Taken, Taken, Taken]"
  let ?st = "demo_input (Got (Some (Start demo_meta)))"
  let ?post = "[demo_chunk 1 [104, 105], demo_input Tick, demo_input (Got (Some (End 3)))]"
  obtain s where s: "acts False ?as (pumps_start demo_meta True) = Some s" "roomy False ?as (pumps_start demo_meta True)"
    "pm_reported s" "pm_exit s = Some 3" "pm_queue s = []" "pm_screen s = [104, 105]"
    "pm_taken s = [Start demo_meta, chunk_of STDOUT [104, 105] 0, End 3]"
    by (simp add: pumps_start_def Let_def try_send_def send_def CHANNEL_CAP_def)
  have "carries (?st # ?post) (pm_taken s)"
    by (simp add: s(7) carries_def event_of_def map_filter_simps demo_input_defs chunk_of_def STDOUT_def)
  from recording_reaches_the_teacher [OF s(1-5) _ _ this, of "[]" "demo_input Transport_Error" "[]" demo_codec "Uuid 1" "Some (lit ''grace'')" "[]"]
  show ?thesis using s(1,6) by (auto simp: demo_input_def demo_codec_def comp_def)
qed

end
