(* ===== verification/Json_Text.thy ===== *)
theory Json_Text
  imports Identity
begin

text \<open>
  What the recorder relies on of the JSON library: it reads back the flat objects it prints, the
  order of their fields aside, an object cut short does not read, and what reads as an object begins
  with a brace or a blank. One library with these laws, over bytes that are not JSON's, shows that
  they can hold.
\<close>

record json_lib =
  js_num :: "int \<Rightarrow> str"
  js_int :: "str \<Rightarrow> int option"
  js_print :: "json \<Rightarrow> byte list"
  js_parse :: "byte list \<Rightarrow> json option"

definition json_int :: "json_lib \<Rightarrow> str \<Rightarrow> json \<Rightarrow> int option" where
  "json_int lib k v = Option.bind (json_get k v) (\<lambda>x. case x of JNumber n \<Rightarrow> js_int lib n | _ \<Rightarrow> None)"

section \<open>The laws\<close>

definition flat_value :: "json_lib \<Rightarrow> json \<Rightarrow> bool" where
  "flat_value lib v \<longleftrightarrow> v = JNull \<or> (\<exists>s. v = JString s) \<or> (\<exists>n. v = JNumber (js_num lib n))"

definition flat_fields :: "json_lib \<Rightarrow> (str \<times> json) list \<Rightarrow> bool" where
  "flat_fields lib fs \<longleftrightarrow> distinct (map fst fs) \<and> (\<forall>(k, v) \<in> set fs. flat_value lib v)"

definition lawful_json :: "json_lib \<Rightarrow> bool" where
  "lawful_json lib \<longleftrightarrow>
     (\<forall>n. js_int lib (js_num lib n) = Some n) \<and>
     (\<forall>fs. flat_fields lib fs \<longrightarrow>
        (\<exists>fs'. js_parse lib (js_print lib (JObject fs)) = Some (JObject fs') \<and> map_of fs' = map_of fs) \<and>
        (\<forall>n < length (js_print lib (JObject fs)). js_parse lib (take n (js_print lib (JObject fs))) = None)) \<and>
     (\<forall>bs fs. js_parse lib bs = Some (JObject fs) \<longrightarrow> bs \<noteq> [] \<and> hd bs \<in> {9, 10, 13, 32, 123})"

lemma flat_values [simp]: "flat_value lib JNull" "flat_value lib (JString s)" "flat_value lib (JNumber (js_num lib n))"
  by (auto simp: flat_value_def)

lemma read_back:
  assumes "lawful_json lib" "flat_fields lib fs"
  obtains fs' where "js_parse lib (js_print lib (JObject fs)) = Some (JObject fs')" "map_of fs' = map_of fs"
  using assms unfolding lawful_json_def by blast

lemma same_fields:
  assumes "map_of fs' = map_of fs"
  shows "json_get k (JObject fs') = json_get k (JObject fs)" "json_str k (JObject fs') = json_str k (JObject fs)"
    "json_int lib k (JObject fs') = json_int lib k (JObject fs)"
  using assms by (simp_all add: json_get_def json_str_def json_int_def)

section \<open>A library with these laws\<close>

fun demo_value :: "json \<Rightarrow> nat list" where
  "demo_value (JString s) = 1 # length s # map code s"
| "demo_value (JNumber s) = 2 # length s # map code s"
| "demo_value _ = [0]"

definition demo_field :: "str \<times> json \<Rightarrow> nat list" where
  "demo_field kv = length (fst kv) # map code (fst kv) @ demo_value (snd kv)"

definition demo_body :: "(str \<times> json) list \<Rightarrow> nat list" where
  "demo_body fs = length fs # concat (map demo_field fs)"

definition demo_print :: "json \<Rightarrow> byte list" where
  "demo_print v = (case v of JObject fs \<Rightarrow> 123 # length (demo_body fs) # demo_body fs | _ \<Rightarrow> [])"

fun read_value :: "nat list \<Rightarrow> (json \<times> nat list) option" where
  "read_value (tag # bs) =
     (if tag = 0 then Some (JNull, bs)
      else (case bs of
              [] \<Rightarrow> None
            | n # cs \<Rightarrow> Some ((if tag = 1 then JString else JNumber) (map Cp (take n cs)), drop n cs)))"
| "read_value [] = None"

fun read_fields :: "nat \<Rightarrow> nat list \<Rightarrow> (str \<times> json) list option" where
  "read_fields 0 bs = Some []"
| "read_fields (Suc m) bs =
     (case bs of
        [] \<Rightarrow> None
      | n # cs \<Rightarrow>
          (case read_value (drop n cs) of
             None \<Rightarrow> None
           | Some (v, bs) \<Rightarrow> map_option (\<lambda>fs. (map Cp (take n cs), v) # fs) (read_fields m bs)))"

definition demo_parse :: "byte list \<Rightarrow> json option" where
  "demo_parse bs =
     (case bs of
        tag # len # m # cs \<Rightarrow>
          if tag = 123 \<and> length (m # cs) = len then map_option JObject (read_fields m cs) else None
      | _ \<Rightarrow> None)"

definition demo_num :: "int \<Rightarrow> str" where
  "demo_num n = [Cp (if n < 0 then 1 else 0), Cp (nat \<bar>n\<bar>)]"

definition demo_int :: "str \<Rightarrow> int option" where
  "demo_int s = (case s of [sign, a] \<Rightarrow> Some (if sign = Cp 1 then - int (code a) else int (code a)) | _ \<Rightarrow> None)"

definition demo_json :: json_lib where
  "demo_json = \<lparr>js_num = demo_num, js_int = demo_int, js_print = demo_print, js_parse = demo_parse\<rparr>"

lemma demo_json_sel [simp]:
  "js_num demo_json = demo_num" "js_int demo_json = demo_int" "js_print demo_json = demo_print" "js_parse demo_json = demo_parse"
  by (simp_all add: demo_json_def)

lemma cp_code [simp]: "map (Cp \<circ> code) s = s"
  by (induction s) simp_all

lemma read_value_demo: "flat_value demo_json v \<Longrightarrow> read_value (demo_value v @ bs) = Some (v, bs)"
  by (auto simp: flat_value_def)

lemma read_fields_demo:
  "\<forall>(k, v) \<in> set fs. flat_value demo_json v \<Longrightarrow> read_fields (length fs) (concat (map demo_field fs)) = Some fs"
  by (induction fs) (auto simp: demo_field_def read_value_demo)

lemma lawful_demo: "lawful_json demo_json"
  unfolding lawful_json_def
proof (intro conjI allI impI)
  fix n
  show "js_int demo_json (js_num demo_json n) = Some n" by (simp add: demo_int_def demo_num_def)
next
  fix fs assume f: "flat_fields demo_json fs"
  then show "\<exists>fs'. js_parse demo_json (js_print demo_json (JObject fs)) = Some (JObject fs') \<and> map_of fs' = map_of fs"
    using read_fields_demo [of fs] by (simp add: demo_print_def demo_parse_def demo_body_def flat_fields_def)
  fix n assume "n < length (js_print demo_json (JObject fs))"
  then show "js_parse demo_json (take n (js_print demo_json (JObject fs))) = None"
    by (auto simp: demo_print_def demo_parse_def demo_body_def take_Cons' split: list.splits)
next
  fix bs fs assume "js_parse demo_json bs = Some (JObject fs)"
  then show "bs \<noteq> []" "hd bs \<in> {9, 10, 13, 32, 123}"
    by (auto simp: demo_parse_def split: list.splits if_splits)
qed

end
