(* ===== verification/Recorder_Sign_In.thy ===== *)
theory Recorder_Sign_In
  imports Json_Text
begin

text \<open>
  The recorder's sign-in, \<^verbatim>\<open>crates/recorder/src/auth.rs\<close>: the cached identity token, the silent
  exchange in a Codespace and the device flow with its polling, which may go on forever and is a
  partial function. The requests of a sign-in are numbered; the network, the clock, the JSON library
  and the cache file are parameters. The lemmas say when a sign-in ends, and with what.
\<close>

section \<open>What is stored and what is answered\<close>

record cached =
  ca_auth_url :: str
  ca_provider :: str
  ca_token :: str
  ca_student :: str
  ca_expiry :: int

definition cached_json :: "json_lib \<Rightarrow> cached \<Rightarrow> json" where
  "cached_json lib c = JObject
     [(lit ''auth_url'', JString (ca_auth_url c)), (lit ''provider'', JString (ca_provider c)),
      (lit ''token'', JString (ca_token c)), (lit ''student'', JString (ca_student c)),
      (lit ''expiry'', JNumber (js_num lib (ca_expiry c)))]"

definition cached_of :: "json_lib \<Rightarrow> json \<Rightarrow> cached option" where
  "cached_of lib v =
     Option.bind (json_str (lit ''auth_url'') v) (\<lambda>url.
     Option.bind (json_str (lit ''provider'') v) (\<lambda>provider.
     Option.bind (json_str (lit ''token'') v) (\<lambda>tok.
     Option.bind (json_str (lit ''student'') v) (\<lambda>student.
     Option.bind (json_int lib (lit ''expiry'') v) (\<lambda>expiry.
       Some \<lparr>ca_auth_url = url, ca_provider = provider, ca_token = tok, ca_student = student, ca_expiry = expiry\<rparr>)))))"

record exchange_resp =
  xr_token :: str
  xr_student :: str
  xr_expires_in :: int

definition exchange_resp_of :: "json_lib \<Rightarrow> json \<Rightarrow> exchange_resp option" where
  "exchange_resp_of lib v =
     Option.bind (json_str (lit ''identityToken'') v) (\<lambda>tok.
     Option.bind (json_str (lit ''student'') v) (\<lambda>student.
     Option.bind (json_int lib (lit ''expiresIn'') v) (\<lambda>expires.
       Some \<lparr>xr_token = tok, xr_student = student, xr_expires_in = expires\<rparr>)))"

record device_page =
  dp_device_code :: str
  dp_user_code :: str
  dp_uri :: str
  dp_uri_complete :: "str option"
  dp_interval :: nat

definition default_interval :: nat where "default_interval = 5"

text \<open>An absent or null second address is none, an absent interval the default; a field of the wrong
  kind fails.\<close>

definition device_page_of :: "json_lib \<Rightarrow> json \<Rightarrow> device_page option" where
  "device_page_of lib v =
     Option.bind (json_str (lit ''device_code'') v) (\<lambda>dcode.
     Option.bind (json_str (lit ''user_code'') v) (\<lambda>ucode.
     Option.bind (json_str (lit ''verification_uri'') v) (\<lambda>uri.
     Option.bind (case json_get (lit ''verification_uri_complete'') v of
                    None \<Rightarrow> Some None | Some JNull \<Rightarrow> Some None | Some (JString s) \<Rightarrow> Some (Some s) | _ \<Rightarrow> None)
       (\<lambda>complete.
     Option.bind (case json_get (lit ''interval'') v of
                    None \<Rightarrow> Some default_interval
                  | Some x \<Rightarrow> Option.bind (json_int lib (lit ''interval'') v)
                      (\<lambda>n. if 0 \<le> n then Some (nat n) else None))
       (\<lambda>interval.
       Some \<lparr>dp_device_code = dcode, dp_user_code = ucode, dp_uri = uri, dp_uri_complete = complete,
             dp_interval = interval\<rparr>)))))"

section \<open>The machine it runs on\<close>

text \<open>A reply's body is there when it reads as JSON.\<close>

datatype reply = No_Reply str | Reply nat "json option"

datatype write_outcome = Written | Not_Opened | Cut_Short nat

text \<open>\<open>pc_post\<close> answers the numbered request to an address with a body, \<open>pc_clock\<close> is the time when
  that is done, in seconds (before the first, the time of the start); \<open>pc_home\<close> says whether there
  is a home, and \<open>pc_write\<close> what becomes of a write of the cache file.\<close>

record machine =
  pc_post :: "nat \<Rightarrow> str \<Rightarrow> json \<Rightarrow> reply"
  pc_start :: int
  pc_clock :: "nat \<Rightarrow> int"
  pc_github_token :: "str option"
  pc_home :: bool
  pc_write :: write_outcome

type_synonym disk = "byte list option"

definition load_cache :: "json_lib \<Rightarrow> machine \<Rightarrow> disk \<Rightarrow> cached option" where
  "load_cache lib pc d =
     (if pc_home pc then Option.bind (Option.bind d (js_parse lib)) (cached_of lib) else None)"

definition save_cache :: "json_lib \<Rightarrow> machine \<Rightarrow> cached \<Rightarrow> disk \<Rightarrow> disk" where
  "save_cache lib pc c d =
     (if \<not> pc_home pc then d
      else (case pc_write pc of
              Not_Opened \<Rightarrow> d
            | Written \<Rightarrow> Some (js_print lib (cached_json lib c))
            | Cut_Short n \<Rightarrow> Some (take n (js_print lib (cached_json lib c)))))"

section \<open>Signing in\<close>

record signed_in =
  si_token :: str
  si_who :: str

datatype sign_in_error = Not_Sent str | Refused_With nat | Unreadable | Not_Authorized

text \<open>\<^verbatim>\<open>error_for_status\<close> and \<^verbatim>\<open>json\<close>: a status of the 400s and 500s is an error, whatever its body.\<close>

definition checked_body :: "reply \<Rightarrow> sign_in_error + json" where
  "checked_body r =
     (case r of
        No_Reply e \<Rightarrow> Inl (Not_Sent e)
      | Reply st body \<Rightarrow> if 400 \<le> st \<and> st < 600 then Inl (Refused_With st) else ok_or body Unreadable)"

definition exchange :: "json_lib \<Rightarrow> machine \<Rightarrow> nat \<Rightarrow> str \<Rightarrow> str \<Rightarrow> str \<Rightarrow> sign_in_error + exchange_resp" where
  "exchange lib pc n auth_url provider tok =
     bind_result (checked_body (pc_post pc n (auth_url @ lit ''/api/auth/exchange'')
         (JObject [(lit ''provider'', JString provider), (lit ''token'', JString tok)])))
       (\<lambda>v. ok_or (exchange_resp_of lib v) Unreadable)"

definition cache_and_return :: "json_lib \<Rightarrow> machine \<Rightarrow> int \<Rightarrow> str \<Rightarrow> str \<Rightarrow> exchange_resp \<Rightarrow> disk \<Rightarrow> signed_in \<times> disk" where
  "cache_and_return lib pc now auth_url provider i d =
     (let c = \<lparr>ca_auth_url = auth_url, ca_provider = provider, ca_token = xr_token i, ca_student = xr_student i,
               ca_expiry = now + xr_expires_in i\<rparr>
      in (\<lparr>si_token = xr_token i, si_who = xr_student i\<rparr>, save_cache lib pc c d))"

definition start_device :: "json_lib \<Rightarrow> machine \<Rightarrow> nat \<Rightarrow> str \<Rightarrow> str \<Rightarrow> sign_in_error + device_page" where
  "start_device lib pc n auth_url provider =
     bind_result (checked_body (pc_post pc n (auth_url @ lit ''/api/auth/device/start'')
         (JObject [(lit ''provider'', JString provider)])))
       (\<lambda>v. ok_or (device_page_of lib v) Unreadable)"

definition is_pending :: "json \<Rightarrow> bool" where
  "is_pending v \<longleftrightarrow> json_str (lit ''status'') v = Some (lit ''pending'')"

text \<open>What one poll says: nothing yet, or how it ended.\<close>

definition polled :: "json_lib \<Rightarrow> reply \<Rightarrow> (sign_in_error + exchange_resp) option" where
  "polled lib r =
     (case r of
        No_Reply e \<Rightarrow> Some (Inl (Not_Sent e))
      | Reply st body \<Rightarrow>
          if st = 401 then Some (Inl Not_Authorized)
          else (case body of
                  None \<Rightarrow> Some (Inl Unreadable)
                | Some v \<Rightarrow> if is_pending v then None else Some (ok_or (exchange_resp_of lib v) Unreadable)))"

text \<open>The loop: the number of the request that ended it, and how; \<open>None\<close> is a loop that never ends.\<close>

partial_function (option) poll_loop ::
    "json_lib \<Rightarrow> (nat \<Rightarrow> reply) \<Rightarrow> nat \<Rightarrow> (nat \<times> (sign_in_error + exchange_resp)) option" where
  "poll_loop lib f n =
     (case polled lib (f n) of
        Some r \<Rightarrow> Some (n, r)
      | None \<Rightarrow> poll_loop lib f (n + 1))"

definition poll_request :: "machine \<Rightarrow> str \<Rightarrow> str \<Rightarrow> device_page \<Rightarrow> nat \<Rightarrow> reply" where
  "poll_request pc auth_url provider page n =
     pc_post pc n (auth_url @ lit ''/api/auth/device/poll'')
       (JObject [(lit ''provider'', JString provider), (lit ''deviceCode'', JString (dp_device_code page))])"

text \<open>What a sign-in that ends gives: its outcome, the cache file, the address and code it showed, and
  the seconds it slept between polls.\<close>

record sign_in =
  sn_result :: "sign_in_error + signed_in"
  sn_disk :: disk
  sn_shown :: "(str \<times> str) option"
  sn_slept :: nat

definition device_flow :: "json_lib \<Rightarrow> machine \<Rightarrow> nat \<Rightarrow> str \<Rightarrow> str \<Rightarrow> disk \<Rightarrow> sign_in option" where
  "device_flow lib pc n auth_url provider d =
     (case start_device lib pc n auth_url provider of
        Inl e \<Rightarrow> Some \<lparr>sn_result = Inl e, sn_disk = d, sn_shown = None, sn_slept = 0\<rparr>
      | Inr page \<Rightarrow>
          (let shown = Some (unwrap_or (dp_uri_complete page) (dp_uri page), dp_user_code page);
               interval = max (dp_interval page) 1
           in map_option (\<lambda>(m, r).
                case r of
                  Inl e \<Rightarrow> \<lparr>sn_result = Inl e, sn_disk = d, sn_shown = shown, sn_slept = interval * (m - n)\<rparr>
                | Inr i \<Rightarrow>
                    (let (who, d) = cache_and_return lib pc (pc_clock pc m) auth_url provider i d
                     in \<lparr>sn_result = Inr who, sn_disk = d, sn_shown = shown, sn_slept = interval * (m - n)\<rparr>))
              (poll_loop lib (poll_request pc auth_url provider page) (n + 1))))"

definition obtain_at :: "json_lib \<Rightarrow> machine \<Rightarrow> str \<Rightarrow> str \<Rightarrow> disk \<Rightarrow> sign_in option" where
  "obtain_at lib pc auth_url provider d =
     (case opt_filter (\<lambda>c. ca_auth_url c = auth_url \<and> ca_provider c = provider \<and> ca_expiry c > pc_start pc + 60)
            (load_cache lib pc d) of
        Some c \<Rightarrow> Some \<lparr>sn_result = Inr \<lparr>si_token = ca_token c, si_who = ca_student c\<rparr>, sn_disk = d, sn_shown = None, sn_slept = 0\<rparr>
      | None \<Rightarrow>
          (case (if provider = lit ''github'' then opt_filter (\<lambda>gh. gh \<noteq> []) (pc_github_token pc) else None) of
             None \<Rightarrow> device_flow lib pc 0 auth_url provider d
           | Some gh \<Rightarrow>
               (case exchange lib pc 0 auth_url provider gh of
                  Inr i \<Rightarrow>
                    (let (who, d) = cache_and_return lib pc (pc_clock pc 0) auth_url provider i d
                     in Some \<lparr>sn_result = Inr who, sn_disk = d, sn_shown = None, sn_slept = 0\<rparr>)
                | Inl e \<Rightarrow> device_flow lib pc 1 auth_url provider d)))"

definition obtain_identity :: "json_lib \<Rightarrow> machine \<Rightarrow> str \<Rightarrow> str \<Rightarrow> disk \<Rightarrow> sign_in option" where
  "obtain_identity lib pc auth_url provider d =
     obtain_at lib pc (trim_end (\<lambda>c. c = c_slash) auth_url) provider d"

section \<open>When it ends\<close>

declare poll_loop.simps [code]

lemma poll_loop_first:
  assumes "\<forall>k. n \<le> k \<and> k < m \<longrightarrow> polled lib (f k) = None" "polled lib (f m) = Some r" "n \<le> m"
  shows "poll_loop lib f n = Some (m, r)"
  using assms(1,3)
proof (induction "m - n" arbitrary: n)
  case 0
  then have "n = m" by simp
  then show ?case using assms(2) by (subst poll_loop.simps) simp
next
  case (Suc x)
  then have "polled lib (f n) = None" "poll_loop lib f (n + 1) = Some (m, r)" by simp_all
  then show ?case by (subst poll_loop.simps) simp
qed

lemma poll_loop_Some:
  assumes "poll_loop lib f n = Some y"
  shows "n \<le> fst y \<and> polled lib (f (fst y)) = Some (snd y) \<and> (\<forall>k. n \<le> k \<and> k < fst y \<longrightarrow> polled lib (f k) = None)"
proof (rule poll_loop.raw_induct [OF _ assms])
  fix rec lib f n and y :: "nat \<times> (sign_in_error + exchange_resp)"
  assume IH: "\<And>lib f n y. rec lib f n = Some y \<Longrightarrow>
      n \<le> fst y \<and> polled lib (f (fst y)) = Some (snd y) \<and> (\<forall>k. n \<le> k \<and> k < fst y \<longrightarrow> polled lib (f k) = None)"
    and step: "(case polled lib (f n) of None \<Rightarrow> rec lib f (n + 1) | Some r \<Rightarrow> Some (n, r)) = Some y"
  show "n \<le> fst y \<and> polled lib (f (fst y)) = Some (snd y) \<and> (\<forall>k. n \<le> k \<and> k < fst y \<longrightarrow> polled lib (f k) = None)"
  proof (cases "polled lib (f n)")
    case None
    then have "n + 1 \<le> fst y \<and> polled lib (f (fst y)) = Some (snd y) \<and> (\<forall>k. n + 1 \<le> k \<and> k < fst y \<longrightarrow> polled lib (f k) = None)"
      using IH [of lib f "n + 1" y] step by simp
    moreover have "n \<le> k \<Longrightarrow> k = n \<or> n + 1 \<le> k" for k by linarith
    ultimately show ?thesis using None by fastforce
  qed (use step in auto)
qed

lemma poll_loop_ends: "poll_loop lib f n \<noteq> None \<longleftrightarrow> (\<exists>k \<ge> n. polled lib (f k) \<noteq> None)"
proof
  assume "poll_loop lib f n \<noteq> None"
  then obtain y where "poll_loop lib f n = Some y" by blast
  from poll_loop_Some [OF this] show "\<exists>k \<ge> n. polled lib (f k) \<noteq> None" by blast
next
  assume ex: "\<exists>k \<ge> n. polled lib (f k) \<noteq> None"
  define m where "m = (LEAST k. n \<le> k \<and> polled lib (f k) \<noteq> None)"
  have m: "n \<le> m \<and> polled lib (f m) \<noteq> None" unfolding m_def by (rule LeastI_ex) (use ex in blast)
  have "polled lib (f k) = None" if "n \<le> k" "k < m" for k
    using that not_less_Least [of k "\<lambda>k. n \<le> k \<and> polled lib (f k) \<noteq> None"] by (auto simp: m_def)
  with m show "poll_loop lib f n \<noteq> None" using poll_loop_first [of n m lib f] by auto
qed

text \<open>The first request of the device flow, and its page, when it gets there.\<close>

definition fast_path :: "json_lib \<Rightarrow> machine \<Rightarrow> str \<Rightarrow> str \<Rightarrow> (sign_in_error + exchange_resp) option" where
  "fast_path lib pc auth_url provider =
     (case (if provider = lit ''github'' then opt_filter (\<lambda>gh. gh \<noteq> []) (pc_github_token pc) else None) of
        None \<Rightarrow> None
      | Some gh \<Rightarrow> Some (exchange lib pc 0 auth_url provider gh))"

definition cache_hit :: "json_lib \<Rightarrow> machine \<Rightarrow> str \<Rightarrow> str \<Rightarrow> disk \<Rightarrow> cached option" where
  "cache_hit lib pc auth_url provider d =
     opt_filter (\<lambda>c. ca_auth_url c = auth_url \<and> ca_provider c = provider \<and> ca_expiry c > pc_start pc + 60) (load_cache lib pc d)"

lemma obtain_at_cases:
  "obtain_at lib pc url provider d =
     (case cache_hit lib pc url provider d of
        Some c \<Rightarrow> Some \<lparr>sn_result = Inr \<lparr>si_token = ca_token c, si_who = ca_student c\<rparr>, sn_disk = d, sn_shown = None, sn_slept = 0\<rparr>
      | None \<Rightarrow>
          (case fast_path lib pc url provider of
             Some (Inr i) \<Rightarrow>
               (let (who, d) = cache_and_return lib pc (pc_clock pc 0) url provider i d
                in Some \<lparr>sn_result = Inr who, sn_disk = d, sn_shown = None, sn_slept = 0\<rparr>)
           | Some (Inl e) \<Rightarrow> device_flow lib pc 1 url provider d
           | None \<Rightarrow> device_flow lib pc 0 url provider d))"
  unfolding obtain_at_def cache_hit_def [symmetric] fast_path_def
  by (simp split: option.split sum.split)

lemma device_flow_ends:
  "(\<exists>r. device_flow lib pc n url provider d = Some r) \<longleftrightarrow>
     (\<exists>e. start_device lib pc n url provider = Inl e) \<or>
     (\<exists>page m. start_device lib pc n url provider = Inr page \<and> n < m \<and> polled lib (poll_request pc url provider page m) \<noteq> None)"
proof (cases "start_device lib pc n url provider")
  case (Inr page)
  have "(\<exists>r. device_flow lib pc n url provider d = Some r) \<longleftrightarrow> poll_loop lib (poll_request pc url provider page) (n + 1) \<noteq> None"
    using Inr by (simp add: device_flow_def Let_def)
  then show ?thesis using Inr poll_loop_ends [of lib "poll_request pc url provider page" "n + 1"]
    by (simp add: Suc_le_eq)
qed (simp add: device_flow_def)

definition first_reply :: "json_lib \<Rightarrow> (nat \<Rightarrow> reply) \<Rightarrow> nat \<Rightarrow> nat \<Rightarrow> (sign_in_error + exchange_resp) \<Rightarrow> bool" where
  "first_reply lib f n m q \<longleftrightarrow> n < m \<and> polled lib (f m) = Some q \<and> (\<forall>k. n < k \<and> k < m \<longrightarrow> polled lib (f k) = None)"

lemma device_flow_first:
  assumes "start_device lib pc n url provider = Inr page" "first_reply lib (poll_request pc url provider page) n m q"
  shows "\<exists>r. device_flow lib pc n url provider d = Some r \<and>
    sn_shown r = Some (unwrap_or (dp_uri_complete page) (dp_uri page), dp_user_code page) \<and>
    sn_slept r = max (dp_interval page) 1 * (m - n) \<and>
    (sn_result r, sn_disk r) = (case q of Inl e \<Rightarrow> (Inl e, d)
       | Inr i \<Rightarrow> map_prod Inr id (cache_and_return lib pc (pc_clock pc m) url provider i d))"
proof -
  have "poll_loop lib (poll_request pc url provider page) (n + 1) = Some (m, q)"
    using assms(2) by (intro poll_loop_first) (auto simp: first_reply_def)
  then show ?thesis using assms(1)
    by (cases q) (simp_all add: device_flow_def Let_def split: prod.splits)
qed

text \<open>C40: A sign-in ends exactly when the cache serves it, the token of a Codespace is exchanged, the
  device flow cannot start, or some poll is answered by something else than that it is pending: else
  it polls forever. The first such answer decides, an error by ending it and an identity by returning
  and caching it, after at least one second's sleep before each poll, as many as the page asks.\<close>

theorem sign_in_ends:
  assumes "url = trim_end (\<lambda>c. c = c_slash) auth_url" "n = (if fast_path lib pc url provider = None then 0 else 1)"
  shows "((\<exists>r. obtain_identity lib pc auth_url provider d = Some r) \<longleftrightarrow>
      (\<exists>c. cache_hit lib pc url provider d = Some c) \<or> (\<exists>i. fast_path lib pc url provider = Some (Inr i)) \<or>
      (\<exists>e. start_device lib pc n url provider = Inl e) \<or>
      (\<exists>page m q. start_device lib pc n url provider = Inr page \<and> first_reply lib (poll_request pc url provider page) n m q)) \<and>
    (\<forall>page m q. cache_hit lib pc url provider d = None \<and> (\<forall>i. fast_path lib pc url provider \<noteq> Some (Inr i)) \<and>
        start_device lib pc n url provider = Inr page \<and> first_reply lib (poll_request pc url provider page) n m q \<longrightarrow>
      (\<exists>r. obtain_identity lib pc auth_url provider d = Some r \<and>
        sn_shown r = Some (unwrap_or (dp_uri_complete page) (dp_uri page), dp_user_code page) \<and>
        sn_slept r = max (dp_interval page) 1 * (m - n) \<and>
        (sn_result r, sn_disk r) = (case q of Inl e \<Rightarrow> (Inl e, d)
           | Inr i \<Rightarrow> map_prod Inr id (cache_and_return lib pc (pc_clock pc m) url provider i d))))"
proof -
  have flow: "obtain_identity lib pc auth_url provider d = device_flow lib pc n url provider d"
    if "cache_hit lib pc url provider d = None" "\<forall>i. fast_path lib pc url provider \<noteq> Some (Inr i)"
    using that assms by (auto simp: obtain_identity_def obtain_at_cases split: option.splits sum.splits)
  have "(\<exists>m. n < m \<and> polled lib (f m) \<noteq> None) \<longleftrightarrow> (\<exists>m q. first_reply lib f n m q)" for f
  proof
    assume "\<exists>m. n < m \<and> polled lib (f m) \<noteq> None"
    then have "poll_loop lib f (n + 1) \<noteq> None" unfolding poll_loop_ends by (auto simp: Suc_le_eq)
    then obtain m q where "poll_loop lib f (n + 1) = Some (m, q)" by auto
    from poll_loop_Some [OF this] show "\<exists>m q. first_reply lib f n m q" by (auto simp: first_reply_def Suc_le_eq)
  qed (auto simp: first_reply_def)
  then have ends: "(\<exists>r. device_flow lib pc n url provider d = Some r) \<longleftrightarrow>
      (\<exists>e. start_device lib pc n url provider = Inl e) \<or>
      (\<exists>page m q. start_device lib pc n url provider = Inr page \<and> first_reply lib (poll_request pc url provider page) n m q)"
    unfolding device_flow_ends by blast
  have hit: "\<exists>r. obtain_identity lib pc auth_url provider d = Some r"
    if "cache_hit lib pc url provider d = Some c \<or> fast_path lib pc url provider = Some (Inr i)" for c i
    using that assms(1) by (auto simp: obtain_identity_def obtain_at_cases Let_def split: option.splits prod.splits)
  show ?thesis
  proof (intro conjI)
    show "(\<exists>r. obtain_identity lib pc auth_url provider d = Some r) \<longleftrightarrow>
      (\<exists>c. cache_hit lib pc url provider d = Some c) \<or> (\<exists>i. fast_path lib pc url provider = Some (Inr i)) \<or>
      (\<exists>e. start_device lib pc n url provider = Inl e) \<or>
      (\<exists>page m q. start_device lib pc n url provider = Inr page \<and> first_reply lib (poll_request pc url provider page) n m q)"
      using flow ends hit by (cases "cache_hit lib pc url provider d") metis+
  qed (use flow device_flow_first in \<open>metis\<close>)
qed

text \<open>A machine without a token whose second poll brings the identity, at its third request.\<close>

definition demo_page :: json where
  "demo_page = JObject [(lit ''device_code'', JString (lit ''d'')), (lit ''user_code'', JString (lit ''AB'')),
     (lit ''verification_uri'', JString (lit ''u''))]"

definition demo_pending :: json where
  "demo_pending = JObject [(lit ''status'', JString (lit ''pending''))]"

definition demo_identity :: json where
  "demo_identity = JObject [(lit ''identityToken'', JString (lit ''t'')), (lit ''student'', JString (lit ''github:ann'')),
     (lit ''expiresIn'', JNumber (demo_num 28800))]"

definition demo_machine :: machine where
  "demo_machine = \<lparr>pc_post = (\<lambda>n _ _. if n = 0 then Reply 200 (Some demo_page) else if n = 1 then Reply 200 (Some demo_pending)
       else Reply 200 (Some demo_identity)),
     pc_start = 0, pc_clock = (\<lambda>n. 10 * int n), pc_github_token = None, pc_home = True, pc_write = Written\<rparr>"

lemmas json_eval = json_str_def json_get_def as_string_def json_int_def

lemma demo_flow:
  "fast_path demo_json demo_machine url p = None" "cache_hit demo_json demo_machine url p None = None"
  "start_device demo_json demo_machine 0 url p = Inr \<lparr>dp_device_code = lit ''d'', dp_user_code = lit ''AB'', dp_uri = lit ''u'',
     dp_uri_complete = None, dp_interval = 5\<rparr>"
  "first_reply demo_json (poll_request demo_machine url p page) 0 2
     (Inr \<lparr>xr_token = lit ''t'', xr_student = lit ''github:ann'', xr_expires_in = 28800\<rparr>)"
proof -
  show "fast_path demo_json demo_machine url p = None" by (simp add: fast_path_def demo_machine_def)
  show "cache_hit demo_json demo_machine url p None = None" by (simp add: cache_hit_def load_cache_def)
  show "start_device demo_json demo_machine 0 url p = Inr \<lparr>dp_device_code = lit ''d'', dp_user_code = lit ''AB'', dp_uri = lit ''u'',
     dp_uri_complete = None, dp_interval = 5\<rparr>"
    by (simp add: start_device_def checked_body_def demo_machine_def demo_page_def device_page_of_def json_eval
        default_interval_def)
  have one: "polled demo_json (poll_request demo_machine url p page (Suc 0)) = None"
    by (simp add: polled_def poll_request_def demo_machine_def demo_pending_def is_pending_def json_eval)
  have two: "polled demo_json (poll_request demo_machine url p page 2) =
      Some (Inr \<lparr>xr_token = lit ''t'', xr_student = lit ''github:ann'', xr_expires_in = 28800\<rparr>)"
    by (simp add: polled_def poll_request_def demo_machine_def demo_identity_def is_pending_def json_eval exchange_resp_of_def)
      (simp add: lit_def demo_int_def demo_num_def)
  have "k = Suc 0" if "0 < k \<and> k < 2" for k :: nat using that by auto
  then have "\<forall>k. 0 < k \<and> k < 2 \<longrightarrow> polled demo_json (poll_request demo_machine url p page k) = None" using one by metis
  then show "first_reply demo_json (poll_request demo_machine url p page) 0 2
     (Inr \<lparr>xr_token = lit ''t'', xr_student = lit ''github:ann'', xr_expires_in = 28800\<rparr>)"
    using two by (simp add: first_reply_def)
qed

theorem sign_in_ends_witness:
  "\<exists>r. obtain_identity demo_json demo_machine (lit ''s/'') (lit ''github'') None = Some r \<and> sn_slept r = 10 \<and>
     sn_result r = Inr \<lparr>si_token = lit ''t'', si_who = lit ''github:ann''\<rparr>"
proof -
  have url: "lit ''s'' = trim_end (\<lambda>c. c = c_slash) (lit ''s/'')" by (simp add: lit_def trim_end_def)
  have n: "0 = (if fast_path demo_json demo_machine (lit ''s'') (lit ''github'') = None then 0 else 1 :: nat)"
    by (simp add: demo_flow)
  from sign_in_ends [OF url n, of None] demo_flow [of "lit ''s''" "lit ''github''"]
  show ?thesis by (fastforce simp: cache_and_return_def Let_def)
qed

end
