(* ===== verification/Recorder_Trust.thy ===== *)
theory Recorder_Trust
  imports Recorder_Sign_In
begin

text \<open>
  The recorder's sign-in and the server together: the answers of the identity routes as they travel,
  and why a token that a sign-in returns, even from its cache, is one the server accepts.
\<close>

section \<open>The server it signs in to\<close>

text \<open>The answers of \<^verbatim>\<open>http/auth.rs\<close> as they travel: a body that reads as JSON is there, a refusal's text
  is read as any other.\<close>

definition sent :: "json_lib \<Rightarrow> api_error + json \<Rightarrow> reply" where
  "sent lib r =
     (case r of
        Inl e \<Rightarrow> Reply (fst (into_response e)) (js_parse lib (encode (snd (into_response e))))
      | Inr v \<Rightarrow> Reply 200 (js_parse lib (js_print lib v)))"

definition identity_fields :: "json_lib \<Rightarrow> identity_response \<Rightarrow> (str \<times> json) list" where
  "identity_fields lib i =
     [(lit ''identityToken'', JString (ir_token i)), (lit ''student'', JString (ir_student i)),
      (lit ''expiresIn'', JNumber (js_num lib (ir_expires_in i)))]"

definition device_fields :: "json_lib \<Rightarrow> device_start \<Rightarrow> (str \<times> json) list" where
  "device_fields lib dv =
     [(lit ''device_code'', JString (dv_device_code dv)), (lit ''user_code'', JString (dv_user_code dv)),
      (lit ''verification_uri'', JString (dv_verification_uri dv)),
      (lit ''verification_uri_complete'', case dv_verification_uri_complete dv of None \<Rightarrow> JNull | Some u \<Rightarrow> JString u),
      (lit ''interval'', JNumber (js_num lib (int (dv_interval dv)))),
      (lit ''expires_in'', JNumber (js_num lib (int (dv_expires_in dv))))]"

text \<open>The three routes, by path; a body without the fields is refused by the framework.\<close>

definition identity_routes ::
    "json_lib \<Rightarrow> 'key idp_world \<Rightarrow> identity_config \<Rightarrow> nat \<Rightarrow> str \<Rightarrow> json \<Rightarrow> 'key oidc_cache \<Rightarrow> reply \<times> 'key oidc_cache" where
  "identity_routes lib w cfg now path body cache =
     (if path = lit ''/api/auth/exchange'' then
        (case (json_str (lit ''provider'') body, json_str (lit ''token'') body) of
           (Some p, Some t) \<Rightarrow>
             map_prod (\<lambda>r. sent lib (bind_result r (\<lambda>i. Inr (JObject (identity_fields lib i))))) id (auth_exchange w cfg now p t cache)
         | _ \<Rightarrow> (Reply 422 None, cache))
      else if path = lit ''/api/auth/device/start'' then
        (case json_str (lit ''provider'') body of
           Some p \<Rightarrow>
             map_prod (\<lambda>r. sent lib (bind_result r (\<lambda>dv. Inr (JObject (device_fields lib dv))))) id (auth_device_start w cfg now p cache)
         | _ \<Rightarrow> (Reply 422 None, cache))
      else if path = lit ''/api/auth/device/poll'' then
        (case (json_str (lit ''provider'') body, json_str (lit ''deviceCode'') body) of
           (Some p, Some t) \<Rightarrow>
             map_prod (\<lambda>r. sent lib (bind_result r (\<lambda>v. Inr (JObject (case v of
                None \<Rightarrow> [(lit ''status'', JString (lit ''pending''))]
              | Some i \<Rightarrow> identity_fields lib i))))) id (auth_device_poll w cfg now p t cache)
         | _ \<Rightarrow> (Reply 422 None, cache))
      else (Reply 404 None, cache))"

text \<open>The machine's network is that server, or fails; the clocks differ by less than the minute of
  the cache's margin, delays included. Each request meets the world and the caches of its time.\<close>

definition served_by ::
    "json_lib \<Rightarrow> identity_config \<Rightarrow> (nat \<Rightarrow> 'key idp_world) \<Rightarrow> (nat \<Rightarrow> nat) \<Rightarrow> str \<Rightarrow> machine \<Rightarrow> bool" where
  "served_by lib cfg ws clk url pc \<longleftrightarrow>
     (\<forall>n path body. (\<exists>e. pc_post pc n (url @ path) body = No_Reply e) \<or>
        pc_clock pc n \<le> int (clk n) + 60 \<and>
        (\<exists>cache. pc_post pc n (url @ path) body = fst (identity_routes lib (ws n) cfg (clk n) path body cache)))"

definition signed_until :: "'key idp_world \<Rightarrow> identity_config \<Rightarrow> str \<Rightarrow> str \<Rightarrow> int \<Rightarrow> bool" where
  "signed_until w cfg tok student till \<longleftrightarrow>
     (\<exists>secret. ic_secret cfg = Some secret \<and> hs_encode w secret student till = Some tok)"

text \<open>What is cached for this server was signed there, and is not believed past the signature's expiry
  by more than the margin.\<close>

definition trusted_disk :: "json_lib \<Rightarrow> 'key idp_world \<Rightarrow> identity_config \<Rightarrow> str \<Rightarrow> disk \<Rightarrow> bool" where
  "trusted_disk lib w cfg url d \<longleftrightarrow>
     (\<forall>c. Option.bind (Option.bind d (js_parse lib)) (cached_of lib) = Some c \<and> ca_auth_url c = url \<longrightarrow>
        (\<exists>till. signed_until w cfg (ca_token c) (ca_student c) till \<and> ca_expiry c \<le> till + 60))"

lemma sent_object:
  assumes "lawful_json lib" "flat_fields lib fs"
  obtains fs' where "sent lib (Inr (JObject fs)) = Reply 200 (Some (JObject fs'))" "map_of fs' = map_of fs"
  using read_back [OF assms] by (auto simp: sent_def)

lemma keys_differ [simp]:
  "lit ''identityToken'' \<noteq> lit ''student''" "lit ''student'' \<noteq> lit ''identityToken''"
  "lit ''expiresIn'' \<noteq> lit ''student''" "lit ''student'' \<noteq> lit ''expiresIn''"
  "lit ''identityToken'' \<noteq> lit ''expiresIn''" "lit ''expiresIn'' \<noteq> lit ''identityToken''"
  "lit ''status'' \<noteq> lit ''identityToken''" "lit ''identityToken'' \<noteq> lit ''status''"
  by (simp_all add: lit_def)

lemma flat_identity: "flat_fields lib (identity_fields lib i)"
  by (simp add: flat_fields_def identity_fields_def)

lemma identity_sent:
  assumes "lawful_json lib" "sent lib (Inr (JObject (identity_fields lib i))) = Reply st (Some v)" "exchange_resp_of lib v = Some x"
  shows "xr_token x = ir_token i \<and> xr_student x = ir_student i \<and> xr_expires_in x = ir_expires_in i"
proof -
  obtain fs' where "sent lib (Inr (JObject (identity_fields lib i))) = Reply 200 (Some (JObject fs'))"
    and fields: "map_of fs' = map_of (identity_fields lib i)"
    using sent_object [OF assms(1) flat_identity] .
  then have v: "v = JObject fs'" "map_of fs' = map_of (identity_fields lib i)" using assms(2) by simp_all
  have "js_int lib (js_num lib (ir_expires_in i)) = Some (ir_expires_in i)" using assms(1) by (simp add: lawful_json_def)
  then show ?thesis using assms(3) unfolding v(1) exchange_resp_of_def same_fields [OF v(2)]
    by (auto simp: json_eval identity_fields_def)
qed

text \<open>The texts of the refusals a poll can meet, other than the one of status 401, are no objects.\<close>

lemma refusal_no_identity:
  assumes "lawful_json lib" "sent lib (Inl e) = Reply st (Some v)" "exchange_resp_of lib v = Some x"
    "e \<in> range api_error_of \<union> {unavailable (lit ''identity not configured'')}"
  shows "st = 401"
proof (rule ccontr)
  assume st: "st \<noteq> 401"
  have "\<exists>fs. v = JObject fs" using assms(3) by (cases v) (auto simp: exchange_resp_of_def json_eval)
  then obtain fs where fs: "js_parse lib (encode (snd (into_response e))) = Some (JObject fs)"
    using assms(2) by (auto simp: sent_def)
  then have brace: "hd (encode (snd (into_response e))) \<in> {9, 10, 13, 32, 123}"
    using assms(1) unfolding lawful_json_def by blast
  show False
  proof (cases "\<exists>i. e = api_error_of i")
    case True
    then obtain i where "e = api_error_of i" by blast
    then show ?thesis using brace st assms(2)
      by (cases i) (auto simp: sent_def refusals lit_def encode_def encode_char_def)
  next
    case False
    then have "e = unavailable (lit ''identity not configured'')" using assms(4) by auto
    then show ?thesis using brace by (auto simp: refusals lit_def encode_def encode_char_def)
  qed
qed

lemma paths_differ [simp]:
  "lit ''/api/auth/device/poll'' \<noteq> lit ''/api/auth/exchange''" "lit ''/api/auth/device/poll'' \<noteq> lit ''/api/auth/device/start''"
  by (simp_all add: lit_def)

lemma pending_no_identity:
  assumes "lawful_json lib" "sent lib (Inr (JObject [(lit ''status'', JString (lit ''pending''))])) = Reply st (Some v)"
  shows "exchange_resp_of lib v = None"
proof -
  have "flat_fields lib [(lit ''status'', JString (lit ''pending''))]" by (simp add: flat_fields_def)
  from sent_object [OF assms(1) this] obtain fs' where v: "v = JObject fs'" "map_of fs' = map_of [(lit ''status'', JString (lit ''pending''))]"
    unfolding assms(2) by blast
  show ?thesis unfolding v(1) exchange_resp_of_def same_fields [OF v(2)] by (simp add: json_eval)
qed

lemma issue_signs:
  "issue_identity w cfg now student = Inr i \<Longrightarrow>
     signed_until w cfg (ir_token i) (ir_student i) (now + TOKEN_TTL_SECS) \<and> ir_expires_in i = TOKEN_TTL_SECS"
  by (auto simp: issue_identity_def issue_def signed_until_def bind_eq_Some_conv)

lemma exchange_signs:
  assumes "lawful_json lib" "Reply st (Some v) = fst (identity_routes lib w cfg now (lit ''/api/auth/exchange'') body cache)"
    "\<not> (400 \<le> st \<and> st < 600)" "exchange_resp_of lib v = Some x"
  shows "signed_until w cfg (xr_token x) (xr_student x) (int now + TOKEN_TTL_SECS) \<and> xr_expires_in x = TOKEN_TTL_SECS"
proof -
  obtain p t where "json_str (lit ''provider'') body = Some p" "json_str (lit ''token'') body = Some t"
    using assms(2) by (auto simp: identity_routes_def split: option.splits)
  then obtain r cache' where r: "auth_exchange w cfg now p t cache = (r, cache')"
    "sent lib (bind_result r (\<lambda>i. Inr (JObject (identity_fields lib i)))) = Reply st (Some v)"
    using assms(2) by (cases "auth_exchange w cfg now p t cache") (auto simp: identity_routes_def)
  obtain s where s: "verify_idp w cfg now p t cache = (s, cache')" "r = bind_result (map_err api_error_of s) (issue_identity w cfg (int now))"
    using r(1) by (auto simp: auth_exchange_def split: prod.splits)
  show ?thesis
  proof (cases r)
    case (Inl e)
    then have "e \<in> range api_error_of \<union> {unavailable (lit ''identity not configured'')}"
      using s(2) by (cases s) (auto simp: issue_identity_def bind_result_Inl)
    then have "st = 401" using refusal_no_identity [OF assms(1) _ assms(4)] r(2) Inl by simp
    then show ?thesis using assms(3) by simp
  next
    case (Inr i)
    then have "sent lib (Inr (JObject (identity_fields lib i))) = Reply st (Some v)" using r(2) by simp
    from identity_sent [OF assms(1) this assms(4)]
    have x: "xr_token x = ir_token i" "xr_student x = ir_student i" "xr_expires_in x = ir_expires_in i" by simp_all
    show ?thesis using s(2) Inr issue_signs unfolding x by fastforce
  qed
qed

lemma poll_signs:
  assumes "lawful_json lib" "Reply st (Some v) = fst (identity_routes lib w cfg now (lit ''/api/auth/device/poll'') body cache)"
    "st \<noteq> 401" "exchange_resp_of lib v = Some x"
  shows "signed_until w cfg (xr_token x) (xr_student x) (int now + TOKEN_TTL_SECS) \<and> xr_expires_in x = TOKEN_TTL_SECS"
proof -
  obtain p t where "json_str (lit ''provider'') body = Some p" "json_str (lit ''deviceCode'') body = Some t"
    using assms(2) by (auto simp: identity_routes_def split: option.splits)
  then obtain r cache' where r: "auth_device_poll w cfg now p t cache = (r, cache')"
    "sent lib (bind_result r (\<lambda>v. Inr (JObject (case v of
        None \<Rightarrow> [(lit ''status'', JString (lit ''pending''))] | Some i \<Rightarrow> identity_fields lib i)))) = Reply st (Some v)"
    using assms(2) by (cases "auth_device_poll w cfg now p t cache") (auto simp: identity_routes_def)
  obtain s where s: "r = bind_result (map_err api_error_of s) (\<lambda>p. case p of
             Pending \<Rightarrow> Inr None
           | Done student \<Rightarrow> bind_result (issue_identity w cfg (int now) student) (\<lambda>i. Inr (Some i)))"
    using r(1) by (auto simp: auth_device_poll_def split: prod.splits)
  show ?thesis
  proof (cases r)
    case (Inl e)
    then have "e \<in> range api_error_of \<union> {unavailable (lit ''identity not configured'')}"
      using s by (cases s) (auto simp: issue_identity_def bind_result_Inl split: device_poll.splits)
    then have "st = 401" using refusal_no_identity [OF assms(1) _ assms(4)] r(2) Inl by simp
    then show ?thesis using assms(3) by simp
  next
    case (Inr answer)
    show ?thesis
    proof (cases answer)
      case None
      then show ?thesis using r(2) Inr pending_no_identity [OF assms(1)] assms(4) by fastforce
    next
      case (Some i)
      then have "sent lib (Inr (JObject (identity_fields lib i))) = Reply st (Some v)" using r(2) Inr by simp
      from identity_sent [OF assms(1) this assms(4)]
      have x: "xr_token x = ir_token i" "xr_student x = ir_student i" "xr_expires_in x = ir_expires_in i" by simp_all
      obtain student where "issue_identity w cfg (int now) student = Inr i"
        using s [unfolded Inr Some, symmetric] by (cases s) (auto split: device_poll.splits)
      from issue_signs [OF this] show ?thesis unfolding x .
    qed
  qed
qed

lemma exchange_from:
  assumes "lawful_json lib" "served_by lib cfg ws clk url pc" "exchange lib pc n url provider tok = Inr x"
  shows "pc_clock pc n \<le> int (clk n) + 60 \<and>
    signed_until (ws n) cfg (xr_token x) (xr_student x) (int (clk n) + TOKEN_TTL_SECS) \<and> xr_expires_in x = TOKEN_TTL_SECS"
proof -
  let ?body = "JObject [(lit ''provider'', JString provider), (lit ''token'', JString tok)]"
  obtain st v where r: "pc_post pc n (url @ lit ''/api/auth/exchange'') ?body = Reply st (Some v)"
    "\<not> (400 \<le> st \<and> st < 600)" "exchange_resp_of lib v = Some x"
    using assms(3) by (auto simp: exchange_def checked_body_def split: reply.splits if_splits)
  then show ?thesis
    using assms(2)[unfolded served_by_def, rule_format, of n "lit ''/api/auth/exchange''" ?body] exchange_signs [OF assms(1)]
    by (metis reply.distinct(1))
qed

lemma poll_from:
  assumes "lawful_json lib" "served_by lib cfg ws clk url pc" "polled lib (poll_request pc url provider page n) = Some (Inr x)"
  shows "pc_clock pc n \<le> int (clk n) + 60 \<and>
    signed_until (ws n) cfg (xr_token x) (xr_student x) (int (clk n) + TOKEN_TTL_SECS) \<and> xr_expires_in x = TOKEN_TTL_SECS"
proof -
  let ?body = "JObject [(lit ''provider'', JString provider), (lit ''deviceCode'', JString (dp_device_code page))]"
  obtain st v where r: "pc_post pc n (url @ lit ''/api/auth/device/poll'') ?body = Reply st (Some v)"
    "st \<noteq> 401" "exchange_resp_of lib v = Some x"
    using assms(3) by (auto simp: polled_def poll_request_def split: reply.splits if_splits option.splits)
  then show ?thesis
    using assms(2)[unfolded served_by_def, rule_format, of n "lit ''/api/auth/device/poll''" ?body] poll_signs [OF assms(1)]
    by (metis reply.distinct(1))
qed

lemma cached_keys [simp]:
  "lit ''auth_url'' \<noteq> lit ''provider''" "lit ''provider'' \<noteq> lit ''auth_url''" "lit ''auth_url'' \<noteq> lit ''token''"
  "lit ''token'' \<noteq> lit ''auth_url''" "lit ''provider'' \<noteq> lit ''token''" "lit ''token'' \<noteq> lit ''provider''"
  "lit ''auth_url'' \<noteq> lit ''student''" "lit ''student'' \<noteq> lit ''auth_url''" "lit ''provider'' \<noteq> lit ''student''"
  "lit ''student'' \<noteq> lit ''provider''" "lit ''token'' \<noteq> lit ''student''" "lit ''student'' \<noteq> lit ''token''"
  "lit ''auth_url'' \<noteq> lit ''expiry''" "lit ''expiry'' \<noteq> lit ''auth_url''" "lit ''provider'' \<noteq> lit ''expiry''"
  "lit ''expiry'' \<noteq> lit ''provider''" "lit ''token'' \<noteq> lit ''expiry''" "lit ''expiry'' \<noteq> lit ''token''"
  "lit ''student'' \<noteq> lit ''expiry''" "lit ''expiry'' \<noteq> lit ''student''"
  by (simp_all add: lit_def)

text \<open>A cache file that is written reads back, one that is cut short does not read.\<close>

lemma saved_reads_back:
  assumes "lawful_json lib" "save_cache lib pc c d = d'"
    "Option.bind (Option.bind d' (js_parse lib)) (cached_of lib) = Some c'"
  shows "d' = d \<or> c' = c"
proof -
  obtain fs where fs: "cached_json lib c = JObject fs" "flat_fields lib fs"
    by (simp add: cached_json_def flat_fields_def)
  from read_back [OF assms(1) fs(2)] obtain fs' where fs':
    "js_parse lib (js_print lib (cached_json lib c)) = Some (JObject fs')" "map_of fs' = map_of fs" unfolding fs(1) by blast
  have "js_int lib (js_num lib n) = Some n" for n using assms(1) by (simp add: lawful_json_def)
  moreover have "fs = [(lit ''auth_url'', JString (ca_auth_url c)), (lit ''provider'', JString (ca_provider c)),
      (lit ''token'', JString (ca_token c)), (lit ''student'', JString (ca_student c)),
      (lit ''expiry'', JNumber (js_num lib (ca_expiry c)))]" using fs(1) by (simp add: cached_json_def)
  ultimately have whole: "cached_of lib (JObject fs') = Some c"
    unfolding cached_of_def same_fields [OF fs'(2)] by (simp add: json_eval)
  have cut: "js_parse lib (take n (js_print lib (cached_json lib c))) = None \<or>
      take n (js_print lib (cached_json lib c)) = js_print lib (cached_json lib c)" for n
    using assms(1) fs unfolding lawful_json_def by (metis linorder_not_less take_all)
  show ?thesis
  proof (cases "d' = d")
    case False
    then obtain n where n: "d' = Some (take n (js_print lib (cached_json lib c)))"
      using assms(2) by (auto simp: save_cache_def split: if_splits write_outcome.splits intro: that [of "length (js_print lib (cached_json lib c))"])
    have "js_parse lib (take n (js_print lib (cached_json lib c))) \<noteq> None" using assms(3) n by (auto simp: bind_eq_Some_conv)
    then have "d' = Some (js_print lib (cached_json lib c))" using cut [of n] n by metis
    then show ?thesis using assms(3) whole fs'(1) by simp
  qed simp
qed

lemma cache_and_return_trusted:
  assumes "lawful_json lib" "trusted_disk lib w cfg url d" "cache_and_return lib pc now url provider i d = (who, d')"
    "signed_until w cfg (xr_token i) (xr_student i) (int issued + TOKEN_TTL_SECS)" "xr_expires_in i = TOKEN_TTL_SECS"
    "now \<le> int issued + 60"
  shows "trusted_disk lib w cfg url d' \<and> who = \<lparr>si_token = xr_token i, si_who = xr_student i\<rparr>"
proof -
  let ?c = "\<lparr>ca_auth_url = url, ca_provider = provider, ca_token = xr_token i, ca_student = xr_student i,
               ca_expiry = now + xr_expires_in i\<rparr>"
  have d': "save_cache lib pc ?c d = d'" and who: "who = \<lparr>si_token = xr_token i, si_who = xr_student i\<rparr>"
    using assms(3) by (auto simp: cache_and_return_def Let_def)
  have "\<exists>till. signed_until w cfg (ca_token c) (ca_student c) till \<and> ca_expiry c \<le> till + 60"
    if c: "Option.bind (Option.bind d' (js_parse lib)) (cached_of lib) = Some c" "ca_auth_url c = url" for c
    using saved_reads_back [OF assms(1) d' c(1)]
  proof
    assume "d' = d"
    then show ?thesis using assms(2) c unfolding trusted_disk_def by blast
  next
    assume "c = ?c"
    then show ?thesis using assms(4-6) by (intro exI [of _ "int issued + TOKEN_TTL_SECS"]) simp
  qed
  then show ?thesis using who by (simp add: trusted_disk_def)
qed

definition honest_tokens :: "'key idp_world \<Rightarrow> bool" where
  "honest_tokens w \<longleftrightarrow> (\<forall>secret student till tok t.
     hs_encode w secret student till = Some tok \<and> t < till \<longrightarrow> hs_decode w t secret tok = Some student)"

lemma signed_verifies:
  "honest_tokens w \<Longrightarrow> signed_until w cfg tok student till \<Longrightarrow> t < till \<Longrightarrow> verify w cfg t tok = Some student"
  by (auto simp: honest_tokens_def signed_until_def verify_def)

lemma device_flow_result:
  assumes "device_flow lib pc n url provider d = Some r"
  shows "(\<exists>e. sn_result r = Inl e) \<and> sn_disk r = d \<or>
    (\<exists>m page x who. polled lib (poll_request pc url provider page m) = Some (Inr x) \<and>
       cache_and_return lib pc (pc_clock pc m) url provider x d = (who, sn_disk r) \<and> sn_result r = Inr who)"
proof (cases "start_device lib pc n url provider")
  case (Inr page)
  then obtain m q where p: "poll_loop lib (poll_request pc url provider page) (n + 1) = Some (m, q)"
    using assms by (auto simp: device_flow_def Let_def)
  have "polled lib (poll_request pc url provider page m) = Some q" using poll_loop_Some [OF p] by simp
  then show ?thesis using assms Inr p
    by (cases q) (auto simp: device_flow_def Let_def split: prod.splits)
qed (use assms in \<open>auto simp: device_flow_def\<close>)

text \<open>A result freshly issued and cached, and one read from the cache, is accepted.\<close>

lemma issued_is_accepted:
  assumes "lawful_json lib" "honest_tokens w" "trusted_disk lib w cfg url d" "hs_encode (ws n) = hs_encode w"
    and cached: "cache_and_return lib pc (pc_clock pc n) url provider x d = (who', d')"
    and issued: "pc_clock pc n \<le> int (clk n) + 60 \<and> signed_until (ws n) cfg (xr_token x) (xr_student x) (int (clk n) + TOKEN_TTL_SECS) \<and>
      xr_expires_in x = TOKEN_TTL_SECS"
  shows "trusted_disk lib w cfg url d' \<and>
    (\<exists>till. pc_clock pc n + 8 * 60 * 60 - 60 \<le> till \<and> (\<forall>t < till. verify w cfg t (si_token who') = Some (si_who who')))"
proof -
  have sg: "signed_until w cfg (xr_token x) (xr_student x) (int (clk n) + TOKEN_TTL_SECS)"
    using issued assms(4) by (simp add: signed_until_def)
  have tr: "trusted_disk lib w cfg url d'" "who' = \<lparr>si_token = xr_token x, si_who = xr_student x\<rparr>"
    using cache_and_return_trusted [OF assms(1,3) cached sg] issued by simp_all
  have "\<forall>t < int (clk n) + TOKEN_TTL_SECS. verify w cfg t (xr_token x) = Some (xr_student x)"
    using signed_verifies [OF assms(2) sg] by blast
  moreover have "pc_clock pc n + 8 * 60 * 60 - 60 \<le> int (clk n) + TOKEN_TTL_SECS" using issued by (simp add: TOKEN_TTL_SECS_def)
  ultimately show ?thesis using tr
    by (intro conjI exI [of _ "int (clk n) + TOKEN_TTL_SECS"]) simp_all
qed

lemma hit_is_accepted:
  assumes "honest_tokens w" "trusted_disk lib w cfg url d" "cache_hit lib pc url provider d = Some c"
  shows "\<exists>till. pc_start pc < till \<and> (\<forall>t < till. verify w cfg t (ca_token c) = Some (ca_student c))"
proof -
  have c: "ca_auth_url c = url" "ca_expiry c > pc_start pc + 60"
    "Option.bind (Option.bind d (js_parse lib)) (cached_of lib) = Some c"
    using assms(3) by (auto simp: cache_hit_def load_cache_def split: if_splits)
  then obtain till where "signed_until w cfg (ca_token c) (ca_student c) till" "ca_expiry c \<le> till + 60"
    using assms(2) unfolding trusted_disk_def by blast
  then show ?thesis using c(2) signed_verifies [OF assms(1)] by (intro exI [of _ till]) auto
qed

text \<open>C9: Who signs in is accepted: with a server that runs the identity routes and whose clock is no
  more than a minute behind, the token and name a sign-in returns, from the cache, the exchange or the
  device flow, are ones the server signed and verifies, from the cache at least until the sign-in
  began and otherwise for eight hours less that minute; and the cache file it leaves is again one
  whose entry for the server may be believed, so this holds of every later sign-in.\<close>

theorem signed_in_student_is_accepted:
  assumes "lawful_json lib" "url = trim_end (\<lambda>c. c = c_slash) auth_url" "served_by lib cfg ws clk url pc"
    "\<And>n. hs_encode (ws n) = hs_encode w" "honest_tokens w" "trusted_disk lib w cfg url d"
    "obtain_identity lib pc auth_url provider d = Some r"
  shows "trusted_disk lib w cfg url (sn_disk r) \<and>
    (sn_result r = Inr who \<longrightarrow>
      (\<exists>till. pc_start pc < till \<and> (\<forall>t < till. verify w cfg t (si_token who) = Some (si_who who)) \<and>
        cache_hit lib pc url provider d \<noteq> None) \<or>
      (\<exists>n till. pc_clock pc n + 8 * 60 * 60 - 60 \<le> till \<and> (\<forall>t < till. verify w cfg t (si_token who) = Some (si_who who))))"
proof -
  note at = assms(7)[unfolded obtain_identity_def, folded assms(2), unfolded obtain_at_cases]
  have fresh: ?thesis if "cache_and_return lib pc (pc_clock pc n) url provider x d = (who', sn_disk r)" "sn_result r = Inr who'"
    "pc_clock pc n \<le> int (clk n) + 60 \<and> signed_until (ws n) cfg (xr_token x) (xr_student x) (int (clk n) + TOKEN_TTL_SECS) \<and>
      xr_expires_in x = TOKEN_TTL_SECS" for n x who'
    using issued_is_accepted [where ws = ws and n = n and clk = clk, OF assms(1,5,6,4) that(1,3)] that(2) by auto
  have flow: ?thesis if "device_flow lib pc n url provider d = Some r" for n
    using device_flow_result [OF that]
  proof (elim disjE conjE exE)
    fix m page x who'
    assume "polled lib (poll_request pc url provider page m) = Some (Inr x)"
      and c: "cache_and_return lib pc (pc_clock pc m) url provider x d = (who', sn_disk r)" "sn_result r = Inr who'"
    from poll_from [OF assms(1,3) this(1)] show ?thesis by (rule fresh [OF c])
  qed (use assms(6) in simp)
  show ?thesis
  proof (cases "cache_hit lib pc url provider d")
    case (Some c)
    moreover have "r = \<lparr>sn_result = Inr \<lparr>si_token = ca_token c, si_who = ca_student c\<rparr>, sn_disk = d, sn_shown = None, sn_slept = 0\<rparr>"
      using at Some by simp
    ultimately show ?thesis using assms(6) hit_is_accepted [OF assms(5,6)] by auto
  next
    case None
    show ?thesis
    proof (cases "fast_path lib pc url provider")
      case fast: (Some q)
      then obtain gh where gh: "exchange lib pc 0 url provider gh = q" by (auto simp: fast_path_def split: option.splits)
      show ?thesis
      proof (cases q)
        case (Inr x)
        obtain who' d' where "cache_and_return lib pc (pc_clock pc 0) url provider x d = (who', d')" by fastforce
        then have "cache_and_return lib pc (pc_clock pc 0) url provider x d = (who', sn_disk r)" "sn_result r = Inr who'"
          using at None fast Inr by auto
        then show ?thesis using exchange_from [OF assms(1,3) gh [unfolded Inr]] by (rule fresh)
      qed (use at None fast flow in auto)
    qed (use at None flow in auto)
  qed
qed

text \<open>A Codespace of ann's and a server that signs by writing the expiry before the name.\<close>

definition honest_world :: "unit idp_world" where
  "honest_world = gh_world\<lparr>hs_encode := (\<lambda>_ s till. Some (Cp (nat till) # s)),
     hs_decode := (\<lambda>now _ tok. case tok of Cp e # s \<Rightarrow> if now < int e then Some s else None | [] \<Rightarrow> None)\<rparr>"

definition codespace :: machine where
  "codespace = \<lparr>pc_post = (\<lambda>n url body.
       (case strip_prefix (lit ''s'') url of
          None \<Rightarrow> No_Reply []
        | Some path \<Rightarrow> fst (identity_routes demo_json honest_world gh_config 10 path body []))),
     pc_start = 9, pc_clock = (\<lambda>_. 11), pc_github_token = Some (lit ''gho''), pc_home = True, pc_write = Written\<rparr>"

lemma honest_world_ok: "honest_tokens honest_world"
  by (auto simp: honest_tokens_def honest_world_def gh_world_def)

lemma codespace_served: "served_by demo_json gh_config (\<lambda>_. honest_world) (\<lambda>_. 10) (lit ''s'') codespace"
proof -
  have "strip_prefix (lit ''s'') (lit ''s'' @ path) = Some path" for path
    by (simp add: strip_prefix_def lit_def)
  then show ?thesis by (auto simp: served_by_def codespace_def)
qed

lemma codespace_exchanges:
  "exchange demo_json codespace 0 (lit ''s'') (lit ''github'') (lit ''gho'') =
     Inr \<lparr>xr_token = Cp 28810 # lit ''github:ann'', xr_student = lit ''github:ann'', xr_expires_in = 28800\<rparr>"
proof -
  let ?body = "JObject [(lit ''provider'', JString (lit ''github'')), (lit ''token'', JString (lit ''gho''))]"
  have "lit ''provider'' \<noteq> lit ''token''" by (simp add: lit_def)
  then have body: "json_str (lit ''provider'') ?body = Some (lit ''github'')" "json_str (lit ''token'') ?body = Some (lit ''gho'')"
    by (simp_all add: json_eval)
  have "auth_exchange honest_world gh_config 10 (lit ''github'') (lit ''gho'') [] =
      (Inr \<lparr>ir_token = Cp 28810 # lit ''github:ann'', ir_student = lit ''github:ann'', ir_expires_in = 28800\<rparr>, [])"
    by (simp add: auth_exchange_def verify_idp_def provider_named_def github_login_def student_id_def
        issue_identity_def issue_def gh_config_def gh_world_def honest_world_def TOKEN_TTL_SECS_def) (simp add: lit_def)
  moreover obtain fs' where fs': "sent demo_json (Inr (JObject (identity_fields demo_json
      \<lparr>ir_token = Cp 28810 # lit ''github:ann'', ir_student = lit ''github:ann'', ir_expires_in = 28800\<rparr>))) = Reply 200 (Some (JObject fs'))"
    "map_of fs' = map_of (identity_fields demo_json
      \<lparr>ir_token = Cp 28810 # lit ''github:ann'', ir_student = lit ''github:ann'', ir_expires_in = 28800\<rparr>)"
    using sent_object [OF lawful_demo flat_identity] .
  ultimately have "pc_post codespace 0 (lit ''s'' @ lit ''/api/auth/exchange'') ?body = Reply 200 (Some (JObject fs'))"
    using body by (simp add: codespace_def identity_routes_def)
  moreover have "exchange_resp_of demo_json (JObject fs') =
      Some \<lparr>xr_token = Cp 28810 # lit ''github:ann'', xr_student = lit ''github:ann'', xr_expires_in = 28800\<rparr>"
    unfolding exchange_resp_of_def same_fields [OF fs'(2)] by (simp add: json_eval identity_fields_def demo_int_def demo_num_def)
  ultimately show ?thesis by (simp add: exchange_def checked_body_def)
qed

theorem signed_in_student_is_accepted_witness:
  "\<exists>r who till. obtain_identity demo_json codespace (lit ''s/'') (lit ''github'') None = Some r \<and> sn_result r = Inr who \<and>
     20 < till \<and> (\<forall>t < till. verify honest_world gh_config t (si_token who) = Some (si_who who))"
proof -
  have url: "lit ''s'' = trim_end (\<lambda>c. c = c_slash) (lit ''s/'')" by (simp add: lit_def trim_end_def)
  have trusted: "trusted_disk demo_json honest_world gh_config (lit ''s'') None" by (simp add: trusted_disk_def)
  have miss: "cache_hit demo_json codespace (lit ''s'') p None = None" for p by (simp add: cache_hit_def load_cache_def)
  have "fast_path demo_json codespace (lit ''s'') (lit ''github'') =
      Some (exchange demo_json codespace 0 (lit ''s'') (lit ''github'') (lit ''gho''))"
    by (simp add: fast_path_def codespace_def)
  then obtain r who where r: "obtain_identity demo_json codespace (lit ''s/'') (lit ''github'') None = Some r" "sn_result r = Inr who"
    by (simp add: obtain_identity_def url [symmetric] obtain_at_cases miss codespace_exchanges cache_and_return_def Let_def)
  from signed_in_student_is_accepted [OF lawful_demo url codespace_served refl honest_world_ok trusted r(1), of who] r(2) miss
  obtain n till where "pc_clock codespace n + 8 * 60 * 60 - 60 \<le> till"
    "\<forall>t < till. verify honest_world gh_config t (si_token who) = Some (si_who who)" by auto
  then show ?thesis using r by (intro exI conjI) (auto simp: codespace_def)
qed

end
