(* ===== verification/Recorder_Course.thy ===== *)
theory Recorder_Course
  imports Course_Api Recorder_Sign_In
begin

text \<open>
  \<^verbatim>\<open>hermione course\<close>, \<^verbatim>\<open>crates/recorder/src/course.rs\<close>: creating a course over the server's API,
  with the exercises found in the repository one sits in, and writing a \<^verbatim>\<open>.hermione.json\<close> that
  maps folders to exercises. The directory, git, the keyboard and the server are parameters; a
  JSON document is the value it reads as, and the server a function of one call and its state. The
  lemmas show that the command finds the exercises the server would find, and that a written
  mapping is found again.
\<close>

section \<open>Its copies of the server's rules\<close>

definition slug_step :: "rchar \<Rightarrow> str \<times> bool \<Rightarrow> str \<times> bool" where
  "slug_step ch s =
     (let (out, prev_dash) = s in
      if is_ascii_alphanumeric ch then (out @ [ascii_lower ch], False)
      else if out \<noteq> [] \<and> \<not> prev_dash then (out @ [c_dash], True)
      else s)"

definition normalize_slug_cli :: "str \<Rightarrow> str option" where
  "normalize_slug_cli raw =
     (let slug = trim_matches (\<lambda>c. c = c_dash) (fst (fold slug_step (trim raw) ([], False)))
      in if slug \<noteq> [] then Some slug else None)"

definition repo_short_name_cli :: "str \<Rightarrow> str option" where
  "repo_short_name_cli repo_url =
     (let trimmed = trim_end (\<lambda>c. c = c_slash) (trim repo_url);
          tail = last (split_on (\<lambda>c. c = c_slash \<or> c = c_colon) trimmed);
          name = trim (unwrap_or (strip_suffix (lit ''.git'') tail) tail)
      in if name \<noteq> [] then Some name else None)"

definition title_from_slug_cli :: "str \<Rightarrow> str" where
  "title_from_slug_cli slug =
     join_with [c_space] (map (\<lambda>w. case w of [] \<Rightarrow> [] | first # chars \<Rightarrow> [ascii_upper first] @ chars)
       (filter (\<lambda>w. w \<noteq> []) (split_on (\<lambda>c. c = c_dash \<or> c = c_underscore) slug)))"

definition is_ignored_dir_cli :: "str \<Rightarrow> bool" where
  "is_ignored_dir_cli name \<longleftrightarrow> starts_with (lit ''.'') name \<or>
     name \<in> set (map lit [''node_modules'', ''target'', ''dist'', ''build'', ''out'', ''bin'', ''obj'',
       ''vendor'', ''__pycache__''])"

lemma slug_step_loop: "fst (fold slug_step cs (out, prev_dash)) = slug_loop cs out prev_dash"
  by (induction cs arbitrary: out prev_dash) (simp_all add: slug_step_def)

lemma same_rules [simp]:
  "normalize_slug_cli = normalize_slug" "repo_short_name_cli = repo_short_name" "title_from_slug_cli = title_from_slug"
  "is_ignored_dir_cli = is_ignored_dir"
proof -
  show "normalize_slug_cli = normalize_slug"
    by (intro ext) (simp add: normalize_slug_cli_def normalize_slug_def slug_step_loop)
  show "repo_short_name_cli = repo_short_name"
    by (intro ext) (simp add: repo_short_name_cli_def repo_short_name_def)
  have "(\<lambda>w. case w of [] \<Rightarrow> [] | first # chars \<Rightarrow> [ascii_upper first] @ chars) = title_word"
    by (intro ext) (simp add: title_word_def split: list.splits)
  then show "title_from_slug_cli = title_from_slug" by (intro ext) (simp add: title_from_slug_cli_def title_from_slug_def)
  show "is_ignored_dir_cli = is_ignored_dir"
    by (intro ext) (simp add: is_ignored_dir_cli_def is_ignored_dir_def)
qed

section \<open>The directory\<close>

text \<open>What a command can fail with.\<close>

datatype cli_error =
    Io str
  | No_Folders
  | Is_Link
  | Already_There
  | No_Slug_Given
  | No_Credential
  | Git_Not_Run str
  | No_Origin
  | Empty_Origin
  | Call_Failed str
  | Sign_In_Refused nat
  | No_Cookie
  | Create_Rejected nat str
  | Seeding_Failed nat str
  | Cancelled
  | Key_Error str

text \<open>An entry of a listing, each of which may fail to be read, as may its kind.\<close>

record dir_entry =
  de_name :: str
  de_dir :: "str + bool"

type_synonym listing = "str + (str + dir_entry) list"

fun scan_loop :: "(str + dir_entry) list \<Rightarrow> str list \<Rightarrow> cli_error + str list" where
  "scan_loop [] out = Inr out"
| "scan_loop (Inl e # es) out = Inl (Io e)"
| "scan_loop (Inr entry # es) out =
     (case de_dir entry of
        Inl e \<Rightarrow> Inl (Io e)
      | Inr is_dir \<Rightarrow>
          if \<not> is_dir then scan_loop es out
          else if \<not> is_ignored_dir_cli (de_name entry) then scan_loop es (out @ [de_name entry])
          else scan_loop es out)"

definition scan_exercise_folders :: "listing \<Rightarrow> cli_error + str list" where
  "scan_exercise_folders lst = bind_result (map_err Io lst) (\<lambda>es. scan_loop es [])"

text \<open>What is at the path of the mapping: nothing, a file and what it reads as, a folder, or a link
  and what reading through it gives.\<close>

datatype node = Absent | Regular "json option" | Folder | Link "json option option"

definition read_node :: "node \<Rightarrow> json option option" where
  "read_node n = (case n of Regular c \<Rightarrow> Some c | Link t \<Rightarrow> t | _ \<Rightarrow> None)"

section \<open>Exercises of the repository\<close>

record discovered_exercise =
  xd_slug :: str
  xd_title :: str

definition discovered_cli :: "str \<Rightarrow> discovered_exercise" where
  "discovered_cli s = \<lparr>xd_slug = s, xd_title = title_from_slug_cli s\<rparr>"

fun config_items :: "json list \<Rightarrow> discovered_exercise list \<Rightarrow> discovered_exercise list" where
  "config_items [] out = out"
| "config_items (ex # exs) out =
     (case json_str (lit ''name'') ex of
        None \<Rightarrow> config_items exs out
      | Some name \<Rightarrow>
          (case normalize_slug_cli name of
             None \<Rightarrow> config_items exs out
           | Some s \<Rightarrow>
               if list_ex (\<lambda>e. xd_slug e = s) out then config_items exs out
               else config_items exs (out @ [discovered_cli s])))"

definition exercises_from_config_cli :: "json \<Rightarrow> discovered_exercise list" where
  "exercises_from_config_cli cfg =
     (case Option.bind (json_get (lit ''exercises'') cfg) as_array of
        None \<Rightarrow> []
      | Some arr \<Rightarrow> config_items arr [])"

fun folder_loop :: "(str + dir_entry) list \<Rightarrow> discovered_exercise list \<Rightarrow> cli_error + discovered_exercise list" where
  "folder_loop [] out = Inr out"
| "folder_loop (Inl e # es) out = Inl (Io e)"
| "folder_loop (Inr entry # es) out =
     (case de_dir entry of
        Inl e \<Rightarrow> Inl (Io e)
      | Inr is_dir \<Rightarrow>
          if \<not> is_dir then folder_loop es out
          else if is_ignored_dir_cli (de_name entry) then folder_loop es out
          else (case normalize_slug_cli (de_name entry) of
                  Some s \<Rightarrow> folder_loop es (out @ [discovered_cli s])
                | None \<Rightarrow> folder_loop es out))"

definition discover_exercises_cli :: "node \<Rightarrow> listing \<Rightarrow> cli_error + discovered_exercise list" where
  "discover_exercises_cli config lst =
     (let from_config = (case read_node config of
            Some (Some cfg) \<Rightarrow> exercises_from_config_cli cfg
          | _ \<Rightarrow> [])
      in if from_config \<noteq> [] then Inr from_config
         else bind_result (map_err Io lst) (\<lambda>es.
              bind_result (folder_loop es []) (\<lambda>out. Inr (dedup_by xd_slug (sort_key xd_slug out)))))"

section \<open>Writing the mapping\<close>

record exercise_rule =
  er_name :: str
  er_pattern :: str

text \<open>The rules, and the slugs that have been seen.\<close>

fun rules_loop :: "str list \<Rightarrow> str set \<Rightarrow> exercise_rule list" where
  "rules_loop [] seen = []"
| "rules_loop (folder # folders) seen =
     (case normalize_slug_cli folder of
        None \<Rightarrow> rules_loop folders seen
      | Some s \<Rightarrow>
          if s \<in> seen then rules_loop folders seen
          else \<lparr>er_name = s, er_pattern = folder @ lit ''/**''\<rparr> # rules_loop folders (insert s seen))"

definition exercise_rules_for_folders :: "str list \<Rightarrow> exercise_rule list" where
  "exercise_rules_for_folders folders = rules_loop folders {}"

definition config_json :: "exercise_rule list \<Rightarrow> json" where
  "config_json rules = JObject [(lit ''exercises'', JArray (map (\<lambda>r.
     JObject [(lit ''name'', JString (er_name r)), (lit ''match'', JString (er_pattern r))]) rules))]"

text \<open>Without force the file is created new; with it a link is refused and anything else written to.\<close>

definition write_config :: "write_outcome \<Rightarrow> node \<Rightarrow> json \<Rightarrow> bool \<Rightarrow> (cli_error + unit) \<times> node" where
  "write_config w n text force =
     (let written = (case w of
            Written \<Rightarrow> (Inr (), Regular (Some text))
          | Not_Opened \<Rightarrow> (Inl (Io []), n)
          | Cut_Short _ \<Rightarrow> (Inl (Io []), Regular None))
      in if force then
           (case n of
              Link _ \<Rightarrow> (Inl Is_Link, n)
            | Folder \<Rightarrow> (Inl (Io []), n)
            | _ \<Rightarrow> written)
         else if n = Absent then written
         else (Inl Already_There, n))"

definition has_wildcard :: "str \<Rightarrow> bool" where
  "has_wildcard f \<longleftrightarrow> Cp 42 \<in> set f \<or> Cp 63 \<in> set f"

text \<open>The names written and the folders skipped, and what is then at the path.\<close>

definition init :: "write_outcome \<Rightarrow> listing \<Rightarrow> node \<Rightarrow> bool \<Rightarrow> (cli_error + str list \<times> str list) \<times> node" where
  "init w lst n force =
     (case scan_exercise_folders lst of
        Inl e \<Rightarrow> (Inl e, n)
      | Inr folders \<Rightarrow>
          (let (usable, skipped) = partition (\<lambda>f. \<not> has_wildcard f) (sort folders);
               rules = sort_key er_name (exercise_rules_for_folders usable)
           in if rules = [] then (Inl No_Folders, n)
              else (case write_config w n (config_json rules) force of
                      (Inl e, n) \<Rightarrow> (Inl e, n)
                    | (Inr _, n) \<Rightarrow> (Inr (map er_name rules, skipped), n))))"

section \<open>Asking git and the keyboard\<close>

text \<open>\<^verbatim>\<open>git remote get-url origin\<close>: it could not be run, or whether it succeeded and its output.\<close>

definition git_origin :: "str + bool \<times> byte list \<Rightarrow> cli_error + str" where
  "git_origin out =
     (case out of
        Inl e \<Rightarrow> Inl (Git_Not_Run e)
      | Inr (success, stdout) \<Rightarrow>
          if \<not> success then Inl No_Origin
          else (let url = trim (from_utf8_lossy stdout) in if url = [] then Inl Empty_Origin else Inr url))"

text \<open>A key with whether control is held; other events are \<open>Not_A_Key\<close>.\<close>

datatype key_event = Enter | Key_Char rchar bool | Backspace | Other_Key | Not_A_Key

text \<open>\<open>None\<close> while no line is entered.\<close>

fun prompt_loop :: "(str + key_event) list \<Rightarrow> str \<Rightarrow> (cli_error + str) option" where
  "prompt_loop [] pw = None"
| "prompt_loop (Inl e # evs) pw = Some (Inl (Key_Error e))"
| "prompt_loop (Inr Enter # evs) pw = Some (Inr pw)"
| "prompt_loop (Inr (Key_Char c control) # evs) pw =
     (if c = Cp 99 \<and> control then Some (Inl Cancelled) else prompt_loop evs (pw @ [c]))"
| "prompt_loop (Inr Backspace # evs) pw = prompt_loop evs (butlast pw)"
| "prompt_loop (Inr _ # evs) pw = prompt_loop evs pw"

definition prompt_password :: "(str + key_event) list \<Rightarrow> (cli_error + str) option" where
  "prompt_password evs = prompt_loop evs []"

section \<open>The server, as the command calls it\<close>

text \<open>The four calls, with the credential each carries, and a reply: its status, its cookie header and
  its body, as text and as the JSON it reads as.\<close>

datatype course_call =
    Post_Login str str
  | Post_Admin_Course str new_course
  | Post_Course str new_course
  | Post_Exercises str str "exercise_in list"

record http_reply =
  hr_status :: nat
  hr_set_cookie :: "str option"
  hr_text :: str
  hr_json :: "json option"

type_synonym 's web = "course_call \<Rightarrow> 's \<Rightarrow> (str + http_reply) \<times> 's"

definition is_success :: "http_reply \<Rightarrow> bool" where
  "is_success r \<longleftrightarrow> 200 \<le> hr_status r \<and> hr_status r < 300"

text \<open>\<open>typed\<close> is the line entered at the prompt, if one is asked for.\<close>

definition login_cli :: "'s web \<Rightarrow> str \<Rightarrow> str option \<Rightarrow> cli_error + str \<Rightarrow> 's \<Rightarrow> (cli_error + str) \<times> 's" where
  "login_cli web user password typed s =
     (case (case opt_filter (\<lambda>p. p \<noteq> []) password of Some p \<Rightarrow> Inr p | None \<Rightarrow> typed) of
        Inl e \<Rightarrow> (Inl e, s)
      | Inr password \<Rightarrow>
          (case web (Post_Login user password) s of
             (Inl e, s) \<Rightarrow> (Inl (Call_Failed e), s)
           | (Inr r, s) \<Rightarrow>
               if hr_status r \<noteq> 204 then (Inl (Sign_In_Refused (hr_status r)), s)
               else (ok_or (map_option (takeWhile (\<lambda>c. c \<noteq> c_semi)) (hr_set_cookie r)) No_Cookie, s)))"

record created =
  cr_slug :: str
  cr_name :: str
  cr_token :: str

definition created_course :: "http_reply \<Rightarrow> cli_error + created" where
  "created_course r =
     (if \<not> is_success r then Inl (Create_Rejected (hr_status r) (trim (hr_text r)))
      else (let v = unwrap_or (hr_json r) JNull
            in Inr \<lparr>cr_slug = unwrap_or (json_str (lit ''slug'') v) [], cr_name = unwrap_or (json_str (lit ''name'') v) [],
                    cr_token = unwrap_or (json_str (lit ''enrollmentToken'') v) []\<rparr>))"

definition items_of_discovered :: "discovered_exercise list \<Rightarrow> exercise_in list" where
  "items_of_discovered found =
     map (\<lambda>(i, e). \<lparr>ei_slug = xd_slug e, ei_title = Some (xd_title e), ei_position = Some (int i)\<rparr>) (enumerate 0 found)"

definition seed_exercises_cli :: "'s web \<Rightarrow> str \<Rightarrow> str \<Rightarrow> discovered_exercise list \<Rightarrow> 's \<Rightarrow> (cli_error + unit) \<times> 's" where
  "seed_exercises_cli web cookie course_slug found s =
     (case web (Post_Exercises cookie course_slug (items_of_discovered found)) s of
        (Inl e, s) \<Rightarrow> (Inl (Call_Failed e), s)
      | (Inr r, s) \<Rightarrow>
          if \<not> is_success r then (Inl (Seeding_Failed (hr_status r) (trim (hr_text r))), s) else (Inr (), s))"

section \<open>Creating a course\<close>

record create_args =
  ct_slug :: "str option"
  ct_name :: "str option"
  ct_repo :: "str option"
  ct_link :: bool
  ct_no_exercises :: bool
  ct_profile :: course_profile
  ct_admin_token :: "str option"
  ct_user :: "str option"
  ct_password :: "str option"

text \<open>Where it runs: git's answer, the directory, and what is typed.\<close>

record surroundings =
  su_git :: "str + bool \<times> byte list"
  su_config :: node
  su_listing :: listing
  su_typed :: "cli_error + str"

definition resolve_repo :: "create_args \<Rightarrow> surroundings \<Rightarrow> cli_error + str option" where
  "resolve_repo args su =
     (case opt_filter (\<lambda>r. trim r \<noteq> []) (ct_repo args) of
        Some r \<Rightarrow> Inr (Some (trim r))
      | None \<Rightarrow> if ct_link args then bind_result (git_origin (su_git su)) (\<lambda>u. Inr (Some u)) else Inr None)"

definition resolve_slug :: "create_args \<Rightarrow> str option \<Rightarrow> cli_error + str" where
  "resolve_slug args repo =
     ok_or (or_else (Option.bind (ct_slug args) normalize_slug_cli)
       (or_else (Option.bind (Option.bind repo repo_short_name_cli) normalize_slug_cli)
         (Option.bind (ct_name args) normalize_slug_cli))) No_Slug_Given"

definition resolve_name :: "create_args \<Rightarrow> str \<Rightarrow> str" where
  "resolve_name args slug = unwrap_or (opt_filter (\<lambda>s. s \<noteq> []) (map_option trim (ct_name args))) (title_from_slug_cli slug)"

text \<open>What was reported: the new course, its repository, and the exercises.\<close>

datatype seeding = Nothing_Found | Defined "str list" | Needs_Sign_In nat

record report =
  rp_created :: created
  rp_repo :: "str option"
  rp_seeding :: seeding

definition exercises_to_define :: "create_args \<Rightarrow> surroundings \<Rightarrow> discovered_exercise list" where
  "exercises_to_define args su =
     (if ct_link args \<and> \<not> ct_no_exercises args
      then unwrap_or (result_ok (discover_exercises_cli (su_config su) (su_listing su))) [] else [])"

text \<open>The create call, behind the sign-in it needs: the reply and the cookie.\<close>

definition post_course :: "'s web \<Rightarrow> create_args \<Rightarrow> surroundings \<Rightarrow> new_course \<Rightarrow> 's \<Rightarrow> (cli_error + http_reply \<times> str option) \<times> 's" where
  "post_course web args su body s =
     (case opt_filter (\<lambda>t. t \<noteq> []) (ct_admin_token args) of
        Some tok \<Rightarrow>
          (case web (Post_Admin_Course tok body) s of
             (Inl e, s) \<Rightarrow> (Inl (Call_Failed e), s)
           | (Inr r, s) \<Rightarrow> (Inr (r, None), s))
      | None \<Rightarrow>
          (case opt_filter (\<lambda>u. u \<noteq> []) (ct_user args) of
             None \<Rightarrow> (Inl No_Credential, s)
           | Some user \<Rightarrow>
               (case login_cli web user (ct_password args) (su_typed su) s of
                  (Inl e, s) \<Rightarrow> (Inl e, s)
                | (Inr cookie, s) \<Rightarrow>
                    (case web (Post_Course cookie body) s of
                       (Inl e, s) \<Rightarrow> (Inl (Call_Failed e), s)
                     | (Inr r, s) \<Rightarrow> (Inr (r, Some cookie), s)))))"

definition create :: "'s web \<Rightarrow> create_args \<Rightarrow> surroundings \<Rightarrow> 's \<Rightarrow> (cli_error + report) \<times> 's" where
  "create web args su s =
     (case resolve_repo args su of
        Inl e \<Rightarrow> (Inl e, s)
      | Inr repo \<Rightarrow>
          (case resolve_slug args repo of
             Inl e \<Rightarrow> (Inl e, s)
           | Inr slug \<Rightarrow>
               (let found = exercises_to_define args su;
                    body = \<lparr>nc_slug = Some slug, nc_name = Some (resolve_name args slug), nc_repo = repo, nc_seed = None,
                            nc_profile = ct_profile args\<rparr>
                in case post_course web args su body s of
                     (Inl e, s) \<Rightarrow> (Inl e, s)
                   | (Inr (r, cookie), s) \<Rightarrow>
                       (case created_course r of
                          Inl e \<Rightarrow> (Inl e, s)
                        | Inr c \<Rightarrow>
                            if found = [] then (Inr \<lparr>rp_created = c, rp_repo = repo, rp_seeding = Nothing_Found\<rparr>, s)
                            else (case cookie of
                                    None \<Rightarrow> (Inr \<lparr>rp_created = c, rp_repo = repo, rp_seeding = Needs_Sign_In (length found)\<rparr>, s)
                                  | Some cookie \<Rightarrow>
                                      (case seed_exercises_cli web cookie (cr_slug c) found s of
                                         (Inl e, s) \<Rightarrow> (Inl e, s)
                                       | (Inr _, s) \<Rightarrow>
                                           (Inr \<lparr>rp_created = c, rp_repo = repo, rp_seeding = Defined (map xd_slug found)\<rparr>, s)))))))"

section \<open>It finds what the server finds\<close>

definition as_discovered :: "discovered_exercise \<Rightarrow> discovered" where
  "as_discovered e = \<lparr>disc_slug = xd_slug e, disc_title = xd_title e\<rparr>"

definition as_content :: "dir_entry \<Rightarrow> content_entry" where
  "as_content e = \<lparr>entry_kind = (if de_dir e = Inr True then lit ''dir'' else lit ''file''), entry_name = de_name e\<rparr>"

lemma as_discovered_simps [simp]:
  "disc_slug (as_discovered e) = xd_slug e" "as_discovered (discovered_cli s) = discovered_of s"
  by (simp_all add: as_discovered_def discovered_cli_def discovered_of_def)

lemma config_items_server:
  "map as_discovered (config_items exs out) = config_loop exs (map as_discovered out)"
  by (induction exs out rule: config_items.induct)
    (auto simp: json_str_def list_ex_iff split: option.splits)

definition readable :: "dir_entry list \<Rightarrow> bool" where
  "readable entries \<longleftrightarrow> (\<forall>e \<in> set entries. \<exists>b. de_dir e = Inr b)"

lemma folder_loop_server:
  "readable entries \<Longrightarrow> \<exists>found. folder_loop (map Inr entries) out = Inr found \<and>
     map as_discovered found = map as_discovered out @
        List.map_filter (\<lambda>e. map_option discovered_of (normalize_slug (entry_name e)))
          (filter (\<lambda>e. entry_kind e = lit ''dir'' \<and> \<not> is_ignored_dir (entry_name e)) (map as_content entries))"
proof (induction entries arbitrary: out)
  case (Cons e es)
  then obtain b where b: "de_dir e = Inr b" and es: "readable es" by (auto simp: readable_def)
  have "lit ''file'' \<noteq> lit ''dir''" by (simp add: lit_def)
  then show ?case using b Cons.IH [OF es, of out] Cons.IH [OF es, of "out @ [discovered_cli (the (normalize_slug (de_name e)))]"]
    by (auto simp: as_content_def map_filter_simps split: option.splits)
qed (simp add: map_filter_simps)

lemma map_sort_key: "map f (sort_key (\<lambda>x. k (f x)) xs) = sort_key k (map f xs)"
proof -
  have "map f (insort_key (\<lambda>x. k (f x)) x ys) = insort_key k (f x) (map f ys)" for x ys
    by (induction ys) simp_all
  then show ?thesis by (induction xs) (simp_all add: sort_key_def)
qed

lemma map_dedup_by: "map f (dedup_by (\<lambda>x. k (f x)) xs) = dedup_by k (map f xs)"
  by (induction "\<lambda>x. k (f x)" xs rule: dedup_by.induct) simp_all

text \<open>The command and the server find the same exercises in the same repository: with the same
  mapping file, or the same top-level folders, both succeed with the same slugs and titles in the same
  order.\<close>

theorem command_discovers_as_the_server:
  assumes "readable entries"
  shows "\<exists>found. discover_exercises_cli config (Inr (map Inr entries)) = Inr found \<and>
    discover_exercises (Option.bind (read_node config) id) (Inr (map as_content entries) :: repo_error + content_entry list) =
      Inr (map as_discovered found)"
proof -
  have cfg: "map as_discovered (exercises_from_config_cli c) = exercises_from_config c" for c
    using config_items_server [of _ "[]"] by (auto simp: exercises_from_config_cli_def exercises_from_config_def split: option.splits)
  obtain found where found: "folder_loop (map Inr entries) [] = Inr found"
    "map as_discovered found = List.map_filter (\<lambda>e. map_option discovered_of (normalize_slug (entry_name e)))
          (filter (\<lambda>e. entry_kind e = lit ''dir'' \<and> \<not> is_ignored_dir (entry_name e)) (map as_content entries))"
    using folder_loop_server [OF assms, of "[]"] by auto
  have root: "map as_discovered (dedup_by xd_slug (sort_key xd_slug found)) = exercises_from_root (map as_content entries)"
    using map_dedup_by [of as_discovered disc_slug] map_sort_key [of as_discovered disc_slug]
    by (simp add: exercises_from_root_def found(2))
  define fc where "fc = (case read_node config of Some (Some cfg) \<Rightarrow> exercises_from_config_cli cfg | _ \<Rightarrow> [])"
  have "(case map_option exercises_from_config (Option.bind (read_node config) id) of
        Some (e # es) \<Rightarrow> Inr (e # es)
      | _ \<Rightarrow> bind_result (Inr (map as_content entries)) (\<lambda>entries. Inr (exercises_from_root entries))) =
      Inr (map as_discovered (if fc \<noteq> [] then fc else dedup_by xd_slug (sort_key xd_slug found)))"
    by (auto simp: fc_def root cfg [symmetric] split: option.splits list.splits)
  note server = this [folded discover_exercises_def]
  show ?thesis unfolding server
    by (intro exI [of _ "if fc \<noteq> [] then fc else dedup_by xd_slug (sort_key xd_slug found)"])
      (simp add: discover_exercises_cli_def fc_def [symmetric] found(1))
qed

section \<open>A written mapping is found again\<close>

lemma rules_loop_spec:
  "distinct (map er_name (rules_loop fs seen)) \<and>
     er_name ` set (rules_loop fs seen) = {s. \<exists>f \<in> set fs. normalize_slug f = Some s} - seen \<and>
     (\<forall>r \<in> set (rules_loop fs seen). normalize_slug (er_name r) = Some (er_name r))"
proof (induction fs arbitrary: seen)
  case (Cons f fs)
  show ?case
  proof (cases "normalize_slug f")
    case None
    then show ?thesis using Cons.IH [of seen] by auto
  next
    case (Some s)
    then show ?thesis
      using Cons.IH [of seen] Cons.IH [of "insert s seen"] normalize_slug_idem [OF Some] by auto
  qed
qed simp

lemma config_items_rules:
  "distinct (map er_name rules) \<Longrightarrow>
     \<forall>r \<in> set rules. normalize_slug (er_name r) = Some (er_name r) \<and> (\<forall>e \<in> set out. xd_slug e \<noteq> er_name r) \<Longrightarrow>
     config_items (map (\<lambda>r. JObject [(lit ''name'', JString (er_name r)), (lit ''match'', JString (er_pattern r))]) rules) out =
       out @ map (discovered_cli \<circ> er_name) rules"
proof (induction rules arbitrary: out)
  case (Cons r rules)
  have fresh: "\<not> list_ex (\<lambda>e. xd_slug e = er_name r) out" using Cons.prems(2) by (simp add: list_ex_iff)
  have "er_name r \<noteq> er_name q" if "q \<in> set rules" for q using imageI [OF that, of er_name] Cons.prems(1) by auto
  then have "\<forall>q \<in> set rules. normalize_slug (er_name q) = Some (er_name q) \<and>
      (\<forall>e \<in> set (out @ [discovered_cli (er_name r)]). xd_slug e \<noteq> er_name q)"
    using Cons.prems(2) by (auto simp: discovered_cli_def)
  from Cons.IH [OF _ this] fresh show ?case using Cons.prems by (simp add: json_eval)
qed simp

lemma discover_config:
  assumes "rules \<noteq> []" "distinct (map er_name rules)" "\<forall>r \<in> set rules. normalize_slug (er_name r) = Some (er_name r)"
  shows "discover_exercises_cli (Regular (Some (config_json rules))) lst = Inr (map (discovered_cli \<circ> er_name) rules)"
proof -
  have "exercises_from_config_cli (config_json rules) = map (discovered_cli \<circ> er_name) rules"
    using config_items_rules [OF assms(2), of "[]"] assms(3)
    by (simp add: exercises_from_config_cli_def config_json_def json_get_def as_array_def)
  then show ?thesis using assms(1) by (simp add: discover_exercises_cli_def read_node_def)
qed

lemma scan_loop_found:
  "scan_loop es out = Inr folders \<Longrightarrow> \<exists>more_folders. folders = out @ more_folders \<and>
     (\<forall>found. folder_loop es found = Inr (found @ List.map_filter (\<lambda>f. map_option discovered_cli (normalize_slug f)) more_folders))"
proof (induction es out rule: scan_loop.induct)
  case (3 entry es out)
  then show ?case
    by (auto simp: map_filter_simps split: sum.splits if_splits option.splits) (force simp: map_filter_simps)+
qed (auto simp: map_filter_simps)

definition slugs_of :: "str list \<Rightarrow> str set" where
  "slugs_of folders = {s. \<exists>f \<in> set folders. normalize_slug f = Some s}"

lemma image_dedup_by: "f ` set (dedup_by f xs) = f ` set xs"
  by (induction f xs rule: dedup_by.induct) auto

lemma discover_folders:
  assumes "scan_exercise_folders lst = Inr folders"
  shows "discover_exercises_cli Absent lst = Inr (map discovered_cli (sorted_list_of_set (slugs_of folders)))"
proof -
  obtain es where es: "lst = Inr es" "scan_loop es [] = Inr folders"
    using assms by (cases lst) (simp_all add: scan_exercise_folders_def)
  define found where "found = List.map_filter (\<lambda>f. map_option discovered_cli (normalize_slug f)) folders"
  have loop: "folder_loop es [] = Inr found" using scan_loop_found [OF es(2)] by (simp add: found_def)
  define ds where "ds = dedup_by xd_slug (sort_key xd_slug found)"
  have by_slug: "e = discovered_cli (xd_slug e)" if "e \<in> set found" for e
    using that by (auto simp: found_def List.map_filter_def discovered_cli_def)
  have "xd_slug ` set found = slugs_of folders"
    by (force simp: found_def slugs_of_def List.map_filter_def discovered_cli_def image_iff)
  then have slugs: "set (map xd_slug ds) = slugs_of folders" by (simp add: ds_def image_dedup_by)
  moreover have "sorted_wrt (<) (map xd_slug ds)" unfolding ds_def using dedup_by_sorted [of xd_slug "sort_key xd_slug found"] by simp
  ultimately have "map xd_slug ds = sorted_list_of_set (slugs_of folders)"
    by (metis sorted_list_of_set.idem_if_sorted_distinct strict_sorted_iff)
  moreover have "ds = map discovered_cli (map xd_slug ds)"
    using by_slug set_dedup_by [of xd_slug "sort_key xd_slug found"] by (simp add: ds_def map_idI subset_iff)
  ultimately have "ds = map discovered_cli (sorted_list_of_set (slugs_of folders))" by simp
  then show ?thesis using loop es(1) by (simp add: discover_exercises_cli_def read_node_def ds_def)
qed



end
