(* ===== verification/Course_Command.thy ===== *)
theory Course_Command
  imports Recorder_Course Course_Access
begin

text \<open>
  \<^verbatim>\<open>hermione course create\<close> against the server of \<open>Course_Api\<close>: the command's calls are
  requests of \<open>serve\<close> and its answers the command's replies. The lemmas follow the three calls of a
  teacher who links a repository, from the sign-in whose cookie the later calls present to the
  course, its teacher and its exercises.
\<close>

section \<open>The server behind the command's calls\<close>

definition with_cookie :: "str \<Rightarrow> headers" where
  "with_cookie c = \<lparr>hd_cookie = Some c, hd_authorization = None\<rparr>"

definition with_bearer :: "str \<Rightarrow> headers" where
  "with_bearer t = \<lparr>hd_cookie = None, hd_authorization = Some (lit ''Bearer '' @ t)\<rparr>"

definition no_headers :: headers where
  "no_headers = \<lparr>hd_cookie = None, hd_authorization = None\<rparr>"

text \<open>The request each call is; the provisioning route takes the slug and name as they are.\<close>

fun request_of :: "course_call \<Rightarrow> headers \<times> request" where
  "request_of (Post_Login u p) = (no_headers, Login u p)"
| "request_of (Post_Admin_Course t b) =
     (with_bearer t, Super_Admin (New_Course (unwrap_or (nc_slug b) []) (unwrap_or (nc_name b) []) (nc_repo b) (nc_profile b)))"
| "request_of (Post_Course c b) = (with_cookie c, Teacher (Create_Course b))"
| "request_of (Post_Exercises c slug items) = (with_cookie c, Teacher (Define_Exercises (Some slug) items False))"

definition json_reply :: "nat \<Rightarrow> json \<Rightarrow> http_reply" where
  "json_reply st v = \<lparr>hr_status = st, hr_set_cookie = None, hr_text = [], hr_json = Some v\<rparr>"

definition created_json :: "str \<Rightarrow> str \<Rightarrow> str \<Rightarrow> json" where
  "created_json slug name tok = JObject [(lit ''slug'', JString slug), (lit ''name'', JString name), (lit ''enrollmentToken'', JString tok)]"

text \<open>An answer as the command sees it; of a created course the fields it reads. The answers of calls
  it does not make are left without a body.\<close>

definition reply_of :: "answer \<Rightarrow> http_reply" where
  "reply_of a =
     (case a of
        No_Content \<Rightarrow> \<lparr>hr_status = 204, hr_set_cookie = None, hr_text = [], hr_json = None\<rparr>
      | Set_Cookie c \<Rightarrow> \<lparr>hr_status = 204, hr_set_cookie = Some c, hr_text = [], hr_json = None\<rparr>
      | Created_Json slug name repo tok n note \<Rightarrow> json_reply 201 (created_json slug name tok)
      | Course_Json slug name repo tok \<Rightarrow> json_reply 200 (created_json slug name tok)
      | Error_Json e \<Rightarrow> (let (st, m) = into_response e in \<lparr>hr_status = st, hr_set_cookie = None, hr_text = m, hr_json = None\<rparr>)
      | _ \<Rightarrow> \<lparr>hr_status = 200, hr_set_cookie = None, hr_text = [], hr_json = None\<rparr>)"

text \<open>Each call meets the next environment.\<close>

definition live :: "(nat \<Rightarrow> env) \<Rightarrow> (nat \<times> server) web" where
  "live es call s =
     (let (n, sv) = s; (h, r) = request_of call; (a, sv) = serve (es n) h r sv
      in (Inr (reply_of a), (n + 1, sv)))"

section \<open>The cookie\<close>

definition cookie_safe :: "str \<Rightarrow> bool" where
  "cookie_safe t \<longleftrightarrow> t \<noteq> [] \<and> (\<forall>c \<in> set t. c \<noteq> c_semi \<and> \<not> is_whitespace c)"

lemma takeWhile_semi:
  "\<forall>c \<in> set a. c \<noteq> c_semi \<Longrightarrow> takeWhile (\<lambda>c. c \<noteq> c_semi) (a @ c_semi # b) = a"
  by (induction a) auto

lemma trim_none: "\<forall>c \<in> set s. \<not> is_whitespace c \<Longrightarrow> trim s = s"
  unfolding trim_def by (rule trim_matches_id) (cases "s = []", auto dest: hd_in_set last_in_set)

text \<open>What is kept of the login's cookie is read back as its session.\<close>

lemma cookie_presented:
  assumes "cookie_safe t"
  shows "takeWhile (\<lambda>c. c \<noteq> c_semi) (SESSION_COOKIE @ [c_eq] @ t @ lit ''; HttpOnly; SameSite=Strict; Path=/; Max-Age=43200'') =
      SESSION_COOKIE @ [c_eq] @ t \<and>
    session_cookie (with_cookie (SESSION_COOKIE @ [c_eq] @ t)) = Some t"
proof -
  have name: "\<forall>c \<in> set SESSION_COOKIE. c \<noteq> c_semi \<and> \<not> is_whitespace c \<and> c \<noteq> c_eq"
    by (simp add: SESSION_COOKIE_def lit_def is_whitespace_def)
  have semi: "\<forall>c \<in> set (SESSION_COOKIE @ [c_eq] @ t). c \<noteq> c_semi \<and> \<not> is_whitespace c"
    using assms name by (auto simp: cookie_safe_def is_whitespace_def)
  have "lit ''; HttpOnly; SameSite=Strict; Path=/; Max-Age=43200'' = c_semi # lit '' HttpOnly; SameSite=Strict; Path=/; Max-Age=43200''"
    by (simp add: lit_def)
  then have cut: "takeWhile (\<lambda>c. c \<noteq> c_semi) (SESSION_COOKIE @ [c_eq] @ t @ lit ''; HttpOnly; SameSite=Strict; Path=/; Max-Age=43200'') =
      SESSION_COOKIE @ [c_eq] @ t"
    using takeWhile_semi [of "SESSION_COOKIE @ [c_eq] @ t"] semi by simp
  have "split_on ((=) c_semi) (SESSION_COOKIE @ [c_eq] @ t) = [SESSION_COOKIE @ [c_eq] @ t]"
    using semi by (intro split_on_none) auto
  moreover have "trim (SESSION_COOKIE @ [c_eq] @ t) = SESSION_COOKIE @ [c_eq] @ t"
    using semi by (intro trim_none) auto
  moreover have "split_once c_eq (SESSION_COOKIE @ [c_eq] @ t) = Some (SESSION_COOKIE, t)"
    using name by (simp add: split_once_def dropWhile_append takeWhile_append)
  ultimately have "session_cookie (with_cookie (SESSION_COOKIE @ [c_eq] @ t)) = Some t"
    by (simp add: session_cookie_def with_cookie_def)
  with cut show ?thesis by blast
qed

section \<open>What is sent\<close>

lemma name_sent:
  assumes "is_slug slug"
  shows "non_blank (Some (resolve_name args slug)) = Some (resolve_name args slug)"
proof -
  have "title_from_slug slug \<noteq> []" using normalize_slug_title [OF assms] by (auto simp: normalize_slug_def trim_def trim_matches_def trim_end_def trim_start_def)
  then show ?thesis using title_trimmed [OF assms]
    by (cases "ct_name args") (auto simp: resolve_name_def non_blank_def)
qed

lemma repo_sent: "resolve_repo args su = Inr repo \<Longrightarrow> non_blank repo = repo"
  by (auto simp: resolve_repo_def git_origin_def non_blank_def Let_def split: option.splits if_splits sum.splits)

lemma slug_sent: "resolve_slug args repo = Inr slug \<Longrightarrow> is_slug slug"
  by (auto simp: resolve_slug_def or_else_Some bind_eq_Some_conv intro: normalize_slug_shape)

lemma resolved_by_server:
  assumes "resolve_repo args su = Inr repo" "resolve_slug args repo = Inr slug"
  shows "resolve_new_course \<lparr>nc_slug = Some slug, nc_name = Some (resolve_name args slug), nc_repo = repo, nc_seed = None, nc_profile = p\<rparr> =
    Inr (slug, resolve_name args slug, repo)"
proof -
  note slug = slug_sent [OF assms(2)]
  have "non_blank (Some slug) = Some slug" using is_slug_trim [OF slug] slug by (simp add: non_blank_def is_slug_def)
  then show ?thesis using repo_sent [OF assms(1)] name_sent [OF slug] normalize_slug_id [OF slug]
    by (simp add: resolve_new_course_def)
qed

text \<open>The exercises sent have one valid slug each.\<close>

definition sendable :: "discovered_exercise list \<Rightarrow> bool" where
  "sendable found \<longleftrightarrow> distinct (map xd_slug found) \<and> (\<forall>e \<in> set found. is_slug (xd_slug e))"

lemma sendable_as: "good_discovery (map as_discovered found) \<Longrightarrow> sendable found"
  by (simp add: good_discovery_def sendable_def comp_def)

lemma folder_loop_slugs:
  "folder_loop es out = Inr found \<Longrightarrow> \<forall>e \<in> set out. is_slug (xd_slug e) \<Longrightarrow> \<forall>e \<in> set found. is_slug (xd_slug e)"
proof (induction es arbitrary: out)
  case (Cons x es)
  then obtain entry is_dir where x: "x = Inr entry" "de_dir entry = Inr is_dir" by (cases x) (auto split: sum.splits)
  consider "folder_loop (x # es) out = folder_loop es out"
    | s where "normalize_slug (de_name entry) = Some s" "folder_loop (x # es) out = folder_loop es (out @ [discovered_cli s])"
    by (cases is_dir; cases "is_ignored_dir (de_name entry)"; cases "normalize_slug (de_name entry)") (auto simp: x)
  then show ?case
  proof cases
    case 1
    then show ?thesis using Cons.IH [of out] Cons.prems by simp
  next
    case 2
    then show ?thesis using Cons.IH [of "out @ [discovered_cli s]"] Cons.prems normalize_slug_shape [OF 2(1)]
      by (simp add: discovered_cli_def)
  qed
qed simp

lemma discovered_sendable:
  assumes "discover_exercises_cli config lst = Inr found"
  shows "sendable found"
proof -
  define fc where "fc = (case read_node config of Some (Some cfg) \<Rightarrow> exercises_from_config_cli cfg | _ \<Rightarrow> [])"
  show ?thesis
  proof (cases "fc = []")
    case True
    then obtain es out where o: "folder_loop es [] = Inr out" "found = dedup_by xd_slug (sort_key xd_slug out)"
      using assms by (auto simp: discover_exercises_cli_def fc_def [symmetric] Let_def)
    have "sorted_wrt (<) (map xd_slug found)" using dedup_by_sorted [of xd_slug "sort_key xd_slug out"] o(2) by simp
    then show ?thesis using folder_loop_slugs [OF o(1)] set_dedup_by [of xd_slug "sort_key xd_slug out"] o(2)
      by (auto simp: sendable_def strict_sorted_iff)
  next
    case False
    then have "found = fc" using assms by (simp add: discover_exercises_cli_def fc_def [symmetric])
    moreover have "sendable (exercises_from_config_cli cfg)" for cfg
    proof -
      have "good_discovery (config_loop exs [])" for exs by (rule config_loop_good) (simp add: good_discovery_def)
      then have "sendable (config_items exs [])" for exs using sendable_as config_items_server [of exs "[]"] by simp
      then show ?thesis by (simp add: exercises_from_config_cli_def sendable_def split: option.splits)
    qed
    ultimately show ?thesis by (auto simp: fc_def sendable_def split: option.splits)
  qed
qed

lemma exercises_sent: "sendable (exercises_to_define args su)"
proof (cases "discover_exercises_cli (su_config su) (su_listing su)")
  case (Inr found)
  then show ?thesis using discovered_sendable [OF Inr] by (simp add: exercises_to_define_def result_ok_def sendable_def)
qed (simp add: exercises_to_define_def result_ok_def sendable_def)

definition sent_items :: "nat \<Rightarrow> discovered_exercise list \<Rightarrow> item list" where
  "sent_items k found = map (\<lambda>(i, e). (xd_slug e, xd_title e, int i)) (enumerate k found)"

lemma define_items_sent:
  "\<forall>e \<in> set found. is_slug (xd_slug e) \<Longrightarrow>
     define_items idx (map (\<lambda>(i, e). \<lparr>ei_slug = xd_slug e, ei_title = Some (xd_title e), ei_position = Some (int i)\<rparr>) (enumerate k found)) =
       sent_items k found"
  by (induction found arbitrary: idx k) (auto simp: sent_items_def is_slug_trim is_slug_def Let_def)

lemma sent_items_slugs: "map fst (sent_items k found) = map xd_slug found"
  by (induction found arbitrary: k) (simp_all add: sent_items_def)

lemma map_of_distinct: "distinct (map fst xs) \<Longrightarrow> i \<in> set xs \<Longrightarrow> map_of (rev xs) (fst i) = Some (snd i)"
  by (cases i) (simp add: rev_map [symmetric])

lemma sent_items_stored:
  assumes "wf_exercises tbl" "sendable found"
  shows "set (sent_items 0 found) \<subseteq> items_of c (define_exercises c now ids (items_of_discovered found) False tbl) \<and>
    others c (define_exercises c now ids (items_of_discovered found) False tbl) = others c tbl"
proof -
  let ?items = "sent_items 0 found"
  have "\<forall>e \<in> set found. is_slug (xd_slug e)" using assms(2) by (simp add: sendable_def)
  from define_items_sent [OF this, of 0 0]
  have def: "define_exercises c now ids (items_of_discovered found) False tbl = put_exercises c now ids 0 (last_wins ?items) tbl"
    by (simp add: define_exercises_def items_of_discovered_def upsert_exercises_def Let_def)
  have "i \<in> set (last_wins ?items)" if "i \<in> set ?items" for i
    using last_wins_spec(2) [of i ?items] map_of_distinct [OF _ that] sent_items_slugs [of 0 found] assms(2)
    by (simp add: sendable_def)
  then show ?thesis unfolding def
    using put_exercises_spec [OF assms(1) last_wins_spec(1), of c now ids 0 ?items] by blast
qed

section \<open>The three calls\<close>

text \<open>The course a command creates, in the environment of its create call.\<close>

definition course_made :: "env \<Rightarrow> str \<Rightarrow> str \<Rightarrow> str option \<Rightarrow> course_profile \<Rightarrow> course" where
  "course_made e slug name repo p =
     \<lparr>co_id = en_id e, co_slug = slug, co_name = name, co_token = en_token e, co_repo = repo, co_archived = None, co_ref = None,
      co_dir = None, co_description = pf_description p, co_term = pf_term p, co_institution = pf_institution p,
      co_level = pf_level p, co_created = at_now e\<rparr>"

definition unused :: "env \<Rightarrow> db \<Rightarrow> bool" where
  "unused e db \<longleftrightarrow> (\<forall>d \<in> set (courses db). co_token d \<noteq> en_token e \<and> co_id d \<noteq> en_id e)"

text \<open>What the server's own seeding leaves, of which the command knows nothing.\<close>

definition server_seeded :: "env \<Rightarrow> course \<Rightarrow> token_cache \<Rightarrow> db \<Rightarrow> exercise list" where
  "server_seeded e c cache db = exercises (snd (snd (seed_exercises e c cache db)))"

lemma seed_only_exercises:
  "\<exists>x cache'. seed_exercises e c cache db = (x, cache', db\<lparr>exercises := server_seeded e c cache db\<rparr>)"
  "wf_exercises (exercises db) \<Longrightarrow> wf_exercises (server_seeded e c cache db)"
  by (auto simp: server_seeded_def seed_exercises_def Let_def wf_upsert_exercises split: option.splits sum.splits prod.splits)

lemma cookie_ctx:
  assumes "session_cookie h = Some t" "map_of (sv_sessions sv) t = Some (a, x)" "now < x"
  shows "teacher_ctx now h sv = (Some (Admin a), sv)"
  using assms by (simp add: teacher_ctx_def admin_for_def Let_def)

lemma login_step:
  assumes "verify_login (en_hasher (es n)) u p (sv_db sv) = Some a" "cookie_safe (en_token (es n))" "p \<noteq> []"
  shows "login_cli (live es) u (Some p) typed (n, sv) =
    (Inr (SESSION_COOKIE @ [c_eq] @ en_token (es n)),
     (n + 1, sv\<lparr>sv_sessions := create_session (at_now (es n)) (en_token (es n)) a (sv_sessions sv)\<rparr>))"
  using assms cookie_presented [OF assms(2)]
  by (simp add: login_cli_def live_def login_def reply_of_def Let_def)

lemma find_new: "List.find P xs = None \<Longrightarrow> P x \<Longrightarrow> List.find P (xs @ [x]) = Some x"
  by (induction xs) (auto split: if_splits)

lemma create_step:
  assumes "resolve_new_course body = Inr (slug, name, repo)" "nc_seed body = None" "wf_db db" "a \<in> ad_id ` set (admins db)"
    "course_by_slug slug db = None" "unused e db"
  defines "c \<equiv> course_made e slug name repo (normalized (nc_profile body))"
  defines "db3 \<equiv> db\<lparr>courses := courses db @ [c], members := members db @ [(a, en_id e)]\<rparr>"
  shows "\<exists>n hint cache'. create_course_for_teacher e (Admin a) body cache db =
    (Created_Json slug name repo (en_token e) n hint, cache', db3\<lparr>exercises := server_seeded e c cache db3\<rparr>)"
proof -
  have "\<forall>d \<in> set (courses db). co_slug d \<noteq> slug" using assms(5) by (auto simp: course_by_slug_def find_None_iff)
  then have fresh: "\<not> list_ex (\<lambda>d. co_slug d = slug \<or> co_token d = en_token e \<or> co_id d = en_id e) (courses db)"
    using assms(6) by (auto simp: list_ex_iff unused_def)
  have new: "create_course_with_profile (en_id e) (en_token e) (at_now e) slug name repo (normalized (nc_profile body)) db =
      (Inr c, db\<lparr>courses := courses db @ [c]\<rparr>)"
    using fresh by (simp add: create_course_with_profile_def c_def course_made_def Let_def)
  have "(a, en_id e) \<notin> set (members db)" using assms(3,6) by (force simp: wf_db_def unused_def)
  then have grant: "grant_membership a (co_id c) (db\<lparr>courses := courses db @ [c]\<rparr>) = (Inr (), db3)"
    using assms(4) by (simp add: grant_membership_def is_member_def db3_def c_def course_made_def)
  obtain n hint cache' where seed: "seed_exercises e c cache db3 = ((n, hint), cache', db3\<lparr>exercises := server_seeded e c cache db3\<rparr>)"
    using seed_only_exercises(1) by (metis surj_pair)
  show ?thesis
    using assms(1,2,5) new grant seed by (simp add: create_course_for_teacher_def c_def course_made_def)
qed

lemma define_step:
  assumes "session_cookie h = Some t" "map_of (sv_sessions sv) t = Some (a, x)" "at_now e < x"
    "course_by_slug slug (sv_db sv) = Some c" "is_member a (co_id c) (sv_db sv)"
  shows "serve e h (Teacher (Define_Exercises (Some slug) items False)) sv =
    (No_Content, sv\<lparr>sv_db := (sv_db sv)\<lparr>exercises := define_exercises (co_id c) (at_now e) (en_ids e) items False (exercises (sv_db sv))\<rparr>\<rparr>)"
  using cookie_ctx [OF assms(1-3)] assms(4,5)
  by (simp add: require_teacher_def on_db_def define_endpoint_def resolve_course_def authorized_course_def ensure_member_def)

lemma reply_created:
  "created_course (reply_of (Created_Json slug name repo tok n hint)) = Inr \<lparr>cr_slug = slug, cr_name = name, cr_token = tok\<rparr>"
proof -
  have "lit ''slug'' \<noteq> lit ''name''" "lit ''slug'' \<noteq> lit ''enrollmentToken''" "lit ''name'' \<noteq> lit ''enrollmentToken''"
    "lit ''name'' \<noteq> lit ''slug''" "lit ''enrollmentToken'' \<noteq> lit ''slug''" "lit ''enrollmentToken'' \<noteq> lit ''name''"
    by (simp_all add: lit_def)
  then show ?thesis
    by (simp add: created_course_def reply_of_def json_reply_def is_success_def created_json_def json_eval Let_def)
qed

lemma reply_no_content [simp]: "is_success (reply_of No_Content)"
  by (simp add: is_success_def reply_of_def)

text \<open>C8: A teacher who signs in with \<^verbatim>\<open>hermione course create\<close> gets one new course: with a slug that
  is free, the three calls succeed with the cookie of the login; the course has the resolved slug,
  name, repository and profile, the teacher is its member, nothing else of the courses or members
  changes, and every exercise found in the directory is one of its exercises with its title and its
  place in the order found. The server seeds the course from the repository on its own before that,
  because the command never tells it not to: with \<^verbatim>\<open>--no-exercises\<close> the course still has those.\<close>

theorem teacher_creates_one_course:
  assumes "wf_server sv" "verify_login (en_hasher (es n)) u p (sv_db sv) = Some a" "cookie_safe (en_token (es n))"
    "en_now (es (n + 1)) < en_now (es n) + 43200" "en_now (es (n + 2)) < en_now (es n) + 43200"
    "opt_filter (\<lambda>t. t \<noteq> []) (ct_admin_token args) = None" "ct_user args = Some u" "u \<noteq> []" "ct_password args = Some p" "p \<noteq> []"
    "resolve_repo args su = Inr repo" "resolve_slug args repo = Inr slug" "course_by_slug slug (sv_db sv) = None"
    "unused (es (n + 1)) (sv_db sv)"
  defines "c \<equiv> course_made (es (n + 1)) slug (resolve_name args slug) repo (normalized (ct_profile args))"
  defines "db3 \<equiv> (sv_db sv)\<lparr>courses := courses (sv_db sv) @ [c], members := members (sv_db sv) @ [(a, co_id c)]\<rparr>"
  shows "\<exists>m sv' seeding. create (live es) args su (n, sv) =
      (Inr \<lparr>rp_created = \<lparr>cr_slug = slug, cr_name = resolve_name args slug, cr_token = en_token (es (n + 1))\<rparr>,
         rp_repo = repo, rp_seeding = seeding\<rparr>, (m, sv')) \<and>
    courses (sv_db sv') = courses (sv_db sv) @ [c] \<and> members (sv_db sv') = members (sv_db sv) @ [(a, co_id c)] \<and>
    admins (sv_db sv') = admins (sv_db sv) \<and>
    (if exercises_to_define args su = [] then seeding = Nothing_Found \<and>
       exercises (sv_db sv') = server_seeded (es (n + 1)) c (sv_tokens sv) db3
     else seeding = Defined (map xd_slug (exercises_to_define args su)) \<and>
       set (sent_items 0 (exercises_to_define args su)) \<subseteq> items_of (co_id c) (exercises (sv_db sv')))"
proof -
  let ?found = "exercises_to_define args su" and ?e1 = "es (n + 1)" and ?e2 = "es (n + 2)"
  let ?t = "en_token (es n)"
  let ?body = "\<lparr>nc_slug = Some slug, nc_name = Some (resolve_name args slug), nc_repo = repo, nc_seed = None, nc_profile = ct_profile args\<rparr>"
  define sv1 where "sv1 = sv\<lparr>sv_sessions := create_session (at_now (es n)) ?t a (sv_sessions sv)\<rparr>"
  have wf: "wf_db (sv_db sv)" using assms(1) by (simp add: wf_server_def)
  have id: "co_id c = en_id ?e1" "co_slug c = slug" by (simp_all add: c_def course_made_def)
  have session: "map_of (sv_sessions sv1) ?t = Some (a, at_now (es n) + 43200)" "sv_db sv1 = sv_db sv" "sv_tokens sv1 = sv_tokens sv"
    by (simp_all add: sv1_def create_session_def SESSION_TTL_SECS_def)
  have cookie: "session_cookie (with_cookie (SESSION_COOKIE @ [c_eq] @ ?t)) = Some ?t" using cookie_presented [OF assms(3)] by blast
  obtain k hint cache' where made: "create_course_for_teacher ?e1 (Admin a) ?body (sv_tokens sv) (sv_db sv) =
      (Created_Json slug (resolve_name args slug) repo (en_token ?e1) k hint, cache',
       db3\<lparr>exercises := server_seeded ?e1 c (sv_tokens sv) db3\<rparr>)"
    using create_step [OF resolved_by_server [OF assms(11,12)] _ wf verify_login_admin [OF assms(2)] assms(13,14), of "ct_profile args" "sv_tokens sv"]
    by (auto simp: c_def db3_def course_made_def)
  define sv2 where "sv2 = sv1\<lparr>sv_tokens := cache', sv_db := db3\<lparr>exercises := server_seeded ?e1 c (sv_tokens sv) db3\<rparr>\<rparr>"
  have "at_now ?e1 < at_now (es n) + 43200" using assms(4) by (simp add: at_now_def)
  from cookie_ctx [OF cookie session(1) this]
  have posted: "live es (Post_Course (SESSION_COOKIE @ [c_eq] @ ?t) ?body) (n + 1, sv1) =
      (Inr (reply_of (Created_Json slug (resolve_name args slug) repo (en_token ?e1) k hint)), (n + 2, sv2))"
    using made by (simp add: live_def require_teacher_def on_cache_def session sv2_def)
  have post: "post_course (live es) args su ?body (n, sv) =
      (Inr (reply_of (Created_Json slug (resolve_name args slug) repo (en_token ?e1) k hint), Some (SESSION_COOKIE @ [c_eq] @ ?t)), (n + 2, sv2))"
    using assms(6-10) posted login_step [where es = es and n = n, OF assms(2,3,10), of "su_typed su"] by (simp add: post_course_def sv1_def)
  show ?thesis
  proof (cases "?found = []")
    case True
    then show ?thesis using assms(11,12) post
      by (simp add: create_def reply_created Let_def sv2_def db3_def)
  next
    case False
    have slug: "course_by_slug slug (sv_db sv2) = Some c"
      using find_new [of "\<lambda>d. co_slug d = slug"] assms(13) id by (simp add: sv2_def db3_def course_by_slug_def)
    have "at_now ?e2 < at_now (es n) + 43200" using assms(5) by (simp add: at_now_def)
    moreover have "map_of (sv_sessions sv2) ?t = Some (a, at_now (es n) + 43200)" "is_member a (co_id c) (sv_db sv2)"
      using session(1) by (simp_all add: sv2_def db3_def is_member_def)
    ultimately have served: "live es (Post_Exercises (SESSION_COOKIE @ [c_eq] @ ?t) slug (items_of_discovered ?found)) (n + 2, sv2) =
      (Inr (reply_of No_Content), (n + 3, sv2\<lparr>sv_db := (sv_db sv2)\<lparr>exercises :=
         define_exercises (co_id c) (at_now ?e2) (en_ids ?e2) (items_of_discovered ?found) False (exercises (sv_db sv2))\<rparr>\<rparr>))"
      using define_step [OF cookie _ _ slug, of a "at_now (es n) + 43200" ?e2 "items_of_discovered ?found"]
      by (simp add: live_def del: serve.simps)
    have "wf_exercises (exercises db3)" using wf by (simp add: wf_db_def db3_def)
    from seed_only_exercises(2) [OF this, of ?e1 c "sv_tokens sv"]
    have "wf_exercises (exercises (sv_db sv2))" by (simp add: sv2_def)
    from sent_items_stored [OF this exercises_sent, of args su "co_id c" "at_now ?e2" "en_ids ?e2"]
    show ?thesis using False assms(11,12) post served
      by (simp add: create_def reply_created seed_exercises_cli_def reply_no_content Let_def sv2_def db3_def)
  qed
qed

definition ada_args :: create_args where
  "ada_args = \<lparr>ct_slug = Some (lit ''lab''), ct_name = None, ct_repo = Some (lit ''x''), ct_link = True, ct_no_exercises = False,
     ct_profile = \<lparr>pf_description = None, pf_term = None, pf_institution = None, pf_level = None\<rparr>,
     ct_admin_token = None, ct_user = Some (lit ''ada''), ct_password = Some (lit ''h'')\<rparr>"

definition ada_folder :: surroundings where
  "ada_folder = \<lparr>su_git = Inl [], su_config = Absent, su_listing = Inr [Inr \<lparr>de_name = lit ''w1'', de_dir = Inr True\<rparr>], su_typed = Inl Cancelled\<rparr>"

definition ada_envs :: "nat \<Rightarrow> env" where
  "ada_envs n = ada_env (10 + n) (if n = 0 then lit ''k'' else lit ''t2'')"

lemmas slug_eval = normalize_slug_def lit_def trim_def trim_matches_def trim_start_def trim_end_def is_whitespace_def ascii_defs

lemma ada_finds: "exercises_to_define ada_args ada_folder = [\<lparr>xd_slug = lit ''w1'', xd_title = lit ''W1''\<rparr>]"
proof -
  have "normalize_slug (lit ''w1'') = Some (lit ''w1'')" by (simp add: slug_eval)
  moreover have "\<not> is_ignored_dir (lit ''w1'')" by (simp add: is_ignored_dir_def starts_with_def strip_prefix_def lit_def)
  moreover have "title_from_slug (lit ''w1'') = lit ''W1''"
    by (simp add: title_from_slug_def title_word_def lit_def ascii_upper_def ascii_defs)
  ultimately show ?thesis
    by (simp add: exercises_to_define_def ada_args_def ada_folder_def discover_exercises_cli_def read_node_def
        discovered_cli_def result_ok_def)
qed

theorem teacher_creates_one_course_witness:
  "\<exists>rp m sv'. create (live ada_envs) ada_args ada_folder (0, ada_server) = (Inr rp, (m, sv')) \<and>
     members (sv_db sv') = [(Uuid 7, Uuid 2), (Uuid 7, Uuid 9)] \<and>
     (lit ''w1'', lit ''W1'', 0) \<in> items_of (Uuid 9) (exercises (sv_db sv'))"
proof -
  have env: "en_now (ada_envs k) = 10 + k" "en_id (ada_envs k) = Uuid 9" "en_hasher (ada_envs k) = \<lparr>hash_password = Some, verify_password = (=)\<rparr>"
    for k by (simp_all add: ada_envs_def ada_env_def)
  have login: "verify_login (en_hasher (ada_envs 0)) (lit ''ada'') (lit ''h'') (sv_db ada_server) = Some (Uuid 7)"
    by (simp add: env verify_login_def find_admin_def ada_db_def)
  have cookie: "cookie_safe (en_token (ada_envs 0))"
    by (simp add: ada_envs_def cookie_safe_def lit_def is_whitespace_def)
  have repo: "resolve_repo ada_args ada_folder = Inr (Some (lit ''x''))"
    by (simp add: resolve_repo_def ada_args_def slug_eval)
  have slug: "resolve_slug ada_args (Some (lit ''x'')) = Inr (lit ''lab'')"
    by (simp add: resolve_slug_def ada_args_def slug_eval)
  have free: "course_by_slug (lit ''lab'') (sv_db ada_server) = None" "unused (ada_envs (0 + 1)) (sv_db ada_server)"
    by (simp_all add: course_by_slug_def unused_def env) (simp_all add: ada_envs_def lit_def)
  have args: "opt_filter (\<lambda>t. t \<noteq> []) (ct_admin_token ada_args) = None" "ct_user ada_args = Some (lit ''ada'')"
    "ct_password ada_args = Some (lit ''h'')" by (simp_all add: ada_args_def)
  have ne: "lit ''ada'' \<noteq> []" "lit ''h'' \<noteq> []" by (simp_all add: lit_def)
  note teacher_creates_one_course [OF wf_ada login cookie _ _ args(1,2) ne(1) args(3) ne(2) repo slug free]
  then show ?thesis
    by (auto simp: env ada_finds sent_items_def course_made_def)
qed

end
