(* ===== verification/Sql.thy ===== *)
theory Sql
  imports Tenancy
begin

text \<open>
  The SQL the migrations under \<^verbatim>\<open>crates/migration\<close> are written in: tables with their columns,
  keys and references, indexes, and the statements that change them. A database is its schema
  with the rows of each table. \<open>reshape\<close> is what a statement does to the schema and
  \<open>rewrite\<close> what it does to the rows; an error of either fails the whole script, which runs as
  one transaction. The clock and the sequences behind \<^verbatim>\<open>now()\<close> and \<^verbatim>\<open>BIGSERIAL\<close> are the
  parameter \<open>sql_env\<close>.
\<close>

section \<open>Schemas and rows\<close>

datatype sql_type = UUID | TEXT | INTEGER | BIGINT | BIGSERIAL | BOOLEAN | TIMESTAMPTZ

datatype sql_value =
    Null
  | Uuid_Value uuid
  | Text_Value str
  | Int_Value int
  | Bool_Value bool
  | Time_Value int

datatype default_value = Literal sql_value | Now

record column =
  cl_name :: string
  cl_type :: sql_type
  cl_not_null :: bool
  cl_default :: "default_value option"
  cl_references :: "string option"
  cl_cascade :: bool

text \<open>A key written at a column stands with the keys of its table. Every \<^verbatim>\<open>REFERENCES t(id)\<close>
  names the column \<^verbatim>\<open>id\<close>; \<open>cl_cascade\<close> is its \<^verbatim>\<open>ON DELETE CASCADE\<close>.\<close>

record table =
  tb_columns :: "column list"
  tb_primary :: "string list"
  tb_uniques :: "string list list"

record schema =
  sc_tables :: "(string \<times> table) list"
  sc_indexes :: "(string \<times> string \<times> string list) list"

type_synonym row = "string \<rightharpoonup> sql_value"
type_synonym rows = "string \<Rightarrow> row list"
type_synonym database = "schema \<times> rows"

definition column_names :: "table \<Rightarrow> string list" where
  "column_names t = map cl_name (tb_columns t)"

definition columns_of :: "schema \<Rightarrow> string \<Rightarrow> string set" where
  "columns_of sc t = (case map_of (sc_tables sc) t of None \<Rightarrow> {} | Some td \<Rightarrow> set (column_names td))"

definition nullable :: "table \<Rightarrow> column \<Rightarrow> bool" where
  "nullable td c \<longleftrightarrow>
     \<not> cl_not_null c \<and> cl_type c \<noteq> BIGSERIAL \<and> cl_name c \<notin> set (tb_primary td)"

definition keys_of :: "table \<Rightarrow> string list list" where
  "keys_of td = (if tb_primary td = [] then [] else [tb_primary td]) @ tb_uniques td"

definition column_named :: "table \<Rightarrow> string \<Rightarrow> column option" where
  "column_named td c = List.find (\<lambda>d. cl_name d = c) (tb_columns td)"

section \<open>Statements\<close>

text \<open>\<^verbatim>\<open>CREATE \<dots> IF NOT EXISTS\<close>, \<^verbatim>\<open>DROP \<dots> IF EXISTS\<close>, \<^verbatim>\<open>ALTER TABLE \<dots> ADD COLUMN IF NOT EXISTS\<close>
  and \<^verbatim>\<open>DROP COLUMN IF EXISTS\<close>, \<^verbatim>\<open>INSERT \<dots> ON CONFLICT DO NOTHING\<close> of one row, and
  \<^verbatim>\<open>UPDATE t SET c = v WHERE c IS NULL\<close>: the migrations use no others.\<close>

datatype statement =
    Create_Table string table
  | Drop_Table string
  | Add_Column string column
  | Drop_Column string string
  | Create_Index string string "string list"
  | Drop_Index string
  | Insert_Unless_Conflict string "(string \<times> sql_value) list"
  | Fill_Nulls string string sql_value

datatype sql_error =
    Undefined_Table string
  | Undefined_Column string string
  | Dependent_Objects string
  | Datatype_Mismatch string
  | Not_Null_Violation string
  | Foreign_Key_Violation string
  | Key_Violation string

definition relation_exists :: "schema \<Rightarrow> string \<Rightarrow> bool" where
  "relation_exists sc n \<longleftrightarrow>
     map_of (sc_tables sc) n \<noteq> None \<or> map_of (sc_indexes sc) n \<noteq> None"

definition resolves :: "schema \<Rightarrow> column \<Rightarrow> bool" where
  "resolves sc c \<longleftrightarrow>
     (case cl_references c of None \<Rightarrow> True | Some t \<Rightarrow> ''id'' \<in> columns_of sc t)"

definition referenced_elsewhere :: "schema \<Rightarrow> string \<Rightarrow> bool" where
  "referenced_elsewhere sc t \<longleftrightarrow>
     list_ex (\<lambda>(n, td). n \<noteq> t \<and> list_ex (\<lambda>c. cl_references c = Some t) (tb_columns td))
       (sc_tables sc)"

fun fits :: "sql_type \<Rightarrow> sql_value \<Rightarrow> bool" where
  "fits _ Null = True"
| "fits UUID (Uuid_Value _) = True"
| "fits TEXT (Text_Value _) = True"
| "fits INTEGER (Int_Value _) = True"
| "fits BIGINT (Int_Value _) = True"
| "fits BIGSERIAL (Int_Value _) = True"
| "fits BOOLEAN (Bool_Value _) = True"
| "fits TIMESTAMPTZ (Time_Value _) = True"
| "fits _ _ = False"

definition check_value :: "schema \<Rightarrow> string \<Rightarrow> string \<times> sql_value \<Rightarrow> sql_error option" where
  "check_value sc t = (\<lambda>(c, v).
     case map_of (sc_tables sc) t of
       None \<Rightarrow> Some (Undefined_Table t)
     | Some td \<Rightarrow>
         (case column_named td c of
            None \<Rightarrow> Some (Undefined_Column t c)
          | Some col \<Rightarrow> if fits (cl_type col) v then None else Some (Datatype_Mismatch c)))"

primrec first_problem :: "('a \<Rightarrow> sql_error option) \<Rightarrow> 'a list \<Rightarrow> sql_error option" where
  "first_problem f [] = None"
| "first_problem f (x # xs) = (case f x of Some e \<Rightarrow> Some e | None \<Rightarrow> first_problem f xs)"

definition without_column :: "string \<Rightarrow> table \<Rightarrow> table" where
  "without_column c td =
     \<lparr>tb_columns = filter (\<lambda>d. cl_name d \<noteq> c) (tb_columns td),
      tb_primary = (if c \<in> set (tb_primary td) then [] else tb_primary td),
      tb_uniques = filter (\<lambda>k. c \<notin> set k) (tb_uniques td)\<rparr>"

definition with_column :: "column \<Rightarrow> table \<Rightarrow> table" where
  "with_column c td = td\<lparr>tb_columns := tb_columns td @ [c]\<rparr>"

fun reshape :: "statement \<Rightarrow> schema \<Rightarrow> sql_error + schema" where
  "reshape (Create_Table t td) sc =
     (if relation_exists sc t then Inr sc
      else case List.find (\<lambda>c. \<not> resolves sc c) (tb_columns td) of
        Some c \<Rightarrow> Inl (Undefined_Table (the (cl_references c)))
      | None \<Rightarrow> Inr (sc\<lparr>sc_tables := sc_tables sc @ [(t, td)]\<rparr>))"
| "reshape (Drop_Table t) sc =
     (if map_of (sc_tables sc) t = None then Inr sc
      else if referenced_elsewhere sc t then Inl (Dependent_Objects t)
      else Inr \<lparr>sc_tables = AList.delete t (sc_tables sc),
                sc_indexes = filter (\<lambda>(_, n, _). n \<noteq> t) (sc_indexes sc)\<rparr>)"
| "reshape (Add_Column t c) sc =
     (case map_of (sc_tables sc) t of
        None \<Rightarrow> Inl (Undefined_Table t)
      | Some td \<Rightarrow>
          if cl_name c \<in> set (column_names td) then Inr sc
          else if \<not> resolves sc c then Inl (Undefined_Table (the (cl_references c)))
          else Inr (sc\<lparr>sc_tables := AList.update t (with_column c td) (sc_tables sc)\<rparr>))"
| "reshape (Drop_Column t c) sc =
     (case map_of (sc_tables sc) t of
        None \<Rightarrow> Inl (Undefined_Table t)
      | Some td \<Rightarrow>
          if c \<notin> set (column_names td) then Inr sc
          else if c = ''id'' \<and> referenced_elsewhere sc t then Inl (Dependent_Objects t)
          else Inr \<lparr>sc_tables = AList.update t (without_column c td) (sc_tables sc),
                    sc_indexes = filter (\<lambda>(_, n, cs). \<not> (n = t \<and> c \<in> set cs)) (sc_indexes sc)\<rparr>)"
| "reshape (Create_Index i t cs) sc =
     (if relation_exists sc i then Inr sc
      else case map_of (sc_tables sc) t of
        None \<Rightarrow> Inl (Undefined_Table t)
      | Some td \<Rightarrow>
          (case List.find (\<lambda>c. c \<notin> set (column_names td)) cs of
             Some c \<Rightarrow> Inl (Undefined_Column t c)
           | None \<Rightarrow> Inr (sc\<lparr>sc_indexes := sc_indexes sc @ [(i, t, cs)]\<rparr>)))"
| "reshape (Drop_Index i) sc =
     Inr (sc\<lparr>sc_indexes := filter (\<lambda>(n, _). n \<noteq> i) (sc_indexes sc)\<rparr>)"
| "reshape (Insert_Unless_Conflict t vs) sc =
     (if map_of (sc_tables sc) t = None then Inl (Undefined_Table t)
      else case first_problem (check_value sc t) vs of Some e \<Rightarrow> Inl e | None \<Rightarrow> Inr sc)"
| "reshape (Fill_Nulls t c v) sc =
     (case check_value sc t (c, v) of Some e \<Rightarrow> Inl e | None \<Rightarrow> Inr sc)"

section \<open>Rows\<close>

text \<open>The clock of the transaction, and the value a sequence gives a \<^verbatim>\<open>BIGSERIAL\<close> column of a
  table when it is drawn for the \<open>n\<close>-th row of the statement.\<close>

record sql_env =
  env_now :: int
  env_nextval :: "string \<Rightarrow> string \<Rightarrow> nat \<Rightarrow> int"

definition default_of :: "sql_env \<Rightarrow> string \<Rightarrow> column \<Rightarrow> nat \<Rightarrow> sql_value" where
  "default_of env t c n =
     (case cl_default c of
        Some (Literal v) \<Rightarrow> v
      | Some Now \<Rightarrow> Time_Value (env_now env)
      | None \<Rightarrow> if cl_type c = BIGSERIAL then Int_Value (env_nextval env t (cl_name c) n) else Null)"

definition widen :: "sql_env \<Rightarrow> string \<Rightarrow> column \<Rightarrow> row list \<Rightarrow> row list" where
  "widen env t c rs =
     map (\<lambda>(n, r). r(cl_name c \<mapsto> default_of env t c n)) (List.enumerate 0 rs)"

definition refers :: "rows \<Rightarrow> column \<Rightarrow> sql_value \<Rightarrow> bool" where
  "refers dat c v \<longleftrightarrow>
     (case cl_references c of
        None \<Rightarrow> True
      | Some t \<Rightarrow> v = Null \<or> list_ex (\<lambda>r. r ''id'' = Some v) (dat t))"

text \<open>Two rows agree on a key when all its columns are equal and none is null.\<close>

definition same_key :: "string list \<Rightarrow> row \<Rightarrow> row \<Rightarrow> bool" where
  "same_key k r s \<longleftrightarrow> list_all (\<lambda>c. r c = s c \<and> r c \<noteq> Some Null) k"

fun distinct_keys :: "string list list \<Rightarrow> row list \<Rightarrow> bool" where
  "distinct_keys ks [] = True"
| "distinct_keys ks (r # rs) \<longleftrightarrow>
     list_all (\<lambda>s. list_all (\<lambda>k. \<not> same_key k r s) ks) rs \<and> distinct_keys ks rs"

definition new_row :: "sql_env \<Rightarrow> string \<Rightarrow> table \<Rightarrow> (string \<times> sql_value) list \<Rightarrow> row" where
  "new_row env t td vs =
     map_of (map (\<lambda>c. (cl_name c,
       case map_of vs (cl_name c) of Some v \<Rightarrow> v | None \<Rightarrow> default_of env t c 0)) (tb_columns td))"

definition fill :: "string \<Rightarrow> sql_value \<Rightarrow> row \<Rightarrow> row" where
  "fill c v r = (if r c = Some Null then r(c \<mapsto> v) else r)"

fun rewrite :: "sql_env \<Rightarrow> statement \<Rightarrow> schema \<Rightarrow> rows \<Rightarrow> sql_error + rows" where
  "rewrite env (Create_Table t td) sc dat =
     Inr (if relation_exists sc t then dat else dat(t := []))"
| "rewrite env (Drop_Table t) sc dat =
     Inr (if map_of (sc_tables sc) t = None then dat else dat(t := []))"
| "rewrite env (Add_Column t c) sc dat =
     (case map_of (sc_tables sc) t of
        None \<Rightarrow> Inr dat
      | Some td \<Rightarrow>
          if cl_name c \<in> set (column_names td) then Inr dat
          else let rs = widen env t c (dat t) in
            if cl_not_null c \<and> list_ex (\<lambda>r. r (cl_name c) = Some Null) rs
            then Inl (Not_Null_Violation (cl_name c))
            else if \<not> list_all (\<lambda>r. refers dat c (the (r (cl_name c)))) rs
            then Inl (Foreign_Key_Violation (cl_name c))
            else Inr (dat(t := rs)))"
| "rewrite env (Drop_Column t c) sc dat =
     Inr (if c \<in> columns_of sc t then dat(t := map (\<lambda>r. r(c := None)) (dat t)) else dat)"
| "rewrite env (Create_Index i t cs) sc dat = Inr dat"
| "rewrite env (Drop_Index i) sc dat = Inr dat"
| "rewrite env (Insert_Unless_Conflict t vs) sc dat =
     (case map_of (sc_tables sc) t of
        None \<Rightarrow> Inr dat
      | Some td \<Rightarrow> let r = new_row env t td vs in
          (case List.find (\<lambda>c. \<not> nullable td c \<and> r (cl_name c) = Some Null) (tb_columns td) of
             Some c \<Rightarrow> Inl (Not_Null_Violation (cl_name c))
           | None \<Rightarrow>
               if list_ex (\<lambda>s. list_ex (\<lambda>k. same_key k r s) (keys_of td)) (dat t) then Inr dat
               else (case List.find (\<lambda>c. \<not> refers (dat(t := dat t @ [r])) c (the (r (cl_name c))))
                            (tb_columns td) of
                  Some c \<Rightarrow> Inl (Foreign_Key_Violation (cl_name c))
                | None \<Rightarrow> Inr (dat(t := dat t @ [r])))))"
| "rewrite env (Fill_Nulls t c v) sc dat =
     (case map_of (sc_tables sc) t of
        None \<Rightarrow> Inr dat
      | Some td \<Rightarrow>
          (case column_named td c of
             None \<Rightarrow> Inr dat
           | Some col \<Rightarrow> let rs = map (fill c v) (dat t) in
               if \<not> nullable td col \<and> list_ex (\<lambda>r. r c = Some Null) rs
               then Inl (Not_Null_Violation c)
               else if \<not> distinct_keys (filter (\<lambda>k. c \<in> set k) (keys_of td)) rs
               then Inl (Key_Violation c)
               else if list_ex (\<lambda>r. r c = Some Null) (dat t) \<and> \<not> refers (dat(t := rs)) col v
               then Inl (Foreign_Key_Violation c)
               else Inr (dat(t := rs))))"

definition execute :: "sql_env \<Rightarrow> statement \<Rightarrow> database \<Rightarrow> sql_error + database" where
  "execute env s db =
     bind_result (reshape s (fst db)) (\<lambda>sc.
       bind_result (rewrite env s (fst db) (snd db)) (\<lambda>dat. Inr (sc, dat)))"

primrec execute_all :: "sql_env \<Rightarrow> statement list \<Rightarrow> database \<Rightarrow> sql_error + database" where
  "execute_all env [] db = Inr db"
| "execute_all env (s # ss) db = bind_result (execute env s db) (execute_all env ss)"

primrec reshape_all :: "statement list \<Rightarrow> schema \<Rightarrow> sql_error + schema" where
  "reshape_all [] sc = Inr sc"
| "reshape_all (s # ss) sc = bind_result (reshape s sc) (reshape_all ss)"


section \<open>What a script keeps\<close>

text \<open>Every row has exactly the columns of its table, and a table that is not there has no rows.\<close>

definition fitting_rows :: "schema \<Rightarrow> rows \<Rightarrow> bool" where
  "fitting_rows sc dat \<longleftrightarrow>
     (\<forall>t. (map_of (sc_tables sc) t = None \<longrightarrow> dat t = []) \<and> (\<forall>r \<in> set (dat t). dom r = columns_of sc t))"

text \<open>The rows of every table of the schema \<open>sc\<close>, read at the columns they had there.\<close>

definition keeps :: "schema \<Rightarrow> rows \<Rightarrow> rows \<Rightarrow> bool" where
  "keeps sc old new \<longleftrightarrow>
     (\<forall>t. map_of (sc_tables sc) t \<noteq> None \<longrightarrow> map (\<lambda>r. r |` columns_of sc t) (new t) = old t)"

definition extends_schema :: "schema \<Rightarrow> schema \<Rightarrow> bool" where
  "extends_schema sc sc' \<longleftrightarrow>
     (\<forall>t. map_of (sc_tables sc) t \<noteq> None \<longrightarrow>
        map_of (sc_tables sc') t \<noteq> None \<and> columns_of sc t \<subseteq> columns_of sc' t)"

text \<open>A statement that leaves alone what a table of the schema \<open>sc\<close> holds.\<close>

fun spares :: "schema \<Rightarrow> statement \<Rightarrow> bool" where
  "spares sc (Create_Table t td) = True"
| "spares sc (Drop_Table t) \<longleftrightarrow> map_of (sc_tables sc) t = None"
| "spares sc (Add_Column t c) = True"
| "spares sc (Drop_Column t c) \<longleftrightarrow> c \<notin> columns_of sc t"
| "spares sc (Create_Index i t cs) = True"
| "spares sc (Drop_Index i) = True"
| "spares sc (Insert_Unless_Conflict t vs) \<longleftrightarrow> map_of (sc_tables sc) t = None"
| "spares sc (Fill_Nulls t c v) \<longleftrightarrow> c \<notin> columns_of sc t"

text \<open>A statement whose success depends on the schema alone.\<close>

fun unconditional :: "statement \<Rightarrow> bool" where
  "unconditional (Add_Column t c) \<longleftrightarrow>
     (case cl_default c of
        None \<Rightarrow> \<not> cl_not_null c \<and> cl_type c \<noteq> BIGSERIAL
      | Some (Literal v) \<Rightarrow> v \<noteq> Null \<and> cl_references c = None
      | Some Now \<Rightarrow> cl_references c = None)"
| "unconditional (Insert_Unless_Conflict t vs) = False"
| "unconditional (Fill_Nulls t c v) = False"
| "unconditional _ = True"


lemma columns_of_simps:
  "columns_of (sc\<lparr>sc_tables := ts\<rparr>) t =
     (case map_of ts t of None \<Rightarrow> {} | Some td \<Rightarrow> set (column_names td))"
  "columns_of \<lparr>sc_tables = ts, sc_indexes = is\<rparr> t =
     (case map_of ts t of None \<Rightarrow> {} | Some td \<Rightarrow> set (column_names td))"
  "columns_of (sc\<lparr>sc_indexes := is\<rparr>) t = columns_of sc t"
  by (simp_all add: columns_of_def)

lemma column_names_changed [simp]:
  "set (column_names (with_column c td)) = insert (cl_name c) (set (column_names td))"
  "set (column_names (without_column c' td)) = set (column_names td) - {c'}"
  by (auto simp: column_names_def with_column_def without_column_def)

lemma dom_new_row [simp]: "dom (new_row env t td vs) = set (column_names td)"
  by (simp add: new_row_def column_names_def dom_map_of_conv_image_fst image_image)

lemma dom_fill [simp]: "dom (fill c v r) = dom r"
  by (auto simp: fill_def)

lemma execute_cases:
  assumes "execute env s (sc, dat) = Inr (sc', dat')"
  shows "reshape s sc = Inr sc'" "rewrite env s sc dat = Inr dat'"
  using assms by (auto simp: execute_def)

lemma dom_widen:
  assumes "r \<in> set (widen env t c rs)" and "\<And>q. q \<in> set rs \<Longrightarrow> dom q = A"
  shows "dom r = insert (cl_name c) A"
proof -
  from assms(1) obtain n where n: "n < length rs" "r = (rs ! n)(cl_name c \<mapsto> default_of env t c n)"
    by (auto simp: widen_def in_set_enumerate_eq)
  then have "dom (rs ! n) = A" using assms(2) nth_mem by blast
  then show ?thesis using n(2) by simp
qed

lemma restrict_widen:
  assumes "cl_name c \<notin> A"
  shows "map (\<lambda>r. r |` A) (widen env t c rs) = map (\<lambda>r. r |` A) rs"
  using assms by (auto simp: widen_def nth_enumerate_eq intro!: nth_equalityI)

text \<open>A statement that changes tables or rows at all changes one table: it makes it, drops it, or
  changes its columns and rows together.\<close>

inductive table_effect ::
    "sql_env \<Rightarrow> statement \<Rightarrow> string \<Rightarrow> table option \<Rightarrow> row list \<Rightarrow> table option \<Rightarrow> row list \<Rightarrow> bool"
  for env where
  made: "table_effect env (Create_Table t td) t None rs (Some td) []"
| dropped: "table_effect env (Drop_Table t) t (Some td) rs None []"
| widened: "cl_name c \<notin> set (column_names td) \<Longrightarrow>
    table_effect env (Add_Column t c) t (Some td) rs (Some (with_column c td)) (widen env t c rs)"
| narrowed: "c \<in> set (column_names td) \<Longrightarrow>
    table_effect env (Drop_Column t c) t (Some td) rs (Some (without_column c td))
      (map (\<lambda>r. r(c := None)) rs)"
| inserted: "table_effect env (Insert_Unless_Conflict t vs) t (Some td) rs (Some td)
      (rs @ [new_row env t td vs])"
| filled: "table_effect env (Fill_Nulls t c v) t (Some td) rs (Some td) (map (fill c v) rs)"

lemma execute_effect:
  assumes "execute env s (sc, dat) = Inr (sc', dat')"
  obtains
    (same) "map_of (sc_tables sc') = map_of (sc_tables sc)" "dat' = dat"
  | (changed) t d rs where
      "map_of (sc_tables sc') = (map_of (sc_tables sc))(t := d)" "dat' = dat(t := rs)"
      "table_effect env s t (map_of (sc_tables sc) t) (dat t) d rs"
proof -
  note re = execute_cases(1) [OF assms] and rw = execute_cases(2) [OF assms]
  show thesis
  proof (cases s)
    case (Create_Table t td)
    show thesis
    proof (cases "relation_exists sc t")
      case True
      then show thesis using re rw Create_Table same by simp
    next
      case False
      then have "map_of (sc_tables sc') = (map_of (sc_tables sc))(t := Some td)"
        using re Create_Table by (auto simp: relation_exists_def map_add_def split: option.splits)
      then show thesis
        using rw False Create_Table
        by (intro changed [of t "Some td" "[]"]) (auto simp: relation_exists_def intro: made)
    qed
  next
    case (Drop_Table t)
    show thesis
    proof (cases "map_of (sc_tables sc) t")
      case None
      then show thesis using re rw Drop_Table same by simp
    next
      case (Some td)
      then have "map_of (sc_tables sc') = (map_of (sc_tables sc))(t := None)"
        using re Drop_Table by (auto simp: delete_conv' split: if_splits)
      then show thesis
        using rw Some Drop_Table by (intro changed [of t None "[]"]) (auto intro: dropped)
    qed
  next
    case (Add_Column t c)
    then obtain td where td: "map_of (sc_tables sc) t = Some td"
      using re by (auto split: option.splits)
    show thesis
    proof (cases "cl_name c \<in> set (column_names td)")
      case True
      then show thesis using re rw Add_Column td same by simp
    next
      case False
      then have "map_of (sc_tables sc') = (map_of (sc_tables sc))(t := Some (with_column c td))"
        using re Add_Column td by (auto simp: update_conv' split: if_splits)
      then show thesis
        using rw False Add_Column td
        by (intro changed [of t "Some (with_column c td)" "widen env t c (dat t)"])
          (auto simp: Let_def split: if_splits intro: widened)
    qed
  next
    case (Drop_Column t c)
    then obtain td where td: "map_of (sc_tables sc) t = Some td"
      using re by (auto split: option.splits)
    show thesis
    proof (cases "c \<in> set (column_names td)")
      case True
      then have "map_of (sc_tables sc') = (map_of (sc_tables sc))(t := Some (without_column c td))"
        using re Drop_Column td by (auto simp: update_conv' split: if_splits)
      then show thesis
        using rw True Drop_Column td
        by (intro changed [of t "Some (without_column c td)" "map (\<lambda>r. r(c := None)) (dat t)"])
          (auto simp: columns_of_def intro: narrowed)
    next
      case False
      then show thesis using re rw Drop_Column td same by (simp add: columns_of_def)
    qed
  next
    case (Create_Index i t cs)
    then show thesis using re rw same by (auto split: if_splits option.splits)
  next
    case (Drop_Index i)
    then show thesis using re rw same by auto
  next
    case (Insert_Unless_Conflict t vs)
    then obtain td where td: "map_of (sc_tables sc) t = Some td"
      using re by (auto split: if_splits)
    have "sc' = sc" using re Insert_Unless_Conflict by (auto split: if_splits option.splits)
    moreover have "dat' = dat \<or> dat' = dat(t := dat t @ [new_row env t td vs])"
      using rw Insert_Unless_Conflict td by (auto simp: Let_def split: if_splits option.splits)
    moreover have "map_of (sc_tables sc) = (map_of (sc_tables sc))(t := Some td)"
      using td by (simp add: fun_upd_idem)
    ultimately show thesis
      using td Insert_Unless_Conflict same
        changed [of t "Some td" "dat t @ [new_row env t td vs]"] by (auto intro: inserted)
  next
    case (Fill_Nulls t c v)
    have sc': "sc' = sc" using re Fill_Nulls by (auto split: option.splits)
    show thesis
    proof (cases "map_of (sc_tables sc) t")
      case None
      then show thesis using rw Fill_Nulls sc' same by simp
    next
      case (Some td)
      then have "dat' = dat \<or> dat' = dat(t := map (fill c v) (dat t))"
        using rw Fill_Nulls by (auto simp: Let_def split: if_splits option.splits)
      moreover have "map_of (sc_tables sc) = (map_of (sc_tables sc))(t := Some td)"
        using Some by (simp add: fun_upd_idem)
      ultimately show thesis
        using Some Fill_Nulls sc' same
          changed [of t "Some td" "map (fill c v) (dat t)"] by (auto intro: filled)
    qed
  qed
qed

lemma execute_fitting:
  assumes exec: "execute env s (sc, dat) = Inr (sc', dat')" and fit: "fitting_rows sc dat"
  shows "fitting_rows sc' dat'"
  using exec
proof (cases rule: execute_effect)
  case same
  then show ?thesis using fit by (simp add: fitting_rows_def columns_of_def)
next
  case (changed t d rs)
  have old: "dom r = set (column_names td)" if "map_of (sc_tables sc) t = Some td" "r \<in> set (dat t)"
    for td r using fit that by (auto simp: fitting_rows_def columns_of_def)
  have "case d of None \<Rightarrow> rs = [] | Some td \<Rightarrow> \<forall>r \<in> set rs. dom r = set (column_names td)"
    using changed(3)
    by (cases rule: table_effect.cases) (auto simp: old dest: dom_widen [OF _ old])
  then show ?thesis
    using fit changed(1,2) by (cases d) (auto simp: fitting_rows_def columns_of_def)
qed


lemma extends_schemaD:
  assumes "extends_schema sc0 sc" and "map_of (sc_tables sc0) t \<noteq> None"
  shows "map_of (sc_tables sc) t \<noteq> None" "columns_of sc0 t \<subseteq> columns_of sc t"
  using assms by (auto simp: extends_schema_def)

lemma columns_of_table: "map_of (sc_tables sc) t = Some td \<Longrightarrow> columns_of sc t = set (column_names td)"
  by (simp add: columns_of_def)

lemma execute_extends:
  assumes exec: "execute env s (sc, dat) = Inr (sc', dat')"
    and ext: "extends_schema sc0 sc" and spare: "spares sc0 s"
  shows "extends_schema sc0 sc'"
  using exec
proof (cases rule: execute_effect)
  case same
  then show ?thesis using ext by (simp add: extends_schema_def columns_of_def)
next
  case (changed t d rs)
  have "\<exists>td. d = Some td \<and> columns_of sc0 t \<subseteq> set (column_names td)"
    if "map_of (sc_tables sc0) t \<noteq> None"
    using changed(3) extends_schemaD [OF ext that] spare that
    by (cases rule: table_effect.cases) (auto simp: columns_of_table)
  then have "map_of (sc_tables sc') u \<noteq> None \<and> columns_of sc0 u \<subseteq> columns_of sc' u"
    if "map_of (sc_tables sc0) u \<noteq> None" for u
    using extends_schemaD [OF ext that] that changed(1)
    by (cases "u = t") (auto simp: columns_of_def)
  then show ?thesis by (simp add: extends_schema_def)
qed

lemma execute_keeps:
  assumes exec: "execute env s (sc, dat) = Inr (sc', dat')"
    and ext: "extends_schema sc0 sc" and spare: "spares sc0 s" and keep: "keeps sc0 old dat"
  shows "keeps sc0 old dat'"
  using exec
proof (cases rule: execute_effect)
  case same
  then show ?thesis using keep by simp
next
  case (changed t d rs)
  have "map (\<lambda>r. r |` columns_of sc0 t) rs = map (\<lambda>r. r |` columns_of sc0 t) (dat t)"
    if t: "map_of (sc_tables sc0) t \<noteq> None"
    using changed(3)
  proof (cases rule: table_effect.cases)
    case (widened c td)
    then show ?thesis
      using extends_schemaD(2) [OF ext t] by (auto simp: columns_of_table intro!: restrict_widen)
  qed (use extends_schemaD [OF ext t] t spare in \<open>auto simp: fill_def\<close>)
  then show ?thesis
    using keep changed(2) by (auto simp: keeps_def)
qed

lemma execute_all_keeps:
  assumes "execute_all env ss (sc, dat) = Inr (sc', dat')"
    and "extends_schema sc0 sc" and "list_all (spares sc0) ss" and "keeps sc0 old dat"
    and "fitting_rows sc dat"
  shows "extends_schema sc0 sc' \<and> keeps sc0 old dat' \<and> fitting_rows sc' dat'"
  using assms
proof (induction ss arbitrary: sc dat)
  case (Cons s ss)
  then obtain sc1 dat1 where "execute env s (sc, dat) = Inr (sc1, dat1)"
    and "execute_all env ss (sc1, dat1) = Inr (sc', dat')"
    by auto
  with Cons.prems(2-5) Cons.IH show ?case
    by (simp add: execute_extends [of env s] execute_keeps [of env s] execute_fitting [of env s])
qed auto

lemma execute_all_append:
  "execute_all env (ss @ ss') db = bind_result (execute_all env ss db) (execute_all env ss')"
proof (induction ss arbitrary: db)
  case (Cons s ss)
  then show ?case by (cases "execute env s db") simp_all
qed simp

lemma reshape_all_append:
  "reshape_all (ss @ ss') sc = bind_result (reshape_all ss sc) (reshape_all ss')"
proof (induction ss arbitrary: sc)
  case (Cons s ss)
  then show ?case by (cases "reshape s sc") simp_all
qed simp

lemma execute_all_reshapes:
  "execute_all env ss (sc, dat) = Inr (sc', dat') \<Longrightarrow> reshape_all ss sc = Inr sc'"
  by (induction ss arbitrary: sc dat) (auto simp: execute_def)

lemma unconditional_rewrite:
  assumes "unconditional s"
  shows "\<exists>dat'. rewrite env s sc dat = Inr dat'"
proof (cases s)
  case (Add_Column t c)
  have "default_of env t c n \<noteq> Null \<and> cl_references c = None \<or> \<not> cl_not_null c \<and> default_of env t c n = Null"
    for n using assms Add_Column
    by (auto simp: default_of_def split: option.splits default_value.splits)
  then have "\<not> (cl_not_null c \<and> list_ex (\<lambda>r. r (cl_name c) = Some Null) (widen env t c rs))"
    "list_all (\<lambda>r. refers dat c (the (r (cl_name c)))) (widen env t c rs)" for rs
    by (auto simp: list_ex_iff list_all_iff widen_def in_set_enumerate_eq refers_def split: option.splits)
  then show ?thesis
    using Add_Column by (auto simp: Let_def split: option.splits)
qed (use assms in auto)

lemma execute_all_unconditional:
  assumes "list_all unconditional ss" and "reshape_all ss sc = Inr sc'"
  shows "\<exists>dat'. execute_all env ss (sc, dat) = Inr (sc', dat')"
  using assms
proof (induction ss arbitrary: sc dat)
  case (Cons s ss)
  then obtain sc1 where sc1: "reshape s sc = Inr sc1" "reshape_all ss sc1 = Inr sc'"
    by auto
  obtain dat1 where "rewrite env s sc dat = Inr dat1"
    using unconditional_rewrite Cons.prems(1) by fastforce
  then have "execute env s (sc, dat) = Inr (sc1, dat1)"
    using sc1(1) by (simp add: execute_def)
  then show ?case
    using Cons.IH [OF _ sc1(2), of dat1] Cons.prems(1) by auto
qed simp

lemma fitting_restrict:
  assumes "fitting_rows sc dat"
  shows "map (\<lambda>r. r |` columns_of sc t) (dat t) = dat t"
proof (rule map_idI)
  fix r
  assume "r \<in> set (dat t)"
  then have "columns_of sc t = dom r" using assms by (simp add: fitting_rows_def)
  moreover have "r |` dom r = r"
    by (auto simp: restrict_map_def fun_eq_iff domIff)
  ultimately show "r |` columns_of sc t = r" by simp
qed

text \<open>A schema that comes back with its rows fitting comes back with its rows.\<close>

lemma keeps_all:
  assumes "keeps sc old new" "fitting_rows sc old" "fitting_rows sc new"
  shows "new = old"
proof
  fix t
  show "new t = old t"
    using assms fitting_restrict [OF assms(3), of t]
    by (cases "map_of (sc_tables sc) t") (simp_all add: keeps_def fitting_rows_def)
qed

lemma keeps_itself:
  assumes "fitting_rows sc dat"
  shows "extends_schema sc sc" "keeps sc dat dat"
  using fitting_restrict [OF assms] by (simp_all add: extends_schema_def keeps_def)

end
