(* ===== verification/Migrations.thy ===== *)
theory Migrations
  imports Sql
begin

text \<open>
  The schema of the database: the seventeen migrations of \<^verbatim>\<open>crates/migration\<close>, each with its
  \<^verbatim>\<open>up\<close> and \<^verbatim>\<open>down\<close>, and the entities of \<^verbatim>\<open>crates/entity\<close> that the server reads and writes
  through it. The server applies every pending migration when it starts.
\<close>

section \<open>The migrations\<close>

definition col :: "string \<Rightarrow> sql_type \<Rightarrow> column" where
  "col n ty = \<lparr>cl_name = n, cl_type = ty, cl_not_null = False, cl_default = None, cl_references = None,
    cl_cascade = False\<rparr>"

definition required :: "column \<Rightarrow> column" where
  "required c = c\<lparr>cl_not_null := True\<rparr>"

definition defaulting :: "default_value \<Rightarrow> column \<Rightarrow> column" where
  "defaulting d c = c\<lparr>cl_default := Some d\<rparr>"

definition referring :: "string \<Rightarrow> column \<Rightarrow> column" where
  "referring t c = c\<lparr>cl_references := Some t\<rparr>"

definition cascading :: "column \<Rightarrow> column" where
  "cascading c = c\<lparr>cl_cascade := True\<rparr>"

definition keyed :: "string list \<Rightarrow> string list list \<Rightarrow> column list \<Rightarrow> table" where
  "keyed pk us cs = \<lparr>tb_columns = cs, tb_primary = pk, tb_uniques = us\<rparr>"

text \<open>How Postgres reads the text of a UUID: its hexadecimal digits, the hyphens aside.\<close>

definition hex_value :: "char \<Rightarrow> nat" where
  "hex_value c = (let n = of_char c in if n < 58 then n - 48 else if n < 71 then n - 55 else n - 87)"

definition uuid_of_text :: "string \<Rightarrow> uuid" where
  "uuid_of_text s = Uuid (foldl (\<lambda>n c. 16 * n + hex_value c) 0 (filter (\<lambda>c. c \<noteq> CHR ''-'') s))"

definition create_tables_up :: "statement list" where
  "create_tables_up =
    [Create_Table ''sessions''
       (keyed [''id''] []
         [col ''id'' UUID,
          required (col ''student'' TEXT),
          required (col ''command'' TEXT),
          col ''hostname'' TEXT,
          defaulting (Literal (Int_Value 80)) (required (col ''cols'' INTEGER)),
          defaulting (Literal (Int_Value 24)) (required (col ''rows'' INTEGER)),
          defaulting (Literal (Text_Value (lit ''active''))) (required (col ''status'' TEXT)),
          defaulting Now (required (col ''started_at'' TIMESTAMPTZ)),
          col ''ended_at'' TIMESTAMPTZ,
          col ''exit_code'' INTEGER]),
     Create_Table ''terminal_events''
       (keyed [''id''] []
         [col ''id'' BIGSERIAL,
          cascading (referring ''sessions'' (required (col ''session_id'' UUID))),
          required (col ''seq'' BIGINT),
          required (col ''offset_ms'' BIGINT),
          required (col ''stream'' TEXT),
          required (col ''data'' TEXT),
          defaulting Now (required (col ''created_at'' TIMESTAMPTZ))]),
     Create_Index ''idx_terminal_events_session_seq'' ''terminal_events'' [''session_id'', ''seq''],
     Create_Index ''idx_sessions_status'' ''sessions'' [''status'']]"

definition create_tables_down :: "statement list" where
  "create_tables_down =
    [Drop_Table ''terminal_events'',
     Drop_Table ''sessions'']"

definition add_event_text_up :: "statement list" where
  "add_event_text_up =
    [Add_Column ''terminal_events'' (col ''text'' TEXT)]"

definition add_event_text_down :: "statement list" where
  "add_event_text_down =
    [Drop_Column ''terminal_events'' ''text'']"

definition create_file_events_up :: "statement list" where
  "create_file_events_up =
    [Create_Table ''file_events''
       (keyed [''id''] []
         [col ''id'' BIGSERIAL,
          required (col ''student'' TEXT),
          col ''workspace'' TEXT,
          required (col ''path'' TEXT),
          col ''relative_path'' TEXT,
          col ''language'' TEXT,
          col ''exercise'' TEXT,
          required (col ''kind'' TEXT),
          required (col ''at'' TIMESTAMPTZ),
          defaulting Now (required (col ''created_at'' TIMESTAMPTZ))]),
     Create_Index ''idx_file_events_student_at'' ''file_events'' [''student'', ''at''],
     Create_Index ''idx_file_events_exercise'' ''file_events'' [''exercise'']]"

definition create_file_events_down :: "statement list" where
  "create_file_events_down =
    [Drop_Table ''file_events'']"

definition index_file_events_at_up :: "statement list" where
  "index_file_events_at_up =
    [Create_Index ''idx_file_events_at'' ''file_events'' [''at'']]"

definition index_file_events_at_down :: "statement list" where
  "index_file_events_at_down =
    [Drop_Index ''idx_file_events_at'']"

definition multi_tenancy_up :: "statement list" where
  "multi_tenancy_up =
    [Create_Table ''admins''
       (keyed [''id''] [[''username'']]
         [col ''id'' UUID,
          required (col ''username'' TEXT),
          required (col ''password_hash'' TEXT),
          defaulting Now (required (col ''created_at'' TIMESTAMPTZ))]),
     Create_Table ''courses''
       (keyed [''id''] [[''slug''], [''enrollment_token'']]
         [col ''id'' UUID,
          required (col ''slug'' TEXT),
          required (col ''name'' TEXT),
          required (col ''enrollment_token'' TEXT),
          defaulting Now (required (col ''created_at'' TIMESTAMPTZ))]),
     Create_Table ''course_admins''
       (keyed [''admin_id'', ''course_id''] []
         [cascading (referring ''admins'' (required (col ''admin_id'' UUID))),
          cascading (referring ''courses'' (required (col ''course_id'' UUID)))]),
     Insert_Unless_Conflict ''courses''
       [(''id'', Uuid_Value (uuid_of_text ''00000000-0000-0000-0000-000000000001'')),
        (''slug'', Text_Value (lit ''default'')),
        (''name'', Text_Value (lit ''Default course'')),
        (''enrollment_token'', Text_Value (lit ''default-token''))],
     Add_Column ''sessions'' (referring ''courses'' (col ''course_id'' UUID)),
     Add_Column ''file_events'' (referring ''courses'' (col ''course_id'' UUID)),
     Fill_Nulls ''sessions'' ''course_id'' (Uuid_Value (uuid_of_text ''00000000-0000-0000-0000-000000000001'')),
     Fill_Nulls ''file_events'' ''course_id'' (Uuid_Value (uuid_of_text ''00000000-0000-0000-0000-000000000001'')),
     Create_Index ''idx_sessions_course'' ''sessions'' [''course_id''],
     Create_Index ''idx_file_events_course'' ''file_events'' [''course_id'', ''at'']]"

definition multi_tenancy_down :: "statement list" where
  "multi_tenancy_down =
    [Drop_Column ''file_events'' ''course_id'',
     Drop_Column ''sessions'' ''course_id'',
     Drop_Table ''course_admins'',
     Drop_Table ''courses'',
     Drop_Table ''admins'']"

definition session_error_count_up :: "statement list" where
  "session_error_count_up =
    [Add_Column ''sessions'' (defaulting (Literal (Int_Value 0)) (required (col ''error_count'' INTEGER)))]"

definition session_error_count_down :: "statement list" where
  "session_error_count_down =
    [Drop_Column ''sessions'' ''error_count'']"

definition create_messages_up :: "statement list" where
  "create_messages_up =
    [Create_Table ''messages''
       (keyed [''id''] []
         [col ''id'' BIGSERIAL,
          cascading (referring ''courses'' (required (col ''course_id'' UUID))),
          required (col ''body'' TEXT),
          defaulting Now (required (col ''created_at'' TIMESTAMPTZ))]),
     Create_Index ''idx_messages_course_id'' ''messages'' [''course_id'', ''id'']]"

definition create_messages_down :: "statement list" where
  "create_messages_down =
    [Drop_Table ''messages'']"

definition create_exercises_up :: "statement list" where
  "create_exercises_up =
    [Create_Table ''exercises''
       (keyed [''id''] [[''course_id'', ''slug'']]
         [col ''id'' UUID,
          cascading (referring ''courses'' (required (col ''course_id'' UUID))),
          required (col ''slug'' TEXT),
          required (col ''title'' TEXT),
          defaulting (Literal (Int_Value 0)) (required (col ''position'' INTEGER)),
          defaulting Now (required (col ''created_at'' TIMESTAMPTZ))]),
     Create_Index ''idx_exercises_course'' ''exercises'' [''course_id'', ''position'']]"

definition create_exercises_down :: "statement list" where
  "create_exercises_down =
    [Drop_Table ''exercises'']"

definition file_event_provenance_up :: "statement list" where
  "file_event_provenance_up =
    [Add_Column ''file_events'' (col ''student_source'' TEXT),
     Add_Column ''file_events'' (col ''repo'' TEXT)]"

definition file_event_provenance_down :: "statement list" where
  "file_event_provenance_down =
    [Drop_Column ''file_events'' ''repo'',
     Drop_Column ''file_events'' ''student_source'']"

definition index_sessions_course_started_up :: "statement list" where
  "index_sessions_course_started_up =
    [Create_Index ''idx_sessions_course_started'' ''sessions'' [''course_id'', ''started_at'']]"

definition index_sessions_course_started_down :: "statement list" where
  "index_sessions_course_started_down =
    [Drop_Index ''idx_sessions_course_started'']"

definition assistant_up :: "statement list" where
  "assistant_up =
    [Create_Table ''course_assistants''
       (keyed [''course_id''] []
         [cascading (referring ''courses'' (col ''course_id'' UUID)),
          defaulting (Literal (Bool_Value False)) (required (col ''enabled'' BOOLEAN)),
          defaulting (Literal (Text_Value (lit ''claude-opus-4-8''))) (required (col ''model'' TEXT)),
          defaulting (Literal (Text_Value (lit ''''))) (required (col ''system_prompt'' TEXT)),
          defaulting (Literal (Text_Value (lit ''[]''))) (required (col ''skills'' TEXT)),
          defaulting (Literal (Text_Value (lit ''[]''))) (required (col ''mcp_servers'' TEXT)),
          col ''agent_id'' TEXT,
          col ''agent_version'' TEXT,
          col ''environment_id'' TEXT,
          defaulting Now (required (col ''updated_at'' TIMESTAMPTZ))]),
     Create_Table ''assistant_conversations''
       (keyed [''id''] [[''course_id'', ''student'']]
         [col ''id'' UUID,
          cascading (referring ''courses'' (required (col ''course_id'' UUID))),
          required (col ''student'' TEXT),
          col ''session_id'' TEXT,
          defaulting Now (required (col ''created_at'' TIMESTAMPTZ)),
          defaulting Now (required (col ''updated_at'' TIMESTAMPTZ))]),
     Create_Table ''assistant_messages''
       (keyed [''id''] []
         [col ''id'' BIGSERIAL,
          cascading (referring ''assistant_conversations'' (required (col ''conversation_id'' UUID))),
          required (col ''role'' TEXT),
          required (col ''body'' TEXT),
          defaulting Now (required (col ''created_at'' TIMESTAMPTZ))]),
     Create_Index ''idx_assistant_messages_conversation'' ''assistant_messages'' [''conversation_id'', ''id'']]"

definition assistant_down :: "statement list" where
  "assistant_down =
    [Drop_Table ''assistant_messages'',
     Drop_Table ''assistant_conversations'',
     Drop_Table ''course_assistants'']"

definition course_repo_up :: "statement list" where
  "course_repo_up =
    [Add_Column ''courses'' (col ''repo_url'' TEXT)]"

definition course_repo_down :: "statement list" where
  "course_repo_down =
    [Drop_Column ''courses'' ''repo_url'']"

definition course_archive_up :: "statement list" where
  "course_archive_up =
    [Add_Column ''courses'' (col ''archived_at'' TIMESTAMPTZ)]"

definition course_archive_down :: "statement list" where
  "course_archive_down =
    [Drop_Column ''courses'' ''archived_at'']"

definition course_profile_up :: "statement list" where
  "course_profile_up =
    [Add_Column ''courses'' (col ''description'' TEXT),
     Add_Column ''courses'' (col ''term'' TEXT),
     Add_Column ''courses'' (col ''institution'' TEXT),
     Add_Column ''courses'' (col ''level'' TEXT)]"

definition course_profile_down :: "statement list" where
  "course_profile_down =
    [Drop_Column ''courses'' ''description'',
     Drop_Column ''courses'' ''term'',
     Drop_Column ''courses'' ''institution'',
     Drop_Column ''courses'' ''level'']"

definition file_event_edits_up :: "statement list" where
  "file_event_edits_up =
    [Add_Column ''file_events'' (col ''edits'' INTEGER),
     Add_Column ''file_events'' (col ''line'' INTEGER)]"

definition file_event_edits_down :: "statement list" where
  "file_event_edits_down =
    [Drop_Column ''file_events'' ''line'',
     Drop_Column ''file_events'' ''edits'']"

definition course_solutions_up :: "statement list" where
  "course_solutions_up =
    [Add_Column ''courses'' (col ''solutions_ref'' TEXT),
     Add_Column ''courses'' (col ''solutions_dir'' TEXT)]"

definition course_solutions_down :: "statement list" where
  "course_solutions_down =
    [Drop_Column ''courses'' ''solutions_ref'',
     Drop_Column ''courses'' ''solutions_dir'']"

definition message_audience_up :: "statement list" where
  "message_audience_up =
    [Add_Column ''messages'' (col ''student'' TEXT)]"

definition message_audience_down :: "statement list" where
  "message_audience_down =
    [Drop_Column ''messages'' ''student'']"

text \<open>\<^verbatim>\<open>Migrator::migrations\<close>: each migration with how it is applied and undone, in order.\<close>

definition migrations :: "(statement list \<times> statement list) list" where
  "migrations =
    [(create_tables_up, create_tables_down),
     (add_event_text_up, add_event_text_down),
     (create_file_events_up, create_file_events_down),
     (index_file_events_at_up, index_file_events_at_down),
     (multi_tenancy_up, multi_tenancy_down),
     (session_error_count_up, session_error_count_down),
     (create_messages_up, create_messages_down),
     (create_exercises_up, create_exercises_down),
     (file_event_provenance_up, file_event_provenance_down),
     (index_sessions_course_started_up, index_sessions_course_started_down),
     (assistant_up, assistant_down),
     (course_repo_up, course_repo_down),
     (course_archive_up, course_archive_down),
     (course_profile_up, course_profile_down),
     (file_event_edits_up, file_event_edits_down),
     (course_solutions_up, course_solutions_down),
     (message_audience_up, message_audience_down)]"

lemmas migration_defs =
  create_tables_up_def create_tables_down_def
  add_event_text_up_def add_event_text_down_def
  create_file_events_up_def create_file_events_down_def
  index_file_events_at_up_def index_file_events_at_down_def
  multi_tenancy_up_def multi_tenancy_down_def
  session_error_count_up_def session_error_count_down_def
  create_messages_up_def create_messages_down_def
  create_exercises_up_def create_exercises_down_def
  file_event_provenance_up_def file_event_provenance_down_def
  index_sessions_course_started_up_def index_sessions_course_started_down_def
  assistant_up_def assistant_down_def
  course_repo_up_def course_repo_down_def
  course_archive_up_def course_archive_down_def
  course_profile_up_def course_profile_down_def
  file_event_edits_up_def file_event_edits_down_def
  course_solutions_up_def course_solutions_down_def
  message_audience_up_def message_audience_down_def
  col_def required_def defaulting_def referring_def cascading_def keyed_def


section \<open>The entities\<close>

datatype rust_type =
    Rust_Uuid | Rust_String | Rust_i32 | Rust_i64 | Rust_bool | Rust_DateTime | Rust_Option rust_type

record entity =
  en_table :: string
  en_fields :: "(string \<times> rust_type) list"
  en_primary :: "string list"
  en_unique :: "string list"

definition admins_entity :: entity where
  "admins_entity =
     \<lparr>en_table = ''admins'',
      en_fields = [(''id'', Rust_Uuid),
        (''username'', Rust_String),
        (''password_hash'', Rust_String),
        (''created_at'', Rust_DateTime)],
      en_primary = [''id''], en_unique = [''username'']\<rparr>"

definition assistant_conversations_entity :: entity where
  "assistant_conversations_entity =
     \<lparr>en_table = ''assistant_conversations'',
      en_fields = [(''id'', Rust_Uuid),
        (''course_id'', Rust_Uuid),
        (''student'', Rust_String),
        (''session_id'', Rust_Option Rust_String),
        (''created_at'', Rust_DateTime),
        (''updated_at'', Rust_DateTime)],
      en_primary = [''id''], en_unique = []\<rparr>"

definition assistant_messages_entity :: entity where
  "assistant_messages_entity =
     \<lparr>en_table = ''assistant_messages'',
      en_fields = [(''id'', Rust_i64),
        (''conversation_id'', Rust_Uuid),
        (''role'', Rust_String),
        (''body'', Rust_String),
        (''created_at'', Rust_DateTime)],
      en_primary = [''id''], en_unique = []\<rparr>"

definition course_admins_entity :: entity where
  "course_admins_entity =
     \<lparr>en_table = ''course_admins'',
      en_fields = [(''admin_id'', Rust_Uuid),
        (''course_id'', Rust_Uuid)],
      en_primary = [''admin_id'', ''course_id''], en_unique = []\<rparr>"

definition course_assistants_entity :: entity where
  "course_assistants_entity =
     \<lparr>en_table = ''course_assistants'',
      en_fields = [(''course_id'', Rust_Uuid),
        (''enabled'', Rust_bool),
        (''model'', Rust_String),
        (''system_prompt'', Rust_String),
        (''skills'', Rust_String),
        (''mcp_servers'', Rust_String),
        (''agent_id'', Rust_Option Rust_String),
        (''agent_version'', Rust_Option Rust_String),
        (''environment_id'', Rust_Option Rust_String),
        (''updated_at'', Rust_DateTime)],
      en_primary = [''course_id''], en_unique = []\<rparr>"

definition courses_entity :: entity where
  "courses_entity =
     \<lparr>en_table = ''courses'',
      en_fields = [(''id'', Rust_Uuid),
        (''slug'', Rust_String),
        (''name'', Rust_String),
        (''enrollment_token'', Rust_String),
        (''repo_url'', Rust_Option Rust_String),
        (''archived_at'', Rust_Option Rust_DateTime),
        (''solutions_ref'', Rust_Option Rust_String),
        (''solutions_dir'', Rust_Option Rust_String),
        (''description'', Rust_Option Rust_String),
        (''term'', Rust_Option Rust_String),
        (''institution'', Rust_Option Rust_String),
        (''level'', Rust_Option Rust_String),
        (''created_at'', Rust_DateTime)],
      en_primary = [''id''], en_unique = [''slug'', ''enrollment_token'']\<rparr>"

definition exercises_entity :: entity where
  "exercises_entity =
     \<lparr>en_table = ''exercises'',
      en_fields = [(''id'', Rust_Uuid),
        (''course_id'', Rust_Uuid),
        (''slug'', Rust_String),
        (''title'', Rust_String),
        (''position'', Rust_i32),
        (''created_at'', Rust_DateTime)],
      en_primary = [''id''], en_unique = []\<rparr>"

definition file_events_entity :: entity where
  "file_events_entity =
     \<lparr>en_table = ''file_events'',
      en_fields = [(''id'', Rust_i64),
        (''course_id'', Rust_Option Rust_Uuid),
        (''student'', Rust_String),
        (''workspace'', Rust_Option Rust_String),
        (''path'', Rust_String),
        (''relative_path'', Rust_Option Rust_String),
        (''language'', Rust_Option Rust_String),
        (''exercise'', Rust_Option Rust_String),
        (''student_source'', Rust_Option Rust_String),
        (''repo'', Rust_Option Rust_String),
        (''kind'', Rust_String),
        (''edits'', Rust_Option Rust_i32),
        (''line'', Rust_Option Rust_i32),
        (''at'', Rust_DateTime),
        (''created_at'', Rust_DateTime)],
      en_primary = [''id''], en_unique = []\<rparr>"

definition messages_entity :: entity where
  "messages_entity =
     \<lparr>en_table = ''messages'',
      en_fields = [(''id'', Rust_i64),
        (''course_id'', Rust_Uuid),
        (''body'', Rust_String),
        (''student'', Rust_Option Rust_String),
        (''created_at'', Rust_DateTime)],
      en_primary = [''id''], en_unique = []\<rparr>"

definition sessions_entity :: entity where
  "sessions_entity =
     \<lparr>en_table = ''sessions'',
      en_fields = [(''id'', Rust_Uuid),
        (''course_id'', Rust_Option Rust_Uuid),
        (''student'', Rust_String),
        (''command'', Rust_String),
        (''hostname'', Rust_Option Rust_String),
        (''cols'', Rust_i32),
        (''rows'', Rust_i32),
        (''status'', Rust_String),
        (''started_at'', Rust_DateTime),
        (''ended_at'', Rust_Option Rust_DateTime),
        (''exit_code'', Rust_Option Rust_i32),
        (''error_count'', Rust_i32)],
      en_primary = [''id''], en_unique = []\<rparr>"

definition terminal_events_entity :: entity where
  "terminal_events_entity =
     \<lparr>en_table = ''terminal_events'',
      en_fields = [(''id'', Rust_i64),
        (''session_id'', Rust_Uuid),
        (''seq'', Rust_i64),
        (''offset_ms'', Rust_i64),
        (''stream'', Rust_String),
        (''data'', Rust_String),
        (''text'', Rust_Option Rust_String),
        (''created_at'', Rust_DateTime)],
      en_primary = [''id''], en_unique = []\<rparr>"

definition entities :: "entity list" where
  "entities = [admins_entity,
     assistant_conversations_entity,
     assistant_messages_entity,
     course_admins_entity,
     course_assistants_entity,
     courses_entity,
     exercises_entity,
     file_events_entity,
     messages_entity,
     sessions_entity,
     terminal_events_entity]"

lemmas entity_defs =
  admins_entity_def
  assistant_conversations_entity_def
  assistant_messages_entity_def
  course_admins_entity_def
  course_assistants_entity_def
  courses_entity_def
  exercises_entity_def
  file_events_entity_def
  messages_entity_def
  sessions_entity_def
  terminal_events_entity_def

fun stores :: "sql_type \<Rightarrow> rust_type \<Rightarrow> bool" where
  "stores UUID ty \<longleftrightarrow> ty = Rust_Uuid"
| "stores TEXT ty \<longleftrightarrow> ty = Rust_String"
| "stores INTEGER ty \<longleftrightarrow> ty = Rust_i32"
| "stores BIGINT ty \<longleftrightarrow> ty = Rust_i64"
| "stores BIGSERIAL ty \<longleftrightarrow> ty = Rust_i64"
| "stores BOOLEAN ty \<longleftrightarrow> ty = Rust_bool"
| "stores TIMESTAMPTZ ty \<longleftrightarrow> ty = Rust_DateTime"

text \<open>A column serves a field when every value of either is a value of the other: the field is an
  \<^verbatim>\<open>Option\<close> exactly when the column may be null.\<close>

fun column_serves :: "table \<Rightarrow> column \<Rightarrow> rust_type \<Rightarrow> bool" where
  "column_serves td c (Rust_Option ty) \<longleftrightarrow> nullable td c \<and> stores (cl_type c) ty"
| "column_serves td c ty \<longleftrightarrow> \<not> nullable td c \<and> stores (cl_type c) ty"

definition serves :: "schema \<Rightarrow> entity \<Rightarrow> bool" where
  "serves sc e \<longleftrightarrow>
     (case map_of (sc_tables sc) (en_table e) of
        None \<Rightarrow> False
      | Some td \<Rightarrow>
          length (tb_columns td) = length (en_fields e) \<and>
          list_all (\<lambda>(f, ty). case column_named td f of None \<Rightarrow> False | Some c \<Rightarrow> column_serves td c ty)
            (en_fields e) \<and>
          tb_primary td = en_primary e \<and>
          list_all (\<lambda>u. [u] \<in> set (tb_uniques td)) (en_unique e))"

definition no_schema :: schema where
  "no_schema = \<lparr>sc_tables = [], sc_indexes = []\<rparr>"

definition schema_at :: "nat \<Rightarrow> sql_error + schema" where
  "schema_at k = reshape_all (concat (map fst (take k migrations))) no_schema"

text \<open>A database the first \<open>k\<close> migrations have made, whatever has been stored in it since.\<close>

definition at_version :: "nat \<Rightarrow> database \<Rightarrow> bool" where
  "at_version k db \<longleftrightarrow> schema_at k = Inr (fst db) \<and> fitting_rows (fst db) (snd db)"

text \<open>What the server does to its database when it starts: \<^verbatim>\<open>Migrator::up\<close> applies the migrations
  that are not recorded as applied, in their order.\<close>

definition apply_pending :: "sql_env \<Rightarrow> nat \<Rightarrow> database \<Rightarrow> sql_error + database" where
  "apply_pending env k = execute_all env (concat (map fst (drop k migrations)))"

text \<open>What was recorded before there were courses belongs to the default course.\<close>

definition adopted :: "rows \<Rightarrow> bool" where
  "adopted dat \<longleftrightarrow>
     list_ex (\<lambda>r. r ''id'' = Some (Uuid_Value DEFAULT_COURSE_ID)) (dat ''courses'') \<and>
     list_all (\<lambda>t. list_all (\<lambda>r. r ''course_id'' = Some (Uuid_Value DEFAULT_COURSE_ID)) (dat t))
       [''sessions'', ''file_events'']"

end
