(* ===== verification/Migration_Rules.thy ===== *)
theory Migration_Rules
  imports Migrations
begin

text \<open>
  What holds of the migrations: the schema they make serves every entity, applying the pending
  ones loses nothing and places what was recorded before there were courses in the default
  course, and each can be undone. The schemas are computed; the rows are arbitrary.
\<close>

section \<open>The chain of schemas\<close>

text \<open>From \<open>sc\<close> the migrations \<open>ms\<close> apply one after another; each can be undone where it ends, and
  none of them or of the later ones touches what the tables held before it.\<close>

fun sound_chain :: "schema \<Rightarrow> (statement list \<times> statement list) list \<Rightarrow> bool" where
  "sound_chain sc [] \<longleftrightarrow> list_all (serves sc) entities"
| "sound_chain sc ((u, d) # ms) \<longleftrightarrow>
     (case reshape_all u sc of
        Inl _ \<Rightarrow> False
      | Inr sc' \<Rightarrow>
          reshape_all d sc' = Inr sc \<and> list_all unconditional d \<and> list_all (spares sc) d \<and>
          list_all (spares sc) (u @ concat (map fst ms)) \<and> sound_chain sc' ms)"

lemma migrations_chain: "sound_chain no_schema migrations"
  by code_simp

lemma migrations_length: "length migrations = 17"
  by (simp add: migrations_def)

lemma migrations_unconditional:
  "list_all (\<lambda>k. k = 4 \<or> list_all unconditional (fst (migrations ! k))) [0..<17]"
  by code_simp

lemma sound_chain_drop:
  assumes "sound_chain sc ms" and "k \<le> length ms"
  shows "\<exists>sc'. reshape_all (concat (map fst (take k ms))) sc = Inr sc' \<and> sound_chain sc' (drop k ms)"
  using assms
proof (induction k arbitrary: sc ms)
  case (Suc k)
  then obtain u d ms' where ms: "ms = (u, d) # ms'" by (cases ms) auto
  with Suc.prems obtain sc1 where "reshape_all u sc = Inr sc1" "sound_chain sc1 ms'" "k \<le> length ms'"
    by (auto split: sum.splits)
  with Suc.IH [of sc1 ms'] ms show ?case
    by (auto simp: reshape_all_append)
qed simp

lemma chain_at:
  assumes "at_version k db" and "k \<le> 17"
  shows "sound_chain (fst db) (drop k migrations)"
  using assms sound_chain_drop [OF migrations_chain, of k]
  by (auto simp: at_version_def schema_at_def migrations_length)

lemma schema_at_Suc:
  assumes "k < 17"
  shows "schema_at (Suc k) = bind_result (schema_at k) (reshape_all (fst (migrations ! k)))"
  using assms by (simp add: schema_at_def take_Suc_conv_app_nth migrations_length reshape_all_append)

lemma chain_step:
  assumes "at_version k db" and "k < 17"
  obtains sc' where "schema_at (Suc k) = Inr sc'" "reshape_all (fst (migrations ! k)) (fst db) = Inr sc'"
    "reshape_all (snd (migrations ! k)) sc' = Inr (fst db)"
    "list_all unconditional (snd (migrations ! k))" "list_all (spares (fst db)) (snd (migrations ! k))"
    "list_all (spares (fst db)) (concat (map fst (drop k migrations)))"
proof -
  obtain u d where m: "migrations ! k = (u, d)" by fastforce
  have drop: "drop k migrations = (u, d) # drop (Suc k) migrations"
    using assms(2) m by (metis Cons_nth_drop_Suc migrations_length)
  have "sound_chain (fst db) (drop k migrations)" using chain_at assms by simp
  with drop obtain sc' where
    "reshape_all (fst (migrations ! k)) (fst db) = Inr sc'"
    "reshape_all (snd (migrations ! k)) sc' = Inr (fst db)"
    "list_all unconditional (snd (migrations ! k))" "list_all (spares (fst db)) (snd (migrations ! k))"
    "list_all (spares (fst db)) (concat (map fst (drop k migrations)))"
    using m by (auto split: sum.splits)
  moreover have "schema_at (Suc k) = Inr sc'"
    using schema_at_Suc [OF assms(2)] assms(1) calculation(1) by (simp add: at_version_def)
  ultimately show thesis using that by blast
qed


section \<open>One migration on arbitrary rows\<close>

lemma at_version_Suc:
  assumes "at_version k db" and "k < 17" and "execute_all env (fst (migrations ! k)) db = Inr db'"
  shows "at_version (Suc k) db'" "keeps (fst db) (snd db) (snd db')"
    "extends_schema (fst db) (fst db')"
proof -
  have fit: "fitting_rows (fst db) (snd db)" and at: "schema_at k = Inr (fst db)"
    using assms(1) by (simp_all add: at_version_def)
  have m: "fst (migrations ! k) @ concat (map fst (drop (Suc k) migrations)) =
      concat (map fst (drop k migrations))"
    using assms(2) by (metis Cons_nth_drop_Suc concat.simps(2) list.simps(9) migrations_length)
  have "list_all (spares (fst db)) (fst (migrations ! k))"
    using chain_step [OF assms(1,2)] m by (metis list_all_append)
  with execute_all_keeps [of env _ "fst db" "snd db" "fst db'" "snd db'"] assms(3) keeps_itself [OF fit] fit
  have "extends_schema (fst db) (fst db') \<and> keeps (fst db) (snd db) (snd db') \<and>
      fitting_rows (fst db') (snd db')"
    by simp
  moreover have "reshape_all (fst (migrations ! k)) (fst db) = Inr (fst db')"
    using execute_all_reshapes [of env _ "fst db" "snd db" "fst db'" "snd db'"] assms(3) by simp
  ultimately show "at_version (Suc k) db'" "keeps (fst db) (snd db) (snd db')"
    "extends_schema (fst db) (fst db')"
    using schema_at_Suc [OF assms(2)] at by (simp_all add: at_version_def)
qed

lemma unconditional_step:
  assumes "at_version k db" and "k < 17" and "k \<noteq> 4"
  shows "\<exists>db'. execute_all env (fst (migrations ! k)) db = Inr db'"
proof -
  have "list_all unconditional (fst (migrations ! k))"
    using migrations_unconditional assms(2,3) by (auto simp: list_all_iff)
  then show ?thesis
    using chain_step [OF assms(1,2)] execute_all_unconditional
    by (metis prod.collapse)
qed

section \<open>Adopting what came before the courses\<close>

text \<open>The schema after the first \<open>n\<close> statements of the fifth migration.\<close>

definition mid :: "nat \<Rightarrow> schema" where
  "mid n = projr (reshape_all (take n multi_tenancy_up) (projr (schema_at 4)))"

definition default_id :: sql_value where
  "default_id = Uuid_Value (uuid_of_text ''00000000-0000-0000-0000-000000000001'')"

lemma default_id: "default_id = Uuid_Value DEFAULT_COURSE_ID"
  by code_simp

definition joins_courses :: "schema \<Rightarrow> string \<Rightarrow> bool" where
  "joins_courses sc t \<longleftrightarrow>
     (case map_of (sc_tables sc) t of
        None \<Rightarrow> False
      | Some td \<Rightarrow>
          (case column_named td ''course_id'' of
             None \<Rightarrow> False
           | Some c \<Rightarrow> cl_type c = UUID \<and> cl_references c = Some ''courses'' \<and> nullable td c \<and>
               filter (\<lambda>k. ''course_id'' \<in> set k) (keys_of td) = []))"

definition lacks_course :: "schema \<Rightarrow> string \<Rightarrow> bool" where
  "lacks_course sc t \<longleftrightarrow>
     (case map_of (sc_tables sc) t of
        None \<Rightarrow> False | Some td \<Rightarrow> ''course_id'' \<notin> set (column_names td))"

lemma mid_steps: "list_all (\<lambda>n. reshape (multi_tenancy_up ! n) (mid n) = Inr (mid (Suc n))) [0..<10]"
  by code_simp

lemma mid_step: "n < 10 \<Longrightarrow> reshape (multi_tenancy_up ! n) (mid n) = Inr (mid (n + 1))"
  using mid_steps by (simp add: list_all_iff)

lemma mid_courses:
  "map_of (sc_tables (mid 0)) ''courses'' = None"
  "map_option Some (map_of (sc_tables (mid 3)) ''courses'') =
     Some (case multi_tenancy_up ! 1 of Create_Table _ td \<Rightarrow> Some td | _ \<Rightarrow> None)"
  by code_simp+

lemma mid_joins:
  "lacks_course (mid 4) ''sessions''" "lacks_course (mid 5) ''file_events''"
  "joins_courses (mid 6) ''sessions''" "joins_courses (mid 7) ''file_events''"
  by code_simp+

lemma distinct_keys_Nil [simp]: "distinct_keys [] rs"
  by (induction rs) (auto simp: list_all_iff)

lemma add_course_succeeds:
  assumes "reshape (Add_Column t (referring ''courses'' (col ''course_id'' UUID))) sc = Inr sc'"
    and "lacks_course sc t"
  obtains rs where "execute env (Add_Column t (referring ''courses'' (col ''course_id'' UUID))) (sc, dat) =
      Inr (sc', dat(t := rs))" "\<forall>r \<in> set rs. r ''course_id'' = Some Null"
proof -
  let ?c = "referring ''courses'' (col ''course_id'' UUID)"
  have null: "\<forall>r \<in> set (widen env t ?c (dat t)). r ''course_id'' = Some Null"
    by (auto simp: widen_def referring_def col_def default_of_def in_set_enumerate_eq)
  have "rewrite env (Add_Column t ?c) sc dat = Inr (dat(t := widen env t ?c (dat t)))"
    using assms(2) null
    by (auto simp: lacks_course_def Let_def refers_def referring_def col_def list_all_iff
        split: option.splits)
  then show thesis using that assms(1) null by (simp add: execute_def)
qed

lemma fill_course_succeeds:
  assumes "reshape (Fill_Nulls t ''course_id'' default_id) sc = Inr sc'" and "joins_courses sc t"
    and "t \<noteq> ''courses''" and "list_ex (\<lambda>r. r ''id'' = Some default_id) (dat ''courses'')"
  shows "execute env (Fill_Nulls t ''course_id'' default_id) (sc, dat) =
    Inr (sc', dat(t := map (fill ''course_id'' default_id) (dat t)))"
proof -
  have "rewrite env (Fill_Nulls t ''course_id'' default_id) sc dat =
      Inr (dat(t := map (fill ''course_id'' default_id) (dat t)))"
    using assms(2-4)
    by (auto simp: joins_courses_def Let_def refers_def split: option.splits)
  then show ?thesis using assms(1) by (simp add: execute_def)
qed


lemma fill_null: "r c = Some Null \<Longrightarrow> fill c v r c = Some v"
  by (simp add: fill_def)

lemma create_tables_empty:
  assumes "execute_all env (map (\<lambda>(t, td). Create_Table t td) ts) (sc, dat) = Inr (sc', dat')"
    and "dat t = []"
  shows "dat' t = []"
  using assms
proof (induction ts arbitrary: sc dat)
  case (Cons x ts)
  then show ?case by (cases x) (auto simp: execute_def split: if_splits)
qed simp

definition default_course_row :: "sql_env \<Rightarrow> row" where
  "default_course_row env =
     [''id'' \<mapsto> default_id, ''slug'' \<mapsto> Text_Value (lit ''default''),
      ''name'' \<mapsto> Text_Value (lit ''Default course''),
      ''enrollment_token'' \<mapsto> Text_Value (lit ''default-token''),
      ''created_at'' \<mapsto> Time_Value (env_now env)]"

lemma insert_default_course:
  assumes "dat ''courses'' = []"
  shows "execute env (multi_tenancy_up ! 3) (mid 3, dat) =
    Inr (mid 4, dat(''courses'' := [default_course_row env]))"
proof -
  have "reshape (multi_tenancy_up ! 3) (mid 3) = Inr (mid 4)"
    using mid_step [of 3] by simp
  moreover have "rewrite env (multi_tenancy_up ! 3) (mid 3) dat =
      Inr (dat(''courses'' := [default_course_row env]))"
    using assms mid_courses(2)
    by (auto simp: multi_tenancy_up_def keyed_def Let_def new_row_def default_of_def nullable_def
        refers_def col_def required_def defaulting_def default_course_row_def default_id_def fun_eq_iff)
  ultimately show ?thesis by (simp add: execute_def)
qed


lemma multi_tenancy_parts:
  "drop 3 multi_tenancy_up =
     [multi_tenancy_up ! 3,
      Add_Column ''sessions'' (referring ''courses'' (col ''course_id'' UUID)),
      Add_Column ''file_events'' (referring ''courses'' (col ''course_id'' UUID)),
      Fill_Nulls ''sessions'' ''course_id'' default_id,
      Fill_Nulls ''file_events'' ''course_id'' default_id] @ drop 8 multi_tenancy_up"
  "multi_tenancy_up ! 4 = Add_Column ''sessions'' (referring ''courses'' (col ''course_id'' UUID))"
  "multi_tenancy_up ! 5 = Add_Column ''file_events'' (referring ''courses'' (col ''course_id'' UUID))"
  "multi_tenancy_up ! 6 = Fill_Nulls ''sessions'' ''course_id'' default_id"
  "multi_tenancy_up ! 7 = Fill_Nulls ''file_events'' ''course_id'' default_id"
  "\<exists>ts. take 3 multi_tenancy_up = map (\<lambda>(t, td). Create_Table t td) ts"
  "list_all unconditional (take 3 multi_tenancy_up)"
  by (auto simp: multi_tenancy_up_def default_id_def intro: exI [of _ "[(a, b), (c, d), (e, f)]" for a b c d e f])

lemma indexing_keeps_rows:
  "execute_all env (drop 8 multi_tenancy_up) (mid 8, dat) = Inr (mid 10, dat)"
proof -
  have "drop 8 multi_tenancy_up = [multi_tenancy_up ! 8, multi_tenancy_up ! 9]"
    by (simp add: multi_tenancy_up_def)
  moreover have "rewrite env (multi_tenancy_up ! n) sc dat = Inr dat" if "n \<in> {8, 9}" for n sc
    using that by (auto simp: multi_tenancy_up_def)
  ultimately show ?thesis
    using mid_step [of 8] mid_step [of 9] by (simp add: execute_def)
qed

lemma mid_alters:
  "reshape (Add_Column ''sessions'' (referring ''courses'' (col ''course_id'' UUID))) (mid 4) = Inr (mid 5)"
  "reshape (Add_Column ''file_events'' (referring ''courses'' (col ''course_id'' UUID))) (mid 5) = Inr (mid 6)"
  "reshape (Fill_Nulls ''sessions'' ''course_id'' default_id) (mid 6) = Inr (mid 7)"
  "reshape (Fill_Nulls ''file_events'' ''course_id'' default_id) (mid 7) = Inr (mid 8)"
  using mid_step [of 4] mid_step [of 5] mid_step [of 6] mid_step [of 7]
  by (simp_all add: multi_tenancy_parts(2-5) del: reshape.simps)

lemma mid_created: "reshape_all (take 3 multi_tenancy_up) (mid 0) = Inr (mid 3)"
  by code_simp

lemma adopting_succeeds:
  assumes none: "dat ''courses'' = []"
  shows "\<exists>dat'. execute_all env (drop 3 multi_tenancy_up) (mid 3, dat) = Inr (mid 10, dat') \<and> adopted dat'"
proof -
  let ?d4 = "dat(''courses'' := [default_course_row env])"
  obtain ss where s: "execute env (Add_Column ''sessions'' (referring ''courses'' (col ''course_id'' UUID)))
      (mid 4, ?d4) = Inr (mid 5, ?d4(''sessions'' := ss))" "\<forall>r \<in> set ss. r ''course_id'' = Some Null"
    using add_course_succeeds [OF mid_alters(1) mid_joins(1)] .
  let ?d5 = "?d4(''sessions'' := ss)"
  obtain fs where f: "execute env (Add_Column ''file_events'' (referring ''courses'' (col ''course_id'' UUID)))
      (mid 5, ?d5) = Inr (mid 6, ?d5(''file_events'' := fs))" "\<forall>r \<in> set fs. r ''course_id'' = Some Null"
    using add_course_succeeds [OF mid_alters(2) mid_joins(2)] .
  let ?d6 = "?d5(''file_events'' := fs)"
  let ?d7 = "?d6(''sessions'' := map (fill ''course_id'' default_id) ss)"
  let ?d8 = "?d7(''file_events'' := map (fill ''course_id'' default_id) fs)"
  have course: "default_course_row env ''id'' = Some default_id"
    by (simp add: default_course_row_def)
  have "execute env (Fill_Nulls ''sessions'' ''course_id'' default_id) (mid 6, ?d6) = Inr (mid 7, ?d7)"
    using fill_course_succeeds [OF mid_alters(3) mid_joins(3)] course by simp
  moreover have "execute env (Fill_Nulls ''file_events'' ''course_id'' default_id) (mid 7, ?d7) = Inr (mid 8, ?d8)"
    using fill_course_succeeds [OF mid_alters(4) mid_joins(4)] course by simp
  ultimately have "execute_all env (drop 3 multi_tenancy_up) (mid 3, dat) = Inr (mid 10, ?d8)"
    using insert_default_course [where env = env and dat = dat, OF none] s(1) f(1) indexing_keeps_rows
    by (subst multi_tenancy_parts(1)) (simp add: execute_all_append)
  moreover have "adopted ?d8"
    using s(2) f(2) course by (simp add: adopted_def default_id [symmetric] list_all_iff fill_null)
  ultimately show ?thesis by blast
qed

lemma multi_tenancy_step:
  assumes "at_version 4 db"
  shows "\<exists>db'. execute_all env multi_tenancy_up db = Inr db' \<and> adopted (snd db')"
proof -
  obtain dat where db: "db = (mid 0, dat)"
    using assms by (cases db) (simp add: at_version_def mid_def)
  have none: "dat ''courses'' = []"
    using assms mid_courses(1) db by (simp add: at_version_def fitting_rows_def)
  obtain dat3 where created: "execute_all env (take 3 multi_tenancy_up) db = Inr (mid 3, dat3)"
    using execute_all_unconditional [OF multi_tenancy_parts(7) mid_created] db by blast
  then have "dat3 ''courses'' = []"
    using create_tables_empty none multi_tenancy_parts(6) db by metis
  then obtain dat' where "execute_all env (drop 3 multi_tenancy_up) (mid 3, dat3) = Inr (mid 10, dat')"
    and "adopted dat'"
    using adopting_succeeds by blast
  with created show ?thesis
    by (metis append_take_drop_id bind_result.simps(2) execute_all_append snd_conv)
qed

section \<open>Starting the server on an older database\<close>

lemma migration_applies:
  assumes "at_version k db" and "k < 17"
  shows "\<exists>db'. execute_all env (fst (migrations ! k)) db = Inr db' \<and> at_version (Suc k) db' \<and>
    extends_schema (fst db) (fst db') \<and> keeps (fst db) (snd db) (snd db') \<and> (k = 4 \<longrightarrow> adopted (snd db'))"
proof (cases "k = 4")
  case True
  then have "fst (migrations ! k) = multi_tenancy_up" by (simp add: migrations_def)
  moreover obtain db' where "execute_all env multi_tenancy_up db = Inr db'" "adopted (snd db')"
    using multi_tenancy_step assms(1) True by blast
  ultimately show ?thesis
    using at_version_Suc [OF assms, of env db'] by auto
next
  case False
  with unconditional_step [OF assms] at_version_Suc [OF assms] False show ?thesis by blast
qed


lemma extends_schema_trans:
  assumes "extends_schema a b" "extends_schema b c"
  shows "extends_schema a c"
  using assms unfolding extends_schema_def by blast

lemma keeps_through:
  assumes "keeps a old dat" "keeps b dat new" "extends_schema a b"
  shows "keeps a old new"
proof -
  have "map (\<lambda>r. r |` columns_of a t) (new t) = old t" if t: "map_of (sc_tables a) t \<noteq> None" for t
  proof -
    have "columns_of b t \<inter> columns_of a t = columns_of a t"
      using extends_schemaD(2) [OF assms(3) t] by blast
    then have "map (\<lambda>r. r |` columns_of a t) (new t) =
        map (\<lambda>r. r |` columns_of a t) (map (\<lambda>r. r |` columns_of b t) (new t))"
      by simp
    also have "\<dots> = map (\<lambda>r. r |` columns_of a t) (dat t)"
      using assms(2) extends_schemaD(1) [OF assms(3) t] by (simp add: keeps_def)
    also have "\<dots> = old t"
      using assms(1) t by (simp add: keeps_def)
    finally show ?thesis .
  qed
  then show ?thesis by (simp add: keeps_def)
qed

lemma keeps_column:
  assumes "keeps sc dat dat'" and "c \<in> columns_of sc t"
  shows "map (\<lambda>r. r c) (dat t) = map (\<lambda>r. r c) (dat' t)"
proof -
  have "map_of (sc_tables sc) t \<noteq> None" using assms(2) by (auto simp: columns_of_def split: option.splits)
  then have "dat t = map (\<lambda>r. r |` columns_of sc t) (dat' t)" using assms(1) by (simp add: keeps_def)
  then show ?thesis using assms(2) by simp
qed

lemma course_columns:
  "list_all (\<lambda>(t, c). c \<in> columns_of (projr (schema_at 5)) t)
     [(''courses'', ''id''), (''sessions'', ''course_id''), (''file_events'', ''course_id'')]"
  by code_simp

lemma keeps_adopted:
  assumes "adopted dat" "keeps sc dat dat'" "schema_at 5 = Inr sc"
  shows "adopted dat'"
proof -
  have col: "map (\<lambda>r. r ''id'') (dat ''courses'') = map (\<lambda>r. r ''id'') (dat' ''courses'')"
    "\<forall>t \<in> {''sessions'', ''file_events''}.
       map (\<lambda>r. r ''course_id'') (dat t) = map (\<lambda>r. r ''course_id'') (dat' t)"
    using course_columns assms(3) keeps_column [OF assms(2)] by auto
  have ex: "list_ex (\<lambda>r. r c = v) rs \<longleftrightarrow> v \<in> set (map (\<lambda>r. r c) rs)"
    and all: "list_all (\<lambda>r. r c = v) rs \<longleftrightarrow> set (map (\<lambda>r. r c) rs) \<subseteq> {v}" for c v and rs :: "row list"
    by (auto simp: list_ex_iff list_all_iff)
  show ?thesis
    using assms(1) col unfolding adopted_def ex all by (simp del: set_map)
qed

lemma apply_pending_Suc:
  assumes "k < 17" and "execute_all env (fst (migrations ! k)) db = Inr db'"
  shows "apply_pending env k db = apply_pending env (Suc k) db'"
proof -
  have "drop k migrations = migrations ! k # drop (Suc k) migrations"
    using assms(1) by (simp add: Cons_nth_drop_Suc migrations_length)
  then show ?thesis
    using assms(2) by (simp add: apply_pending_def execute_all_append)
qed

lemma pending_apply:
  assumes "k \<le> 17"
  shows "\<forall>db. at_version k db \<longrightarrow> (\<exists>db'. apply_pending env k db = Inr db' \<and> at_version 17 db' \<and>
    keeps (fst db) (snd db) (snd db') \<and> (k \<le> 4 \<longrightarrow> adopted (snd db')))"
  using assms
proof (induction rule: inc_induct)
  case base
  show ?case
    using keeps_itself(2) by (auto simp: apply_pending_def migrations_length at_version_def)
next
  case (step n)
  show ?case
  proof (intro allI impI)
    fix db
    assume at: "at_version n db"
    obtain db1 where db1: "execute_all env (fst (migrations ! n)) db = Inr db1" "at_version (Suc n) db1"
      "extends_schema (fst db) (fst db1)" "keeps (fst db) (snd db) (snd db1)" "n = 4 \<longrightarrow> adopted (snd db1)"
      using migration_applies [OF at step.hyps(2)] by blast
    obtain db' where db': "apply_pending env (Suc n) db1 = Inr db'" "at_version 17 db'"
      "keeps (fst db1) (snd db1) (snd db')" "Suc n \<le> 4 \<longrightarrow> adopted (snd db')"
      using step.IH db1(2) by blast
    have "n \<le> 4 \<longrightarrow> adopted (snd db')"
      using db1(2,5) db'(3,4) keeps_adopted by (cases "n = 4") (auto simp: at_version_def)
    then show "\<exists>db'. apply_pending env n db = Inr db' \<and> at_version 17 db' \<and>
        keeps (fst db) (snd db) (snd db') \<and> (n \<le> 4 \<longrightarrow> adopted (snd db'))"
      using db'(1-3) apply_pending_Suc [OF step.hyps(2) db1(1)] keeps_through [OF db1(4) db'(3) db1(3)]
      by auto
  qed
qed

text \<open>A deployment of the first version, with one recorded session.\<close>

definition sample_env :: sql_env where
  "sample_env = \<lparr>env_now = 1700000000, env_nextval = (\<lambda>_ _ n. int n + 1)\<rparr>"

definition first_session :: row where
  "first_session = map_of
     [(''id'', Uuid_Value (Uuid 7)), (''student'', Text_Value (lit ''alice'')),
      (''command'', Text_Value (lit ''bash'')), (''hostname'', Null), (''cols'', Int_Value 80),
      (''rows'', Int_Value 24), (''status'', Text_Value (lit ''ended'')),
      (''started_at'', Time_Value 5), (''ended_at'', Time_Value 9), (''exit_code'', Int_Value 0)]"

definition first_database :: database where
  "first_database = (projr (schema_at 1), (\<lambda>_. [])(''sessions'' := [first_session]))"

lemma first_database_version: "at_version 1 first_database"
proof -
  have sc: "schema_at 1 = Inr (projr (schema_at 1))"
    "columns_of (projr (schema_at 1)) ''sessions'' =
       {''id'', ''student'', ''command'', ''hostname'', ''cols'', ''rows'', ''status'',
        ''started_at'', ''ended_at'', ''exit_code''}"
    by code_simp+
  have "map_of (sc_tables (projr (schema_at 1))) ''sessions'' \<noteq> None"
    using sc(2) by (auto simp: columns_of_def split: option.splits)
  moreover have "dom first_session = columns_of (projr (schema_at 1)) ''sessions''"
    unfolding sc(2) first_session_def by (simp add: dom_map_of_conv_image_fst)
  ultimately show ?thesis
    using sc(1) by (auto simp: at_version_def first_database_def fitting_rows_def)
qed

text \<open>The keys that the models of the tenants, the exercises and the conversations rely on.\<close>

lemma migrated_keys:
  "list_all (\<lambda>(t, k). case map_of (sc_tables (projr (schema_at 17))) t of
       None \<Rightarrow> False | Some td \<Rightarrow> k \<in> set (keys_of td))
     [(''admins'', [''username'']), (''courses'', [''slug'']), (''courses'', [''enrollment_token'']),
      (''course_admins'', [''admin_id'', ''course_id'']), (''exercises'', [''course_id'', ''slug'']),
      (''course_assistants'', [''course_id'']),
      (''assistant_conversations'', [''course_id'', ''student''])]"
  by code_simp

text \<open>C5: whatever version a database is at and whatever it holds, starting the server on it
  succeeds; the schema it ends with has for every entity a table with exactly its fields, each
  column of the field's type and null exactly where the field is an \<^verbatim>\<open>Option\<close>; every row of every
  table is still there with the values it had; and where there were no courses yet, every session
  and file event recorded before belongs to the default course, which exists.\<close>

theorem starting_migrates_and_loses_nothing:
  assumes "k \<le> length migrations" and "at_version k db"
  shows "\<exists>db'. apply_pending env k db = Inr db' \<and>
    (\<forall>e \<in> set entities. serves (fst db') e) \<and>
    (\<forall>t. map_of (sc_tables (fst db)) t \<noteq> None \<longrightarrow>
       map (\<lambda>r. r |` columns_of (fst db) t) (snd db' t) = snd db t) \<and>
    fitting_rows (fst db') (snd db') \<and>
    (k \<le> 4 \<longrightarrow> adopted (snd db'))"
proof -
  obtain db' where db': "apply_pending env k db = Inr db'" "at_version 17 db'"
    "keeps (fst db) (snd db) (snd db')" "k \<le> 4 \<longrightarrow> adopted (snd db')"
    using pending_apply [of k env] assms unfolding migrations_length by blast
  then have "\<forall>e \<in> set entities. serves (fst db') e"
    using chain_at [of 17 db'] by (simp add: migrations_length list_all_iff)
  with db' show ?thesis by (auto simp: keeps_def at_version_def)
qed

theorem starting_migrates_and_loses_nothing_witness:
  "(case apply_pending sample_env 1 first_database of
      Inl _ \<Rightarrow> False
    | Inr db' \<Rightarrow> adopted (snd db') \<and> length (snd db' ''sessions'') = 1)"
proof -
  have "map_of (sc_tables (fst first_database)) ''sessions'' \<noteq> None"
    unfolding first_database_def fst_conv by code_simp
  then show ?thesis
    using starting_migrates_and_loses_nothing [OF _ first_database_version, of sample_env]
    by (auto simp: migrations_length first_database_def dest!: spec [of _ "''sessions''"]
        dest: arg_cong [of _ _ length])
qed

text \<open>C24: undoing a migration right after applying it restores the database, rows and all, at
  every version and whatever the database holds.\<close>

theorem each_migration_is_undone:
  assumes "k < length migrations" and "at_version k db"
  shows "execute_all env (fst (migrations ! k) @ snd (migrations ! k)) db = Inr db"
proof -
  have k: "k < 17" using assms(1) by (simp add: migrations_length)
  obtain db1 where up: "execute_all env (fst (migrations ! k)) db = Inr db1" "at_version (Suc k) db1"
    "extends_schema (fst db) (fst db1)" "keeps (fst db) (snd db) (snd db1)"
    using migration_applies [OF assms(2) k] by blast
  obtain sc' where chain: "schema_at (Suc k) = Inr sc'" "reshape_all (snd (migrations ! k)) sc' = Inr (fst db)"
    "list_all unconditional (snd (migrations ! k))" "list_all (spares (fst db)) (snd (migrations ! k))"
    using chain_step [OF assms(2) k] by blast
  have db1: "db1 = (sc', snd db1)"
    using up(2) chain(1) by (cases db1) (simp add: at_version_def)
  obtain dat where down: "execute_all env (snd (migrations ! k)) (sc', snd db1) = Inr (fst db, dat)"
    using execute_all_unconditional [OF chain(3,2)] by blast
  have "keeps (fst db) (snd db) dat \<and> fitting_rows (fst db) dat"
    using execute_all_keeps [OF down] up(2-4) chain(4) db1
    by (metis at_version_def fst_conv snd_conv)
  then have "dat = snd db"
    using keeps_all [of "fst db" "snd db" dat] assms(2) by (simp add: at_version_def)
  then show ?thesis
    using up(1) down db1 by (simp add: execute_all_append)
qed

theorem each_migration_is_undone_witness:
  "execute_all sample_env (add_event_text_up @ add_event_text_down) first_database = Inr first_database"
  using each_migration_is_undone [OF _ first_database_version, of sample_env]
  by (simp add: migrations_def)

end
