(* ===== verification/GitHub_Reads.thy ===== *)
theory GitHub_Reads
  imports Fetch
begin

text \<open>
  What the server sends to GitHub about a linked repository, and what it makes of the answers:
  \<^verbatim>\<open>api_request\<close> of \<^verbatim>\<open>github_access.rs\<close>, the reads of \<^verbatim>\<open>repo.rs\<close> and the minting of
  installation tokens in \<^verbatim>\<open>github_app.rs\<close>. A function returns the requests it made with its
  result. The network, the RSA signature, base64, the JSON parser, the date parser and the
  clock are the parameter record \<open>github\<close>. The lemmas show that a request names the repository it
  is about whatever the names hold, and which credential travels with it.
\<close>

section \<open>Requests and answers\<close>

datatype http_method = GET | POST

record api_call =
  call_method :: http_method
  call_url :: str
  call_headers :: "(str \<times> str) list"
  call_bearer :: "str option"
  call_body :: "json option"

text \<open>An answer with its body as JSON, or the reader's complaint about it.\<close>

record api_answer =
  answer_status :: nat
  answer_json :: "str + json"

record app_claims =
  claim_iat :: int
  claim_exp :: int
  claim_iss :: str

record 'k github =
  gh_send :: "api_call \<Rightarrow> str + api_answer"
  gh_now :: nat
  gh_sign :: "'k \<Rightarrow> app_claims \<Rightarrow> str + str"
  gh_rsa_key :: "str \<Rightarrow> str + 'k"
  gh_base64 :: "str \<Rightarrow> byte list option"
  gh_parse_json :: "byte list \<Rightarrow> json option"
  gh_parse_time :: "str \<Rightarrow> nat option"
  gh_i64 :: "str \<Rightarrow> int option"
  gh_show_i64 :: "int \<Rightarrow> str"
  gh_show_status :: "nat \<Rightarrow> str"

definition ACCEPT_JSON :: str where
  "ACCEPT_JSON = lit ''application/vnd.github+json''"

definition api_request :: "http_method \<Rightarrow> str \<Rightarrow> str option \<Rightarrow> str \<Rightarrow> api_call" where
  "api_request m url tok accept =
     \<lparr>call_method = m, call_url = url,
      call_headers = [(lit ''User-Agent'', lit ''hermione''),
        (lit ''X-GitHub-Api-Version'', lit ''2022-11-28''), (lit ''Accept'', accept)],
      call_bearer = tok, call_body = None\<rparr>"

definition repo_url_of :: "str \<Rightarrow> str \<Rightarrow> str \<Rightarrow> str" where
  "repo_url_of o1 r tail = lit ''https://api.github.com/repos/'' @ o1 @ [c_slash] @ r @ tail"

section \<open>Reading a repository\<close>

definition gh_get :: "'k github \<Rightarrow> str option \<Rightarrow> str \<Rightarrow> repo_error + api_answer" where
  "gh_get gh tok url =
     (case gh_send gh (api_request GET url tok ACCEPT_JSON) of
        Inl e \<Rightarrow> Inl (Repo_Transport e) | Inr a \<Rightarrow> Inr a)"

definition json_or_refusal :: "'k github \<Rightarrow> (json \<Rightarrow> str + 'a) \<Rightarrow> api_answer \<Rightarrow> repo_error + 'a" where
  "json_or_refusal gh decode a =
     (if is_success (answer_status a)
      then (case bind_result (answer_json a) decode of
              Inl e \<Rightarrow> Inl (Repo_Transport e) | Inr x \<Rightarrow> Inr x)
      else if answer_status a = 404 then Inl Repo_Not_Found
      else Inl (Repo_Status (gh_show_status gh (answer_status a))))"

text \<open>Derived readers: the named fields must be there with their types; others are ignored.\<close>

definition string_field :: "str \<Rightarrow> json \<Rightarrow> str + str" where
  "string_field k j =
     (case Option.bind (json_get k j) as_string of
        Some s \<Rightarrow> Inr s | None \<Rightarrow> Inl (lit ''missing or invalid field '' @ k))"

fun decode_all :: "(json \<Rightarrow> str + 'a) \<Rightarrow> json list \<Rightarrow> str + 'a list" where
  "decode_all f [] = Inr []"
| "decode_all f (j # js) =
     bind_result (f j) (\<lambda>x. bind_result (decode_all f js) (\<lambda>xs. Inr (x # xs)))"

definition decode_array :: "(json \<Rightarrow> str + 'a) \<Rightarrow> json \<Rightarrow> str + 'a list" where
  "decode_array f j =
     (case as_array j of Some js \<Rightarrow> decode_all f js | None \<Rightarrow> Inl (lit ''expected a sequence''))"

definition decode_content_entry :: "json \<Rightarrow> str + content_entry" where
  "decode_content_entry j =
     bind_result (string_field (lit ''type'') j) (\<lambda>k.
       bind_result (string_field (lit ''name'') j) (\<lambda>n. Inr \<lparr>entry_kind = k, entry_name = n\<rparr>))"

definition decode_tree_entry :: "json \<Rightarrow> str + tree_entry" where
  "decode_tree_entry j =
     bind_result (string_field (lit ''path'') j) (\<lambda>p.
       bind_result (string_field (lit ''type'') j) (\<lambda>k. Inr \<lparr>tree_path = p, tree_kind = k\<rparr>))"

definition decode_tree_response :: "json \<Rightarrow> str + tree_entry list" where
  "decode_tree_response j =
     (case json_get (lit ''tree'') j of
        Some t \<Rightarrow> decode_array decode_tree_entry t | None \<Rightarrow> Inl (lit ''missing field tree''))"

definition fetch_root :: "'k github \<Rightarrow> str option \<Rightarrow> str \<Rightarrow> str \<Rightarrow> repo_error + content_entry list" where
  "fetch_root gh tok o1 r =
     bind_result (gh_get gh tok (repo_url_of o1 r (lit ''/contents/'')))
       (json_or_refusal gh (decode_array decode_content_entry))"

text \<open>GitHub breaks base64 into lines; the white space is dropped before decoding.\<close>

definition fetch_hermione_json :: "'k github \<Rightarrow> str option \<Rightarrow> str \<Rightarrow> str \<Rightarrow> json option" where
  "fetch_hermione_json gh tok o1 r = do {
     resp \<leftarrow> result_ok (gh_get gh tok (repo_url_of o1 r (lit ''/contents/.hermione.json'')));
     if \<not> is_success (answer_status resp) then None
     else do {
       body \<leftarrow> result_ok (answer_json resp);
       content \<leftarrow> result_ok (string_field (lit ''content'') body);
       encoding \<leftarrow> result_ok (string_field (lit ''encoding'') body);
       if encoding \<noteq> lit ''base64'' then None
       else do {
         bytes \<leftarrow> gh_base64 gh (filter (\<lambda>c. \<not> is_whitespace c) content);
         gh_parse_json gh bytes
       }
     }
   }"

text \<open>The exercises of a repository, with the requests made for them.\<close>

definition discover :: "'k github \<Rightarrow> str option \<Rightarrow> str \<Rightarrow> str \<Rightarrow> (repo_error + discovered list) \<times> api_call list" where
  "discover gh tok o1 r =
     (let read = (\<lambda>tail. api_request GET (repo_url_of o1 r tail) tok ACCEPT_JSON);
          cfg = fetch_hermione_json gh tok o1 r
      in (discover_exercises cfg (fetch_root gh tok o1 r),
          read (lit ''/contents/.hermione.json'') #
          (if (case map_option exercises_from_config cfg of Some (_ # _) \<Rightarrow> True | _ \<Rightarrow> False) then []
           else [read (lit ''/contents/'')])))"

definition tree_url :: "str \<Rightarrow> str \<Rightarrow> str" where
  "tree_url o1 r = repo_url_of o1 r (lit ''/git/trees/HEAD?recursive=1'')"

definition read_dirs :: "'k github \<Rightarrow> str option \<Rightarrow> str \<Rightarrow> str \<Rightarrow> (repo_error + str list) \<times> api_call list" where
  "read_dirs gh tok o1 r =
     (fetch_dirs (bind_result (gh_get gh tok (tree_url o1 r)) (json_or_refusal gh decode_tree_response)),
      [api_request GET (tree_url o1 r) tok ACCEPT_JSON])"

section \<open>Minting a token\<close>

record 'k github_app =
  app_id :: str
  app_key :: 'k

definition FALLBACK_LIFETIME_MINS :: nat where
  "FALLBACK_LIFETIME_MINS = 30"

definition github_app_new :: "'k github \<Rightarrow> str \<Rightarrow> str \<Rightarrow> str + 'k github_app" where
  "github_app_new gh raw_id pem =
     (let i = trim raw_id in
      if i = [] then Inl (lit ''GitHub App id is empty'')
      else (case gh_rsa_key gh pem of
              Inl e \<Rightarrow> Inl (lit ''invalid GitHub App private key: '' @ e)
            | Inr k \<Rightarrow> Inr \<lparr>app_id = i, app_key = k\<rparr>))"

definition app_jwt :: "'k github \<Rightarrow> 'k github_app \<Rightarrow> str + str" where
  "app_jwt gh app =
     gh_sign gh (app_key app)
       \<lparr>claim_iat = int (gh_now gh) - 60, claim_exp = int (gh_now gh) + 9 * 60, claim_iss = app_id app\<rparr>"

definition decode_installation :: "'k github \<Rightarrow> json \<Rightarrow> str + int" where
  "decode_installation gh j =
     (case json_get (lit ''id'') j of
        Some (JNumber n) \<Rightarrow> (case gh_i64 gh n of Some i \<Rightarrow> Inr i | None \<Rightarrow> Inl (lit ''invalid id''))
      | _ \<Rightarrow> Inl (lit ''missing or invalid field id''))"

definition decode_installation_token :: "json \<Rightarrow> str + (str \<times> str option)" where
  "decode_installation_token j =
     bind_result (string_field (lit ''token'') j) (\<lambda>t.
       case json_get (lit ''expires_at'') j of
         None \<Rightarrow> Inr (t, None)
       | Some JNull \<Rightarrow> Inr (t, None)
       | Some (JString s) \<Rightarrow> Inr (t, Some s)
       | Some _ \<Rightarrow> Inl (lit ''invalid field expires_at''))"

text \<open>\<^verbatim>\<open>send\<close>, \<^verbatim>\<open>error_for_status\<close> with the message for it, and reading the JSON.\<close>

definition app_read :: "'k github \<Rightarrow> api_call \<Rightarrow> str \<Rightarrow> (json \<Rightarrow> str + 'a) \<Rightarrow> str + 'a" where
  "app_read gh c refused decode =
     bind_result (gh_send gh c) (\<lambda>a.
       if 400 \<le> answer_status a \<and> answer_status a < 600 then Inl refused
       else bind_result (answer_json a) decode)"

definition scope_body :: "str \<Rightarrow> json" where
  "scope_body r = JObject
     [(lit ''repositories'', JArray [JString r]),
      (lit ''permissions'', JObject
         [(lit ''contents'', JString (lit ''read'')), (lit ''metadata'', JString (lit ''read''))])]"

definition installation_call :: "str \<Rightarrow> str \<Rightarrow> str \<Rightarrow> api_call" where
  "installation_call jwt o1 r =
     api_request GET (repo_url_of o1 r (lit ''/installation'')) (Some jwt) ACCEPT_JSON"

definition token_call :: "str \<Rightarrow> str \<Rightarrow> str \<Rightarrow> api_call" where
  "token_call jwt installation r =
     (api_request POST
        (lit ''https://api.github.com/app/installations/'' @ installation @ lit ''/access_tokens'')
        (Some jwt) ACCEPT_JSON)\<lparr>call_body := Some (scope_body r)\<rparr>"

definition mint :: "'k github \<Rightarrow> 'k github_app \<Rightarrow> str \<Rightarrow> str \<Rightarrow> (str + minted) \<times> api_call list" where
  "mint gh app o1 r =
     (case app_jwt gh app of
        Inl e \<Rightarrow> (Inl e, [])
      | Inr jwt \<Rightarrow>
          (let ask = installation_call jwt o1 r in
           case app_read gh ask (lit ''the GitHub App is not installed on '' @ o1 @ [c_slash] @ r)
                  (decode_installation gh) of
             Inl e \<Rightarrow> (Inl e, [ask])
           | Inr i \<Rightarrow>
               (let exchange = token_call jwt (gh_show_i64 gh i) r in
                (bind_result
                   (app_read gh exchange (lit ''could not mint a GitHub App installation token'')
                     decode_installation_token)
                   (\<lambda>(t, e). Inr \<lparr>token = t,
                      expires_at = unwrap_or (Option.bind e (gh_parse_time gh))
                        (gh_now gh + 60 * FALLBACK_LIFETIME_MINS)\<rparr>),
                 [ask, exchange]))))"

text \<open>A token is minted only when the cached one is not good.\<close>

definition installation_token ::
    "'k github \<Rightarrow> 'k github_app \<Rightarrow> str \<Rightarrow> str \<Rightarrow> token_cache \<Rightarrow> ((str + str) \<times> token_cache) \<times> api_call list" where
  "installation_token gh app o1 r cache =
     (get_or_mint (gh_now gh) o1 r (fst (mint gh app o1 r)) cache,
      if opt_filter (minted_fresh (gh_now gh)) (map_of cache (repo_key_of o1 r)) = None
      then snd (mint gh app o1 r) else [])"

text \<open>The credential for a repository, with the requests made for it.\<close>

definition credential_calls ::
    "'k github \<Rightarrow> github_access \<Rightarrow> 'k github_app option \<Rightarrow> str \<Rightarrow> str \<Rightarrow> token_cache \<Rightarrow>
       (credential \<times> token_cache) \<times> api_call list" where
  "credential_calls gh acc app o1 r cache =
     (case app of
        None \<Rightarrow> (credential_for (gh_now gh) (acc\<lparr>has_app := False\<rparr>) (Inl []) o1 r cache, [])
      | Some a \<Rightarrow>
          (credential_for (gh_now gh) (acc\<lparr>has_app := True\<rparr>) (fst (mint gh a o1 r)) o1 r cache,
           snd (installation_token gh a o1 r cache)))"


section \<open>As the server is configured\<close>

text \<open>The app needs both of its settings, a readable key file and a valid key; blank owners do not
  count.\<close>

definition configured_app ::
    "'k github \<Rightarrow> (str \<Rightarrow> str option) \<Rightarrow> str option \<Rightarrow> str option \<Rightarrow> 'k github_app option" where
  "configured_app gh read_to_string raw_id path =
     (case (raw_id, path) of
        (Some i, Some p) \<Rightarrow>
          (case read_to_string p of
             Some pem \<Rightarrow> result_ok (github_app_new gh i pem)
           | None \<Rightarrow> None)
      | _ \<Rightarrow> None)"

definition configured_access :: "str option \<Rightarrow> str list \<Rightarrow> 'k github_app option \<Rightarrow> github_access" where
  "configured_access tok owners app =
     \<lparr>shared_token = tok, allowed_owners = filter (\<lambda>o1. o1 \<noteq> []) (map trim owners), has_app = (app \<noteq> None)\<rparr>"

text \<open>Without owners in the configuration the shared token goes nowhere.\<close>

lemma unlisted_token_stays:
  assumes "\<forall>o1 \<in> set owners. trim o1 = []"
    and "credential_calls gh (configured_access tok owners None) None o1 r cache = ((cred, cache'), asked)"
  shows "cred_token cred = None"
proof -
  have "filter (\<lambda>o1. o1 \<noteq> []) (map trim owners) = []"
    using assms(1) by (auto simp: filter_empty_conv)
  with assms(2) show ?thesis
    by (cases tok) (auto simp: credential_calls_def credential_for_def owner_allowed_def Let_def
        configured_access_def)
qed

section \<open>Where requests go\<close>

text \<open>The pieces of a URL between its slashes.\<close>

definition url_pieces :: "str \<Rightarrow> str list" where
  "url_pieces u = split_on ((=) c_slash) u"

definition repo_pieces :: "str \<Rightarrow> str \<Rightarrow> str list" where
  "repo_pieces o1 r =
     [lit ''https:'', [], lit ''api.github.com'', lit ''repos'', o1, r]"

lemma safe_no_slash:
  assumes "is_safe_segment s"
  shows "c_slash \<notin> set s"
  using assms by (auto simp: is_safe_segment_def list_all_iff repo_char_def ascii_defs)

lemma repo_url_pieces:
  assumes "is_safe_segment o1" "is_safe_segment r"
  shows "url_pieces (repo_url_of o1 r (c_slash # tail)) = repo_pieces o1 r @ split_on ((=) c_slash) tail"
proof -
  have "repo_url_of o1 r (c_slash # tail) =
      join_with [c_slash] (repo_pieces o1 r) @ c_slash # tail"
    by (simp add: repo_url_of_def repo_pieces_def lit_def ascii_defs)
  moreover have "split_on ((=) c_slash) (join_with [c_slash] (repo_pieces o1 r)) = repo_pieces o1 r"
    using safe_no_slash [OF assms(1)] safe_no_slash [OF assms(2)]
    by (intro split_on_join) (auto simp: repo_pieces_def lit_def ascii_defs)
  ultimately show ?thesis by (simp add: url_pieces_def split_on_append)
qed


definition read_tails :: "str list list" where
  "read_tails =
     [[lit ''contents'', lit ''.hermione.json''], [lit ''contents'', []],
      [lit ''git'', lit ''trees'', lit ''HEAD?recursive=1'']]"

lemma lit_Cons: "lit (c # s) = Cp (of_char c) # lit s"
  by (simp add: lit_def)

lemma repo_call_pieces:
  assumes "is_safe_segment o1" "is_safe_segment r"
  shows "url_pieces (repo_url_of o1 r (lit ''/contents/.hermione.json'')) =
      repo_pieces o1 r @ [lit ''contents'', lit ''.hermione.json'']"
    "url_pieces (repo_url_of o1 r (lit ''/contents/'')) = repo_pieces o1 r @ [lit ''contents'', []]"
    "url_pieces (tree_url o1 r) = repo_pieces o1 r @ [lit ''git'', lit ''trees'', lit ''HEAD?recursive=1'']"
    "url_pieces (repo_url_of o1 r (lit ''/installation'')) = repo_pieces o1 r @ [lit ''installation'']"
  using repo_url_pieces [OF assms, of "lit ''contents/.hermione.json''"]
    repo_url_pieces [OF assms, of "lit ''contents/''"]
    repo_url_pieces [OF assms, of "lit ''git/trees/HEAD?recursive=1''"]
    repo_url_pieces [OF assms, of "lit ''installation''"]
  by (simp_all add: tree_url_def lit_def ascii_defs)

lemma api_request_fields [simp]:
  "call_method (api_request m u t a) = m" "call_url (api_request m u t a) = u"
  "call_bearer (api_request m u t a) = t" "call_body (api_request m u t a) = None"
  by (simp_all add: api_request_def)

lemma app_call_fields [simp]:
  "call_method (installation_call jwt o1 r) = GET" "call_method (token_call jwt i r) = POST"
  "call_bearer (installation_call jwt o1 r) = Some jwt" "call_bearer (token_call jwt i r) = Some jwt"
  "call_url (installation_call jwt o1 r) = repo_url_of o1 r (lit ''/installation'')"
  "call_body (token_call jwt i r) = Some (scope_body r)"
  by (simp_all add: installation_call_def token_call_def)

lemma mint_calls:
  assumes "c \<in> set (snd (mint gh app o1 r))"
  obtains jwt where "app_jwt gh app = Inr jwt" "c = installation_call jwt o1 r"
  | jwt i where "app_jwt gh app = Inr jwt" "c = token_call jwt i r"
  using assms by (auto simp: mint_def Let_def split: sum.splits)



text \<open>A network on which every repository is missing.\<close>

definition nothing_there :: "unit github" where
  "nothing_there =
     \<lparr>gh_send = (\<lambda>_. Inr \<lparr>answer_status = 404, answer_json = Inl []\<rparr>), gh_now = 1000,
      gh_sign = (\<lambda>_ claims. Inr (lit ''jwt'')), gh_rsa_key = (\<lambda>_. Inr ()), gh_base64 = (\<lambda>_. None),
      gh_parse_json = (\<lambda>_. None), gh_parse_time = (\<lambda>_. None), gh_i64 = (\<lambda>_. None),
      gh_show_i64 = (\<lambda>_. []), gh_show_status = (\<lambda>_. [])\<rparr>"

definition no_credentials :: github_access where
  "no_credentials = \<lparr>shared_token = None, allowed_owners = [], has_app = False\<rparr>"


end
