(* ===== verification/Live_View.thy ===== *)
theory Live_View
  imports Snapshot_Store Solutions Messages
begin

text \<open>
  A teacher polling for what a student has on screen: the handler \<^verbatim>\<open>student_file\<close> of
  \<^verbatim>\<open>crates/server/src/snapshots/mod.rs\<close> over the snapshot store, the control channels of the
  hub and the solutions cache. A fetch that is under way while others poll is the cache's
  business; what happens to the store and the channels comes before it. The lemmas say who is
  asked for a snapshot, and how often.
\<close>

section \<open>The handler\<close>

record file_query =
  fq_student :: student
  fq_course :: "str option"
  fq_compare :: bool

record view =
  vw_student :: student
  vw_connected :: bool
  vw_latest :: "latest option"
  vw_solution :: "solution option"

record live =
  lv_store :: store
  lv_ctrl :: "(slot, control) hub"
  lv_solutions :: solutions

definition CTRL_CAP :: nat where "CTRL_CAP = 16"

definition settings_of :: "course \<Rightarrow> course_settings" where
  "settings_of c = \<lparr>repo_url = co_repo c, solutions_ref = co_ref c, solutions_dir = co_dir c\<rparr>"

text \<open>What \<open>solution_for\<close> reads of the cache, if it comes to that.\<close>

definition wanted_solution ::
    "course_settings \<Rightarrow> snapshot \<Rightarrow> (github_repo \<times> solutions_source \<times> repo_path) option" where
  "wanted_solution course sn = do {
     f \<leftarrow> (case sn of File f \<Rightarrow> Some f | _ \<Rightarrow> None);
     src \<leftarrow> from_settings (solutions_ref course) (solutions_dir course);
     url \<leftarrow> repo_url course;
     repo \<leftarrow> github_repo_parse url;
     p \<leftarrow> result_ok (repo_path_parse (relative_path f));
     Some (repo, src, p)
   }"

definition solution_read ::
    "('g, 'p, 'ops, 'o, 'st, 'sc) engines \<Rightarrow> course_settings \<Rightarrow> nat \<Rightarrow> nat \<Rightarrow> (key \<Rightarrow> outcome) \<Rightarrow>
       snapshot \<Rightarrow> solutions \<Rightarrow> solution option \<times> solutions" where
  "solution_read eng course now done_at fetched sn m =
     (case wanted_solution course sn of
        None \<Rightarrow> (solution_for eng course (\<lambda>_ _ _. Inr None) sn, m)
      | Some (repo, src, p) \<Rightarrow>
          (let (res, _, m) = solutions_read now done_at fetched (key_of repo src p) m
           in (solution_for eng course (\<lambda>_ _ _. res) sn, m)))"

definition student_file_view ::
    "('g, 'p, 'ops, 'o, 'st, 'sc) engines \<Rightarrow> auth_ctx \<Rightarrow> file_query \<Rightarrow> nat \<Rightarrow> nat \<Rightarrow> (key \<Rightarrow> outcome) \<Rightarrow>
       db \<Rightarrow> live \<Rightarrow> (api_error + view) \<times> live" where
  "student_file_view eng ctx q now done_at fetched db w =
     (case authorized_course ctx (unwrap_or (fq_course q) (lit ''default'')) db of
        Inl e \<Rightarrow> (Inl e, w)
      | Inr c \<Rightarrow>
          (let k = \<lparr>slot_course = co_id c, slot_student = fq_student q\<rparr>;
               (due, st) = claim_ask now k (lv_store w);
               h = (if due then publish CTRL_CAP k Snapshot_Request (lv_ctrl w) else lv_ctrl w);
               lat = latest_at now k st;
               (sol, m) =
                 (case lat of
                    Some l \<Rightarrow>
                      if fq_compare q
                      then solution_read eng (settings_of c) now done_at fetched (latest_snap l) (lv_solutions w)
                      else (None, lv_solutions w)
                  | None \<Rightarrow> (None, lv_solutions w))
           in (Inr \<lparr>vw_student = fq_student q, vw_connected = is_listening k h,
                 vw_latest = lat, vw_solution = sol\<rparr>,
               \<lparr>lv_store = st, lv_ctrl = h, lv_solutions = m\<rparr>)))"

text \<open>Reading the cache at the one key is all \<open>solution_for\<close> does with it.\<close>

lemma solution_for_wanted:
  assumes "\<And>repo src p. wanted_solution course sn = Some (repo, src, p) \<Longrightarrow> read_cached repo src p = read' repo src p"
  shows "solution_for eng course read_cached sn = solution_for eng course read' sn"
  using assms
  by (auto simp: solution_for_def wanted_solution_def Let_def result_ok_def
      split: snapshot.splits option.splits sum.splits)

section \<open>Watching\<close>

text \<open>What happens around the channels: a teacher polls, some milliseconds after the event before,
  an editor connects, an editor leaves.\<close>

datatype live_event =
    Poll nat auth_ctx file_query
  | Listen slot nat
  | Leave slot nat

fun live_step ::
    "('g, 'p, 'ops, 'o, 'st, 'sc) engines \<Rightarrow> (key \<Rightarrow> outcome) \<Rightarrow> db \<Rightarrow> live_event \<Rightarrow> nat \<times> live \<Rightarrow> nat \<times> live" where
  "live_step eng fetched db (Poll d ctx q) (t, w) =
     (t + d, snd (student_file_view eng ctx q (t + d) (t + d) fetched db w))"
| "live_step eng fetched db (Listen k who) (t, w) =
     (t, w\<lparr>lv_ctrl := subscribe k who (lv_ctrl w)\<rparr>)"
| "live_step eng fetched db (Leave k who) (t, w) =
     (t, w\<lparr>lv_ctrl := hang_up k who (lv_ctrl w)\<rparr>)"

definition live_run ::
    "('g, 'p, 'ops, 'o, 'st, 'sc) engines \<Rightarrow> (key \<Rightarrow> outcome) \<Rightarrow> db \<Rightarrow> live_event list \<Rightarrow> nat \<times> live \<Rightarrow> nat \<times> live" where
  "live_run eng fetched db evs = fold (live_step eng fetched db) evs"

definition live_new :: live where
  "live_new = \<lparr>lv_store = store_new, lv_ctrl = [], lv_solutions = []\<rparr>"

text \<open>The slot a poll is about, when the teacher may see it.\<close>

fun watches :: "db \<Rightarrow> live_event \<Rightarrow> slot option" where
  "watches db (Poll d ctx q) =
     map_option (\<lambda>c. \<lparr>slot_course = co_id c, slot_student = fq_student q\<rparr>)
       (result_ok (authorized_course ctx (unwrap_or (fq_course q) (lit ''default'')) db))"
| "watches db _ = None"

fun lasts :: "live_event \<Rightarrow> nat" where
  "lasts (Poll d ctx q) = d"
| "lasts _ = 0"

definition span :: "live_event list \<Rightarrow> nat" where
  "span evs = sum_list (map lasts evs)"

definition stays :: "slot \<Rightarrow> nat \<Rightarrow> live_event \<Rightarrow> bool" where
  "stays k who ev \<longleftrightarrow> ev \<noteq> Listen k who \<and> ev \<noteq> Leave k who"


lemma student_file_effect:
  assumes "wf_map (asked_map (lv_store w))"
    and "(r, w') = student_file_view eng ctx q now done_at fetched db w"
  shows "case watches db (Poll d ctx q) of
      None \<Rightarrow> w' = w
    | Some k \<Rightarrow>
        if asks.reads (asked_map (lv_store w)) now k = None
        then asked_map (lv_store w') = put_asked now k now (asked_map (lv_store w)) \<and>
          lv_ctrl w' = publish CTRL_CAP k Snapshot_Request (lv_ctrl w)
        else asked_map (lv_store w') = prune_asked now (asked_map (lv_store w)) \<and> lv_ctrl w' = lv_ctrl w"
  using assms(2) claim_ask_reads [OF assms(1)]
  by (auto simp: student_file_view_def Let_def result_ok_def split: sum.splits prod.splits option.splits if_splits)

text \<open>\<open>n\<close> requests have reached the listener since \<open>t0\<close>, the last of them at the time the store
  remembers; \<open>full\<close> is the store's memory without its sweeps.\<close>

definition asked_since :: "slot \<Rightarrow> nat \<Rightarrow> nat \<Rightarrow> nat \<Rightarrow> nat \<Rightarrow> live \<Rightarrow> (slot \<Rightarrow> nat option) \<Rightarrow> bool" where
  "asked_since k who t0 n t w full \<longleftrightarrow>
     wf_map (asked_map (lv_store w)) \<and> asks.agrees t (asked_map (lv_store w)) full \<and>
     queue k who (lv_ctrl w) = Some (replicate (min n CTRL_CAP) Snapshot_Request) \<and>
     (case full k of
        None \<Rightarrow> n = 0
      | Some l \<Rightarrow> if n = 0 then l \<le> t0 else t0 + (n - 1) * ASK_INTERVAL \<le> l) \<and> t0 \<le> t"

lemma asked_since_later:
  assumes "asked_since k who t0 n t w full" "t \<le> t'"
  shows "asked_since k who t0 n t' w full"
  using assms asks.agrees_later by (auto simp: asked_since_def)

lemma poll_step:
  assumes inv: "asked_since k who t0 n now w full"
    and step: "(r, w') = student_file_view eng ctx q now done_at fetched db w"
    and le: "\<And>l. full k = Some l \<Longrightarrow> l \<le> now"
  shows "\<exists>n' full'. asked_since k who t0 n' now w' full' \<and> (\<forall>l. full' k = Some l \<longrightarrow> l \<le> now) \<and>
    n \<le> n' \<and> n' \<le> n + of_bool (watches db (Poll d ctx q) = Some k) \<and>
    (watches db (Poll d ctx q) = Some k \<longrightarrow> t0 + ASK_INTERVAL \<le> now \<longrightarrow> n' \<noteq> 0)"
proof -
  have wf: "wf_map (asked_map (lv_store w))" and agr: "asks.agrees now (asked_map (lv_store w)) full"
    using inv by (simp_all add: asked_since_def)
  note eff = student_file_effect [OF wf step, of d]
  have read: "asks.reads (asked_map (lv_store w)) now j = opt_filter (ask_recent now) (full j)" for j
    using asks.agrees_reads [OF agr] .
  consider (refused) "watches db (Poll d ctx q) = None"
    | (quiet) j where "watches db (Poll d ctx q) = Some j" "opt_filter (ask_recent now) (full j) \<noteq> None"
    | (asked) j where "watches db (Poll d ctx q) = Some j" "opt_filter (ask_recent now) (full j) = None"
    by (metis option.exhaust)
  then show ?thesis
  proof cases
    case refused
    then have "w' = w" using eff by (simp del: watches.simps)
    then show ?thesis using refused inv le by (intro exI [of _ n] exI [of _ full]) (simp del: watches.simps)
  next
    case (quiet j)
    then have w': "asked_map (lv_store w') = prune_asked now (asked_map (lv_store w))" "lv_ctrl w' = lv_ctrl w"
      using eff read by (simp_all del: watches.simps)
    have "asked_since k who t0 n now w' full"
      using inv w' asks.agrees_sweep [OF wf agr] asks.inv_sweep [OF wf] by (simp add: asked_since_def)
    moreover have "t0 + ASK_INTERVAL \<le> now \<Longrightarrow> j = k \<Longrightarrow> n \<noteq> 0"
      using quiet(2) inv by (auto simp: asked_since_def ask_recent_def split: option.splits if_splits)
    ultimately show ?thesis using quiet(1) le
      by (intro exI [of _ n] exI [of _ full]) (auto simp del: watches.simps)
  next
    case (asked j)
    then have w': "asked_map (lv_store w') = put_asked now j now (asked_map (lv_store w))"
      "lv_ctrl w' = publish CTRL_CAP j Snapshot_Request (lv_ctrl w)"
      using eff read by (simp_all del: watches.simps)
    let ?n = "if j = k then n + 1 else n"
    have "asks.agrees now (asked_map (lv_store w')) (full(j \<mapsto> now))" "wf_map (asked_map (lv_store w'))"
      using w' asks.agrees_put [OF wf agr] asks.inv_put [OF wf] by simp_all
    moreover have "queue k who (lv_ctrl w') = Some (replicate (min ?n CTRL_CAP) Snapshot_Request)"
    proof (cases "j = k")
      case True
      have "queue k who (lv_ctrl w) = Some (replicate (min n CTRL_CAP) Snapshot_Request)"
        using inv by (simp add: asked_since_def)
      from hubs.heard_again [OF this] show ?thesis using True w'(2) by simp
    next
      case False
      then show ?thesis using inv w'(2) by (simp add: asked_since_def hubs.heard_send)
    qed
    moreover have "t0 + n * ASK_INTERVAL \<le> now" if "j = k"
    proof (cases "full k")
      case (Some l)
      then have "ASK_INTERVAL \<le> now - l" "l \<le> now"
        using asked(2) that le by (auto simp: ask_recent_def split: if_splits)
      then show ?thesis
        using Some inv by (cases n) (auto simp: asked_since_def)
    qed (use inv in \<open>auto simp: asked_since_def\<close>)
    ultimately have "asked_since k who t0 ?n now w' (full(j \<mapsto> now))"
      using inv by (auto simp: asked_since_def)
    then show ?thesis
      using asked(1) le
      by (intro exI [of _ ?n] exI [of _ "full(j \<mapsto> now)"]) (auto simp del: watches.simps)
  qed
qed


definition is_poll_of :: "db \<Rightarrow> slot \<Rightarrow> live_event \<Rightarrow> bool" where
  "is_poll_of db k ev \<longleftrightarrow> watches db ev = Some k"

lemma live_step_asked:
  assumes inv: "asked_since k who t0 n t w full" and le: "\<And>l. full k = Some l \<Longrightarrow> l \<le> t"
    and stay: "stays k who ev" and step: "live_step eng fetched db ev (t, w) = (t', w')"
  shows "\<exists>n' full'. asked_since k who t0 n' t' w' full' \<and> (\<forall>l. full' k = Some l \<longrightarrow> l \<le> t') \<and>
    n \<le> n' \<and> n' \<le> n + of_bool (is_poll_of db k ev) \<and> t' = t + lasts ev \<and>
    (is_poll_of db k ev \<longrightarrow> t0 + ASK_INTERVAL \<le> t' \<longrightarrow> n' \<noteq> 0)"
proof (cases ev)
  case (Poll d ctx q)
  obtain r where "(r, w') = student_file_view eng ctx q (t + d) (t + d) fetched db w"
    using step Poll by (metis live_step.simps(1) prod.collapse snd_conv)
  moreover have "asked_since k who t0 n (t + d) w full" using asked_since_later [OF inv] by simp
  moreover have "\<And>l. full k = Some l \<Longrightarrow> l \<le> t + d" using le by (simp add: trans_le_add1)
  ultimately show ?thesis
    using poll_step [of k who t0 n "t + d" w full r w' eng ctx q "t + d" fetched db d] step Poll
    by (simp add: is_poll_of_def del: watches.simps)
next
  case (Listen j i)
  then show ?thesis
    using inv le stay step
    by (intro exI [of _ n] exI [of _ full]) (auto simp: asked_since_def hubs.heard_enter stays_def is_poll_of_def)
next
  case (Leave j i)
  then show ?thesis
    using inv le stay step
    by (intro exI [of _ n] exI [of _ full]) (auto simp: asked_since_def hubs.heard_quit stays_def is_poll_of_def)
qed

text \<open>A poll of the slot comes when at least \<open>d\<close> milliseconds have passed.\<close>

fun polled_after :: "db \<Rightarrow> slot \<Rightarrow> nat \<Rightarrow> live_event list \<Rightarrow> bool" where
  "polled_after db k d [] = False"
| "polled_after db k d (ev # evs) \<longleftrightarrow>
     is_poll_of db k ev \<and> d \<le> lasts ev \<or> polled_after db k (d - lasts ev) evs"

lemma live_run_asked:
  assumes "asked_since k who t0 n t w full" and "\<And>l. full k = Some l \<Longrightarrow> l \<le> t"
    and "list_all (stays k who) evs" and "live_run eng fetched db evs (t, w) = (t', w')"
  shows "\<exists>n' full'. asked_since k who t0 n' t' w' full' \<and> (\<forall>l. full' k = Some l \<longrightarrow> l \<le> t') \<and>
    n \<le> n' \<and> n' \<le> n + length (filter (is_poll_of db k) evs) \<and> t' = t + span evs \<and>
    (polled_after db k (t0 + ASK_INTERVAL - t) evs \<longrightarrow> n' \<noteq> 0)"
  using assms
proof (induction evs arbitrary: n t w full)
  case Nil
  then show ?case by (auto simp: live_run_def span_def)
next
  case (Cons ev evs)
  obtain t1 w1 where step: "live_step eng fetched db ev (t, w) = (t1, w1)" by fastforce
  obtain n1 full1 where one: "asked_since k who t0 n1 t1 w1 full1" "\<forall>l. full1 k = Some l \<longrightarrow> l \<le> t1"
    "n \<le> n1" "n1 \<le> n + of_bool (is_poll_of db k ev)" "t1 = t + lasts ev"
    "is_poll_of db k ev \<longrightarrow> t0 + ASK_INTERVAL \<le> t1 \<longrightarrow> n1 \<noteq> 0"
    using live_step_asked [OF Cons.prems(1,2) _ step] Cons.prems(3) by auto
  have "live_run eng fetched db evs (t1, w1) = (t', w')" "list_all (stays k who) evs"
    using Cons.prems(3,4) step by (simp_all add: live_run_def)
  from Cons.IH [OF one(1) _ this(2,1)] one(2) obtain n' full' where
    "asked_since k who t0 n' t' w' full'" "\<forall>l. full' k = Some l \<longrightarrow> l \<le> t'" "n1 \<le> n'"
    "n' \<le> n1 + length (filter (is_poll_of db k) evs)" "t' = t1 + span evs"
    "polled_after db k (t0 + ASK_INTERVAL - t1) evs \<longrightarrow> n' \<noteq> 0"
    by blast
  with one(3-6) show ?case
    by (intro exI [of _ n'] exI [of _ full']) (auto simp: span_def split: if_splits)
qed

definition remembers :: "nat \<Rightarrow> live \<Rightarrow> (slot \<Rightarrow> nat option) \<Rightarrow> bool" where
  "remembers t w full \<longleftrightarrow> wf_map (asked_map (lv_store w)) \<and>
     asks.agrees t (asked_map (lv_store w)) full \<and> (\<forall>j l. full j = Some l \<longrightarrow> l \<le> t)"

lemma live_step_remembers:
  assumes "remembers t w full" and "live_step eng fetched db ev (t, w) = (t', w')"
  shows "\<exists>full'. remembers t' w' full'"
proof (cases ev)
  case (Poll d ctx q)
  then obtain r where t': "t' = t + d" and
    step: "(r, w') = student_file_view eng ctx q t' t' fetched db w"
    using assms(2) by (metis Pair_inject live_step.simps(1) prod.collapse)
  have wf: "wf_map (asked_map (lv_store w))" and agr: "asks.agrees t' (asked_map (lv_store w)) full"
    and le: "\<forall>j l. full j = Some l \<longrightarrow> l \<le> t'"
    using assms(1) t' asks.agrees_later by (auto simp: remembers_def intro: trans_le_add1)
  have asked: "remembers t' w' (full(j \<mapsto> t'))"
    if "asked_map (lv_store w') = put_asked t' j t' (asked_map (lv_store w))" for j
    using that asks.agrees_put [OF wf agr] asks.inv_put [OF wf] le by (simp add: remembers_def)
  have quiet: "remembers t' w' full"
    if "asked_map (lv_store w') = prune_asked t' (asked_map (lv_store w))"
    using that asks.agrees_sweep [OF wf agr] asks.inv_sweep [OF wf] le by (simp add: remembers_def)
  have same: "remembers t' w' full" if "w' = w"
    using that wf agr le by (simp add: remembers_def)
  show ?thesis
    using student_file_effect [OF wf step, of d] asked quiet same
    by (cases "watches db (Poll d ctx q)")
      (auto simp del: watches.simps split: if_splits)
qed (use assms in \<open>auto simp: remembers_def\<close>)

lemma live_run_remembers:
  "remembers t w full \<Longrightarrow> live_run eng fetched db evs (t, w) = (t', w') \<Longrightarrow> \<exists>full'. remembers t' w' full'"
proof (induction evs arbitrary: t w full)
  case (Cons ev evs)
  obtain t1 w1 where step: "live_step eng fetched db ev (t, w) = (t1, w1)" by fastforce
  then obtain full1 where "remembers t1 w1 full1"
    using live_step_remembers [OF Cons.prems(1)] by blast
  then show ?case using Cons.IH Cons.prems(2) step by (simp add: live_run_def)
qed (auto simp: live_run_def)

text \<open>C14: an editor that connects and stays is only ever asked for a snapshot, at most once for
  each poll of its own student by a teacher who may see the course, never twice within the
  interval however many teachers poll, and it has been asked once such a poll comes after the
  interval has passed since it connected.\<close>

theorem editor_is_asked_while_watched:
  assumes "list_all (stays k who) evs"
  shows "\<exists>asked \<le> length (filter (is_poll_of db k) evs).
    queue k who (lv_ctrl (snd (live_run eng fetched db (pre @ Listen k who # evs) (0, live_new)))) =
      Some (replicate (min asked CTRL_CAP) Snapshot_Request) \<and>
    (asked - 1) * ASK_INTERVAL \<le> span evs \<and>
    (polled_after db k ASK_INTERVAL evs \<longrightarrow> asked \<noteq> 0)"
proof -
  obtain t w where pre: "live_run eng fetched db pre (0, live_new) = (t, w)" by fastforce
  let ?w = "w\<lparr>lv_ctrl := subscribe k who (lv_ctrl w)\<rparr>"
  obtain t' w' where post: "live_run eng fetched db evs (t, ?w) = (t', w')" by fastforce
  have run: "live_run eng fetched db (pre @ Listen k who # evs) (0, live_new) = (t', w')"
    using pre post by (simp add: live_run_def)
  have "remembers 0 live_new Map.empty"
    by (simp add: remembers_def live_new_def store_new_def asks.agrees_def asks.reads_def)
  then obtain full where "remembers t w full" using live_run_remembers pre by blast
  then have init: "asked_since k who t 0 t ?w full" "\<And>l. full k = Some l \<Longrightarrow> l \<le> t"
    by (auto simp: remembers_def asked_since_def hubs.heard_enter split: option.splits)
  obtain n full' where n: "asked_since k who t n t' w' full'" "n \<le> length (filter (is_poll_of db k) evs)"
    "\<forall>l. full' k = Some l \<longrightarrow> l \<le> t'" "t' = t + span evs" "polled_after db k ASK_INTERVAL evs \<longrightarrow> n \<noteq> 0"
    using live_run_asked [OF init assms post] by auto
  have "(n - 1) * ASK_INTERVAL \<le> span evs"
    using n(1,3,4) by (auto simp: asked_since_def split: option.splits if_splits)
  then show ?thesis using n run by (auto simp: asked_since_def)
qed


text \<open>A course open to everyone, and a teacher who polls once.\<close>

definition open_course :: course where
  "open_course =
     \<lparr>co_id = Uuid 1, co_slug = lit ''default'', co_name = lit ''Course'', co_token = lit ''t'', co_repo = None,
      co_archived = None, co_ref = None, co_dir = None, co_description = None, co_term = None,
      co_institution = None, co_level = None, co_created = 0\<rparr>"

definition watched_db :: db where
  "watched_db = \<lparr>admins = [], courses = [open_course], members = [], exercises = []\<rparr>"

definition ada_poll :: "nat \<Rightarrow> live_event" where
  "ada_poll d = Poll d OpenDev \<lparr>fq_student = Student (lit ''ada''), fq_course = None, fq_compare = False\<rparr>"

definition ada_slot :: slot where
  "ada_slot = \<lparr>slot_course = Uuid 1, slot_student = Student (lit ''ada'')\<rparr>"

theorem editor_is_asked_while_watched_witness:
  "\<forall>eng fetched. queue ada_slot 0 (lv_ctrl (snd (live_run eng fetched watched_db
      ([] @ Listen ada_slot 0 # [ada_poll 800]) (0, live_new)))) = Some [Snapshot_Request]"
proof (intro allI)
  fix eng :: "('g, 'p, 'ops, 'o, 'st, 'sc) engines" and fetched
  let ?evs = "[ada_poll 800]"
  have poll: "is_poll_of watched_db ada_slot (ada_poll d)" "lasts (ada_poll d) = d" for d
    by (simp_all add: is_poll_of_def ada_poll_def ada_slot_def watched_db_def open_course_def
        authorized_course_def ensure_member_def course_by_slug_def result_ok_def)
  have "list_all (stays ada_slot 0) ?evs" by (simp add: stays_def ada_poll_def)
  from editor_is_asked_while_watched [OF this, of watched_db eng fetched "[]"]
  obtain asked where "queue ada_slot 0 (lv_ctrl (snd (live_run eng fetched watched_db
      ([] @ Listen ada_slot 0 # ?evs) (0, live_new)))) = Some (replicate (min asked CTRL_CAP) Snapshot_Request)"
    "(asked - 1) * ASK_INTERVAL \<le> span ?evs" "asked \<le> 1" "asked \<noteq> 0"
    using poll by (auto simp: ASK_INTERVAL_def)
  moreover have "asked = 1" using calculation(3,4) by simp
  ultimately show "queue ada_slot 0 (lv_ctrl (snd (live_run eng fetched watched_db
      ([] @ Listen ada_slot 0 # ?evs) (0, live_new)))) = Some [Snapshot_Request]"
    by (simp add: CTRL_CAP_def)
qed

end
