(* ===== verification/Router.thy ===== *)
theory Router
  imports Messages
begin

text \<open>
  The HTTP surface: the route table of \<^verbatim>\<open>crates/server/src/http/mod.rs\<close> with the gate before each
  group, and the embedded frontend of \<^verbatim>\<open>http/assets.rs\<close> with the collection of its files in
  \<^verbatim>\<open>build.rs\<close>. The matching of a path by the router library is modelled as it documents it:
  literal segments, one segment for a name in braces, and the rest of the path, at least one
  character, for a starred name; percent-decoding of what is captured is the parameter
  \<open>decode\<close>. The handlers are names here; their components model them.
\<close>

section \<open>Routes\<close>

datatype http_verb = GET | HEAD | POST | PUT | PATCH | DELETE | OPTIONS

datatype handler =
    login_page | login | logout | healthz | auth_exchange | auth_device_start | auth_device_poll
  | ws_handler | tokens_css | brand_asset | vendor
  | index | analytics_page | transcripts_page | recap_page
  | list_courses | create_course_for_teacher | get_course | patch_course | rotate_token
  | course_tree | add_member | remove_member
  | assistant_list_conversations | assistant_conversation_messages
  | list_sessions | stream_session | transcript
  | files_students_activity | snapshots_student_file | files_overview | recap_handler
  | files_time_per_file | exercises_list | exercises_define
  | assistant_get_config | assistant_put_config | messages_broadcast
  | create_admin_handler | create_course_handler | grant_membership_handler
  | files_ingest | snapshots_ingest | messages_inbox | assistant_status | assistant_chat_stream
  | assistant_history

type_synonym route = "string \<times> (http_verb \<times> handler) list"

definition public_routes :: "route list" where
  "public_routes =
     [(''/login'', [(GET, login_page)]),
      (''/api/login'', [(POST, login)]),
      (''/api/logout'', [(POST, logout)]),
      (''/healthz'', [(GET, healthz)]),
      (''/api/auth/exchange'', [(POST, auth_exchange)]),
      (''/api/auth/device/start'', [(POST, auth_device_start)]),
      (''/api/auth/device/poll'', [(POST, auth_device_poll)]),
      (''/ws'', [(GET, ws_handler)]),
      (''/tokens.css'', [(GET, tokens_css)]),
      (''/assets/{*path}'', [(GET, brand_asset)]),
      (''/vendor/{*path}'', [(GET, vendor)])]"

definition protected_routes :: "route list" where
  "protected_routes =
     [(''/'', [(GET, index)]),
      (''/analytics'', [(GET, analytics_page)]),
      (''/transcripts'', [(GET, transcripts_page)]),
      (''/recap'', [(GET, recap_page)]),
      (''/api/courses'', [(GET, list_courses), (POST, create_course_for_teacher)]),
      (''/api/courses/{slug}'', [(GET, get_course), (PATCH, patch_course)]),
      (''/api/courses/{slug}/rotate-token'', [(POST, rotate_token)]),
      (''/api/courses/{slug}/tree'', [(GET, course_tree)]),
      (''/api/courses/{slug}/members'', [(POST, add_member)]),
      (''/api/courses/{slug}/members/{username}'', [(DELETE, remove_member)]),
      (''/api/assistant/conversations'', [(GET, assistant_list_conversations)]),
      (''/api/assistant/conversations/{id}/messages'', [(GET, assistant_conversation_messages)]),
      (''/api/sessions'', [(GET, list_sessions)]),
      (''/api/sessions/{id}/stream'', [(GET, stream_session)]),
      (''/api/sessions/{id}/transcript'', [(GET, transcript)]),
      (''/api/students/activity'', [(GET, files_students_activity)]),
      (''/api/students/file'', [(GET, snapshots_student_file)]),
      (''/api/overview'', [(GET, files_overview)]),
      (''/api/recap'', [(GET, recap_handler)]),
      (''/api/analytics/time-per-file'', [(GET, files_time_per_file)]),
      (''/api/exercises'', [(GET, exercises_list), (POST, exercises_define)]),
      (''/api/assistant'', [(GET, assistant_get_config), (PUT, assistant_put_config)]),
      (''/api/messages'', [(POST, messages_broadcast)])]"

definition admin_routes :: "route list" where
  "admin_routes =
     [(''/api/admin/admins'', [(POST, create_admin_handler)]),
      (''/api/admin/courses'', [(POST, create_course_handler)]),
      (''/api/admin/memberships'', [(POST, grant_membership_handler)])]"

definition ingest_routes :: "route list" where
  "ingest_routes =
     [(''/api/file-events'', [(POST, files_ingest)]),
      (''/api/file-snapshots'', [(POST, snapshots_ingest)]),
      (''/api/inbox'', [(GET, messages_inbox)]),
      (''/api/assistant/status'', [(GET, assistant_status)]),
      (''/api/assistant/chat/stream'', [(POST, assistant_chat_stream)]),
      (''/api/assistant/history'', [(GET, assistant_history)])]"

datatype gate = Open_Gate | Teacher_Gate | Admin_Gate | Ingest_Gate

definition router :: "(gate \<times> route) list" where
  "router = map (Pair Open_Gate) public_routes @ map (Pair Teacher_Gate) protected_routes @
     map (Pair Admin_Gate) admin_routes @ map (Pair Ingest_Gate) ingest_routes"

section \<open>Matching a path\<close>

datatype pattern = Literal str | Named | Starred

definition pattern_segment :: "str \<Rightarrow> pattern" where
  "pattern_segment s =
     (if starts_with (lit ''{*'') s then Starred else if starts_with (lit ''{'') s then Named else Literal s)"

definition pattern_of :: "string \<Rightarrow> pattern list" where
  "pattern_of p = map pattern_segment (split_on ((=) c_slash) (lit p))"

fun match_path :: "pattern list \<Rightarrow> str list \<Rightarrow> str list option" where
  "match_path [] [] = Some []"
| "match_path (Literal l # ps) (s # ss) = (if s = l then match_path ps ss else None)"
| "match_path (Named # ps) (s # ss) = (if s = [] then None else map_option ((#) s) (match_path ps ss))"
| "match_path [Starred] (s # ss) =
     (let rest = join_with [c_slash] (s # ss) in if rest = [] then None else Some [rest])"
| "match_path _ _ = None"

definition path_segments :: "str \<Rightarrow> str list" where
  "path_segments path = split_on ((=) c_slash) path"

definition accepts :: "http_verb \<Rightarrow> http_verb \<Rightarrow> bool" where
  "accepts declared m \<longleftrightarrow> m = declared \<or> m = HEAD \<and> declared = GET"

section \<open>Answering a request\<close>

datatype credentials =
    Nobody
  | Teacher_Ctx auth_ctx
  | Super_Admin
  | Enrolled uuid "str option"

datatype routed =
    Preflight
  | No_Route
  | Wrong_Method
  | Refused_By_Gate api_error
  | To_Login
  | Handled handler "str list" credentials

definition pass_gate ::
    "int \<Rightarrow> identity \<Rightarrow> headers \<Rightarrow> str option \<Rightarrow> str \<Rightarrow> gate \<Rightarrow> server \<Rightarrow> (routed + credentials) \<times> server" where
  "pass_gate now idn h id_header path g sv =
     (case g of
        Open_Gate \<Rightarrow> (Inr Nobody, sv)
      | Teacher_Gate \<Rightarrow>
          (case teacher_ctx now h sv of
             (Some ctx, sv) \<Rightarrow> (Inr (Teacher_Ctx ctx), sv)
           | (None, sv) \<Rightarrow>
               (Inl (if starts_with (lit ''/api/'') path
                     then Refused_By_Gate (unauthorized (lit ''login required'')) else To_Login), sv))
      | Admin_Gate \<Rightarrow>
          (case require_super_admin h sv of
             Inr _ \<Rightarrow> (Inr Super_Admin, sv) | Inl e \<Rightarrow> (Inl (Refused_By_Gate e), sv))
      | Ingest_Gate \<Rightarrow>
          (case bind_result (require_ingest h sv) (\<lambda>c.
                  bind_result (verified_student idn id_header) (\<lambda>v. Inr (c, v))) of
             Inr (c, v) \<Rightarrow> (Inr (Enrolled c v), sv) | Inl e \<Rightarrow> (Inl (Refused_By_Gate e), sv)))"

text \<open>The permissive CORS layer answers every \<^verbatim>\<open>OPTIONS\<close> request itself; a path without a route and
  a verb the route does not name are answered before any gate.\<close>

definition route_request ::
    "int \<Rightarrow> identity \<Rightarrow> http_verb \<Rightarrow> str \<Rightarrow> headers \<Rightarrow> str option \<Rightarrow> server \<Rightarrow> routed \<times> server" where
  "route_request now idn m path h id_header sv =
     (if m = OPTIONS then (Preflight, sv)
      else case List.find (\<lambda>(g, p, hs). match_path (pattern_of p) (path_segments path) \<noteq> None) router of
        None \<Rightarrow> (No_Route, sv)
      | Some (g, p, hs) \<Rightarrow>
          (case List.find (\<lambda>(d, _). accepts d m) hs of
             None \<Rightarrow> (Wrong_Method, sv)
           | Some (_, hn) \<Rightarrow>
               (case pass_gate now idn h id_header path g sv of
                  (Inl r, sv) \<Rightarrow> (r, sv)
                | (Inr cred, sv) \<Rightarrow>
                    (Handled hn (the (match_path (pattern_of p) (path_segments path))) cred, sv))))"

section \<open>The embedded frontend\<close>

text \<open>The tree below \<^verbatim>\<open>static/\<close> when the server is built, and its files with their paths.\<close>

datatype 'b node = File_Node str 'b | Dir_Node str "'b node list"

fun collect :: "str list \<Rightarrow> 'b node \<Rightarrow> (str \<times> 'b) list" where
  "collect outer (File_Node n b) = [(join_with [c_slash] (outer @ [n]), b)]"
| "collect outer (Dir_Node n ns) = concat (map (collect (outer @ [n])) ns)"

definition embedded_assets :: "'b node list \<Rightarrow> (str \<times> 'b) list" where
  "embedded_assets tree = sort_key fst (concat (map (collect []) tree))"

definition asset :: "(str \<times> 'b) list \<Rightarrow> str \<Rightarrow> 'b option" where
  "asset embedded path = map_option snd (List.find (\<lambda>(p, _). p = path) embedded)"

definition content_type :: "str \<Rightarrow> str" where
  "content_type path =
     (let ext = last (split_on ((=) c_dot) path) in
      case List.find (\<lambda>(e, _). ext = lit e)
        [(''html'', ''text/html; charset=utf-8''), (''css'', ''text/css; charset=utf-8''),
         (''js'', ''application/javascript; charset=utf-8''), (''svg'', ''image/svg+xml''),
         (''json'', ''application/json; charset=utf-8''), (''png'', ''image/png''),
         (''ico'', ''image/x-icon''), (''woff2'', ''font/woff2'')] of
        Some (_, t) \<Rightarrow> lit t
      | None \<Rightarrow> lit ''application/octet-stream'')"

definition serve_asset :: "(str \<times> 'b) list \<Rightarrow> str \<Rightarrow> nat \<times> (str \<times> 'b) option" where
  "serve_asset embedded path =
     (case asset embedded path of
        Some b \<Rightarrow> (200, Some (content_type path, b)) | None \<Rightarrow> (404, None))"

text \<open>What a page or asset handler answers; \<open>decode\<close> is the percent-decoding of the captured
  path, which fails when it is not UTF-8.\<close>

definition serve_page :: "(str \<Rightarrow> str option) \<Rightarrow> (str \<times> 'b) list \<Rightarrow> handler \<Rightarrow> str list \<Rightarrow> (nat \<times> (str \<times> 'b) option) option" where
  "serve_page decode embedded hn caps =
     (let starred = (\<lambda>folder. case Option.bind (case caps of [c] \<Rightarrow> Some c | _ \<Rightarrow> None) decode of
            Some path \<Rightarrow> serve_asset embedded (lit folder @ path) | None \<Rightarrow> (400, None)) in
      case hn of
        index \<Rightarrow> Some (serve_asset embedded (lit ''index.html''))
      | analytics_page \<Rightarrow> Some (serve_asset embedded (lit ''analytics.html''))
      | recap_page \<Rightarrow> Some (serve_asset embedded (lit ''recap.html''))
      | transcripts_page \<Rightarrow> Some (serve_asset embedded (lit ''transcripts.html''))
      | tokens_css \<Rightarrow> Some (serve_asset embedded (lit ''tokens.css''))
      | login_page \<Rightarrow> Some (serve_asset embedded (lit ''login.html''))
      | vendor \<Rightarrow> Some (starred ''vendor/'')
      | brand_asset \<Rightarrow> Some (starred ''assets/'')
      | _ \<Rightarrow> None)"


section \<open>No two routes share a path\<close>

fun split_chars :: "char \<Rightarrow> string \<Rightarrow> string list" where
  "split_chars c [] = [[]]"
| "split_chars c (d # s) =
     (if c = d then [] # split_chars c s
      else (case split_chars c s of [] \<Rightarrow> [[d]] | w # ws \<Rightarrow> (d # w) # ws))"

definition starred :: "string \<Rightarrow> bool" where "starred s \<longleftrightarrow> take 2 s = ''{*''"
definition braced :: "string \<Rightarrow> bool" where "braced s \<longleftrightarrow> take 1 s = ''{''"

text \<open>Whether two patterns could match the same path, by their text.\<close>

fun clash :: "string list \<Rightarrow> string list \<Rightarrow> bool" where
  "clash [] [] = True"
| "clash (a # as) (b # bs) =
     (if starred a \<or> starred b then True
      else if braced a \<or> braced b then clash as bs else a = b \<and> clash as bs)"
| "clash (a # as) [] = False"
| "clash [] (b # bs) = False"

fun apart :: "string list list \<Rightarrow> bool" where
  "apart [] = True"
| "apart (p # ps) \<longleftrightarrow> list_all (\<lambda>q. \<not> clash p q) ps \<and> apart ps"

lemma lit_split: "split_on ((=) (Cp (of_char c))) (lit s) = map lit (split_chars c s)"
  by (induction s) (auto simp: lit_def split: list.splits)

lemma lit_starts: "starts_with (lit p) (lit s) \<longleftrightarrow> take (length p) s = p"
proof -
  have "take (length (lit p)) (lit s) = lit (take (length p) s)"
    by (simp add: lit_def take_map)
  then show ?thesis by (simp add: starts_with_def strip_prefix_def)
qed

lemma pattern_of_text:
  "pattern_of p = map (\<lambda>s. if starred s then Starred else if braced s then Named else Literal (lit s))
     (split_chars (CHR ''/'') p)"
proof -
  have "c_slash = Cp (of_char (CHR ''/''))" by simp
  then have "pattern_of p = map pattern_segment (map lit (split_chars (CHR ''/'') p))"
    unfolding pattern_of_def by (simp only: lit_split)
  then show ?thesis
    by (simp add: pattern_segment_def lit_starts starred_def braced_def numeral_2_eq_2)
qed

lemma match_clash:
  fixes ps qs :: "string list"
  defines "pat \<equiv> map (\<lambda>s. if starred s then Starred else if braced s then Named else Literal (lit s))"
  assumes "match_path (pat ps) ss \<noteq> None" and "match_path (pat qs) ss \<noteq> None"
  shows "clash ps qs"
  using assms(2,3)
proof (induction ps qs arbitrary: ss rule: clash.induct)
  case (2 a as b bs)
  then show ?case
    by (cases ss) (auto simp: pat_def split: if_splits)
next
  case (3 a as)
  then show ?case by (cases ss) (simp_all add: pat_def split: if_splits)
next
  case (4 b bs)
  then show ?case by (cases ss) (simp_all add: pat_def split: if_splits)
qed simp

lemma routes_apart: "apart (map (\<lambda>(g, p, hs). split_chars (CHR ''/'') p) router)"
  by code_simp

lemma apart_unique:
  assumes "apart (map f xs)" "x \<in> set xs" "y \<in> set xs" "clash (f x) (f y)" "clash (f y) (f x)"
  shows "x = y"
  using assms by (induction xs) (auto simp: list_all_iff)

lemma route_unique:
  assumes "(g, p, hs) \<in> set router" "(g', p', hs') \<in> set router"
    and "match_path (pattern_of p) ss \<noteq> None" "match_path (pattern_of p') ss \<noteq> None"
  shows "(g', p', hs') = (g, p, hs)"
proof -
  have "clash (split_chars (CHR ''/'') p) (split_chars (CHR ''/'') p')"
    "clash (split_chars (CHR ''/'') p') (split_chars (CHR ''/'') p)"
    using assms(3,4) match_clash unfolding pattern_of_text by blast+
  with apart_unique [OF routes_apart assms(2,1)] show ?thesis by simp
qed


section \<open>Properties\<close>

definition public_handlers :: "handler list" where
  "public_handlers =
     [login_page, login, logout, healthz, auth_exchange, auth_device_start, auth_device_poll,
      ws_handler, tokens_css, brand_asset, vendor]"

lemma find_Some_in: "List.find P xs = Some x \<Longrightarrow> x \<in> set xs \<and> P x"
  by (auto simp: find_Some_iff)

lemma pass_gate_refuses: "pass_gate now idn h id_header path g sv \<noteq> (Inl (Handled hn caps cred), sv')"
  by (cases g) (auto simp: pass_gate_def split: option.splits sum.splits prod.splits)

lemma handled_cases:
  assumes "route_request now idn m path h id_header sv = (Handled hn caps cred, sv')"
  obtains g p hs d where "(g, p, hs) \<in> set router" "(d, hn) \<in> set hs" "accepts d m" "m \<noteq> OPTIONS"
    "match_path (pattern_of p) (path_segments path) = Some caps"
    "pass_gate now idn h id_header path g sv = (Inr cred, sv')"
  using assms
  by (auto simp: route_request_def split: if_splits option.splits prod.splits sum.splits
      dest!: find_Some_in simp: pass_gate_refuses)

text \<open>What a gate has seen when it lets a request through.\<close>

fun admitted :: "gate \<Rightarrow> int \<Rightarrow> identity \<Rightarrow> headers \<Rightarrow> str option \<Rightarrow> server \<Rightarrow> credentials \<Rightarrow> bool" where
  "admitted Open_Gate now idn h id_header sv cred \<longleftrightarrow> cred = Nobody"
| "admitted Teacher_Gate now idn h id_header sv cred \<longleftrightarrow>
     (case fst (admin_for now (session_cookie h) (sv_sessions sv)) of
        Some a \<Rightarrow> cred = Teacher_Ctx (Admin a)
      | None \<Rightarrow> sv_open sv \<and> cred = Teacher_Ctx OpenDev)"
| "admitted Admin_Gate now idn h id_header sv cred \<longleftrightarrow>
     cred = Super_Admin \<and> require_super_admin h sv = Inr ()"
| "admitted Ingest_Gate now idn h id_header sv cred \<longleftrightarrow>
     (\<exists>c v. cred = Enrolled c v \<and> verified_student idn id_header = Inr v \<and>
        (case bearer_token h of
           Some t \<Rightarrow> (\<exists>co. course_by_token t (sv_db sv) = Some co \<and> co_id co = c)
         | None \<Rightarrow> sv_open sv \<and> c = DEFAULT_COURSE_ID))"

lemma pass_gate_admitted:
  assumes "pass_gate now idn h id_header path g sv = (Inr cred, sv')"
  shows "admitted g now idn h id_header sv cred"
  using assms
  by (cases g)
    (auto simp: pass_gate_def teacher_ctx_def require_ingest_def Let_def
      split: option.splits sum.splits prod.splits if_splits)

lemma open_routes:
  "list_all (\<lambda>(g, p, hs). g = Open_Gate \<longrightarrow> list_all (\<lambda>(d, hn). hn \<in> set public_handlers) hs) router"
  by code_simp

text \<open>C4: a handler is only reached over the one route whose pattern matches the path, whatever the
  order the groups are merged in, with a verb that route names, and once its group's gate has let the
  request through: without anything only the eleven public handlers, a teacher's with a live session
  or in open mode, the provisioning API with its secret, and the ingest API with the enrollment token
  of the course it writes to, or in open mode, and a verified student where identity is enforced.\<close>

theorem every_handler_is_behind_its_gate:
  assumes "route_request now idn m path h id_header sv = (Handled hn caps cred, sv')"
  shows "\<exists>g p hs d. (g, p, hs) \<in> set router \<and> (d, hn) \<in> set hs \<and> accepts d m \<and>
    match_path (pattern_of p) (path_segments path) = Some caps \<and>
    (\<forall>r \<in> set router. match_path (pattern_of (fst (snd r))) (path_segments path) \<noteq> None \<longrightarrow> r = (g, p, hs)) \<and>
    admitted g now idn h id_header sv cred \<and> (g = Open_Gate \<longrightarrow> hn \<in> set public_handlers)"
proof -
  obtain g p hs d where r: "(g, p, hs) \<in> set router" "(d, hn) \<in> set hs" "accepts d m"
    "match_path (pattern_of p) (path_segments path) = Some caps"
    "pass_gate now idn h id_header path g sv = (Inr cred, sv')"
    using handled_cases [OF assms] by metis
  have "g = Open_Gate \<longrightarrow> hn \<in> set public_handlers"
    using open_routes r(1,2) by (auto simp: list_all_iff)
  moreover have "\<forall>r \<in> set router. match_path (pattern_of (fst (snd r))) (path_segments path) \<noteq> None \<longrightarrow>
      r = (g, p, hs)"
    using route_unique [OF r(1)] r(4) by (metis option.distinct(1) prod.collapse)
  ultimately show ?thesis using r pass_gate_admitted [OF r(5)] by blast
qed

lemma asset_found: "asset (embedded_assets tree) path = Some b \<Longrightarrow>
    (path, b) \<in> set (concat (map (collect []) tree))"
  by (auto simp: asset_def embedded_assets_def dest!: find_Some_in)

lemma open_pages:
  "list_all (\<lambda>(g, p, hs). g = Open_Gate \<longrightarrow> list_all (\<lambda>(d, hn).
     hn \<notin> {index, analytics_page, recap_page, transcripts_page}) hs) router"
  by code_simp

text \<open>The frontend a request gets is a whole file of the tree the server was built with, under
  its own path; and one that no gate has vouched for only gets the login page, the style sheet or a
  file below the two asset folders, whatever its path decodes to.\<close>

theorem frontend_is_served_as_built:
  assumes "route_request now idn m path h id_header sv = (Handled hn caps cred, sv')"
    and "serve_page decode (embedded_assets tree) hn caps = Some (st, Some (ty, b))"
  shows "\<exists>file. (file, b) \<in> set (concat (map (collect []) tree)) \<and> ty = content_type file \<and> st = 200 \<and>
    (cred = Nobody \<longrightarrow> file \<in> {lit ''login.html'', lit ''tokens.css''} \<or>
       (\<exists>rest. file = lit ''assets/'' @ rest \<or> file = lit ''vendor/'' @ rest))"
proof -
  obtain g p hs d where r: "(g, p, hs) \<in> set router" "(d, hn) \<in> set hs"
    "pass_gate now idn h id_header path g sv = (Inr cred, sv')"
    using handled_cases [OF assms(1)] by metis
  have "cred = Nobody \<Longrightarrow> g = Open_Gate"
    using pass_gate_admitted [OF r(3)] by (cases g) (auto split: option.splits)
  then have "cred = Nobody \<Longrightarrow> hn \<notin> {index, analytics_page, recap_page, transcripts_page}"
    using open_pages r(1,2) by (auto simp: list_all_iff)
  with assms(2) show ?thesis
    by (auto simp: serve_page_def serve_asset_def Let_def split: handler.splits option.splits
        dest!: asset_found)
qed


text \<open>A server without admins, and one with an admin, a session of hers and a course.\<close>

definition open_server :: server where
  "open_server =
     \<lparr>sv_db = \<lparr>admins = [], courses = [], members = [], exercises = []\<rparr>, sv_sessions = [],
      sv_open = True, sv_admin_token = None, sv_tokens = []\<rparr>"

definition no_headers :: headers where
  "no_headers = \<lparr>hd_cookie = None, hd_authorization = None\<rparr>"

definition no_identity :: identity where
  "no_identity = \<lparr>id_verify = (\<lambda>_. None), id_enforced = False\<rparr>"

lemma stylesheet_handled:
  "route_request 0 no_identity HEAD (lit ''/tokens.css'') no_headers None open_server =
     (Handled tokens_css [] Nobody, open_server)"
  by code_simp

theorem every_handler_is_behind_its_gate_witness:
  "\<exists>p hs d. (Open_Gate, p, hs) \<in> set router \<and> (d, tokens_css) \<in> set hs \<and> accepts d HEAD"
proof -
  obtain g p hs d where r: "(g, p, hs) \<in> set router" "(d, tokens_css) \<in> set hs" "accepts d HEAD"
    "admitted g 0 no_identity no_headers None open_server Nobody"
    using every_handler_is_behind_its_gate [OF stylesheet_handled] by blast
  then have "g = Open_Gate"
    by (cases g) (auto split: option.splits)
  with r show ?thesis by blast
qed

theorem frontend_is_served_as_built_witness:
  "\<exists>file. (file, True) \<in> set (concat (map (collect []) [File_Node (lit ''tokens.css'') True])) \<and>
     lit ''text/css; charset=utf-8'' = content_type file"
proof -
  have "serve_page Some (embedded_assets [File_Node (lit ''tokens.css'') True]) tokens_css [] =
      Some (200, Some (content_type (lit ''tokens.css''), True))"
    by (simp add: serve_page_def serve_asset_def asset_def embedded_assets_def)
  moreover have "content_type (lit ''tokens.css'') = lit ''text/css; charset=utf-8''"
    by code_simp
  ultimately show ?thesis
    using frontend_is_served_as_built [OF stylesheet_handled, of Some "[File_Node (lit ''tokens.css'') True]"]
    by metis
qed

end
