(* ===== verification/Spec2Isabelle.thy ===== *)
theory Spec2Isabelle
  imports Text_Rules Sources Highlight Intraline Diffs Snapshots Snapshot_Store GitHub Fetch Solution_Slots
    Recap_Totals Ingest Course_Rules Message_Delivery Identity Assistant_History Recorder_Transcript Recorder_Trust Course_Command
    Migration_Rules GitHub_Reads Live_View Router
begin

text \<open>
  A verification library of Hermione, a classroom server in Rust with which teachers watch students
  work: the server (\<^verbatim>\<open>src/crates/server\<close>), the terminal recorder (\<^verbatim>\<open>src/crates/recorder\<close>) and the
  database schema (\<^verbatim>\<open>src/crates/entity\<close>, \<^verbatim>\<open>src/crates/migration\<close>).

  \<^bold>\<open>The program.\<close> A student's shell runs inside the recorder, which tees its output to the server's
  gRPC service; the editor extension posts file events and, when asked over its message socket, a
  snapshot of the buffer on screen. The server stores sessions, terminal events and file events per
  course, fans live data out over in-memory hubs, and answers teachers over HTTP: the live board, the
  recap of a lesson, a student's time report, recordings, the live view of a buffer with its diff and
  its comparison with a reference solution from GitHub. Teachers log in and own courses; editors
  present a course's enrollment token and, where it is configured, an identity token that a provider
  stands behind. A course may have a chat assistant.

  \<^bold>\<open>How the code is modelled.\<close> Structs are records, enums datatypes, maps association lists with distinct
  keys (\<open>Expiring.wf_map\<close>) or partial functions, tables lists of rows with the keys of the migrations.
  An operation takes the state it may change and returns it; what may fail is a sum whose left side is
  the error, \<open>None\<close> is a panic where the code can panic, and every early return is a branch. The clock,
  fresh ids, random tokens and the outcomes of writes are arguments. What the code awaits between
  reading and writing is several steps, and the lemmas are about every order of them. A \<^verbatim>\<open>char\<close> is
  \<open>rchar\<close>, a string a list of them, whose byte offsets are those of its UTF-8 (\<open>blen\<close>, \<open>slice\<close>). A
  narrow integer that can wrap says so (\<open>add_i32\<close>, \<open>to_u32\<close>, words for terminal sizes).

  \<^bold>\<open>Foundations.\<close>
  \<^item> \<open>Prelude\<close>: Rust's characters and strings with the methods the code calls. \<open>Errors\<close>: \<^verbatim>\<open>error.rs\<close>, and
    the combinators of \<^verbatim>\<open>Result\<close> and \<^verbatim>\<open>Option\<close>. \<open>Utf8\<close>: \<^verbatim>\<open>from_utf8\<close> and \<^verbatim>\<open>from_utf8_lossy\<close>, with their
    round trip. \<open>Text_Rules\<close>: \<^verbatim>\<open>text.rs\<close> and the slugs of \<^verbatim>\<open>http/courses.rs\<close>. \<open>Students\<close>: \<^verbatim>\<open>student.rs\<close>.
  \<^item> \<open>Expiring\<close>: the locales \<open>expiring_map\<close> and \<open>swept_map\<close>, the contract of every in-memory map whose
    entries expire: what a write or a sweep drops was not fresh, so reads agree with a map that forgets
    nothing. Interpreted for teacher sessions (\<open>Courses\<close>), minted tokens (\<open>GitHub\<close>), provider metadata
    (\<open>Identity\<close>), snapshots and asks (\<open>Snapshot_Store\<close>) and reference solutions (\<open>Solutions\<close>).
  \<^item> \<open>Hub\<close>: \<^verbatim>\<open>state.rs\<close>, tokio's broadcast channel written out, and the locale \<open>fan_out\<close>: a send reaches
    exactly the listeners of its key, in order, the oldest lost beyond the capacity.

  \<^bold>\<open>Courses and access.\<close>
  \<^item> \<open>Exercises\<close>, \<open>Tenancy\<close>: \<^verbatim>\<open>exercises.rs\<close> and \<^verbatim>\<open>tenancy.rs\<close> over their tables. \<open>Courses\<close>: \<^verbatim>\<open>auth.rs\<close>,
    \<^verbatim>\<open>http/auth.rs\<close>, \<^verbatim>\<open>http/scope.rs\<close>: sessions, cookies, tokens, the three gates and the access checks.
    \<open>Course_Api\<close>: every handler of \<^verbatim>\<open>http/courses.rs\<close> and \<^verbatim>\<open>http/admin.rs\<close> behind its gate (\<open>serve\<close>), the
    bootstrap of \<^verbatim>\<open>main.rs\<close> and the guard of the gRPC viewer.
  \<^item> \<open>Course_Access\<close>: the invariant of every run of requests (the tables stay consistent, no course loses
    its last teacher), who can change a course, who is told its token. \<open>Course_Rules\<close>: what a patch sets,
    that a rotated token admits nobody, that a session lives as long as its cookie.
  \<^item> \<open>Router\<close>: the route table of \<^verbatim>\<open>http/mod.rs\<close> with its gates, and the embedded frontend
    (\<^verbatim>\<open>http/assets.rs\<close>, \<^verbatim>\<open>build.rs\<close>). The patterns are proved pairwise apart, so a handler is behind
    exactly the gate of its group.
  \<^item> \<open>Identity\<close>: \<^verbatim>\<open>identity.rs\<close> and its routes; a run of calls, and why an accepted token has a provider's
    word behind it. \<open>Messages\<close>, \<open>Message_Delivery\<close>: \<^verbatim>\<open>messages.rs\<close> and \<^verbatim>\<open>http/ws.rs\<close>; a broadcast reaches
    exactly its audience, from the table and from the channel alike, and polling misses nothing.

  \<^bold>\<open>Recording a terminal.\<close>
  \<^item> \<open>Recorder\<close>: \<^verbatim>\<open>recorder/src/main.rs\<close>, its threads as interleaved steps (\<open>act\<close>) over the channel.
    \<open>Ingest\<close>: \<^verbatim>\<open>grpc.rs\<close> and \<^verbatim>\<open>http/sessions.rs\<close>; one call is a run of the relation \<open>ingest\<close>, simulated by
    the \<open>tape\<close> of what it should record (\<open>follows\<close>). \<open>Recorder_Transcript\<close> composes the two.
  \<^item> \<open>Recorder_Sign_In\<close>: \<^verbatim>\<open>recorder/src/auth.rs\<close>. \<open>Json_Text\<close>: what it relies on of JSON, with one library
    that has it. \<open>Recorder_Trust\<close> composes it with \<open>Identity\<close>.
  \<^item> \<open>Recorder_Course\<close>: \<^verbatim>\<open>recorder/src/course.rs\<close>. \<open>Course_Command\<close> composes it with \<open>Course_Api\<close>.

  \<^bold>\<open>What a teacher sees.\<close>
  \<^item> \<open>Activity\<close>, \<open>Fences\<close>, \<open>Board\<close>: \<^verbatim>\<open>files.rs\<close>: file events and the time report, the struggle thresholds, the
    live board. \<open>Recap\<close>, \<open>Recap_Totals\<close>: \<^verbatim>\<open>recap.rs\<close>. The references are sums over the events (\<open>credits\<close>,
    \<open>worked\<close>), to which the loops are proved equal whatever the order of the hash maps.
  \<^item> \<open>Highlight\<close>: \<^verbatim>\<open>highlight.rs\<close>. \<open>Intraline\<close>, \<open>Diffs\<close>: \<^verbatim>\<open>snapshots/intraline.rs\<close>, \<^verbatim>\<open>report.rs\<close>, \<^verbatim>\<open>diff.rs\<close>.
    \<open>Snapshots\<close>: \<^verbatim>\<open>model.rs\<close>, \<^verbatim>\<open>compare.rs\<close>. No slice panics, and what is drawn is the text.
  \<^item> \<open>Snapshot_Store\<close>: \<^verbatim>\<open>snapshots/store.rs\<close> and the handler that fills it, refined by a store that never
    forgets (\<open>simulates\<close>). \<open>Live_View\<close>: the handler that polls it and asks the editor.

  \<^bold>\<open>GitHub and the assistant.\<close>
  \<^item> \<open>Sources\<close>: \<^verbatim>\<open>solutions/source.rs\<close>. \<open>GitHub\<close>: \<^verbatim>\<open>repo.rs\<close> on what it reads, and which credential may be
    sent (\<^verbatim>\<open>github_access.rs\<close>, the cache of \<^verbatim>\<open>github_app.rs\<close>). \<open>GitHub_Reads\<close>: the requests themselves, minting
    included. \<open>Fetch\<close>: \<^verbatim>\<open>solutions/fetch.rs\<close>. \<open>Solutions\<close>: \<^verbatim>\<open>solutions/cache.rs\<close>, a read as one step, and the
    comparison; \<open>Solution_Slots\<close>: the same reads as steps that interleave.
  \<^item> \<open>Assistant_Turn\<close>, \<open>Assistant_Api\<close>, \<open>Assistant\<close>, \<open>Assistant_Chat\<close>: \<^verbatim>\<open>assistant.rs\<close>, from one event stream to
    the endpoints. \<open>Assistant_Rules\<close>, \<open>Assistant_History\<close>: how every turn ends, and what runs of requests
    keep.

  \<^bold>\<open>The schema.\<close> \<open>Sql\<close>: the statements the migrations use, on a schema and its rows; a statement that
  changes anything changes one table (\<open>table_effect\<close>). \<open>Migrations\<close>: all seventeen, up and down, and the
  entities. \<open>Migration_Rules\<close>: a start migrates any older database, loses no row and ends with a schema
  that serves every entity; each migration can be undone.

  \<^bold>\<open>Bounds.\<close> The constants are the code's, under their names: batches of 128 events and pages of 500 for
  recordings, a recorder channel of 2048, hubs of 4096 (terminals), 256 (messages) and 16 (control), 50
  messages a poll, 500 recipients, 256 KiB of a buffer or a fetched file, 2000 rows of a diff, 4000
  highlighted lines, 400 bytes of a compared line, 100 messages of a history; a snapshot lives 180 s and an
  editor is asked every 750 ms, a solution 300, 60 or 20 s by kind with a sweep at 512 slots, a session 12
  hours, an identity token 8, provider metadata 1. Theorems that need room say so as a hypothesis.

  \<^bold>\<open>Termination.\<close> Loops are structural recursion, except: \<open>Assistant_Turn.lines_loop\<close> and
  \<open>Diffs.mark_words_loop\<close> (the text or rows left shrink), \<open>Ingest.pages\<close> (a page takes a row at least) and
  the polling of the sign-in, a partial function, for which \<open>sign_in_ends\<close> says when it ends. Fuel is used
  in \<open>Utf8\<close> alone: a decoded character takes a byte or more, so one more than the length is enough, and
  \<open>from_utf8_encode\<close> is proved with it.

  \<^bold>\<open>What is a parameter.\<close> The crates \<^verbatim>\<open>syntect\<close> and \<^verbatim>\<open>similar\<close>, JWT and RSA, Argon2, base64, ANSI stripping, the
  JSON parser, GitHub, the identity providers, the assistant's service, the HTTP client, git, the file
  system, the keyboard and the clock. What is relied on of them is a named predicate (\<open>diff_law\<close>,
  \<open>line_diff_law\<close>, \<open>regions_law\<close>, \<open>order_law\<close>, \<open>lawful_json\<close>, \<open>honest_tokens\<close>), and a witness instantiates
  it. Standard library types and the router's matching are written out as documented.

  \<^bold>\<open>What is not modelled.\<close> Serialization of answers (a record stands for its JSON), logging, parsing of
  command lines, raw terminal mode and the pseudo-terminal, binding of ports, the generated protocol
  code and the tests. Quantiles of times are rationals where the code uses doubles, exact at the sizes of
  a class. A transaction is one step: what concurrent transactions see of each other is out of the model.
  The editor extension and the pages of the dashboard are not Rust and are clients of what is modelled.

  \<^bold>\<open>Reading the properties.\<close> A numbered property stands after a text that says what it claims; one with
  a hypothesis is followed by a witness that uses it on concrete data. Properties that span components
  stand in the theory that composes them: \<open>Recorder_Transcript\<close>, \<open>Recorder_Trust\<close>, \<open>Course_Command\<close>,
  \<open>Message_Delivery\<close>, \<open>Live_View\<close>, \<open>Router\<close>.
\<close>

end
